(* ===== verification/Pool_Prelude.thy ===== *)
theory Pool_Prelude
  imports Complex_Main "HOL-Library.Word"
begin

text \<open>
  What every component of the load balancer shares: the machine types of the C++ sources, the
  two exception types of \<^verbatim>\<open>src/src/core/errors.hpp\<close> as a sum type with its sequencing operator,
  the searching operations of \<^verbatim>\<open>std::string\<close> that the parsers call, and the string capacity rules
  of libstdc++ that the buffers rely on.
\<close>

named_theorems pool_defs \<open>definitions unfolded together in component proofs\<close>
named_theorems pool_inv \<open>preservation of component invariants\<close>

section \<open>Machine types\<close>

type_synonym byte = "8 word"
type_synonym u16 = "16 word"
type_synonym u64 = "64 word"

text \<open>
  A \<^verbatim>\<open>std::chrono::steady_clock::time_point\<close> is a signed count of nanoseconds since the clock's
  epoch; differences of time points are durations in the same unit.
\<close>

type_synonym time_point = int

definition ns_per_second :: int where
  "ns_per_second = 1000000000"

definition ns_per_millisecond :: int where
  "ns_per_millisecond = 1000000"

text \<open>Unsigned 64-bit arithmetic on naturals, with the wrap-around written out.\<close>

definition wrap64 :: "nat \<Rightarrow> nat" where
  "wrap64 n = n mod 2 ^ 64"

lemma wrap64_less [simp]: "wrap64 n < 18446744073709551616"
  by (simp add: wrap64_def)

lemma wrap64_id: "n < 2 ^ 64 \<Longrightarrow> wrap64 n = n"
  by (simp add: wrap64_def)

text \<open>C++ division of a signed value by a positive one truncates towards zero.\<close>

definition cxx_quot :: "int \<Rightarrow> int \<Rightarrow> int" where
  "cxx_quot t u = (if 0 \<le> t then t div u else - ((- t) div u))"

lemma cxx_quot_nonneg: "0 \<le> t \<Longrightarrow> cxx_quot t u = t div u"
  by (simp add: cxx_quot_def)

section \<open>Exceptions\<close>

text \<open>\<^verbatim>\<open>core::ConfigError\<close> and \<^verbatim>\<open>core::IoError\<close>, each with its message.\<close>

datatype error = ConfigError string | IoError string

type_synonym 'a result = "error + 'a"

text \<open>Run a step; on an exception the rest of the body is skipped.\<close>

definition and_then :: "'a result \<Rightarrow> ('a \<Rightarrow> 'b result) \<Rightarrow> 'b result" where
  "and_then r f = (case r of Inl e \<Rightarrow> Inl e | Inr x \<Rightarrow> f x)"

lemma and_then_simps [simp]:
  "and_then (Inl e) f = Inl e" "and_then (Inr x) f = f x"
  by (simp_all add: and_then_def)

lemma and_then_Inr_iff: "and_then r f = Inr y \<longleftrightarrow> (\<exists>x. r = Inr x \<and> f x = Inr y)"
  by (cases r) auto

lemma and_then_Inl_iff: "and_then r f = Inl e \<longleftrightarrow> r = Inl e \<or> (\<exists>x. r = Inr x \<and> f x = Inl e)"
  by (cases r) auto

text \<open>A guard that throws when its condition holds.\<close>

definition throw_if :: "bool \<Rightarrow> error \<Rightarrow> unit result" where
  "throw_if b e = (if b then Inl e else Inr ())"

lemma throw_if_Inr [simp]: "throw_if b e = Inr u \<longleftrightarrow> \<not> b"
  by (simp add: throw_if_def)

lemma throw_if_Inl [simp]: "throw_if b e = Inl e' \<longleftrightarrow> b \<and> e' = e"
  by (auto simp: throw_if_def)

text \<open>The loop that runs a checking step on each element, stopping at the first exception.\<close>

fun each :: "('a \<Rightarrow> unit result) \<Rightarrow> 'a list \<Rightarrow> unit result" where
  "each f [] = Inr ()"
| "each f (x # xs) = and_then (f x) (\<lambda>_. each f xs)"

lemma each_Inr_iff: "each f xs = Inr u \<longleftrightarrow> (\<forall>x\<in>set xs. f x = Inr ())"
  by (induction xs) (auto simp: and_then_Inr_iff)

lemma each_Inl: "each f xs = Inl e \<Longrightarrow> \<exists>x\<in>set xs. f x = Inl e"
  by (induction xs) (auto simp: and_then_Inl_iff)

text \<open>A body that is a sequence of checks: the first exception ends it.\<close>

definition in_order :: "unit result list \<Rightarrow> unit result" where
  "in_order checks = each (\<lambda>c. c) checks"

lemma in_order_Inr [simp]: "in_order checks = Inr u \<longleftrightarrow> (\<forall>c\<in>set checks. c = Inr ())"
  by (simp add: in_order_def each_Inr_iff)

lemma option_eqI: "(\<And>x. a = Some x \<longleftrightarrow> b = Some x) \<Longrightarrow> a = b"
  by (cases a; cases b) auto

section \<open>Searching in strings\<close>

text \<open>
  \<^verbatim>\<open>find(c)\<close> and \<^verbatim>\<open>rfind(c)\<close> of \<^verbatim>\<open>std::string\<close>: the first and the last position of a character,
  \<^term>\<open>None\<close> for \<^verbatim>\<open>npos\<close>.
\<close>

fun str_find :: "'a \<Rightarrow> 'a list \<Rightarrow> nat option" where
  "str_find c [] = None"
| "str_find c (x # xs) = (if x = c then Some 0 else map_option Suc (str_find c xs))"

definition str_rfind :: "'a \<Rightarrow> 'a list \<Rightarrow> nat option" where
  "str_rfind c xs = map_option (\<lambda>i. length xs - 1 - i) (str_find c (rev xs))"

lemma str_find_None [simp]: "str_find c xs = None \<longleftrightarrow> c \<notin> set xs"
  by (induction xs) auto

lemma str_find_Some:
  "str_find c xs = Some i \<longleftrightarrow> i < length xs \<and> xs ! i = c \<and> c \<notin> set (take i xs)"
proof (induction xs arbitrary: i)
  case Nil
  then show ?case by simp
next
  case (Cons x xs)
  then show ?case by (cases i) auto
qed

lemma str_find_append:
  "c \<notin> set xs \<Longrightarrow> str_find c (xs @ ys) = map_option (\<lambda>i. length xs + i) (str_find c ys)"
proof (induction xs)
  case Nil
  show ?case by (cases "str_find c ys") (simp_all del: str_find_None)
next
  case (Cons x xs)
  then show ?case by (cases "str_find c ys") (auto simp del: str_find_None)
qed

lemma str_find_prefix: "c \<in> set xs \<Longrightarrow> str_find c (xs @ ys) = str_find c xs"
  by (induction xs) auto

lemma str_rfind_None [simp]: "str_rfind c xs = None \<longleftrightarrow> c \<notin> set xs"
  by (simp add: str_rfind_def)

lemma str_rfind_split:
  "c \<notin> set ys \<Longrightarrow> str_rfind c (xs @ c # ys) = Some (length xs)"
  by (simp add: str_rfind_def str_find_append)

text \<open>\<^verbatim>\<open>starts_with\<close>.\<close>

fun starts_with :: "'a list \<Rightarrow> 'a list \<Rightarrow> bool" where
  "starts_with s [] = True"
| "starts_with [] (p # ps) = False"
| "starts_with (x # xs) (p # ps) = (x = p \<and> starts_with xs ps)"

lemma starts_with_iff: "starts_with s p \<longleftrightarrow> (\<exists>r. s = p @ r)"
  by (induction s p rule: starts_with.induct) auto

text \<open>What a C function sees of a string passed as \<^verbatim>\<open>c_str()\<close>: everything before the first null character.\<close>

definition c_str :: "string \<Rightarrow> string" where
  "c_str s = takeWhile (\<lambda>c. c \<noteq> CHR 0x00) s"

section \<open>String capacity\<close>

text \<open>
  A \<^verbatim>\<open>std::string\<close> with the allocation rules of libstdc++: a string never shrinks on its own, a
  growing one takes at least twice its old capacity, and a fresh copy takes what it needs but
  never less than the 15 bytes of the in-object buffer.
\<close>

record cxx_string =
  chars :: string
  str_capacity :: nat

definition sso_capacity :: nat where
  "sso_capacity = 15"

definition empty_string :: cxx_string where
  "empty_string = \<lparr>chars = [], str_capacity = sso_capacity\<rparr>"

definition grown_capacity :: "nat \<Rightarrow> nat \<Rightarrow> nat" where
  "grown_capacity old needed = (if needed \<le> old then old else max needed (2 * old))"

definition str_append :: "cxx_string \<Rightarrow> string \<Rightarrow> cxx_string" where
  "str_append s bs =
     \<lparr>chars = chars s @ bs,
      str_capacity = grown_capacity (str_capacity s) (length (chars s) + length bs)\<rparr>"

definition str_reserve :: "cxx_string \<Rightarrow> nat \<Rightarrow> cxx_string" where
  "str_reserve s n = s\<lparr>str_capacity := grown_capacity (str_capacity s) n\<rparr>"

definition str_erase_front :: "cxx_string \<Rightarrow> nat \<Rightarrow> cxx_string" where
  "str_erase_front s n = s\<lparr>chars := drop n (chars s)\<rparr>"

definition str_clear :: "cxx_string \<Rightarrow> cxx_string" where
  "str_clear s = s\<lparr>chars := []\<rparr>"

definition str_copy :: "cxx_string \<Rightarrow> cxx_string" where
  "str_copy s = \<lparr>chars = chars s, str_capacity = max sso_capacity (length (chars s))\<rparr>"

text \<open>
  Move assignment steals the source's allocation, unless the source still lives in its own
  in-object buffer, when its characters are copied into the target's allocation.
\<close>

definition str_move_assign :: "cxx_string \<Rightarrow> cxx_string \<Rightarrow> cxx_string" where
  "str_move_assign target source =
     (if str_capacity source \<le> sso_capacity then target\<lparr>chars := chars source\<rparr> else source)"

definition str_ok :: "cxx_string \<Rightarrow> bool" where
  "str_ok s \<longleftrightarrow> length (chars s) \<le> str_capacity s \<and> sso_capacity \<le> str_capacity s"

lemmas cxx_string_defs =
  empty_string_def grown_capacity_def str_append_def str_reserve_def str_erase_front_def
  str_clear_def str_copy_def str_move_assign_def sso_capacity_def

lemma str_chars_simps [simp]:
  "chars empty_string = []"
  "chars (str_append s bs) = chars s @ bs"
  "chars (str_reserve s n) = chars s"
  "chars (str_erase_front s n) = drop n (chars s)"
  "chars (str_clear s) = []"
  "chars (str_copy s) = chars s"
  "chars (str_move_assign t s) = chars s"
  by (simp_all add: cxx_string_defs)

lemma str_ok_ops [simp, pool_inv]:
  "str_ok empty_string"
  "str_ok s \<Longrightarrow> str_ok (str_append s bs)"
  "str_ok s \<Longrightarrow> str_ok (str_reserve s n)"
  "str_ok s \<Longrightarrow> str_ok (str_erase_front s n)"
  "str_ok s \<Longrightarrow> str_ok (str_clear s)"
  "str_ok (str_copy s)"
  "str_ok t \<Longrightarrow> str_ok s \<Longrightarrow> str_ok (str_move_assign t s)"
  by (auto simp: str_ok_def cxx_string_defs)

end
