(* ===== verification/Calendar.thy ===== *)
theory Calendar
  imports Pool_Prelude
begin

text \<open>
  The civil calendar of \<^verbatim>\<open>std::chrono\<close>, as \<^verbatim>\<open>src/src/net/tls.cpp\<close> uses it to turn the expiration date of a
  certificate into a time stamp, and as \<^verbatim>\<open>src/src/api/http_server.cpp\<close> uses it to print that time stamp. The
  lemmas show that the two directions are inverse.
\<close>

section \<open>The calendar\<close>

definition is_leap :: "int \<Rightarrow> bool" where
  "is_leap y \<longleftrightarrow> y mod 4 = 0 \<and> (y mod 100 \<noteq> 0 \<or> y mod 400 = 0)"

definition month_days :: "int \<Rightarrow> int \<Rightarrow> int" where
  "month_days y m = (if m = 2 then (if is_leap y then 29 else 28) else if m \<in> {4, 6, 9, 11} then 30 else 31)"

text \<open>\<^verbatim>\<open>year_month_day::ok\<close>.\<close>

definition date_ok :: "int \<Rightarrow> int \<Rightarrow> int \<Rightarrow> bool" where
  "date_ok y m d \<longleftrightarrow> - 32767 \<le> y \<and> y \<le> 32767 \<and> 1 \<le> m \<and> m \<le> 12 \<and> 1 \<le> d \<and> d \<le> month_days y m"

definition leap_years :: "int \<Rightarrow> int" where
  "leap_years y = y div 4 - y div 100 + y div 400"

definition days_before_year :: "int \<Rightarrow> int" where
  "days_before_year y = 365 * (y - 1970) + leap_years (y - 1) - leap_years 1969"

definition days_before_month :: "int \<Rightarrow> int \<Rightarrow> int" where
  "days_before_month y m = sum_list (map (\<lambda>i. month_days y (int i)) [1..<nat m])"

text \<open>\<^verbatim>\<open>sys_days\<close> of a date: the days since 1970-01-01.\<close>

definition sys_days :: "int \<Rightarrow> int \<Rightarrow> int \<Rightarrow> int" where
  "sys_days y m d = days_before_year y + days_before_month y m + d - 1"

section \<open>From days to dates\<close>

text \<open>
  \<^verbatim>\<open>year_month_day\<close> of a number of days: 400 years have 146097 days, which gives the year up to one; the
  month is the number of months that have begun.
\<close>

definition civil_year :: "int \<Rightarrow> int" where
  "civil_year z =
     (let y = 1970 + z * 400 div 146097
      in if z < days_before_year y then y - 1 else if days_before_year (y + 1) \<le> z then y + 1 else y)"

definition civil_month :: "int \<Rightarrow> int \<Rightarrow> int" where
  "civil_month y day_of_year = int (length (filter (\<lambda>m. days_before_month y (int m) \<le> day_of_year) [1..<13]))"

definition civil_of_days :: "int \<Rightarrow> int \<times> int \<times> int" where
  "civil_of_days z =
     (let y = civil_year z; day_of_year = z - days_before_year y; m = civil_month y day_of_year
      in (y, m, day_of_year - days_before_month y m + 1))"

definition year_days :: "int \<Rightarrow> int" where
  "year_days y = (if is_leap y then 366 else 365)"

lemma div_step:
  fixes y k :: int
  assumes "0 < k"
  shows "y div k = (y - 1) div k + (if y mod k = 0 then 1 else 0)"
proof (cases "y mod k = 0")
  case True
  then have "y - 1 = (k - 1) + (y div k - 1) * k" using div_mult_mod_eq [of y k] by (simp add: algebra_simps)
  then have "(y - 1) div k = (k - 1) div k + (y div k - 1)"
    using assms by (metis div_mult_self1 add.commute less_irrefl)
  with True assms show ?thesis by (simp add: div_pos_pos_trivial)
next
  case False
  then have "y - 1 = (y mod k - 1) + y div k * k" using div_mult_mod_eq [of y k] by linarith
  then have "(y - 1) div k = (y mod k - 1) div k + y div k"
    using assms by (metis div_mult_self1 add.commute less_irrefl)
  moreover have "0 < y mod k" "y mod k < k" using assms False by (simp_all add: le_neq_trans)
  ultimately show ?thesis using False by (simp add: div_pos_pos_trivial)
qed

lemma div_near:
  fixes x m k :: int
  assumes "m * (k - 1) \<le> x" and "x < m * (k + 2)" and "0 < m"
  shows "x div m \<in> {k - 1, k, k + 1}"
proof -
  have "k - 1 \<le> x div m" using zdiv_mono1 [OF assms(1,3)] assms(3) by simp
  moreover have "x div m < k + 2"
  proof (rule ccontr)
    assume "\<not> x div m < k + 2"
    then have "m * (k + 2) \<le> m * (x div m)" using assms(3) by simp
    also have "... \<le> x" using mult_div_mod_eq [of m x] pos_mod_sign [OF assms(3), of x] by linarith
    finally show False using assms(2) by simp
  qed
  ultimately show ?thesis by auto
qed

lemma leap_rule:
  fixes a b c :: int
  assumes "a = a' + (if p then 1 else 0)" and "b = b' + (if q then 1 else 0)" and "c = c' + (if r then 1 else 0)"
    and "r \<Longrightarrow> q" and "q \<Longrightarrow> p"
  shows "a - b + c = a' - b' + c' + (if p \<and> (\<not> q \<or> r) then 1 else 0)"
  using assms(4,5) unfolding assms(1-3) by (cases p; cases q; cases r) simp_all

lemma mod_zero_factor: "a dvd b \<Longrightarrow> y mod b = 0 \<Longrightarrow> y mod a = 0" for a b y :: int
  by (metis dvd_trans mod_0_imp_dvd dvd_imp_mod_0)

lemma leap_years_step: "leap_years y = leap_years (y - 1) + (if is_leap y then 1 else 0)"
  unfolding leap_years_def is_leap_def
  by (rule leap_rule; (rule div_step | erule mod_zero_factor [rotated]); simp)

lemma days_before_year_Suc: "days_before_year (y + 1) = days_before_year y + year_days y"
  using leap_years_step [of y] by (simp add: days_before_year_def year_days_def algebra_simps)

lemma leap_rate:
  fixes y :: int
  assumes "y = 4 * a + i" and "y = 100 * b + j" and "y = 400 * c + k"
    and "i < 4" and "0 \<le> i" and "j < 100" and "0 \<le> j" and "k < 400" and "0 \<le> k"
  shows "97 * y - 699 \<le> 400 * (a - b + c) \<and> 400 * (a - b + c) \<le> 97 * y + 396"
  using assms by simp

lemma leap_years_bounds: "97 * y - 699 \<le> 400 * leap_years y \<and> 400 * leap_years y \<le> 97 * y + 396"
  unfolding leap_years_def by (rule leap_rate [of _ _ "y mod 4" _ "y mod 100" _ "y mod 400"]) simp_all

lemma civil_year_unique:
  assumes "days_before_year y \<le> z" and "z < days_before_year (y + 1)"
  shows "civil_year z = y"
proof -
  have l: "leap_years 1969 = 477" by (simp add: leap_years_def)
  have "year_days y \<le> 366" by (simp add: year_days_def)
  with assms have "146097 * (y - 1970) - 506 \<le> z * 400" "z * 400 \<le> 146097 * (y - 1970) + 146589"
    using leap_years_bounds [of "y - 1"] unfolding days_before_year_Suc unfolding days_before_year_def l by simp_all
  then have "z * 400 div 146097 \<in> {y - 1970 - 1, y - 1970, y - 1970 + 1}"
    by (intro div_near) simp_all
  then have "1970 + z * 400 div 146097 \<in> {y - 1, y, y + 1}" by auto
  moreover have "days_before_year k \<le> days_before_year (k + 1)" for k
    by (simp add: days_before_year_Suc year_days_def)
  note this [of "y - 1"] this [of y]
  ultimately show ?thesis
    using assms by (auto simp: civil_year_def Let_def)
qed

lemma months:
  fixes m :: int
  assumes "1 \<le> m" and "m \<le> 12"
  shows "m \<in> {1, 2, 3, 4, 5, 6, 7, 8, 9, 10, 11, 12}"
proof -
  have "m \<in> set [1..12]" using assms by simp
  then show ?thesis by (simp add: upto.simps del: set_upto)
qed

lemma month_list: "[1..<13] = [1, 2, 3, 4, 5, 6, 7, 8, 9, 10, 11, 12]"
  by (simp add: upt_conv_Cons)

lemma month_starts:
  "days_before_month y 1 = 0" "days_before_month y 2 = 31"
  "days_before_month y 3 = (if is_leap y then 60 else 59)" "days_before_month y 4 = (if is_leap y then 91 else 90)"
  "days_before_month y 5 = (if is_leap y then 121 else 120)" "days_before_month y 6 = (if is_leap y then 152 else 151)"
  "days_before_month y 7 = (if is_leap y then 182 else 181)" "days_before_month y 8 = (if is_leap y then 213 else 212)"
  "days_before_month y 9 = (if is_leap y then 244 else 243)" "days_before_month y 10 = (if is_leap y then 274 else 273)"
  "days_before_month y 11 = (if is_leap y then 305 else 304)" "days_before_month y 12 = (if is_leap y then 335 else 334)"
  by (simp_all add: days_before_month_def month_days_def upt_conv_Cons)

lemmas month_tables = month_starts month_days_def year_days_def

lemma civil_month_unique:
  assumes "1 \<le> m" and "m \<le> 12" and "1 \<le> d" and "d \<le> month_days y m"
  shows "civil_month y (days_before_month y m + d - 1) = m"
  using months [OF assms(1,2)] assms(3,4) unfolding civil_month_def month_list
  by (cases "is_leap y"; elim insertE emptyE) (simp_all add: month_tables)

lemma day_of_year_bounds:
  assumes "1 \<le> m" and "m \<le> 12" and "1 \<le> d" and "d \<le> month_days y m"
  shows "0 \<le> days_before_month y m + d - 1" and "days_before_month y m + d - 1 < year_days y"
  using months [OF assms(1,2)] assms(3,4)
  by (cases "is_leap y"; elim insertE emptyE; simp add: month_tables)+

text \<open>The date a number of days stands for is the date it was computed from.\<close>

lemma civil_of_sys_days:
  assumes "date_ok y m d"
  shows "civil_of_days (sys_days y m d) = (y, m, d)"
proof -
  have md: "1 \<le> m" "m \<le> 12" "1 \<le> d" "d \<le> month_days y m" using assms by (simp_all add: date_ok_def)
  have y: "civil_year (sys_days y m d) = y"
    using day_of_year_bounds [OF md] by (intro civil_year_unique) (simp_all add: sys_days_def days_before_year_Suc)
  have "sys_days y m d - days_before_year y = days_before_month y m + d - 1" by (simp add: sys_days_def)
  with y civil_month_unique [OF md] show ?thesis by (simp add: civil_of_days_def Let_def)
qed

text \<open>Days are counted from 1970-01-01, and consecutive dates have consecutive numbers.\<close>

lemma sys_days_epoch: "sys_days 1970 1 1 = 0"
  by (simp add: sys_days_def days_before_year_def month_tables)

lemma sys_days_next:
  assumes "date_ok y m d"
  shows "sys_days y m d + 1 =
    (if d < month_days y m then sys_days y m (d + 1) else if m < 12 then sys_days y (m + 1) 1 else sys_days (y + 1) 1 1)"
proof -
  have md: "1 \<le> m" "m \<le> 12" "1 \<le> d" "d \<le> month_days y m" using assms by (simp_all add: date_ok_def)
  have "days_before_month y (m + 1) = days_before_month y m + month_days y m"
    using md(1) by (simp add: days_before_month_def nat_add_distrib nat_le_iff le_nat_iff)
  moreover have "days_before_month y 12 + 31 = year_days y"
    by (cases "is_leap y") (simp_all add: month_tables)
  moreover have "days_before_month y' 1 = 0" "month_days y' 12 = 31" for y' by (simp_all add: month_tables)
  moreover have "m = 12" if "\<not> m < 12" using that md by simp
  ultimately show ?thesis
    using md by (auto simp: sys_days_def days_before_year_Suc)
qed

end
