(* ===== verification/Endpoint.thy ===== *)
theory Endpoint
  imports Pool_Prelude "HOL-Library.Multiset"
begin

unbundle bit_operations_syntax

text \<open>
  Host-and-port parsing, resolved socket addresses and the client keys of the rate limiter, from
  \<^verbatim>\<open>src/src/net/endpoint.hpp\<close> and \<^verbatim>\<open>endpoint.cpp\<close>. The resolver (\<^verbatim>\<open>getaddrinfo\<close>) and the address
  printer (\<^verbatim>\<open>inet_ntop\<close>) of the C library are arguments of the definitions that call them.
\<close>

section \<open>Socket addresses\<close>

text \<open>
  A \<^verbatim>\<open>sockaddr_storage\<close> is its 128 bytes, laid out as on Linux: the family in the first two (least
  significant first), the port in network order in the next two, then the IPv4 address at offset 4
  or the IPv6 address at offset 8.
\<close>

type_synonym sockaddr_storage = "byte list"

definition sockaddr_bytes :: nat where "sockaddr_bytes = 128"

definition AF_UNSPEC :: nat where "AF_UNSPEC = 0"
definition AF_INET :: nat where "AF_INET = 2"
definition AF_INET6 :: nat where "AF_INET6 = 10"

definition ss_family :: "sockaddr_storage \<Rightarrow> nat" where
  "ss_family s = unat (s ! 0) + 256 * unat (s ! 1)"

definition sin_port :: "sockaddr_storage \<Rightarrow> byte list" where
  "sin_port s = take 2 (drop 2 s)"

definition sin_addr :: "sockaddr_storage \<Rightarrow> byte list" where
  "sin_addr s = take 4 (drop 4 s)"

definition sin6_addr :: "sockaddr_storage \<Rightarrow> byte list" where
  "sin6_addr s = take 16 (drop 8 s)"

definition is_v4mapped :: "byte list \<Rightarrow> bool" where
  "is_v4mapped a \<longleftrightarrow> take 10 a = replicate 10 0 \<and> take 2 (drop 10 a) = [0xff, 0xff]"

record socket_address =
  sa_value :: sockaddr_storage
  sa_length :: nat
  sa_family :: nat

definition same_address :: "socket_address \<Rightarrow> socket_address \<Rightarrow> bool" where
  "same_address left right \<longleftrightarrow>
     sa_family left = sa_family right \<and> sa_length left = sa_length right \<and>
     take (sa_length left) (sa_value left) = take (sa_length left) (sa_value right)"

text \<open>
  \<^verbatim>\<open>std::ranges::is_permutation\<close>: skip the common prefix, then compare, for each element of the rest
  that did not occur before, how often it occurs on either side.
\<close>

fun skip_common :: "('a \<Rightarrow> 'a \<Rightarrow> bool) \<Rightarrow> 'a list \<Rightarrow> 'a list \<Rightarrow> 'a list \<times> 'a list" where
  "skip_common p (x # xs) (y # ys) = (if p x y then skip_common p xs ys else (x # xs, y # ys))"
| "skip_common p xs ys = (xs, ys)"

fun permutation_scan :: "('a \<Rightarrow> 'a \<Rightarrow> bool) \<Rightarrow> 'a list \<Rightarrow> 'a list \<Rightarrow> 'a list \<Rightarrow> bool" where
  "permutation_scan p seen [] ys = True"
| "permutation_scan p seen (x # xs) ys =
     (if find (p x) seen \<noteq> None then permutation_scan p (seen @ [x]) xs ys
      else let matches = length (filter (p x) ys)
           in if matches = 0 \<or> length (filter (p x) (x # xs)) \<noteq> matches then False
              else permutation_scan p (seen @ [x]) xs ys)"

definition is_permutation :: "('a \<Rightarrow> 'a \<Rightarrow> bool) \<Rightarrow> 'a list \<Rightarrow> 'a list \<Rightarrow> bool" where
  "is_permutation p xs ys =
     (case skip_common p xs ys of
        ([], _) \<Rightarrow> True
      | (xs', ys') \<Rightarrow> length xs' = length ys' \<and> permutation_scan p [] xs' ys')"

definition same_addresses :: "socket_address list \<Rightarrow> socket_address list \<Rightarrow> bool" where
  "same_addresses left right \<longleftrightarrow>
     length left = length right \<and> is_permutation same_address left right"

section \<open>Resolving names\<close>

text \<open>One entry of the list \<^verbatim>\<open>getaddrinfo\<close> returns, with the bytes its \<^verbatim>\<open>ai_addr\<close> points at.\<close>

record addrinfo =
  ai_family :: nat
  ai_addrlen :: nat
  ai_addr :: "byte list"

text \<open>Host, port text and flags to the entries, or the text of the error.\<close>

type_synonym resolver = "string \<Rightarrow> string \<Rightarrow> nat \<Rightarrow> string + addrinfo list"

definition AI_PASSIVE :: nat where "AI_PASSIVE = 1"
definition AI_NUMERICHOST :: nat where "AI_NUMERICHOST = 4"
definition AI_NUMERICSERV :: nat where "AI_NUMERICSERV = 1024"

fun to_string :: "nat \<Rightarrow> string" where
  "to_string n =
     (if n < 10 then [char_of (48 + n)] else to_string (n div 10) @ [char_of (48 + n mod 10)])"

declare to_string.simps [simp del]

fun collect_addresses :: "addrinfo list \<Rightarrow> socket_address list \<Rightarrow> socket_address list" where
  "collect_addresses [] addresses = addresses"
| "collect_addresses (entry # entries) addresses =
     (if (ai_family entry \<noteq> AF_INET \<and> ai_family entry \<noteq> AF_INET6) \<or> sockaddr_bytes < ai_addrlen entry
      then collect_addresses entries addresses
      else let address =
                 \<lparr>sa_value = take (ai_addrlen entry) (ai_addr entry) @
                    replicate (sockaddr_bytes - ai_addrlen entry) 0,
                  sa_length = ai_addrlen entry, sa_family = ai_family entry\<rparr>
           in if list_ex (\<lambda>prior. same_address prior address) addresses
              then collect_addresses entries addresses
              else collect_addresses entries (addresses @ [address]))"

definition resolve_addresses ::
  "resolver \<Rightarrow> string \<Rightarrow> nat \<Rightarrow> nat \<Rightarrow> socket_address list result" where
  "resolve_addresses getaddrinfo host port flags =
     (case getaddrinfo (c_str host) (to_string port) flags of
        Inl message \<Rightarrow> Inl (ConfigError (''cannot resolve '' @ host @ '': '' @ message))
      | Inr entries \<Rightarrow>
          (let addresses = collect_addresses entries []
           in if addresses = [] then Inl (ConfigError (''no usable address for '' @ host))
              else Inr addresses))"

section \<open>Endpoints\<close>

record endpoint =
  ep_host :: string
  ep_port :: nat

text \<open>
  \<^verbatim>\<open>std::from_chars\<close> into an \<^verbatim>\<open>unsigned int\<close>: the longest prefix of decimal digits, no value when there
  is none or it does not fit in 32 bits; also returns what follows the digits.
\<close>

definition is_digit :: "char \<Rightarrow> bool" where
  "is_digit c \<longleftrightarrow> 48 \<le> (of_char c :: nat) \<and> (of_char c :: nat) \<le> 57"

definition digits_value :: "string \<Rightarrow> nat" where
  "digits_value ds = foldl (\<lambda>v c. 10 * v + (of_char c - 48)) 0 ds"

definition from_chars :: "nat \<Rightarrow> string \<Rightarrow> (nat \<times> string) option" where
  "from_chars width s =
     (let ds = takeWhile is_digit s
      in if ds = [] \<or> 2 ^ width \<le> digits_value ds then None
         else Some (digits_value ds, dropWhile is_digit s))"

definition split_endpoint :: "string \<Rightarrow> (string \<times> string) result" where
  "split_endpoint address =
     (if starts_with address ''[''
      then (case str_find (CHR '']'') address of
              None \<Rightarrow> Inl (ConfigError (''invalid bracketed endpoint: '' @ address))
            | Some close \<Rightarrow>
                (if length address \<le> close + 1 \<or> address ! (close + 1) \<noteq> CHR '':''
                 then Inl (ConfigError (''invalid bracketed endpoint: '' @ address))
                 else Inr (take (close - 1) (drop 1 address), drop (close + 2) address)))
      else (case str_rfind (CHR '':'') address of
              None \<Rightarrow> Inl (ConfigError (''endpoint has no port: '' @ address))
            | Some colon \<Rightarrow>
                (if str_find (CHR '':'') address \<noteq> Some colon
                 then Inl (ConfigError (''IPv6 endpoints must use brackets: '' @ address))
                 else Inr (take colon address, drop (colon + 1) address))))"

definition parse_endpoint :: "string \<Rightarrow> endpoint result" where
  "parse_endpoint address =
     and_then (split_endpoint address) (\<lambda>(host, port_text).
       if host = [] \<or> port_text = []
       then Inl (ConfigError (''endpoint requires a host and port: '' @ address))
       else case from_chars 32 port_text of
              Some (port, []) \<Rightarrow>
                (if port = 0 \<or> 65535 < port
                 then Inl (ConfigError (''invalid endpoint port: '' @ address))
                 else Inr \<lparr>ep_host = host, ep_port = port\<rparr>)
            | _ \<Rightarrow> Inl (ConfigError (''invalid endpoint port: '' @ address)))"

definition resolve_endpoints :: "resolver \<Rightarrow> endpoint \<Rightarrow> bool \<Rightarrow> socket_address list result" where
  "resolve_endpoints getaddrinfo ep passive =
     resolve_addresses getaddrinfo (ep_host ep) (ep_port ep) (if passive then AI_PASSIVE else 0)"

definition ipv4_usable_source :: "byte list \<Rightarrow> bool" where
  "ipv4_usable_source a \<longleftrightarrow>
     a \<noteq> replicate 4 0 \<and> a \<noteq> replicate 4 0xff \<and> (a ! 0) AND 0xf0 \<noteq> 0xe0"

definition ipv6_usable_source :: "byte list \<Rightarrow> bool" where
  "ipv6_usable_source a \<longleftrightarrow> a \<noteq> replicate 16 0 \<and> a ! 0 \<noteq> 0xff"

definition resolve_numeric_bind_host :: "resolver \<Rightarrow> string \<Rightarrow> socket_address result" where
  "resolve_numeric_bind_host getaddrinfo host =
     and_then (resolve_addresses getaddrinfo host 0 (AI_NUMERICHOST + AI_NUMERICSERV)) (\<lambda>addresses.
       let address = hd addresses;
           usable =
             (if sa_family address = AF_INET then ipv4_usable_source (sin_addr (sa_value address))
              else if sa_family address = AF_INET6 then ipv6_usable_source (sin6_addr (sa_value address))
              else False)
       in if usable then Inr address
          else Inl (ConfigError (''unusable outbound source address: '' @ host)))"

text \<open>\<^verbatim>\<open>inet_ntop\<close>: family and address bytes to text, or failure.\<close>

type_synonym address_printer = "nat \<Rightarrow> byte list \<Rightarrow> string option"

definition address_host :: "address_printer \<Rightarrow> sockaddr_storage \<Rightarrow> string" where
  "address_host inet_ntop address =
     (if ss_family address = AF_INET
      then (case inet_ntop AF_INET (sin_addr address) of None \<Rightarrow> ''unknown'' | Some host \<Rightarrow> host)
      else if ss_family address = AF_INET6
      then (case inet_ntop AF_INET6 (sin6_addr address) of None \<Rightarrow> ''unknown'' | Some host \<Rightarrow> host)
      else ''unknown'')"

section \<open>Client keys\<close>

datatype client_address_family = Unknown | Ipv4 | Ipv6

record client_key =
  ck_address :: "byte list"
  ck_prefix_bits :: byte
  ck_family :: client_address_family

definition kFnvOffsetBasis :: u64 where "kFnvOffsetBasis = 1469598103934665603"
definition kFnvPrime :: u64 where "kFnvPrime = 1099511628211"
definition kIpv4PrefixBits :: byte where "kIpv4PrefixBits = 32"

definition hash_byte :: "u64 \<Rightarrow> byte \<Rightarrow> u64" where
  "hash_byte hash b = (hash XOR ucast b) * kFnvPrime"

definition family_code :: "client_address_family \<Rightarrow> byte" where
  "family_code f = (case f of Unknown \<Rightarrow> 0 | Ipv4 \<Rightarrow> 1 | Ipv6 \<Rightarrow> 2)"

definition client_key_hash :: "client_key \<Rightarrow> u64" where
  "client_key_hash key =
     (let hash = hash_byte (hash_byte kFnvOffsetBasis (family_code (ck_family key))) (ck_prefix_bits key);
          address_bytes = (if ck_family key = Ipv4 then 4 else length (ck_address key))
      in foldl hash_byte hash (take address_bytes (ck_address key)))"

definition empty_client_key :: client_key where
  "empty_client_key = \<lparr>ck_address = replicate 16 0, ck_prefix_bits = 0, ck_family = Unknown\<rparr>"

definition ipv4_client_key :: "byte list \<Rightarrow> client_key" where
  "ipv4_client_key a =
     \<lparr>ck_address = a @ replicate 12 0, ck_prefix_bits = kIpv4PrefixBits, ck_family = Ipv4\<rparr>"

text \<open>Keep the first \<open>bits\<close> bits of an IPv6 address and clear the rest.\<close>

definition mask_address :: "nat \<Rightarrow> byte list \<Rightarrow> byte list" where
  "mask_address bits a =
     (let complete_bytes = bits div 8; remaining_bits = bits mod 8;
          masked = (if remaining_bits \<noteq> 0
                    then a[complete_bytes := a ! complete_bytes AND push_bit (8 - remaining_bits) 0xff]
                    else a);
          clear_from = (if remaining_bits \<noteq> 0 then complete_bytes + 1 else complete_bytes)
      in take clear_from masked @ replicate (length a - clear_from) 0)"

definition client_rate_limit_key :: "sockaddr_storage \<Rightarrow> nat \<Rightarrow> client_key" where
  "client_rate_limit_key address ipv6_prefix_bits =
     (if ss_family address = AF_INET then ipv4_client_key (sin_addr address)
      else if ss_family address \<noteq> AF_INET6 then empty_client_key
      else if is_v4mapped (sin6_addr address) then ipv4_client_key (drop 12 (sin6_addr address))
      else \<lparr>ck_address = mask_address ipv6_prefix_bits (sin6_addr address),
            ck_prefix_bits = of_nat ipv6_prefix_bits, ck_family = Ipv6\<rparr>)"

definition client_rate_limit_key_text :: "address_printer \<Rightarrow> client_key \<Rightarrow> string" where
  "client_rate_limit_key_text inet_ntop key =
     (if ck_family key = Unknown then ''unknown''
      else case inet_ntop (if ck_family key = Ipv4 then AF_INET else AF_INET6) (ck_address key) of
             None \<Rightarrow> ''unknown''
           | Some host \<Rightarrow>
               (if ck_family key = Ipv4 then ''v4:'' @ host
                else ''v6:'' @ host @ ''/'' @ to_string (unat (ck_prefix_bits key))))"

section \<open>Address lists compare as multisets\<close>

definition address_key :: "socket_address \<Rightarrow> nat \<times> nat \<times> byte list" where
  "address_key a = (sa_family a, sa_length a, take (sa_length a) (sa_value a))"

lemma same_address_key: "same_address = (\<lambda>a b. address_key a = address_key b)"
  by (intro ext) (auto simp: same_address_def address_key_def)

lemma skip_common_split:
  fixes f :: "'a \<Rightarrow> 'k"
  defines "p \<equiv> \<lambda>x y. f x = f y"
  shows "\<exists>a b. xs = a @ fst (skip_common p xs ys) \<and> ys = b @ snd (skip_common p xs ys) \<and> map f a = map f b"
proof (induction xs arbitrary: ys)
  case Nil
  show ?case by simp
next
  case (Cons x xs)
  show ?case
  proof (cases ys)
    case (Cons y ys')
    show ?thesis
    proof (cases "f x = f y")
      case True
      from Cons.IH [of ys'] obtain a b where "xs = a @ fst (skip_common p xs ys')"
        "ys' = b @ snd (skip_common p xs ys')" "map f a = map f b" by blast
      with True Cons show ?thesis
        by (intro exI [of _ "x # a"] exI [of _ "y # b"]) (simp add: p_def)
    next
      case False
      with Cons show ?thesis by (simp add: p_def)
    qed
  qed simp
qed

definition key_count :: "('a \<Rightarrow> 'k) \<Rightarrow> 'a list \<Rightarrow> 'k \<Rightarrow> nat" where
  "key_count f xs k = count (mset (map f xs)) k"

lemma key_count_Nil: "key_count f [] k = 0"
  and key_count_Cons: "key_count f (x # xs) k = key_count f xs k + (if f x = k then 1 else 0)"
  by (simp_all add: key_count_def)

lemma key_count_filter: "length (filter (\<lambda>y. f x = f y) ys) = key_count f ys (f x)"
  by (induction ys) (auto simp: key_count_Nil key_count_Cons)

lemma key_count_absent: "k \<notin> f ` set xs \<Longrightarrow> key_count f xs k = 0"
  by (induction xs) (auto simp: key_count_Nil key_count_Cons)

lemma permutation_scan_iff:
  fixes f :: "'a \<Rightarrow> 'k"
  shows "permutation_scan (\<lambda>x y. f x = f y) seen xs ys \<longleftrightarrow>
    (\<forall>x\<in>set xs. f x \<notin> f ` set seen \<longrightarrow> key_count f ys (f x) = key_count f xs (f x))"
proof (induction xs arbitrary: seen)
  case Nil
  show ?case by simp
next
  case (Cons x xs)
  have found: "find (\<lambda>y. f x = f y) seen \<noteq> None \<longleftrightarrow> f x \<in> f ` set seen"
    by (auto simp: find_None_iff)
  define K where "K = f ` set seen"
  have K': "f ` set (seen @ [x]) = insert (f x) K" by (simp add: K_def)
  have rest: "key_count f (x # xs) (f z) = key_count f xs (f z)" if "f z \<noteq> f x" for z
    using that by (simp add: key_count_Cons)
  have here: "key_count f (x # xs) (f x) \<noteq> 0" by (simp add: key_count_Cons)
  have scan: "permutation_scan (\<lambda>x y. f x = f y) seen (x # xs) ys \<longleftrightarrow>
      (if f x \<in> K then True else key_count f ys (f x) = key_count f (x # xs) (f x)) \<and>
      (\<forall>z\<in>set xs. f z \<notin> insert (f x) K \<longrightarrow> key_count f ys (f z) = key_count f xs (f z))"
    unfolding permutation_scan.simps found Let_def Cons.IH key_count_filter K' K_def [symmetric]
    using here by auto
  have "f z \<notin> insert (f x) K \<Longrightarrow> key_count f xs (f z) = key_count f (x # xs) (f z)" for z
    using rest [of z] by simp
  then have "(\<forall>z\<in>set xs. f z \<notin> insert (f x) K \<longrightarrow> key_count f ys (f z) = key_count f xs (f z)) \<longleftrightarrow>
      (\<forall>z\<in>set xs. f z \<notin> insert (f x) K \<longrightarrow> key_count f ys (f z) = key_count f (x # xs) (f z))"
    by simp
  then show ?case
    unfolding scan K_def [symmetric] by (metis insert_iff list.set(2))
qed

lemma is_permutation_iff:
  fixes f :: "'a \<Rightarrow> 'k"
  assumes "length xs = length ys"
  shows "is_permutation (\<lambda>x y. f x = f y) xs ys \<longleftrightarrow> mset (map f xs) = mset (map f ys)"
proof -
  obtain xs' ys' where skip: "skip_common (\<lambda>x y. f x = f y) xs ys = (xs', ys')"
    by (cases "skip_common (\<lambda>x y. f x = f y) xs ys")
  with skip_common_split [of xs f ys] obtain a b where ab: "xs = a @ xs'" "ys = b @ ys'" "map f a = map f b"
    by auto
  from ab(3) have "length a = length b" by (rule map_eq_imp_length_eq)
  with ab assms have len: "length xs' = length ys'" by simp
  have "mset (map f xs) = mset (map f ys) \<longleftrightarrow> mset (map f xs') = mset (map f ys')"
    using ab by (metis add_left_cancel map_append mset_append)
  also have "\<dots> \<longleftrightarrow> (\<forall>x\<in>set xs'. key_count f ys' (f x) = key_count f xs' (f x))"
    (is "?l \<longleftrightarrow> ?r")
  proof
    assume ?r
    then have "key_count f xs' k \<le> key_count f ys' k" for k
      by (cases "k \<in> f ` set xs'") (auto simp: key_count_absent)
    then have "mset (map f xs') \<subseteq># mset (map f ys')"
      by (simp add: key_count_def subseteq_mset_def)
    with len show ?l by (metis length_map mset_subset_size nat_less_le size_mset subset_mset.le_less)
  qed (simp add: key_count_def)
  also have "\<dots> \<longleftrightarrow> is_permutation (\<lambda>x y. f x = f y) xs ys"
    using len by (auto simp: is_permutation_def skip permutation_scan_iff split: list.split)
  finally show ?thesis by simp
qed

lemma same_addresses_iff:
  "same_addresses left right \<longleftrightarrow> mset (map address_key left) = mset (map address_key right)"
proof -
  have "mset (map address_key left) = mset (map address_key right) \<Longrightarrow> length left = length right"
    by (metis length_map size_mset)
  then show ?thesis
    unfolding same_addresses_def same_address_key by (auto simp: is_permutation_iff simp del: mset_map)
qed

section \<open>Parsing endpoints\<close>

lemma digits_value_snoc: "digits_value (ds @ [c]) = 10 * digits_value ds + (of_char c - 48)"
  by (simp add: digits_value_def)

lemma is_digit_char_of: "n < 10 \<Longrightarrow> is_digit (char_of (48 + n :: nat))"
  by (simp add: is_digit_def)

lemma to_string_digits: "to_string n \<noteq> [] \<and> list_all is_digit (to_string n) \<and> digits_value (to_string n) = n"
proof (induction n rule: to_string.induct)
  case (1 n)
  show ?case
  proof (cases "n < 10")
    case True
    then show ?thesis
      using digits_value_snoc [of "[]" "char_of (48 + n)"]
      by (simp add: to_string.simps [of n] is_digit_char_of digits_value_def)
  next
    case False
    with 1 have IH: "list_all is_digit (to_string (n div 10))" "digits_value (to_string (n div 10)) = n div 10"
      by simp_all
    have "n mod 10 < 10" by simp
    then have "is_digit (char_of (48 + n mod 10))" by (rule is_digit_char_of)
    moreover have "(48 + n mod 10) mod 256 = 48 + n mod 10" by simp
    ultimately show ?thesis
      using False IH by (simp add: to_string.simps [of n] digits_value_snoc)
  qed
qed

lemma from_chars_all:
  "from_chars w s = Some (v, []) \<longleftrightarrow> s \<noteq> [] \<and> list_all is_digit s \<and> v = digits_value s \<and> v < 2 ^ w"
proof (cases "list_all is_digit s")
  case True
  then have tw: "takeWhile is_digit s = s" and dw: "dropWhile is_digit s = []"
    by (simp_all add: takeWhile_eq_all_conv dropWhile_eq_Nil_conv list_all_iff)
  show ?thesis unfolding from_chars_def Let_def tw dw using True by auto
next
  case False
  then have "dropWhile is_digit s \<noteq> []" by (simp add: dropWhile_eq_Nil_conv list_all_iff)
  with False show ?thesis by (simp add: from_chars_def Let_def)
qed

lemma split_bracketed:
  assumes "starts_with a ''[''"
  shows "split_endpoint a = Inr (h, t) \<longleftrightarrow> a = CHR ''['' # h @ CHR '']'' # CHR '':'' # t \<and> CHR '']'' \<notin> set h"
proof
  assume "split_endpoint a = Inr (h, t)"
  with assms obtain close where c: "str_find (CHR '']'') a = Some close" "close + 1 < length a"
      "a ! (close + 1) = CHR '':''" "h = take (close - 1) (drop 1 a)" "t = drop (close + 2) a"
    by (auto simp: split_endpoint_def not_le split: option.splits if_splits)
  from assms obtain r where a: "a = CHR ''['' # r" by (auto simp: starts_with_iff)
  from c(1) a obtain k where k: "close = Suc k" "str_find (CHR '']'') r = Some k" by auto
  then have r: "r ! k = CHR '']''" "CHR '']'' \<notin> set (take k r)" "k < length r"
    by (simp_all add: str_find_Some)
  have "r = take k r @ r ! k # drop (Suc k) r" by (rule id_take_nth_drop [OF r(3)])
  also have "drop (Suc k) r = r ! Suc k # drop (Suc (Suc k)) r"
    using c(2) k a by (simp add: Cons_nth_drop_Suc)
  finally show "a = CHR ''['' # h @ CHR '']'' # CHR '':'' # t \<and> CHR '']'' \<notin> set h"
    using a c(3-5) k r by simp
next
  assume a: "a = CHR ''['' # h @ CHR '']'' # CHR '':'' # t \<and> CHR '']'' \<notin> set h"
  then have "str_find (CHR '']'') a = Some (Suc (length h))" by (simp add: str_find_append)
  with a show "split_endpoint a = Inr (h, t)" by (simp add: split_endpoint_def nth_append)
qed

lemma split_plain:
  assumes "\<not> starts_with a ''[''"
  shows "split_endpoint a = Inr (h, t) \<longleftrightarrow> a = h @ CHR '':'' # t \<and> CHR '':'' \<notin> set h \<and> CHR '':'' \<notin> set t"
proof
  assume "split_endpoint a = Inr (h, t)"
  with assms obtain colon where c: "str_rfind (CHR '':'') a = Some colon" "str_find (CHR '':'') a = Some colon"
      "h = take colon a" "t = drop (colon + 1) a"
    by (auto simp: split_endpoint_def split: option.splits if_splits)
  from c(2) have f: "colon < length a" "a ! colon = CHR '':''" "CHR '':'' \<notin> set (take colon a)"
    by (simp_all add: str_find_Some)
  have a: "a = h @ CHR '':'' # t" using id_take_nth_drop [OF f(1)] c(3,4) f(2) by simp
  have "CHR '':'' \<notin> set t"
  proof
    assume "CHR '':'' \<in> set t"
    then obtain t1 t2 where t: "t = t1 @ CHR '':'' # t2" "CHR '':'' \<notin> set t2"
      by (meson split_list_last)
    then have "str_rfind (CHR '':'') a = Some (length (h @ CHR '':'' # t1))"
      using str_rfind_split [of "CHR '':''" t2 "h @ CHR '':'' # t1"] a by simp
    with c(1,3) f(1) show False by simp
  qed
  with a f(3) c(3) show "a = h @ CHR '':'' # t \<and> CHR '':'' \<notin> set h \<and> CHR '':'' \<notin> set t" by simp
next
  assume a: "a = h @ CHR '':'' # t \<and> CHR '':'' \<notin> set h \<and> CHR '':'' \<notin> set t"
  then have "str_rfind (CHR '':'') a = Some (length h)" by (simp add: str_rfind_split)
  moreover from a have "str_find (CHR '':'') a = Some (length h)" by (simp add: str_find_append)
  ultimately show "split_endpoint a = Inr (h, t)" using a assms by (simp add: split_endpoint_def)
qed

lemma parse_endpoint_split:
  "parse_endpoint a = Inr e \<longleftrightarrow>
     (\<exists>ds. split_endpoint a = Inr (ep_host e, ds) \<and> ep_host e \<noteq> [] \<and> ds \<noteq> [] \<and> list_all is_digit ds \<and>
        digits_value ds = ep_port e \<and> 1 \<le> ep_port e \<and> ep_port e \<le> 65535)"
proof
  assume "parse_endpoint a = Inr e"
  then obtain h t where s: "split_endpoint a = Inr (h, t)" and h: "h \<noteq> []" "t \<noteq> []"
    and c: "(case from_chars 32 t of
              Some (port, []) \<Rightarrow>
                (if port = 0 \<or> 65535 < port
                 then Inl (ConfigError (''invalid endpoint port: '' @ a))
                 else Inr \<lparr>ep_host = h, ep_port = port\<rparr>)
            | _ \<Rightarrow> Inl (ConfigError (''invalid endpoint port: '' @ a))) = Inr e"
    by (auto simp: parse_endpoint_def and_then_Inr_iff split: if_splits)
  from c obtain v where "from_chars 32 t = Some (v, [])" "v \<noteq> 0" "v \<le> 65535" "e = \<lparr>ep_host = h, ep_port = v\<rparr>"
    by (auto split: option.splits prod.splits list.splits if_splits)
  with s h show "\<exists>ds. split_endpoint a = Inr (ep_host e, ds) \<and> ep_host e \<noteq> [] \<and> ds \<noteq> [] \<and>
      list_all is_digit ds \<and> digits_value ds = ep_port e \<and> 1 \<le> ep_port e \<and> ep_port e \<le> 65535"
    by (auto simp: from_chars_all)
next
  assume "\<exists>ds. split_endpoint a = Inr (ep_host e, ds) \<and> ep_host e \<noteq> [] \<and> ds \<noteq> [] \<and> list_all is_digit ds \<and>
        digits_value ds = ep_port e \<and> 1 \<le> ep_port e \<and> ep_port e \<le> 65535"
  then obtain ds where ds: "split_endpoint a = Inr (ep_host e, ds)" "ep_host e \<noteq> []" "ds \<noteq> []"
    "list_all is_digit ds" "digits_value ds = ep_port e" "1 \<le> ep_port e" "ep_port e \<le> 65535" by blast
  then have "from_chars 32 ds = Some (ep_port e, [])" by (simp add: from_chars_all)
  with ds show "parse_endpoint a = Inr e" by (simp add: parse_endpoint_def)
qed

text \<open>The two ways an endpoint is written: a bracketed host, or a host without colons.\<close>

definition endpoint_text :: "bool \<Rightarrow> string \<Rightarrow> string \<Rightarrow> string" where
  "endpoint_text bracketed host port_text =
     (if bracketed then CHR ''['' # host @ CHR '']'' # CHR '':'' # port_text else host @ CHR '':'' # port_text)"

definition host_writable :: "bool \<Rightarrow> string \<Rightarrow> bool" where
  "host_writable bracketed host \<longleftrightarrow>
     host \<noteq> [] \<and>
     (if bracketed then CHR '']'' \<notin> set host else CHR '':'' \<notin> set host \<and> \<not> starts_with host ''['')"

lemma starts_with_bracket_append: "host \<noteq> [] \<Longrightarrow> starts_with (host @ r) ''['' \<longleftrightarrow> starts_with host ''[''"
  by (cases host) simp_all

lemma split_endpoint_iff:
  assumes "h \<noteq> []" and "CHR '':'' \<notin> set t"
  shows "split_endpoint a = Inr (h, t) \<longleftrightarrow> (\<exists>b. a = endpoint_text b h t \<and> host_writable b h)"
proof (cases "starts_with a ''[''")
  case True
  with assms split_bracketed [OF True, of h t] show ?thesis
    by (auto simp: endpoint_text_def host_writable_def ex_bool_eq starts_with_bracket_append)
next
  case False
  with assms split_plain [OF False, of h t] show ?thesis
    by (auto simp: endpoint_text_def host_writable_def ex_bool_eq starts_with_bracket_append)
qed

lemma digits_no_colon: "list_all is_digit ds \<Longrightarrow> CHR '':'' \<notin> set ds"
  by (auto simp: list_all_iff is_digit_def)

lemma split_endpoint_error: "split_endpoint a = Inl x \<Longrightarrow> \<exists>m. x = ConfigError (m @ a)"
  by (auto simp only: split_endpoint_def sum.inject sum.distinct split: option.split_asm if_split_asm)

lemma parse_endpoint_error:
  assumes "parse_endpoint a = Inl x"
  shows "\<exists>m. x = ConfigError (m @ a)"
proof (cases "split_endpoint a")
  case (Inl e)
  with assms show ?thesis using split_endpoint_error [OF Inl] by (simp add: parse_endpoint_def)
next
  case (Inr ht)
  obtain h t where ht: "ht = (h, t)" by (cases ht)
  have "(case from_chars 32 t of
            Some (port, []) \<Rightarrow>
              (if port = 0 \<or> 65535 < port then Inl (ConfigError (''invalid endpoint port: '' @ a))
               else Inr \<lparr>ep_host = h, ep_port = port\<rparr>)
          | _ \<Rightarrow> Inl (ConfigError (''invalid endpoint port: '' @ a))) = Inl x \<Longrightarrow> \<exists>m. x = ConfigError (m @ a)"
    by (auto simp only: sum.inject sum.distinct split: option.split_asm prod.split_asm list.split_asm if_split_asm)
  then show ?thesis
    using assms unfolding parse_endpoint_def Inr ht
    by (auto simp only: and_then_simps prod.case sum.inject split: if_split_asm)
qed

text \<open>
  Property C23. An endpoint text is accepted exactly when it is a non-empty host followed by a colon
  and a decimal port from 1 to 65535, the host being bracketed and free of closing brackets, or not
  bracketed and free of colons; the result is that host and the value of the port digits. Every other
  text is a configuration error.
\<close>

theorem parse_endpoint_grammar:
  "(parse_endpoint a = Inr e \<longleftrightarrow>
     (\<exists>b ds. a = endpoint_text b (ep_host e) ds \<and> host_writable b (ep_host e) \<and> ds \<noteq> [] \<and> list_all is_digit ds \<and>
        digits_value ds = ep_port e \<and> 1 \<le> ep_port e \<and> ep_port e \<le> 65535)) \<and>
   (\<forall>x. parse_endpoint a = Inl x \<longrightarrow> (\<exists>m. x = ConfigError (m @ a)))"
proof
  have "split_endpoint a = Inr (ep_host e, ds) \<and> ep_host e \<noteq> [] \<longleftrightarrow>
      (\<exists>b. a = endpoint_text b (ep_host e) ds \<and> host_writable b (ep_host e))"
    if "list_all is_digit ds" for ds
    using split_endpoint_iff [of "ep_host e" ds a] digits_no_colon [OF that]
    by (cases "ep_host e = []") (auto simp: host_writable_def)
  then show "parse_endpoint a = Inr e \<longleftrightarrow>
     (\<exists>b ds. a = endpoint_text b (ep_host e) ds \<and> host_writable b (ep_host e) \<and> ds \<noteq> [] \<and> list_all is_digit ds \<and>
        digits_value ds = ep_port e \<and> 1 \<le> ep_port e \<and> ep_port e \<le> 65535)"
    unfolding parse_endpoint_split by blast
  show "\<forall>x. parse_endpoint a = Inl x \<longrightarrow> (\<exists>m. x = ConfigError (m @ a))"
    using parse_endpoint_error by blast
qed

theorem parse_endpoint_grammar_witness:
  "(parse_endpoint ''db:80'' = Inr \<lparr>ep_host = ''db'', ep_port = 80\<rparr> \<longleftrightarrow>
     (\<exists>b ds. ''db:80'' = endpoint_text b ''db'' ds \<and> host_writable b ''db'' \<and> ds \<noteq> [] \<and> list_all is_digit ds \<and>
        digits_value ds = 80)) \<and>
   (\<exists>m. parse_endpoint ''db'' = Inl (ConfigError (m @ ''db'')))"
proof -
  have "parse_endpoint ''db'' = Inl (ConfigError (''endpoint has no port: '' @ ''db''))" by code_simp
  moreover from this have "\<exists>m. ConfigError (''endpoint has no port: '' @ ''db'') = ConfigError (m @ ''db'')"
    using conjunct2 [OF parse_endpoint_grammar [of "''db''"]] by blast
  ultimately show ?thesis
    using conjunct1 [OF parse_endpoint_grammar [of "''db:80''" "\<lparr>ep_host = ''db'', ep_port = 80\<rparr>"]] by simp
qed

section \<open>Resolved addresses\<close>

definition usable_entry :: "addrinfo \<Rightarrow> bool" where
  "usable_entry entry \<longleftrightarrow>
     (ai_family entry = AF_INET \<or> ai_family entry = AF_INET6) \<and> ai_addrlen entry \<le> sockaddr_bytes"

definition entry_key :: "addrinfo \<Rightarrow> nat \<times> nat \<times> byte list" where
  "entry_key entry = (ai_family entry, ai_addrlen entry, take (ai_addrlen entry) (ai_addr entry))"

lemma collect_addresses_keys:
  assumes "\<And>entry. entry \<in> set entries \<Longrightarrow> ai_addrlen entry \<le> length (ai_addr entry)"
    and "distinct (map address_key acc)"
  shows "distinct (map address_key (collect_addresses entries acc)) \<and>
    address_key ` set (collect_addresses entries acc) =
      address_key ` set acc \<union> entry_key ` {entry \<in> set entries. usable_entry entry} \<and>
    (\<exists>more. collect_addresses entries acc = acc @ more)"
  using assms
proof (induction entries arbitrary: acc)
  case Nil
  then show ?case by simp
next
  case (Cons entry entries)
  let ?a = "\<lparr>sa_value = take (ai_addrlen entry) (ai_addr entry) @ replicate (sockaddr_bytes - ai_addrlen entry) 0,
             sa_length = ai_addrlen entry, sa_family = ai_family entry\<rparr>"
  have IH: "distinct (map address_key acc') \<Longrightarrow>
      distinct (map address_key (collect_addresses entries acc')) \<and>
      address_key ` set (collect_addresses entries acc') =
        address_key ` set acc' \<union> entry_key ` {entry \<in> set entries. usable_entry entry} \<and>
      (\<exists>more. collect_addresses entries acc' = acc' @ more)" for acc'
    using Cons.IH [of acc'] Cons.prems(1) by simp
  have key: "address_key ?a = entry_key entry"
    using Cons.prems(1) [of entry] by (simp add: address_key_def entry_key_def min_absorb2)
  have dup: "list_ex (\<lambda>prior. same_address prior ?a) acc \<longleftrightarrow> entry_key entry \<in> address_key ` set acc"
    unfolding list_ex_iff same_address_key key by (auto intro: rev_image_eqI)
  have sel: "{e \<in> set (entry # entries). usable_entry e} =
      (if usable_entry entry then {entry} else {}) \<union> {e \<in> set entries. usable_entry e}" by auto
  show ?case
  proof (cases "usable_entry entry")
    case False
    then have "collect_addresses (entry # entries) acc = collect_addresses entries acc"
      by (auto simp: usable_entry_def)
    with IH [OF Cons.prems(2)] False show ?thesis unfolding sel by simp
  next
    case True
    then have "collect_addresses (entry # entries) acc =
        (if entry_key entry \<in> address_key ` set acc then collect_addresses entries acc
         else collect_addresses entries (acc @ [?a]))"
      using dup by (auto simp: usable_entry_def Let_def)
    moreover have "distinct (map address_key (acc @ [?a]))" if "entry_key entry \<notin> address_key ` set acc"
      using that Cons.prems(2) key by simp
    ultimately show ?thesis
      using IH [OF Cons.prems(2)] IH [of "acc @ [?a]"] True key unfolding sel by auto
  qed
qed

text \<open>
  Property C24. A successful resolution returns each usable IPv4 or IPv6 destination the resolver gave,
  exactly once and nothing else, and at least one; it fails with a configuration error exactly when
  the resolver fails or gives no usable entry. The resolver is assumed to fill in as many address
  bytes as it announces.
\<close>

theorem resolve_addresses_exact:
  assumes "\<And>entries entry. getaddrinfo (c_str host) (to_string port) flags = Inr entries \<Longrightarrow> entry \<in> set entries \<Longrightarrow>
    ai_addrlen entry \<le> length (ai_addr entry)"
  shows "case resolve_addresses getaddrinfo host port flags of
      Inr addresses \<Rightarrow> (\<exists>entries. getaddrinfo (c_str host) (to_string port) flags = Inr entries \<and> addresses \<noteq> [] \<and>
        distinct (map address_key addresses) \<and>
        address_key ` set addresses = entry_key ` {entry \<in> set entries. usable_entry entry})
    | Inl error \<Rightarrow> (\<exists>m. error = ConfigError m) \<and>
        (\<forall>entries. getaddrinfo (c_str host) (to_string port) flags = Inr entries \<longrightarrow> (\<forall>entry\<in>set entries. \<not> usable_entry entry))"
proof (cases "getaddrinfo (c_str host) (to_string port) flags")
  case (Inl m)
  then show ?thesis by (simp add: resolve_addresses_def)
next
  case (Inr entries)
  with assms have len: "\<And>entry. entry \<in> set entries \<Longrightarrow> ai_addrlen entry \<le> length (ai_addr entry)" by blast
  have k: "distinct (map address_key (collect_addresses entries []))"
    "address_key ` set (collect_addresses entries []) = entry_key ` {entry \<in> set entries. usable_entry entry}"
    using collect_addresses_keys [of entries "[]"] len by simp_all
  show ?thesis
  proof (cases "collect_addresses entries [] = []")
    case True
    with k(2) have "\<forall>entry\<in>set entries. \<not> usable_entry entry" by auto
    with True Inr show ?thesis by (simp add: resolve_addresses_def)
  next
    case False
    with k Inr show ?thesis by (simp add: resolve_addresses_def)
  qed
qed

definition loopback_resolver :: resolver where
  "loopback_resolver host port flags =
     (if host = ''localhost''
      then Inr [\<lparr>ai_family = AF_INET, ai_addrlen = 16, ai_addr = [2, 0, 0, 80, 127, 0, 0, 1, 0, 0, 0, 0, 0, 0, 0, 0]\<rparr>]
      else Inl ''unknown name'')"

theorem resolve_addresses_exact_witness:
  "case resolve_addresses loopback_resolver ''localhost'' 80 0 of
      Inr addresses \<Rightarrow> (\<exists>entries. loopback_resolver (c_str ''localhost'') (to_string 80) 0 = Inr entries \<and> addresses \<noteq> [] \<and>
        distinct (map address_key addresses) \<and>
        address_key ` set addresses = entry_key ` {entry \<in> set entries. usable_entry entry})
    | Inl error \<Rightarrow> False"
proof -
  have "resolve_addresses loopback_resolver ''localhost'' 80 0 =
      Inr [\<lparr>sa_value = [2, 0, 0, 80, 127, 0, 0, 1, 0, 0, 0, 0, 0, 0, 0, 0] @ replicate 112 0,
            sa_length = 16, sa_family = AF_INET\<rparr>]"
    by code_simp
  moreover have "ai_addrlen entry \<le> length (ai_addr entry)"
    if "loopback_resolver (c_str ''localhost'') (to_string 80) 0 = Inr entries" "entry \<in> set entries" for entries entry
    using that by (auto simp: loopback_resolver_def split: if_splits)
  ultimately show ?thesis
    using resolve_addresses_exact [of loopback_resolver "''localhost''" 80 0] by (simp only: sum.case)
qed

text \<open>
  Property C25. Two address lists count as the same exactly when they hold the same destinations with
  the same multiplicities, in whatever order the resolver returned them; so a re-resolution that only
  rotates the records is no change.
\<close>

theorem same_addresses_order_blind:
  "same_addresses left right \<longleftrightarrow>
     mset (map (\<lambda>a. (sa_family a, sa_length a, take (sa_length a) (sa_value a))) left) =
     mset (map (\<lambda>a. (sa_family a, sa_length a, take (sa_length a) (sa_value a))) right)"
  unfolding same_addresses_iff address_key_def [abs_def] ..

section \<open>What a client key identifies\<close>

lemma bit_byte_ff: "bit (0xff :: byte) n \<longleftrightarrow> n < 8"
proof -
  have "(0xff :: byte) = - 1" by simp
  then show ?thesis by (simp only: bit_minus_1_iff) (simp add: possible_bit_word)
qed

lemma bit_prefix_mask: "r \<le> 8 \<Longrightarrow> n < 8 \<Longrightarrow> bit (push_bit (8 - r) (0xff :: byte)) n \<longleftrightarrow> 8 - r \<le> n"
  unfolding bit_push_bit_iff bit_byte_ff by auto

lemma mask_address_length: "length (mask_address p a) = length a"
  if "p \<le> 8 * length a"
  using that by (auto simp: mask_address_def Let_def min_def)

lemma bit_mask_address:
  assumes "j < length a" and "n < 8" and "p \<le> 8 * length a"
  shows "bit (mask_address p a ! j) n \<longleftrightarrow> bit (a ! j) n \<and> 8 * j + (7 - n) < p"
proof -
  have p: "p = 8 * (p div 8) + p mod 8" by simp
  have r: "p mod 8 < 8" by simp
  consider "j < p div 8" | "j = p div 8" | "p div 8 < j" by linarith
  then show ?thesis
  proof cases
    case 1
    with p assms have "8 * j + (7 - n) < p" by linarith
    with 1 assms show ?thesis by (auto simp: mask_address_def Let_def nth_append)
  next
    case 2
    have "8 * j + (7 - n) < p \<longleftrightarrow> 7 - n < p mod 8" using p unfolding 2 by linarith
    also have "\<dots> \<longleftrightarrow> 8 - p mod 8 \<le> n" using assms(2) r by linarith
    finally show ?thesis
      using 2 assms bit_prefix_mask [of "p mod 8" n] r
      by (auto simp: mask_address_def Let_def nth_append bit_and_iff)
  next
    case 3
    with p r have "\<not> 8 * j + (7 - n) < p" by linarith
    with 3 assms show ?thesis by (auto simp: mask_address_def Let_def nth_append)
  qed
qed

text \<open>The bits of an address, in network order.\<close>

definition address_bit :: "byte list \<Rightarrow> nat \<Rightarrow> bool" where
  "address_bit a i = bit (a ! (i div 8)) (7 - i mod 8)"

lemma mask_address_eq_iff:
  assumes "length a = length b" and "p \<le> 8 * length a"
  shows "mask_address p a = mask_address p b \<longleftrightarrow> (\<forall>i<p. address_bit a i = address_bit b i)"
proof
  assume eq: "mask_address p a = mask_address p b"
  show "\<forall>i<p. address_bit a i = address_bit b i"
  proof (intro allI impI)
    fix i assume i: "i < p"
    then have j: "i div 8 < length a" using assms(2) by auto
    have n: "7 - i mod 8 < 8" and whole: "8 * (i div 8) + (7 - (7 - i mod 8)) = i" by simp_all
    from bit_mask_address [OF j n assms(2)] bit_mask_address [of "i div 8" b "7 - i mod 8" p] eq i j n assms
    show "address_bit a i = address_bit b i" by (simp add: address_bit_def whole)
  qed
next
  assume bits: "\<forall>i<p. address_bit a i = address_bit b i"
  show "mask_address p a = mask_address p b"
  proof (rule nth_equalityI)
    show "length (mask_address p a) = length (mask_address p b)" using assms by (simp add: mask_address_length)
    fix j assume "j < length (mask_address p a)"
    then have j: "j < length a" using assms by (simp add: mask_address_length)
    show "mask_address p a ! j = mask_address p b ! j"
    proof (rule bit_word_eqI)
      fix n assume "n < LENGTH(8)"
      then have n: "n < 8" by simp
      define m where "m = 7 - n"
      with n have "m < 8" "n = 7 - m" by simp_all
      then have "(8 * j + (7 - n)) div 8 = j" "7 - (8 * j + (7 - n)) mod 8 = n"
        unfolding m_def [symmetric] by simp_all
      with bits have "8 * j + (7 - n) < p \<Longrightarrow> bit (a ! j) n = bit (b ! j) n"
        unfolding address_bit_def by metis
      with bit_mask_address [OF j n assms(2)] bit_mask_address [of j b n p] n j assms
      show "bit (mask_address p a ! j) n = bit (mask_address p b ! j) n" by auto
    qed
  qed
qed

definition plain_ipv6 :: "sockaddr_storage \<Rightarrow> bool" where
  "plain_ipv6 s \<longleftrightarrow> length s = sockaddr_bytes \<and> ss_family s = AF_INET6 \<and> \<not> is_v4mapped (sin6_addr s)"

text \<open>
  Property C26. Two IPv6 clients share a rate-limit key exactly when the first \<open>bits\<close> bits of their
  addresses agree, for every prefix length up to 128, and an IPv6 client never shares a key with an
  IPv4 one.
\<close>

theorem ipv6_key_is_prefix:
  assumes "plain_ipv6 s" and "plain_ipv6 t" and "bits \<le> 128" and "ss_family v4 = AF_INET"
  shows "(client_rate_limit_key s bits = client_rate_limit_key t bits \<longleftrightarrow>
      (\<forall>i<bits. address_bit (sin6_addr s) i = address_bit (sin6_addr t) i)) \<and>
    client_rate_limit_key s bits \<noteq> client_rate_limit_key v4 bits"
proof -
  have len: "length (sin6_addr s) = 16" "length (sin6_addr t) = 16"
    using assms(1,2) by (simp_all add: plain_ipv6_def sin6_addr_def sockaddr_bytes_def)
  with assms(3) mask_address_eq_iff [of "sin6_addr s" "sin6_addr t" bits]
  show ?thesis
    using assms(1,2,4)
    by (simp add: client_rate_limit_key_def plain_ipv6_def AF_INET_def AF_INET6_def ipv4_client_key_def)
qed

definition ipv6_sockaddr :: "byte list \<Rightarrow> sockaddr_storage" where
  "ipv6_sockaddr a = [10, 0, 0, 80, 0, 0, 0, 0] @ a @ replicate 104 0"

definition ipv4_sockaddr :: "byte list \<Rightarrow> sockaddr_storage" where
  "ipv4_sockaddr a = [2, 0, 0, 80] @ a @ replicate 120 0"

theorem ipv6_key_is_prefix_witness:
  "client_rate_limit_key (ipv6_sockaddr (replicate 8 1 @ replicate 8 2)) 68 =
     client_rate_limit_key (ipv6_sockaddr (replicate 8 1 @ replicate 8 3)) 68 \<and>
   client_rate_limit_key (ipv6_sockaddr (replicate 8 1 @ replicate 8 2)) 68 \<noteq>
     client_rate_limit_key (ipv4_sockaddr [10, 0, 0, 1]) 68"
proof -
  let ?s = "ipv6_sockaddr (replicate 8 1 @ replicate 8 2)" and ?t = "ipv6_sockaddr (replicate 8 1 @ replicate 8 3)"
  have h: "plain_ipv6 ?s" "plain_ipv6 ?t" "(68 :: nat) \<le> 128" "ss_family (ipv4_sockaddr [10, 0, 0, 1]) = AF_INET"
    by code_simp+
  have "\<forall>i<68. address_bit (sin6_addr ?s) i = address_bit (sin6_addr ?t) i" by code_simp
  with ipv6_key_is_prefix [OF h] show ?thesis by blast
qed

text \<open>
  A client that reaches an IPv6 listener through an IPv4-mapped address has the same
  rate-limit key as when it connects over IPv4, whatever the configured prefix, and IPv4 keys
  distinguish all four address bytes.
\<close>

lemma ipv4_mapped_key:
  assumes "length v4 = 4" and "length w4 = 4"
  shows "client_rate_limit_key (ipv6_sockaddr (replicate 10 0 @ [0xff, 0xff] @ v4)) bits =
      client_rate_limit_key (ipv4_sockaddr v4) bits' \<and>
    (client_rate_limit_key (ipv4_sockaddr v4) bits = client_rate_limit_key (ipv4_sockaddr w4) bits' \<longleftrightarrow> v4 = w4)"
proof -
  have v4_key: "client_rate_limit_key (ipv4_sockaddr a) n = ipv4_client_key a" if "length a = 4" for a n
    using that by (simp add: client_rate_limit_key_def ipv4_sockaddr_def ss_family_def AF_INET_def sin_addr_def)
  have "sin6_addr (ipv6_sockaddr (replicate 10 0 @ [0xff, 0xff] @ v4)) = replicate 10 0 @ [0xff, 0xff] @ v4"
    using assms(1) by (simp add: sin6_addr_def ipv6_sockaddr_def)
  moreover have "ss_family (ipv6_sockaddr a) = AF_INET6" for a
    by (simp add: ss_family_def ipv6_sockaddr_def AF_INET6_def)
  moreover have "is_v4mapped (replicate 10 0 @ [0xff, 0xff] @ v4)" by (simp add: is_v4mapped_def)
  ultimately have "client_rate_limit_key (ipv6_sockaddr (replicate 10 0 @ [0xff, 0xff] @ v4)) bits = ipv4_client_key v4"
    by (simp add: client_rate_limit_key_def AF_INET_def AF_INET6_def)
  then show ?thesis using v4_key assms by (simp add: ipv4_client_key_def)
qed

lemma ipv4_mapped_key_witness:
  "client_rate_limit_key (ipv6_sockaddr (replicate 10 0 @ [0xff, 0xff] @ [192, 0, 2, 7])) 64 =
     client_rate_limit_key (ipv4_sockaddr [192, 0, 2, 7]) 56"
  using ipv4_mapped_key [of "[192, 0, 2, 7]" "[192, 0, 2, 7]" 64 56] by simp

end
