(* ===== verification/Binary64.thy ===== *)
theory Binary64
  imports Pool_Prelude "HOL-Library.Log_Nat"
begin

text \<open>
  The C++ type \<^verbatim>\<open>double\<close> as the sources use it: IEEE 754 binary64 with rounding to nearest, ties to
  even. A finite value is the rational it denotes, so \<^verbatim>\<open>-0.0\<close> and \<^verbatim>\<open>0.0\<close> are one value; the sources
  compare and add such values only, which cannot tell them apart. The rounding function is
  executable; it is shown to be monotone and exact on every representable value, which is what the
  token buckets need.
\<close>

section \<open>Rounding to 53 significant bits\<close>

definition pow2 :: "int \<Rightarrow> rat" where
  "pow2 k = (if 0 \<le> k then 2 ^ nat k else 1 / 2 ^ nat (- k))"

text \<open>The exponent of the leading bit of a positive rational.\<close>

definition leading_exponent :: "rat \<Rightarrow> int" where
  "leading_exponent x =
     (let (p, q) = quotient_of x; k = bitlen p - bitlen q in if pow2 k \<le> x then k else k - 1)"

definition round_half_even :: "rat \<Rightarrow> int" where
  "round_half_even y =
     (let f = \<lfloor>y\<rfloor>; d = y - of_int f
      in if d < 1/2 then f else if 1/2 < d then f + 1 else if even f then f else f + 1)"

definition unit_exponent :: "rat \<Rightarrow> int" where
  "unit_exponent x = max (leading_exponent x - 52) (- 1074)"

definition round_positive :: "rat \<Rightarrow> rat" where
  "round_positive x = (let u = unit_exponent x in of_int (round_half_even (x / pow2 u)) * pow2 u)"

definition round64 :: "rat \<Rightarrow> rat" where
  "round64 x = (if x = 0 then 0 else if 0 < x then round_positive x else - round_positive (- x))"

section \<open>Powers of two and the leading exponent\<close>

lemma pow2_pos [simp]: "0 < pow2 k" and pow2_nonneg [simp]: "0 \<le> pow2 k" and pow2_neq0 [simp]: "pow2 k \<noteq> 0"
  by (simp_all add: pow2_def)

lemma pow2_not_neg [simp]: "\<not> pow2 k < 0"
  by (simp add: not_less)

lemma pow2_powi: "pow2 k = 2 powi k"
  by (auto simp: pow2_def power_int_def field_simps)

lemma pow2_add: "pow2 (a + b) = pow2 a * pow2 b"
  by (simp add: pow2_powi power_int_add)

lemma pow2_diff: "pow2 (a - b) = pow2 a / pow2 b"
  by (simp add: pow2_powi power_int_diff)

lemma pow2_strict_mono: "a < b \<Longrightarrow> pow2 a < pow2 b"
  by (simp add: pow2_powi power_int_strict_increasing)

lemma pow2_less_iff [simp]: "pow2 a < pow2 b \<longleftrightarrow> a < b"
  by (metis linorder_neq_iff order.asym pow2_strict_mono)

lemma pow2_le_iff [simp]: "pow2 a \<le> pow2 b \<longleftrightarrow> a \<le> b"
  by (simp flip: not_less)

lemma pow2_nat: "0 \<le> k \<Longrightarrow> pow2 k = of_int (2 ^ nat k)"
  by (simp add: pow2_def)

lemma pow2_Suc: "pow2 (k + 1) = 2 * pow2 k"
  by (simp add: pow2_add) (simp add: pow2_def)

lemma bitlen_rat_bounds:
  assumes "0 < p"
  shows "pow2 (bitlen p - 1) \<le> of_int p" and "of_int p < pow2 (bitlen p)"
proof -
  have b: "0 < bitlen p" using assms bitlen_nonneg [of p] bitlen_eq_zero_iff [of p] by linarith
  have "2 ^ nat (bitlen p - 1) \<le> p \<and> p < 2 ^ nat (bitlen p)" by (rule bitlen_bounds [OF assms])
  then have "(of_int (2 ^ nat (bitlen p - 1)) :: rat) \<le> of_int p" "(of_int p :: rat) < of_int (2 ^ nat (bitlen p))"
    by (simp_all only: of_int_le_iff of_int_less_iff)
  with b show "pow2 (bitlen p - 1) \<le> of_int p" and "of_int p < pow2 (bitlen p)"
    by (simp_all add: pow2_nat)
qed

lemma leading_exponent_bounds:
  assumes "0 < x"
  shows "pow2 (leading_exponent x) \<le> x" and "x < pow2 (leading_exponent x + 1)"
proof -
  obtain p q where pq: "quotient_of x = (p, q)" by (cases "quotient_of x")
  define k where "k = bitlen p - bitlen q"
  have q: "0 < q" using quotient_of_denom_pos [OF pq] .
  have x: "x = of_int p / of_int q" by (rule quotient_of_div [OF pq])
  with assms q have p: "0 < p" by (simp add: zero_less_divide_iff)
  have "x < pow2 (bitlen p) / pow2 (bitlen q - 1)"
    unfolding x using bitlen_rat_bounds [OF p] bitlen_rat_bounds [OF q] p q
    by (intro frac_less) simp_all
  also have "\<dots> = pow2 (k + 1)" by (simp add: k_def flip: pow2_diff) (simp add: algebra_simps)
  finally have up: "x < pow2 (k + 1)" .
  have "pow2 (bitlen p - 1) / pow2 (bitlen q) < x"
    unfolding x using bitlen_rat_bounds [OF p] bitlen_rat_bounds [OF q] p q
    by (intro frac_less2) simp_all
  also have "pow2 (bitlen p - 1) / pow2 (bitlen q) = pow2 (k - 1)"
    by (simp add: k_def flip: pow2_diff) (simp add: algebra_simps)
  finally have low: "pow2 (k - 1) < x" .
  show "pow2 (leading_exponent x) \<le> x" and "x < pow2 (leading_exponent x + 1)"
    using up low by (auto simp: leading_exponent_def pq Let_def simp flip: k_def)
qed

lemma leading_exponent_unique: "pow2 e \<le> x \<Longrightarrow> x < pow2 (e + 1) \<Longrightarrow> leading_exponent x = e"
proof -
  assume e: "pow2 e \<le> x" "x < pow2 (e + 1)"
  then have "0 < x" by (meson less_le_trans pow2_pos)
  note b = leading_exponent_bounds [OF this]
  from e b have "pow2 e < pow2 (leading_exponent x + 1)" "pow2 (leading_exponent x) < pow2 (e + 1)"
    by linarith+
  then show ?thesis by simp
qed

lemma leading_exponent_mono:
  assumes "0 < x" and "x \<le> y"
  shows "leading_exponent x \<le> leading_exponent y"
proof -
  have "pow2 (leading_exponent x) < pow2 (leading_exponent y + 1)"
    using leading_exponent_bounds(1) [OF assms(1)] leading_exponent_bounds(2) [of y] assms by linarith
  then show ?thesis by simp
qed

section \<open>Rounding is monotone\<close>

lemma round_half_even_cases:
  "round_half_even y = \<lfloor>y\<rfloor> \<or> round_half_even y = \<lfloor>y\<rfloor> + 1"
  by (auto simp: round_half_even_def Let_def)

lemma round_half_even_of_int [simp]: "round_half_even (of_int n) = n"
  by (simp add: round_half_even_def)

lemma round_half_even_mono:
  assumes "x \<le> y"
  shows "round_half_even x \<le> round_half_even y"
proof (cases "\<lfloor>x\<rfloor> = \<lfloor>y\<rfloor>")
  case True
  with assms show ?thesis by (auto simp: round_half_even_def Let_def)
next
  case False
  with floor_mono [OF assms] have "\<lfloor>x\<rfloor> + 1 \<le> \<lfloor>y\<rfloor>" by linarith
  with round_half_even_cases [of x] round_half_even_cases [of y] show ?thesis by linarith
qed

definition round_at :: "int \<Rightarrow> rat \<Rightarrow> rat" where
  "round_at u x = of_int (round_half_even (x / pow2 u)) * pow2 u"

lemma round_positive_at: "round_positive x = round_at (unit_exponent x) x"
  by (simp add: round_positive_def round_at_def Let_def)

lemma round_at_mono: "x \<le> y \<Longrightarrow> round_at u x \<le> round_at u y"
  by (simp add: round_at_def round_half_even_mono divide_right_mono)

lemma round_at_exact: "u \<le> k \<Longrightarrow> round_at u (of_int m * pow2 k) = of_int m * pow2 k"
proof -
  assume "u \<le> k"
  then have "of_int m * pow2 k / pow2 u = (of_int (m * 2 ^ nat (k - u)) :: rat)"
    by (simp add: pow2_nat flip: pow2_diff times_divide_eq_right)
  then show ?thesis
    by (simp only: round_at_def round_half_even_of_int) (metis nonzero_eq_divide_eq pow2_neq0)
qed

lemma round_at_pow2: "u \<le> k \<Longrightarrow> round_at u (pow2 k) = pow2 k"
  using round_at_exact [of u k 1] by simp

lemma round_positive_mono:
  assumes "0 < x" and "x \<le> y"
  shows "round_positive x \<le> round_positive y"
proof (cases "unit_exponent x = unit_exponent y")
  case True
  then show ?thesis using assms(2) by (simp add: round_positive_at round_at_mono)
next
  case False
  let ?u = "unit_exponent x" and ?ex = "leading_exponent x" and ?ey = "leading_exponent y"
  have le: "?ex \<le> ?ey" by (rule leading_exponent_mono [OF assms])
  with False have ex: "?ex < ?ey" and uy: "unit_exponent y = ?ey - 52" and ux: "?u < ?ey"
    by (auto simp: unit_exponent_def max_def split: if_splits)
  have "round_positive x \<le> round_at ?u (pow2 (max (?ex + 1) ?u))"
    unfolding round_positive_at
    by (rule round_at_mono) (rule order.trans [OF less_imp_le [OF leading_exponent_bounds(2) [OF assms(1)]]], simp)
  also have "\<dots> = pow2 (max (?ex + 1) ?u)" by (rule round_at_pow2) simp
  also have "\<dots> \<le> pow2 ?ey" using ex ux by simp
  also have "\<dots> = round_at (unit_exponent y) (pow2 ?ey)" by (rule round_at_pow2 [symmetric]) (simp add: uy)
  also have "\<dots> \<le> round_positive y"
    unfolding round_positive_at
    by (rule round_at_mono) (use leading_exponent_bounds(1) [of y] assms in linarith)
  finally show ?thesis .
qed

lemma round_positive_nonneg: "0 < x \<Longrightarrow> 0 \<le> round_positive x"
  using round_at_mono [of 0 x "unit_exponent x"] round_at_exact [of "unit_exponent x" "unit_exponent x" 0]
  by (simp add: round_positive_at)

lemma round64_mono: "x \<le> y \<Longrightarrow> round64 x \<le> round64 y"
  using round_positive_mono [of x y] round_positive_mono [of "- y" "- x"]
    round_positive_nonneg [of y] round_positive_nonneg [of "- x"]
  by (auto simp: round64_def)

section \<open>Rounding is exact on representable values\<close>

lemma round_positive_exact:
  assumes "0 < m" and "m \<le> 2 ^ 53" and "- 1074 \<le> k"
  shows "round_positive (of_int m * pow2 k) = of_int m * pow2 k"
proof (cases "m = 2 ^ 53")
  case True
  have x: "of_int m * pow2 k = pow2 (53 + k)"
    by (simp add: True pow2_add) (simp add: pow2_def)
  have "leading_exponent (pow2 (53 + k)) = 53 + k" by (rule leading_exponent_unique) simp_all
  then have "unit_exponent (pow2 (53 + k)) \<le> 53 + k" using assms(3) by (simp add: unit_exponent_def)
  then show ?thesis by (simp add: x round_positive_at round_at_pow2)
next
  case False
  with assms(2) have "m < 2 ^ 53" by simp
  then have "of_int m < pow2 53" by (simp add: pow2_def)
  then have lt: "of_int m * pow2 k < pow2 (53 + k)" by (simp add: pow2_add)
  have pos: "0 < of_int m * pow2 k" using assms(1) by simp
  from leading_exponent_bounds(1) [OF pos] lt have "pow2 (leading_exponent (of_int m * pow2 k)) < pow2 (53 + k)"
    by (rule le_less_trans)
  then have "unit_exponent (of_int m * pow2 k) \<le> k" using assms(3) by (simp add: unit_exponent_def)
  then show ?thesis by (simp add: round_positive_at round_at_exact)
qed

lemma round64_exact:
  assumes "\<bar>m\<bar> \<le> 2 ^ 53" and "- 1074 \<le> k"
  shows "round64 (of_int m * pow2 k) = of_int m * pow2 k"
proof (cases m "0 :: int" rule: linorder_cases)
  case less
  have "round_positive (of_int (- m) * pow2 k) = of_int (- m) * pow2 k"
    using less assms by (intro round_positive_exact) simp_all
  with less show ?thesis by (simp add: round64_def mult_less_0_iff zero_less_mult_iff)
next
  case equal
  then show ?thesis by (simp add: round64_def)
next
  case greater
  then show ?thesis
    using assms round_positive_exact [of m k] by (simp add: round64_def zero_less_mult_iff)
qed

lemma round64_of_int: "\<bar>n\<bar> \<le> 2 ^ 53 \<Longrightarrow> round64 (of_int n) = of_int n"
  using round64_exact [of n 0] by (simp add: pow2_def)

lemma round_positive_form:
  assumes "0 < x"
  obtains m k where "round_positive x = of_int m * pow2 k" and "0 \<le> m" and "m \<le> 2 ^ 53" and "- 1074 \<le> k"
proof -
  let ?u = "unit_exponent x" and ?m = "round_half_even (x / pow2 (unit_exponent x))"
  have "x / pow2 ?u \<le> pow2 (leading_exponent x + 1) / pow2 ?u"
    using leading_exponent_bounds(2) [OF assms] by (intro divide_right_mono) simp_all
  also have "\<dots> \<le> pow2 53" by (simp add: unit_exponent_def flip: pow2_diff)
  also have "\<dots> = of_int (2 ^ 53)" by (simp add: pow2_def)
  finally have "?m \<le> 2 ^ 53" by (metis round_half_even_mono round_half_even_of_int)
  moreover have "0 \<le> ?m"
    using round_half_even_mono [of 0 "x / pow2 ?u"] round_half_even_of_int [of 0] assms by simp
  moreover have "- 1074 \<le> ?u" by (simp add: unit_exponent_def)
  ultimately show ?thesis using that [of ?m ?u] by (simp add: round_positive_def Let_def)
qed

lemma round64_idem [simp]: "round64 (round64 x) = round64 x"
proof -
  have form: "\<exists>m k. round64 x = of_int m * pow2 k \<and> \<bar>m\<bar> \<le> 2 ^ 53 \<and> - 1074 \<le> k"
  proof (cases x "0 :: rat" rule: linorder_cases)
    case less
    then have "0 < - x" by simp
    from round_positive_form [OF this] obtain m k where
      "round_positive (- x) = of_int m * pow2 k" "0 \<le> m" "m \<le> 2 ^ 53" "- 1074 \<le> k" .
    with less show ?thesis by (intro exI [of _ "- m"] exI [of _ k]) (simp add: round64_def)
  next
    case equal
    then show ?thesis by (intro exI [of _ 0] exI [of _ 0]) (simp add: round64_def)
  next
    case greater
    from round_positive_form [OF this] obtain m k where
      "round_positive x = of_int m * pow2 k" "0 \<le> m" "m \<le> 2 ^ 53" "- 1074 \<le> k" .
    with greater show ?thesis by (intro exI [of _ m] exI [of _ k]) (simp add: round64_def)
  qed
  then show ?thesis using round64_exact by metis
qed

lemma round64_zero [simp]: "round64 0 = 0"
  by (simp add: round64_def)

lemma round64_nonneg: "0 \<le> x \<Longrightarrow> 0 \<le> round64 x"
  using round64_mono [of 0 x] by simp

section \<open>The type double\<close>

datatype double = Fin rat | PInf | NInf | NaN

definition overflow_bound :: rat where
  "overflow_bound = 2 ^ 1024"

text \<open>The nearest double: too large a magnitude rounds to an infinity.\<close>

definition to_double :: "rat \<Rightarrow> double" where
  "to_double x =
     (let r = round64 x
      in if overflow_bound \<le> r then PInf else if r \<le> - overflow_bound then NInf else Fin r)"

definition double_of_nat :: "nat \<Rightarrow> double" where
  "double_of_nat n = to_double (of_nat n)"

fun double_add :: "double \<Rightarrow> double \<Rightarrow> double" where
  "double_add (Fin a) (Fin b) = to_double (a + b)"
| "double_add NaN _ = NaN"
| "double_add _ NaN = NaN"
| "double_add PInf NInf = NaN"
| "double_add NInf PInf = NaN"
| "double_add PInf _ = PInf"
| "double_add _ PInf = PInf"
| "double_add NInf _ = NInf"
| "double_add _ NInf = NInf"

fun double_neg :: "double \<Rightarrow> double" where
  "double_neg (Fin a) = Fin (- a)"
| "double_neg PInf = NInf"
| "double_neg NInf = PInf"
| "double_neg NaN = NaN"

definition double_sub :: "double \<Rightarrow> double \<Rightarrow> double" where
  "double_sub a b = double_add a (double_neg b)"

definition signed_inf :: "rat \<Rightarrow> double" where
  "signed_inf s = (if 0 < s then PInf else if s < 0 then NInf else NaN)"

fun double_mul :: "double \<Rightarrow> double \<Rightarrow> double" where
  "double_mul (Fin a) (Fin b) = to_double (a * b)"
| "double_mul NaN _ = NaN"
| "double_mul _ NaN = NaN"
| "double_mul (Fin a) PInf = signed_inf a"
| "double_mul (Fin a) NInf = signed_inf (- a)"
| "double_mul PInf (Fin a) = signed_inf a"
| "double_mul NInf (Fin a) = signed_inf (- a)"
| "double_mul PInf PInf = PInf"
| "double_mul NInf NInf = PInf"
| "double_mul _ _ = NInf"

fun double_div :: "double \<Rightarrow> double \<Rightarrow> double" where
  "double_div (Fin a) (Fin b) = (if b = 0 then signed_inf a else to_double (a / b))"
| "double_div NaN _ = NaN"
| "double_div _ NaN = NaN"
| "double_div (Fin a) _ = Fin 0"
| "double_div PInf (Fin b) = (if b < 0 then NInf else PInf)"
| "double_div NInf (Fin b) = (if b < 0 then PInf else NInf)"
| "double_div _ _ = NaN"

fun double_less :: "double \<Rightarrow> double \<Rightarrow> bool" where
  "double_less (Fin a) (Fin b) = (a < b)"
| "double_less NaN _ = False"
| "double_less _ NaN = False"
| "double_less NInf b = (b \<noteq> NInf)"
| "double_less a PInf = (a \<noteq> PInf)"
| "double_less _ _ = False"

fun isfinite :: "double \<Rightarrow> bool" where
  "isfinite (Fin _) = True"
| "isfinite _ = False"

fun double_floor :: "double \<Rightarrow> double" where
  "double_floor (Fin a) = Fin (of_int \<lfloor>a\<rfloor>)"
| "double_floor d = d"

fun double_ceil :: "double \<Rightarrow> double" where
  "double_ceil (Fin a) = Fin (of_int \<lceil>a\<rceil>)"
| "double_ceil d = d"

text \<open>\<^verbatim>\<open>std::min\<close> and \<^verbatim>\<open>std::clamp\<close>, with the operand order of the standard.\<close>

definition double_min :: "double \<Rightarrow> double \<Rightarrow> double" where
  "double_min a b = (if double_less b a then b else a)"

definition double_clamp :: "double \<Rightarrow> double \<Rightarrow> double \<Rightarrow> double" where
  "double_clamp v lo hi = (if double_less v lo then lo else if double_less hi v then hi else v)"

text \<open>\<^verbatim>\<open>duration<double>(d).count()\<close>: a nanosecond count converted and divided by the nanoseconds of a second.\<close>

definition elapsed_seconds :: "int \<Rightarrow> double" where
  "elapsed_seconds d = double_div (to_double (of_int d)) (Fin 1000000000)"

section \<open>Bounds the token buckets use\<close>

lemma round64_overflow_bound: "round64 overflow_bound = overflow_bound"
  using round64_exact [of 1 1024] by (simp add: pow2_def overflow_bound_def)

lemma to_double_Fin: "- overflow_bound < round64 x \<Longrightarrow> round64 x < overflow_bound \<Longrightarrow> to_double x = Fin (round64 x)"
  by (simp add: to_double_def Let_def)

text \<open>Every finite result of an operation is representable.\<close>

definition representable :: "rat \<Rightarrow> bool" where
  "representable x \<longleftrightarrow> round64 x = x \<and> \<bar>x\<bar> < overflow_bound"

lemma to_double_representable: "to_double x = Fin y \<Longrightarrow> representable y"
  by (auto simp: to_double_def Let_def representable_def split: if_splits)

lemma overflow_bound_pos: "0 < overflow_bound"
  by (simp add: overflow_bound_def)

text \<open>A value between zero and a representable bound stays between them when it is rounded.\<close>

lemma to_double_between:
  assumes "0 \<le> x" and "x \<le> b" and "representable b"
  shows "\<exists>y. to_double x = Fin y \<and> 0 \<le> y \<and> y \<le> b"
proof -
  have "0 \<le> round64 x" by (rule round64_nonneg [OF assms(1)])
  moreover have "round64 x \<le> b" using round64_mono [OF assms(2)] assms(3) by (simp add: representable_def)
  moreover have "b < overflow_bound" using assms(3) by (auto simp: representable_def)
  ultimately show ?thesis using overflow_bound_pos by (auto simp: to_double_Fin)
qed

lemma double_of_nat_Fin:
  assumes "n \<le> 2 ^ 64"
  shows "\<exists>y. double_of_nat n = Fin y \<and> 0 \<le> y \<and> representable y"
proof -
  have "of_nat n \<le> (2 ^ 64 :: rat)" using assms by (metis of_nat_le_iff of_nat_numeral of_nat_power)
  moreover have "representable (2 ^ 64)"
    using round64_exact [of 1 64] by (simp add: pow2_def representable_def overflow_bound_def)
  ultimately obtain y where "to_double (of_nat n) = Fin y" "0 \<le> y"
    using to_double_between [of "of_nat n" "2 ^ 64"] by auto
  then show ?thesis using to_double_representable [of "of_nat n" y] by (auto simp: double_of_nat_def)
qed

lemma double_of_nat_exact: "n \<le> 2 ^ 53 \<Longrightarrow> double_of_nat n = Fin (of_nat n)"
proof -
  assume n: "n \<le> 2 ^ 53"
  then have r: "round64 (of_nat n) = of_nat n" using round64_of_int [of "int n"] by simp
  have "(of_nat n :: rat) \<le> 2 ^ 53" using n by (metis of_nat_le_iff of_nat_numeral of_nat_power)
  also have "\<dots> < overflow_bound" by (simp add: overflow_bound_def)
  finally show ?thesis
    using overflow_bound_pos by (simp add: double_of_nat_def to_double_Fin r less_le_trans [of _ 0])
qed

lemma to_double_int: "\<bar>n\<bar> \<le> 2 ^ 53 \<Longrightarrow> to_double (of_int n) = Fin (of_int n)"
proof -
  assume n: "\<bar>n\<bar> \<le> 2 ^ 53"
  then have r: "round64 (of_int n) = of_int n" by (rule round64_of_int)
  have "\<bar>of_int n :: rat\<bar> \<le> of_int (2 ^ 53)" using n by (simp only: of_int_abs [symmetric] of_int_le_iff)
  also have "\<dots> < overflow_bound" by (simp add: overflow_bound_def)
  finally show ?thesis by (simp add: to_double_Fin r abs_less_iff)
qed

end
