(* ===== verification/Config_Model.thy ===== *)
theory Config_Model
  imports Endpoint Binary64
begin

text \<open>
  The service configuration of \<^verbatim>\<open>src/src/core/config.hpp\<close> and \<^verbatim>\<open>config.cpp\<close>: its structures, every
  check of \<^verbatim>\<open>validate\<close> in the order of the source with its message, and the changes that need a
  restart. The YAML reader (glaze), the file system and \<^verbatim>\<open>inet_pton\<close> are arguments.
\<close>

section \<open>Structures\<close>

record listener_config =
  lc_name :: string
  lc_address :: string
  lc_tls :: bool
  lc_certificate_file :: string
  lc_private_key_file :: string

record backend_config =
  bc_name :: string
  bc_address :: string
  bc_health_address :: string
  bc_send_proxy_v2 :: bool

record pool_config =
  pc_name :: string
  pc_backends :: "backend_config list"

record health_config =
  interval_seconds :: int
  connect_timeout_milliseconds :: int
  rise_checks :: int
  fall_checks :: int

record limits_config =
  max_connections :: nat
  max_connections_per_ip :: nat
  connections_per_second_per_ip :: double
  connection_burst_per_ip :: nat
  global_connections_per_second :: double
  global_connection_burst :: nat
  ipv6_prefix_bits :: int
  max_tracked_client_ips :: nat
  client_state_retention_seconds :: int
  messages_per_second_per_connection :: double
  message_burst_per_connection :: nat
  bytes_per_second_per_connection :: double
  byte_burst_per_connection :: nat
  messages_per_second_per_ip :: double
  message_burst_per_ip :: nat
  bytes_per_second_per_ip :: double
  byte_burst_per_ip :: nat
  max_messages_per_ready_event :: nat
  max_line_bytes :: nat
  max_buffer_bytes :: nat
  max_queued_bytes :: nat
  tls_handshake_timeout_seconds :: int
  first_message_timeout_seconds :: int
  upstream_connect_timeout_milliseconds :: int
  idle_timeout_seconds :: int

definition kMaximumAdditionalProtocolMethods :: nat where "kMaximumAdditionalProtocolMethods = 64"
definition kMaximumProtocolMethodBytes :: nat where "kMaximumProtocolMethodBytes = 128"
definition kMaximumUpstreamSourceAddresses :: nat where "kMaximumUpstreamSourceAddresses = 64"

record protocol_config =
  allow_unknown_mining_methods :: bool
  additional_allowed_methods :: "string list"
  additional_initial_methods :: "string list"
  max_json_depth :: int

record config =
  cfg_listeners :: "listener_config list"
  cfg_pools :: "pool_config list"
  cfg_active_pool :: string
  cfg_failover :: bool
  cfg_upstream_source_addresses :: "string list"
  cfg_api_address :: string
  cfg_io_workers :: int
  cfg_health :: health_config
  cfg_limits :: limits_config
  cfg_protocol :: protocol_config

definition default_health :: health_config where
  "default_health =
     \<lparr>interval_seconds = 2, connect_timeout_milliseconds = 3000, rise_checks = 1, fall_checks = 3\<rparr>"

definition default_limits :: limits_config where
  "default_limits =
     \<lparr>max_connections = 100000, max_connections_per_ip = 1024, connections_per_second_per_ip = Fin 16,
      connection_burst_per_ip = 512, global_connections_per_second = Fin 5000,
      global_connection_burst = 20000, ipv6_prefix_bits = 64, max_tracked_client_ips = 262144,
      client_state_retention_seconds = 300, messages_per_second_per_connection = Fin 1024,
      message_burst_per_connection = 2048, bytes_per_second_per_connection = Fin 262144,
      byte_burst_per_connection = 524288, messages_per_second_per_ip = Fin 32768,
      message_burst_per_ip = 65536, bytes_per_second_per_ip = Fin 4194304, byte_burst_per_ip = 16777216,
      max_messages_per_ready_event = 2048, max_line_bytes = 16384, max_buffer_bytes = 262144,
      max_queued_bytes = 268435456, tls_handshake_timeout_seconds = 10,
      first_message_timeout_seconds = 15, upstream_connect_timeout_milliseconds = 15000,
      idle_timeout_seconds = 3600\<rparr>"

definition default_protocol :: protocol_config where
  "default_protocol =
     \<lparr>allow_unknown_mining_methods = True, additional_allowed_methods = [], additional_initial_methods = [],
      max_json_depth = 32\<rparr>"

definition default_config :: config where
  "default_config =
     \<lparr>cfg_listeners = [], cfg_pools = [], cfg_active_pool = [], cfg_failover = True,
      cfg_upstream_source_addresses = [], cfg_api_address = ''127.0.0.1:7778'', cfg_io_workers = 0,
      cfg_health = default_health, cfg_limits = default_limits, cfg_protocol = default_protocol\<rparr>"

section \<open>Checks\<close>

definition require_positive_int :: "int \<Rightarrow> string \<Rightarrow> unit result" where
  "require_positive_int v name = throw_if (v \<le> 0) (ConfigError (name @ '' must be greater than zero''))"

definition require_positive_size :: "nat \<Rightarrow> string \<Rightarrow> unit result" where
  "require_positive_size v name = throw_if (v = 0) (ConfigError (name @ '' must be greater than zero''))"

text \<open>\<open>value <= 0.0\<close> on doubles is not the negation of \<open>0.0 < value\<close>: both are false of a NaN.\<close>

definition require_positive_double :: "double \<Rightarrow> string \<Rightarrow> unit result" where
  "require_positive_double v name =
     throw_if (\<not> isfinite v \<or> (double_less v (Fin 0) \<or> v = Fin 0))
       (ConfigError (name @ '' must be finite and greater than zero''))"

definition printable :: "char \<Rightarrow> bool" where
  "printable c \<longleftrightarrow> 0x20 \<le> (of_char c :: nat) \<and> (of_char c :: nat) \<le> 0x7e"

fun validate_methods :: "string \<Rightarrow> string set \<Rightarrow> string list \<Rightarrow> unit result" where
  "validate_methods name unique_methods [] = Inr ()"
| "validate_methods name unique_methods (method # methods) =
     (if \<not> starts_with method ''mining.'' \<or> length method \<le> length ''mining.'' \<or>
         kMaximumProtocolMethodBytes < length method
      then Inl (ConfigError (name @ '' entries must use the mining.* namespace and be at most '' @
             to_string kMaximumProtocolMethodBytes @ '' bytes''))
      else if \<not> list_all printable method
      then Inl (ConfigError (name @ '' entries must contain printable ASCII only''))
      else if method \<in> unique_methods
      then Inl (ConfigError (name @ '' must not contain duplicates: '' @ method))
      else validate_methods name (insert method unique_methods) methods)"

definition validate_method_list :: "string list \<Rightarrow> string \<Rightarrow> unit result" where
  "validate_method_list methods name =
     (if kMaximumAdditionalProtocolMethods < length methods
      then Inl (ConfigError (name @ '' must contain at most '' @
             to_string kMaximumAdditionalProtocolMethods @ '' entries''))
      else validate_methods name {} methods)"

text \<open>\<^verbatim>\<open>inet_pton\<close>: family and text to the address bytes, when the text is a numeric address.\<close>

type_synonym address_reader = "nat \<Rightarrow> string \<Rightarrow> byte list option"

definition numeric_address_key :: "address_reader \<Rightarrow> string \<Rightarrow> byte list result" where
  "numeric_address_key inet_pton address =
     (case inet_pton AF_INET (c_str address) of
        Some ipv4 \<Rightarrow> Inr (0x04 # ipv4)
      | None \<Rightarrow>
          (case inet_pton AF_INET6 (c_str address) of
             Some ipv6 \<Rightarrow> Inr (0x06 # ipv6)
           | None \<Rightarrow> Inl (ConfigError (''upstream_source_addresses entries must be numeric IPv4 or IPv6 '' @
                       ''addresses without ports: '' @ address))))"

fun validate_sources :: "address_reader \<Rightarrow> byte list set \<Rightarrow> string list \<Rightarrow> unit result" where
  "validate_sources inet_pton unique_addresses [] = Inr ()"
| "validate_sources inet_pton unique_addresses (address # addresses) =
     (if address = []
      then Inl (ConfigError ''upstream_source_addresses entries must not be empty'')
      else and_then (numeric_address_key inet_pton address) (\<lambda>key.
        if key \<in> unique_addresses
        then Inl (ConfigError (''upstream_source_addresses must contain unique addresses: '' @ address))
        else validate_sources inet_pton (insert key unique_addresses) addresses))"

definition validate_upstream_source_addresses :: "address_reader \<Rightarrow> string list \<Rightarrow> unit result" where
  "validate_upstream_source_addresses inet_pton addresses =
     (if kMaximumUpstreamSourceAddresses < length addresses
      then Inl (ConfigError (''upstream_source_addresses must contain at most '' @
             to_string kMaximumUpstreamSourceAddresses @ '' entries''))
      else validate_sources inet_pton {} addresses)"

definition check_endpoint :: "string \<Rightarrow> unit result" where
  "check_endpoint address = and_then (parse_endpoint address) (\<lambda>_. Inr ())"

fun validate_listeners :: "string set \<Rightarrow> string set \<Rightarrow> listener_config list \<Rightarrow> unit result" where
  "validate_listeners listener_names listener_addresses [] = Inr ()"
| "validate_listeners listener_names listener_addresses (listener # listeners) =
     (if lc_name listener = [] \<or> lc_name listener \<in> listener_names
      then Inl (ConfigError ''listener names must be non-empty and unique'')
      else and_then (check_endpoint (lc_address listener)) (\<lambda>_.
        if lc_address listener \<in> listener_addresses
        then Inl (ConfigError (''listener addresses must be unique: '' @ lc_address listener))
        else if lc_tls listener \<and> (lc_certificate_file listener = [] \<or> lc_private_key_file listener = [])
        then Inl (ConfigError (''TLS listener '' @ lc_name listener @
               '' requires certificate_file and private_key_file''))
        else validate_listeners (insert (lc_name listener) listener_names)
               (insert (lc_address listener) listener_addresses) listeners))"

fun validate_backends :: "string set \<Rightarrow> backend_config list \<Rightarrow> string set result" where
  "validate_backends backend_names [] = Inr backend_names"
| "validate_backends backend_names (backend # backends) =
     (if bc_name backend = [] \<or> bc_name backend \<in> backend_names
      then Inl (ConfigError ''backend names must be non-empty and globally unique'')
      else and_then (check_endpoint (bc_address backend)) (\<lambda>_.
        and_then (if bc_health_address backend \<noteq> [] then check_endpoint (bc_health_address backend) else Inr ()) (\<lambda>_.
          validate_backends (insert (bc_name backend) backend_names) backends)))"

fun validate_pools :: "string set \<Rightarrow> string set \<Rightarrow> pool_config list \<Rightarrow> string set result" where
  "validate_pools pool_names backend_names [] = Inr pool_names"
| "validate_pools pool_names backend_names (pool # pools) =
     (if pc_name pool = [] \<or> pc_name pool \<in> pool_names
      then Inl (ConfigError ''pool names must be non-empty and unique'')
      else if pc_backends pool = []
      then Inl (ConfigError (''pool '' @ pc_name pool @ '' must contain at least one backend''))
      else and_then (validate_backends backend_names (pc_backends pool)) (\<lambda>backend_names.
        validate_pools (insert (pc_name pool) pool_names) backend_names pools))"

definition validate_health :: "health_config \<Rightarrow> unit result list" where
  "validate_health health =
     [require_positive_int (interval_seconds health) ''health.interval_seconds'',
      require_positive_int (connect_timeout_milliseconds health) ''health.connect_timeout_milliseconds'',
      require_positive_int (rise_checks health) ''health.rise_checks'',
      require_positive_int (fall_checks health) ''health.fall_checks'']"

definition validate_limits :: "limits_config \<Rightarrow> unit result list" where
  "validate_limits l =
     [require_positive_size (max_connections l) ''limits.max_connections'',
      require_positive_size (max_connections_per_ip l) ''limits.max_connections_per_ip'',
      require_positive_double (connections_per_second_per_ip l) ''limits.connections_per_second_per_ip'',
      require_positive_size (connection_burst_per_ip l) ''limits.connection_burst_per_ip'',
      require_positive_double (global_connections_per_second l) ''limits.global_connections_per_second'',
      require_positive_size (global_connection_burst l) ''limits.global_connection_burst'',
      throw_if (ipv6_prefix_bits l < 1 \<or> 128 < ipv6_prefix_bits l)
        (ConfigError ''limits.ipv6_prefix_bits must be in [1, 128]''),
      require_positive_size (max_tracked_client_ips l) ''limits.max_tracked_client_ips'',
      require_positive_int (client_state_retention_seconds l) ''limits.client_state_retention_seconds'',
      require_positive_double (messages_per_second_per_connection l) ''limits.messages_per_second_per_connection'',
      require_positive_size (message_burst_per_connection l) ''limits.message_burst_per_connection'',
      require_positive_double (bytes_per_second_per_connection l) ''limits.bytes_per_second_per_connection'',
      require_positive_size (byte_burst_per_connection l) ''limits.byte_burst_per_connection'',
      require_positive_double (messages_per_second_per_ip l) ''limits.messages_per_second_per_ip'',
      require_positive_size (message_burst_per_ip l) ''limits.message_burst_per_ip'',
      require_positive_double (bytes_per_second_per_ip l) ''limits.bytes_per_second_per_ip'',
      require_positive_size (byte_burst_per_ip l) ''limits.byte_burst_per_ip'',
      require_positive_size (max_messages_per_ready_event l) ''limits.max_messages_per_ready_event'',
      require_positive_size (max_line_bytes l) ''limits.max_line_bytes'',
      throw_if (max_buffer_bytes l < max_line_bytes l)
        (ConfigError ''limits.max_buffer_bytes must be at least limits.max_line_bytes''),
      throw_if (max_queued_bytes l < max_buffer_bytes l)
        (ConfigError ''limits.max_queued_bytes must be at least limits.max_buffer_bytes''),
      require_positive_int (tls_handshake_timeout_seconds l) ''limits.tls_handshake_timeout_seconds'',
      require_positive_int (first_message_timeout_seconds l) ''limits.first_message_timeout_seconds'',
      require_positive_int (upstream_connect_timeout_milliseconds l) ''limits.upstream_connect_timeout_milliseconds'',
      require_positive_int (idle_timeout_seconds l) ''limits.idle_timeout_seconds'']"

definition validate_protocol :: "protocol_config \<Rightarrow> unit result list" where
  "validate_protocol p =
     [throw_if (max_json_depth p < 2 \<or> 128 < max_json_depth p)
        (ConfigError ''protocol.max_json_depth must be in [2, 128]''),
      validate_method_list (additional_allowed_methods p) ''protocol.additional_allowed_methods'',
      validate_method_list (additional_initial_methods p) ''protocol.additional_initial_methods'',
      each (\<lambda>method. throw_if (method \<notin> set (additional_allowed_methods p))
          (ConfigError (''protocol.additional_initial_methods entry is not present in '' @
             ''protocol.additional_allowed_methods: '' @ method)))
        (additional_initial_methods p)]"

definition validate :: "address_reader \<Rightarrow> config \<Rightarrow> unit result" where
  "validate inet_pton config =
     in_order (
       [throw_if (cfg_listeners config = []) (ConfigError ''listeners must contain at least one entry''),
        throw_if (cfg_pools config = []) (ConfigError ''pools must contain at least one entry''),
        throw_if (cfg_active_pool config = []) (ConfigError ''active_pool must not be empty''),
        validate_listeners {} {} (cfg_listeners config),
        and_then (validate_pools {} {} (cfg_pools config)) (\<lambda>pool_names.
          throw_if (cfg_active_pool config \<notin> pool_names)
            (ConfigError (''active_pool does not name a configured pool: '' @ cfg_active_pool config))),
        validate_upstream_source_addresses inet_pton (cfg_upstream_source_addresses config),
        check_endpoint (cfg_api_address config),
        throw_if (cfg_io_workers config < 0 \<or> 256 < cfg_io_workers config)
          (ConfigError ''io_workers must be in [0, 256]'')] @
       validate_health (cfg_health config) @
       validate_limits (cfg_limits config) @
       validate_protocol (cfg_protocol config))"

section \<open>Reading a configuration\<close>

text \<open>The YAML reader fills a default configuration from the text or gives the formatted error.\<close>

type_synonym yaml_reader = "config \<Rightarrow> string \<Rightarrow> string + config"

definition from_string :: "yaml_reader \<Rightarrow> address_reader \<Rightarrow> string \<Rightarrow> config result" where
  "from_string read_yaml inet_pton text =
     (case read_yaml default_config text of
        Inl error \<Rightarrow> Inl (ConfigError (''invalid config: '' @ error))
      | Inr config \<Rightarrow> and_then (validate inet_pton config) (\<lambda>_. Inr config))"

definition from_file :: "(string \<Rightarrow> string option) \<Rightarrow> yaml_reader \<Rightarrow> address_reader \<Rightarrow> string \<Rightarrow> config result" where
  "from_file read_file read_yaml inet_pton path =
     (case read_file path of
        None \<Rightarrow> Inl (ConfigError (''cannot open config file: '' @ path))
      | Some text \<Rightarrow> from_string read_yaml inet_pton text)"

text \<open>Certificates may change without a restart; names, addresses and the TLS flag may not.\<close>

definition same_listener :: "listener_config \<Rightarrow> listener_config \<Rightarrow> bool" where
  "same_listener current candidate \<longleftrightarrow>
     lc_name current = lc_name candidate \<and> lc_address current = lc_address candidate \<and>
     lc_tls current = lc_tls candidate"

definition restart_required_changes :: "config \<Rightarrow> config \<Rightarrow> string list" where
  "restart_required_changes config replacement =
     (if list_all2 same_listener (cfg_listeners config) (cfg_listeners replacement) then [] else [''listeners'']) @
     (if cfg_api_address config \<noteq> cfg_api_address replacement then [''api_address''] else []) @
     (if cfg_io_workers config \<noteq> cfg_io_workers replacement then [''io_workers''] else [])"

section \<open>What the checks accept\<close>

text \<open>The conditions of the configuration's documentation, without the order of the checks.\<close>

definition endpoint_ok :: "string \<Rightarrow> bool" where
  "endpoint_ok a \<longleftrightarrow> (\<exists>e. parse_endpoint a = Inr e)"

definition positive_rate :: "double \<Rightarrow> bool" where
  "positive_rate r \<longleftrightarrow> (\<exists>q. r = Fin q \<and> 0 < q)"

definition method_ok :: "string \<Rightarrow> bool" where
  "method_ok method \<longleftrightarrow>
     (\<exists>suffix. method = ''mining.'' @ suffix \<and> suffix \<noteq> []) \<and> length method \<le> 128 \<and>
     (\<forall>c\<in>set method. 0x20 \<le> (of_char c :: nat) \<and> (of_char c :: nat) \<le> 0x7e)"

definition methods_ok :: "string list \<Rightarrow> bool" where
  "methods_ok methods \<longleftrightarrow> length methods \<le> 64 \<and> distinct methods \<and> (\<forall>m\<in>set methods. method_ok m)"

definition address_keys :: "address_reader \<Rightarrow> string \<Rightarrow> byte list set" where
  "address_keys inet_pton a = {k. numeric_address_key inet_pton a = Inr k}"

definition sources_ok :: "address_reader \<Rightarrow> string list \<Rightarrow> bool" where
  "sources_ok inet_pton addresses \<longleftrightarrow>
     length addresses \<le> 64 \<and>
     (\<exists>keys. map (numeric_address_key inet_pton) addresses = map Inr keys \<and> distinct keys) \<and>
     [] \<notin> set addresses"

definition listener_ok :: "listener_config \<Rightarrow> bool" where
  "listener_ok l \<longleftrightarrow>
     lc_name l \<noteq> [] \<and> endpoint_ok (lc_address l) \<and>
     (lc_tls l \<longrightarrow> lc_certificate_file l \<noteq> [] \<and> lc_private_key_file l \<noteq> [])"

definition backend_ok :: "backend_config \<Rightarrow> bool" where
  "backend_ok b \<longleftrightarrow>
     bc_name b \<noteq> [] \<and> endpoint_ok (bc_address b) \<and>
     (bc_health_address b \<noteq> [] \<longrightarrow> endpoint_ok (bc_health_address b))"

definition all_backends :: "pool_config list \<Rightarrow> backend_config list" where
  "all_backends pools = concat (map pc_backends pools)"

definition pools_ok :: "pool_config list \<Rightarrow> bool" where
  "pools_ok pools \<longleftrightarrow>
     distinct (map pc_name pools) \<and> (\<forall>p\<in>set pools. pc_name p \<noteq> [] \<and> pc_backends p \<noteq> []) \<and>
     distinct (map bc_name (all_backends pools)) \<and> (\<forall>b\<in>set (all_backends pools). backend_ok b)"

definition health_ok :: "health_config \<Rightarrow> bool" where
  "health_ok h \<longleftrightarrow>
     0 < interval_seconds h \<and> 0 < connect_timeout_milliseconds h \<and> 0 < rise_checks h \<and> 0 < fall_checks h"

definition limits_ok :: "limits_config \<Rightarrow> bool" where
  "limits_ok l \<longleftrightarrow>
     0 < max_connections l \<and> 0 < max_connections_per_ip l \<and>
     positive_rate (connections_per_second_per_ip l) \<and> 0 < connection_burst_per_ip l \<and>
     positive_rate (global_connections_per_second l) \<and> 0 < global_connection_burst l \<and>
     1 \<le> ipv6_prefix_bits l \<and> ipv6_prefix_bits l \<le> 128 \<and>
     0 < max_tracked_client_ips l \<and> 0 < client_state_retention_seconds l \<and>
     positive_rate (messages_per_second_per_connection l) \<and> 0 < message_burst_per_connection l \<and>
     positive_rate (bytes_per_second_per_connection l) \<and> 0 < byte_burst_per_connection l \<and>
     positive_rate (messages_per_second_per_ip l) \<and> 0 < message_burst_per_ip l \<and>
     positive_rate (bytes_per_second_per_ip l) \<and> 0 < byte_burst_per_ip l \<and>
     0 < max_messages_per_ready_event l \<and>
     0 < max_line_bytes l \<and> max_line_bytes l \<le> max_buffer_bytes l \<and> max_buffer_bytes l \<le> max_queued_bytes l \<and>
     0 < tls_handshake_timeout_seconds l \<and> 0 < first_message_timeout_seconds l \<and>
     0 < upstream_connect_timeout_milliseconds l \<and> 0 < idle_timeout_seconds l"

definition protocol_ok :: "protocol_config \<Rightarrow> bool" where
  "protocol_ok p \<longleftrightarrow>
     2 \<le> max_json_depth p \<and> max_json_depth p \<le> 128 \<and>
     methods_ok (additional_allowed_methods p) \<and> methods_ok (additional_initial_methods p) \<and>
     set (additional_initial_methods p) \<subseteq> set (additional_allowed_methods p)"

definition config_ok :: "address_reader \<Rightarrow> config \<Rightarrow> bool" where
  "config_ok inet_pton c \<longleftrightarrow>
     cfg_listeners c \<noteq> [] \<and> distinct (map lc_name (cfg_listeners c)) \<and>
     distinct (map lc_address (cfg_listeners c)) \<and> (\<forall>l\<in>set (cfg_listeners c). listener_ok l) \<and>
     pools_ok (cfg_pools c) \<and> cfg_active_pool c \<in> pc_name ` set (cfg_pools c) \<and>
     sources_ok inet_pton (cfg_upstream_source_addresses c) \<and> endpoint_ok (cfg_api_address c) \<and>
     0 \<le> cfg_io_workers c \<and> cfg_io_workers c \<le> 256 \<and>
     health_ok (cfg_health c) \<and> limits_ok (cfg_limits c) \<and> protocol_ok (cfg_protocol c)"

lemma check_endpoint_iff [simp]: "check_endpoint a = Inr u \<longleftrightarrow> endpoint_ok a"
  by (auto simp: check_endpoint_def endpoint_ok_def and_then_Inr_iff)

lemma require_positive_double_iff: "require_positive_double v name = Inr u \<longleftrightarrow> positive_rate v"
  by (cases v) (auto simp: require_positive_double_def positive_rate_def)

lemmas require_positive_iffs =
  require_positive_int_def require_positive_size_def require_positive_double_iff

lemma strict_prefix_iff:
  "starts_with m p \<and> \<not> length m \<le> length p \<longleftrightarrow> (\<exists>suffix. m = p @ suffix \<and> suffix \<noteq> [])"
  unfolding starts_with_iff by auto

lemma method_ok_iff:
  "method_ok m \<longleftrightarrow>
     starts_with m ''mining.'' \<and> \<not> length m \<le> length ''mining.'' \<and> length m \<le> kMaximumProtocolMethodBytes \<and> list_all printable m"
  unfolding method_ok_def kMaximumProtocolMethodBytes_def list_all_iff printable_def
  using strict_prefix_iff [of m "''mining.''"] by blast

lemma validate_methods_iff:
  "validate_methods name seen methods = Inr u \<longleftrightarrow>
     distinct methods \<and> set methods \<inter> seen = {} \<and> (\<forall>m\<in>set methods. method_ok m)"
proof (induction methods arbitrary: seen)
  case (Cons m methods)
  have "validate_methods name seen (m # methods) = Inr u \<longleftrightarrow>
      method_ok m \<and> m \<notin> seen \<and> validate_methods name (insert m seen) methods = Inr u"
    unfolding method_ok_iff by (auto simp del: list.size)
  with Cons show ?case by auto
qed simp

lemma validate_method_list_iff: "validate_method_list methods name = Inr u \<longleftrightarrow> methods_ok methods"
  by (auto simp: validate_method_list_def validate_methods_iff methods_ok_def kMaximumAdditionalProtocolMethods_def)

lemma validate_sources_iff:
  "validate_sources inet_pton seen addresses = Inr u \<longleftrightarrow>
     (\<exists>keys. map (numeric_address_key inet_pton) addresses = map Inr keys \<and> distinct keys \<and> set keys \<inter> seen = {}) \<and>
     [] \<notin> set addresses"
proof (induction addresses arbitrary: seen)
  case (Cons a addresses)
  have "validate_sources inet_pton seen (a # addresses) = Inr u \<longleftrightarrow>
      a \<noteq> [] \<and> (\<exists>k. numeric_address_key inet_pton a = Inr k \<and> k \<notin> seen \<and>
        validate_sources inet_pton (insert k seen) addresses = Inr u)"
    by (auto simp: and_then_Inr_iff split: if_splits)
  with Cons show ?case by (auto simp: Cons_eq_map_conv map_eq_Cons_conv)
qed simp

lemma validate_upstream_source_addresses_iff:
  "validate_upstream_source_addresses inet_pton addresses = Inr u \<longleftrightarrow> sources_ok inet_pton addresses"
  by (auto simp: validate_upstream_source_addresses_def validate_sources_iff sources_ok_def
      kMaximumUpstreamSourceAddresses_def)

lemma validate_listeners_iff:
  "validate_listeners names addresses listeners = Inr u \<longleftrightarrow>
     distinct (map lc_name listeners) \<and> lc_name ` set listeners \<inter> names = {} \<and>
     distinct (map lc_address listeners) \<and> lc_address ` set listeners \<inter> addresses = {} \<and>
     (\<forall>l\<in>set listeners. listener_ok l)"
proof (induction listeners arbitrary: names addresses)
  case (Cons l listeners)
  have "validate_listeners names addresses (l # listeners) = Inr u \<longleftrightarrow>
      listener_ok l \<and> lc_name l \<notin> names \<and> lc_address l \<notin> addresses \<and>
      validate_listeners (insert (lc_name l) names) (insert (lc_address l) addresses) listeners = Inr u"
    by (auto simp: and_then_Inr_iff listener_ok_def split: if_splits)
  with Cons show ?case by auto
qed simp

lemma validate_backends_iff:
  "validate_backends names backends = Inr names' \<longleftrightarrow>
     distinct (map bc_name backends) \<and> bc_name ` set backends \<inter> names = {} \<and>
     (\<forall>b\<in>set backends. backend_ok b) \<and> names' = names \<union> bc_name ` set backends"
proof (induction backends arbitrary: names)
  case (Cons b backends)
  have "validate_backends names (b # backends) = Inr names' \<longleftrightarrow>
      backend_ok b \<and> bc_name b \<notin> names \<and> validate_backends (insert (bc_name b) names) backends = Inr names'"
    by (auto simp: and_then_Inr_iff backend_ok_def split: if_splits)
  with Cons show ?case by auto
qed auto

lemma validate_pools_iff:
  "validate_pools pool_names backend_names pools = Inr names' \<longleftrightarrow>
     distinct (map pc_name pools) \<and> pc_name ` set pools \<inter> pool_names = {} \<and>
     (\<forall>p\<in>set pools. pc_name p \<noteq> [] \<and> pc_backends p \<noteq> []) \<and>
     distinct (map bc_name (all_backends pools)) \<and> bc_name ` set (all_backends pools) \<inter> backend_names = {} \<and>
     (\<forall>b\<in>set (all_backends pools). backend_ok b) \<and> names' = pool_names \<union> pc_name ` set pools"
proof (induction pools arbitrary: pool_names backend_names)
  case (Cons p pools)
  have "validate_pools pool_names backend_names (p # pools) = Inr names' \<longleftrightarrow>
      pc_name p \<noteq> [] \<and> pc_name p \<notin> pool_names \<and> pc_backends p \<noteq> [] \<and>
      (\<exists>bn. validate_backends backend_names (pc_backends p) = Inr bn \<and>
        validate_pools (insert (pc_name p) pool_names) bn pools = Inr names')"
    by (auto simp: and_then_Inr_iff split: if_splits)
  moreover have split: "all_backends (p # pools) = pc_backends p @ all_backends pools" by (simp add: all_backends_def)
  moreover have "X \<inter> insert a S = {} \<longleftrightarrow> a \<notin> X \<and> X \<inter> S = {}" for X :: "string set" and a S by blast
  moreover have "X \<inter> (S \<union> T) = {} \<longleftrightarrow> X \<inter> T = {} \<and> X \<inter> S = {}" for X :: "string set" and S T by blast
  ultimately show ?case
    by (simp add: Cons.IH validate_backends_iff ball_Un image_Un Int_Un_distrib2 Int_commute) (simp only: conj_ac simp_thms)
qed (auto simp: all_backends_def)

lemma validate_accepts: "validate inet_pton c = Inr () \<longleftrightarrow> config_ok inet_pton c"
proof -
  have health: "(\<forall>x\<in>set (validate_health h). x = Inr ()) \<longleftrightarrow> health_ok h" for h
    by (auto simp: validate_health_def health_ok_def require_positive_iffs)
  have limits: "(\<forall>x\<in>set (validate_limits l). x = Inr ()) \<longleftrightarrow> limits_ok l" for l
    by (simp add: validate_limits_def limits_ok_def require_positive_iffs not_less not_le)
  have protocol: "(\<forall>x\<in>set (validate_protocol p). x = Inr ()) \<longleftrightarrow> protocol_ok p" for p
    by (auto simp: validate_protocol_def protocol_ok_def validate_method_list_iff each_Inr_iff)
  have pools: "and_then (validate_pools {} {} ps) (\<lambda>names. throw_if (a \<notin> names) e) = Inr () \<longleftrightarrow>
      pools_ok ps \<and> a \<in> pc_name ` set ps" for ps a e
    by (auto simp: and_then_Inr_iff validate_pools_iff pools_ok_def)
  have nonempty: "pools_ok ps \<and> a \<in> pc_name ` set ps \<Longrightarrow> ps \<noteq> [] \<and> a \<noteq> []" for ps a
    by (auto simp: pools_ok_def)
  show ?thesis
    unfolding validate_def in_order_Inr set_append ball_Un health limits protocol
    using nonempty [of "cfg_pools c" "cfg_active_pool c"]
    unfolding list.set ball_simps throw_if_Inr pools validate_listeners_iff validate_upstream_source_addresses_iff
      check_endpoint_iff config_ok_def not_less
    by (simp only: Int_empty_right simp_thms de_Morgan_disj not_less) blast
qed

text \<open>
  Property C28. A configuration passes validation exactly when it meets the documented conditions:
  non-empty lists, unique non-empty names, parseable endpoints, certificates for TLS listeners, an
  active pool that is configured, numeric and pairwise different source addresses, finite positive
  rates, limits in range with \<open>max_line_bytes \<le> max_buffer_bytes \<le> max_queued_bytes\<close>, and initial
  methods that are allowed ones.
\<close>

theorem validate_exact: "validate inet_pton c = Inr () \<longleftrightarrow> config_ok inet_pton c"
  by (rule validate_accepts)

lemma parse_endpoint_text:
  assumes "host_writable b h" and "ds \<noteq> []" and "list_all is_digit ds" and "1 \<le> digits_value ds" and "digits_value ds \<le> 65535"
  shows "parse_endpoint (endpoint_text b h ds) = Inr \<lparr>ep_host = h, ep_port = digits_value ds\<rparr>"
proof -
  from assms(1) have "h \<noteq> []" by (simp add: host_writable_def)
  then have "split_endpoint (endpoint_text b h ds) = Inr (h, ds)"
    using assms split_endpoint_iff digits_no_colon by blast
  then show ?thesis
    using assms \<open>h \<noteq> []\<close> parse_endpoint_split [of "endpoint_text b h ds" "\<lparr>ep_host = h, ep_port = digits_value ds\<rparr>"]
    by auto
qed

lemma endpoint_okI:
  assumes "host_writable b h" and "ds \<noteq> []" and "list_all is_digit ds" and "1 \<le> digits_value ds" and "digits_value ds \<le> 65535"
  shows "endpoint_ok (endpoint_text b h ds)"
  using parse_endpoint_text [OF assms] by (simp add: endpoint_ok_def)

text \<open>A small configuration, with one TLS listener and one pool.\<close>

definition sample_config :: config where
  "sample_config = default_config
     \<lparr>cfg_listeners := [\<lparr>lc_name = ''tls'', lc_address = ''[::]:3334'', lc_tls = True,
        lc_certificate_file = ''cert.pem'', lc_private_key_file = ''key.pem''\<rparr>],
      cfg_pools := [\<lparr>pc_name = ''main'', pc_backends = [\<lparr>bc_name = ''a'', bc_address = ''10.0.0.1:3333'',
        bc_health_address = [], bc_send_proxy_v2 = True\<rparr>]\<rparr>],
      cfg_active_pool := ''main''\<rparr>"

theorem validate_exact_witness: "validate (\<lambda>_ _. None) sample_config = Inr ()"
proof -
  have e: "endpoint_ok ''[::]:3334''" "endpoint_ok ''10.0.0.1:3333''" "endpoint_ok ''127.0.0.1:7778''"
    using endpoint_okI [of True "''::''" "''3334''"] endpoint_okI [of False "''10.0.0.1''" "''3333''"]
      endpoint_okI [of False "''127.0.0.1''" "''7778''"]
    by (simp_all add: endpoint_text_def host_writable_def is_digit_def digits_value_def)
  have "limits_ok default_limits" "health_ok default_health" "protocol_ok default_protocol"
    by (simp_all add: limits_ok_def default_limits_def positive_rate_def health_ok_def default_health_def
        protocol_ok_def default_protocol_def methods_ok_def)
  with e have "config_ok (\<lambda>_ _. None) sample_config"
    by (simp add: config_ok_def sample_config_def default_config_def listener_ok_def pools_ok_def all_backends_def
        backend_ok_def sources_ok_def)
  then show ?thesis using validate_exact [of "\<lambda>_ _. None" sample_config] by simp
qed

lemma from_string_Inr:
  "from_string read_yaml inet_pton text = Inr c \<longleftrightarrow> read_yaml default_config text = Inr c \<and> validate inet_pton c = Inr ()"
  by (auto simp: from_string_def and_then_Inr_iff split: sum.splits)

lemma parse_endpoint_ConfigError: "parse_endpoint a = Inl e \<Longrightarrow> \<exists>m. e = ConfigError m"
  using parse_endpoint_error by blast

lemma check_endpoint_ConfigError: "check_endpoint a = Inl e \<Longrightarrow> \<exists>m. e = ConfigError m"
  using parse_endpoint_ConfigError by (auto simp: check_endpoint_def and_then_Inl_iff)

lemma validate_loops_ConfigError:
  "validate_methods name seen methods = Inl e \<Longrightarrow> \<exists>m. e = ConfigError m"
  "validate_sources inet_pton keys addresses = Inl e \<Longrightarrow> \<exists>m. e = ConfigError m"
  "validate_listeners names addrs listeners = Inl e \<Longrightarrow> \<exists>m. e = ConfigError m"
  "validate_backends bnames backends = Inl e \<Longrightarrow> \<exists>m. e = ConfigError m"
  "validate_pools pnames bnames pools = Inl e \<Longrightarrow> \<exists>m. e = ConfigError m"
proof -
  show "validate_methods name seen methods = Inl e \<Longrightarrow> \<exists>m. e = ConfigError m"
    by (induction methods arbitrary: seen) (auto simp only: validate_methods.simps sum.inject sum.distinct split: if_split_asm)
  have "numeric_address_key inet_pton a = Inl e \<Longrightarrow> \<exists>m. e = ConfigError m" for a
    by (auto simp only: numeric_address_key_def sum.inject sum.distinct split: option.split_asm)
  then show "validate_sources inet_pton keys addresses = Inl e \<Longrightarrow> \<exists>m. e = ConfigError m"
    by (induction addresses arbitrary: keys)
      (auto simp only: validate_sources.simps and_then_Inl_iff sum.inject sum.distinct split: if_split_asm)
  show "validate_listeners names addrs listeners = Inl e \<Longrightarrow> \<exists>m. e = ConfigError m"
    by (induction listeners arbitrary: names addrs)
      (auto simp only: validate_listeners.simps and_then_Inl_iff sum.inject sum.distinct
        split: if_split_asm dest: check_endpoint_ConfigError)
  have backends: "validate_backends bnames backends = Inl e \<Longrightarrow> \<exists>m. e = ConfigError m" for bnames backends
    by (induction backends arbitrary: bnames)
      (auto simp only: validate_backends.simps and_then_Inl_iff sum.inject sum.distinct
        split: if_split_asm dest: check_endpoint_ConfigError)
  then show "validate_backends bnames backends = Inl e \<Longrightarrow> \<exists>m. e = ConfigError m" .
  show "validate_pools pnames bnames pools = Inl e \<Longrightarrow> \<exists>m. e = ConfigError m"
    by (induction pools arbitrary: pnames bnames)
      (auto simp only: validate_pools.simps and_then_Inl_iff sum.inject sum.distinct
        split: if_split_asm dest: backends)
qed

lemma validate_ConfigError:
  assumes "validate inet_pton c = Inl e"
  shows "\<exists>m. e = ConfigError m"
proof -
  define cfg_error where "cfg_error r \<longleftrightarrow> (\<forall>e. r = Inl e \<longrightarrow> (\<exists>m. e = ConfigError m))" for r :: "unit result"
  have throw: "cfg_error (throw_if b (ConfigError m))" for b m by (simp add: cfg_error_def throw_if_def)
  have lists: "cfg_error (validate_method_list ms n)" "cfg_error (validate_upstream_source_addresses p as)"
    "cfg_error (validate_listeners ns ads ls)" "cfg_error (check_endpoint a)" for ms n p as ns ads ls a
    unfolding cfg_error_def validate_method_list_def validate_upstream_source_addresses_def
    using validate_loops_ConfigError check_endpoint_ConfigError by auto
  have pools: "cfg_error (and_then (validate_pools {} {} ps) (\<lambda>ns. throw_if (a \<notin> ns) (ConfigError m)))" for ps a m
    using validate_loops_ConfigError(5) by (auto simp: cfg_error_def and_then_Inl_iff)
  have initial: "cfg_error (each (\<lambda>x. throw_if (P x) (ConfigError (f x))) xs)" for P f and xs :: "string list"
    by (auto simp: cfg_error_def dest: each_Inl)
  from assms obtain r where "r = Inl e" and r: "r \<in> set (
       [throw_if (cfg_listeners c = []) (ConfigError ''listeners must contain at least one entry''),
        throw_if (cfg_pools c = []) (ConfigError ''pools must contain at least one entry''),
        throw_if (cfg_active_pool c = []) (ConfigError ''active_pool must not be empty''),
        validate_listeners {} {} (cfg_listeners c),
        and_then (validate_pools {} {} (cfg_pools c)) (\<lambda>pool_names.
          throw_if (cfg_active_pool c \<notin> pool_names)
            (ConfigError (''active_pool does not name a configured pool: '' @ cfg_active_pool c))),
        validate_upstream_source_addresses inet_pton (cfg_upstream_source_addresses c),
        check_endpoint (cfg_api_address c),
        throw_if (cfg_io_workers c < 0 \<or> 256 < cfg_io_workers c) (ConfigError ''io_workers must be in [0, 256]'')] @
       validate_health (cfg_health c) @ validate_limits (cfg_limits c) @ validate_protocol (cfg_protocol c))"
    unfolding validate_def in_order_def using each_Inl by blast
  from r have "cfg_error r"
    unfolding set_append validate_health_def validate_limits_def validate_protocol_def
      require_positive_int_def require_positive_size_def require_positive_double_def list.set
    by (elim UnE insertE emptyE) (simp_all only: throw lists pools initial)
  with \<open>r = Inl e\<close> show ?thesis by (simp add: cfg_error_def)
qed

text \<open>
  Property C29. Loading a configuration file either gives a configuration that meets every documented
  condition, in which the active pool is configured exactly once and has a backend with a usable
  address, or a configuration error; no other outcome exists.
\<close>

theorem from_file_outcome:
  "case from_file read_file read_yaml inet_pton path of
     Inr c \<Rightarrow> config_ok inet_pton c \<and>
       (\<exists>!p. p \<in> set (cfg_pools c) \<and> pc_name p = cfg_active_pool c) \<and>
       (\<exists>p\<in>set (cfg_pools c). pc_name p = cfg_active_pool c \<and> (\<exists>b\<in>set (pc_backends p). endpoint_ok (bc_address b)))
   | Inl e \<Rightarrow> (\<exists>m. e = ConfigError m)"
proof (cases "from_file read_file read_yaml inet_pton path")
  case (Inl e)
  then have "\<exists>m. e = ConfigError m"
    by (auto simp only: from_file_def from_string_def and_then_Inl_iff sum.inject sum.distinct
        split: option.split_asm sum.split_asm dest: validate_ConfigError)
  with Inl show ?thesis by simp
next
  case (Inr c)
  then have "validate inet_pton c = Inr ()" by (auto simp: from_file_def from_string_Inr split: option.splits)
  then have ok: "config_ok inet_pton c" using validate_accepts by blast
  then have p: "pools_ok (cfg_pools c)" "cfg_active_pool c \<in> pc_name ` set (cfg_pools c)"
    by (simp_all add: config_ok_def)
  then obtain p where pool: "p \<in> set (cfg_pools c)" "pc_name p = cfg_active_pool c" by auto
  from p(1) pool(1) obtain b where b: "b \<in> set (pc_backends p)" unfolding pools_ok_def by (meson list.set_sel(1))
  with pool(1) have "b \<in> set (all_backends (cfg_pools c))" by (auto simp: all_backends_def)
  with p(1) have "endpoint_ok (bc_address b)" by (simp add: pools_ok_def backend_ok_def)
  moreover have "\<exists>!p. p \<in> set (cfg_pools c) \<and> pc_name p = cfg_active_pool c"
    using p(1) pool unfolding pools_ok_def by (auto simp: distinct_map inj_on_def)
  ultimately show ?thesis using Inr ok pool b by auto
qed

text \<open>
  A reload needs a restart exactly when the listeners' names, addresses or TLS flags in
  their order, the API address or the number of workers changed; anything else, new certificates,
  pools, limits and protocol options included, does not.
\<close>

lemma restart_required_exact:
  "restart_required_changes c d = [] \<longleftrightarrow>
     map (\<lambda>l. (lc_name l, lc_address l, lc_tls l)) (cfg_listeners c) =
       map (\<lambda>l. (lc_name l, lc_address l, lc_tls l)) (cfg_listeners d) \<and>
     cfg_api_address c = cfg_api_address d \<and> cfg_io_workers c = cfg_io_workers d"
proof -
  have "list_all2 same_listener ls ls' \<longleftrightarrow>
      map (\<lambda>l. (lc_name l, lc_address l, lc_tls l)) ls = map (\<lambda>l. (lc_name l, lc_address l, lc_tls l)) ls'" for ls ls'
    by (induction ls arbitrary: ls') (auto simp: same_listener_def list_all2_Cons1 map_eq_Cons_conv Cons_eq_map_conv)
  then show ?thesis by (simp add: restart_required_changes_def)
qed

end
