(* ===== verification/Router.thy ===== *)
theory Router
  imports Config_Model
begin

text \<open>
  Routing tables and backend selection, from \<^verbatim>\<open>src/src/routing/router.hpp\<close> and \<^verbatim>\<open>router.cpp\<close>.
  Backends are shared objects with mutable health and load: the model keeps them in a store and a
  table refers to them by position, so that sharing between an old and a reloaded table is visible.
  \<^verbatim>\<open>getaddrinfo\<close> is an argument.
\<close>

section \<open>State\<close>

record backend_state =
  be_name :: string
  be_pool :: string
  be_configured_address :: string
  be_configured_health_address :: string
  be_socket_addresses :: "socket_address list"
  be_health_socket_addresses :: "socket_address list"
  be_send_proxy_v2 :: bool
  be_healthy :: bool
  be_consecutive_successes :: int
  be_consecutive_failures :: int
  be_active_connections :: nat
  be_connection_attempts :: nat
  be_connection_errors :: nat

type_synonym backend_ref = nat
type_synonym backend_store = "backend_state list"

record pool_state =
  ps_name :: string
  ps_backends :: "backend_ref list"

record routing_table =
  rt_active_pool :: string
  rt_failover :: bool
  rt_health :: health_config
  rt_upstream_source_addresses :: "socket_address list"
  rt_pools :: "pool_state list"
  rt_active_pool_index :: nat

section \<open>Building a table\<close>

definition matches_config :: "backend_state \<Rightarrow> backend_config \<Rightarrow> string \<Rightarrow> bool" where
  "matches_config backend config pool_name \<longleftrightarrow>
     be_name backend = bc_name config \<and> be_pool backend = pool_name \<and>
     be_configured_address backend = bc_address config \<and>
     be_configured_health_address backend = bc_health_address config \<and>
     be_send_proxy_v2 backend = bc_send_proxy_v2 config"

definition carried_over_backend ::
  "backend_store \<Rightarrow> routing_table option \<Rightarrow> backend_config \<Rightarrow> string \<Rightarrow> backend_ref option" where
  "carried_over_backend store previous config pool_name =
     (case previous of
        None \<Rightarrow> None
      | Some table \<Rightarrow>
          find (\<lambda>ref. matches_config (store ! ref) config pool_name) (concat (map ps_backends (rt_pools table))))"

definition resolve_configured :: "resolver \<Rightarrow> backend_config \<Rightarrow> (socket_address list \<times> socket_address list) result" where
  "resolve_configured getaddrinfo config =
     and_then (parse_endpoint (bc_address config)) (\<lambda>ep.
     and_then (resolve_endpoints getaddrinfo ep False) (\<lambda>addresses.
       if bc_health_address config \<noteq> []
       then and_then (parse_endpoint (bc_health_address config)) (\<lambda>health_ep.
            and_then (resolve_endpoints getaddrinfo health_ep False) (\<lambda>health_addresses.
              Inr (addresses, health_addresses)))
       else Inr (addresses, [])))"

definition new_backend ::
  "backend_config \<Rightarrow> string \<Rightarrow> socket_address list \<Rightarrow> socket_address list \<Rightarrow> backend_state" where
  "new_backend config pool_name addresses health_addresses =
     \<lparr>be_name = bc_name config, be_pool = pool_name, be_configured_address = bc_address config,
      be_configured_health_address = bc_health_address config, be_socket_addresses = addresses,
      be_health_socket_addresses = health_addresses, be_send_proxy_v2 = bc_send_proxy_v2 config,
      be_healthy = False, be_consecutive_successes = 0, be_consecutive_failures = 0,
      be_active_connections = 0, be_connection_attempts = 0, be_connection_errors = 0\<rparr>"

definition resolve_backend ::
  "resolver \<Rightarrow> backend_store \<Rightarrow> backend_ref option \<Rightarrow> backend_config \<Rightarrow> string \<Rightarrow> (backend_store \<times> backend_ref) result" where
  "resolve_backend getaddrinfo store carried_over config pool_name =
     (case resolve_configured getaddrinfo config of
        Inl (ConfigError message) \<Rightarrow>
          (case carried_over of
             None \<Rightarrow> Inl (ConfigError message)
           | Some ref \<Rightarrow> Inr (store, ref))
      | Inl (IoError message) \<Rightarrow> Inl (IoError message)
      | Inr (addresses, health_addresses) \<Rightarrow>
          (let fresh = Inr (store @ [new_backend config pool_name addresses health_addresses], length store)
           in case carried_over of
                None \<Rightarrow> fresh
              | Some ref \<Rightarrow>
                  (if same_addresses (be_socket_addresses (store ! ref)) addresses \<and>
                      same_addresses (be_health_socket_addresses (store ! ref)) health_addresses
                   then Inr (store, ref)
                   else fresh)))"

definition has_compatible_source :: "socket_address list \<Rightarrow> socket_address list \<Rightarrow> bool" where
  "has_compatible_source sources destinations =
     list_ex (\<lambda>destination. list_ex (\<lambda>source. sa_family source = sa_family destination) sources) destinations"

fun resolve_sources :: "resolver \<Rightarrow> string list \<Rightarrow> socket_address list result" where
  "resolve_sources getaddrinfo [] = Inr []"
| "resolve_sources getaddrinfo (host # hosts) =
     and_then (resolve_numeric_bind_host getaddrinfo host) (\<lambda>address.
     and_then (resolve_sources getaddrinfo hosts) (\<lambda>addresses. Inr (address # addresses)))"

fun build_backends ::
  "resolver \<Rightarrow> routing_table option \<Rightarrow> socket_address list \<Rightarrow> string \<Rightarrow> backend_store \<Rightarrow> backend_config list \<Rightarrow>
   (backend_store \<times> backend_ref list) result" where
  "build_backends getaddrinfo previous sources pool_name store [] = Inr (store, [])"
| "build_backends getaddrinfo previous sources pool_name store (config # configs) =
     and_then (resolve_backend getaddrinfo store (carried_over_backend store previous config pool_name) config pool_name)
       (\<lambda>(store, ref).
         if sources \<noteq> [] \<and> \<not> has_compatible_source sources (be_socket_addresses (store ! ref))
         then Inl (ConfigError (''backend '' @ pool_name @ ''/'' @ bc_name config @
                '' has no family-compatible upstream source address''))
         else and_then (build_backends getaddrinfo previous sources pool_name store configs)
                (\<lambda>(store, refs). Inr (store, ref # refs)))"

fun build_pools ::
  "resolver \<Rightarrow> routing_table option \<Rightarrow> config \<Rightarrow> routing_table \<Rightarrow> backend_store \<Rightarrow> pool_config list \<Rightarrow>
   (backend_store \<times> routing_table) result" where
  "build_pools getaddrinfo previous config table store [] = Inr (store, table)"
| "build_pools getaddrinfo previous config table store (pool_config # pool_configs) =
     and_then (build_backends getaddrinfo previous (rt_upstream_source_addresses table) (pc_name pool_config)
                 store (pc_backends pool_config))
       (\<lambda>(store, refs).
         let table = table\<lparr>rt_pools := rt_pools table @ [\<lparr>ps_name = pc_name pool_config, ps_backends = refs\<rparr>]\<rparr>;
             table = (if pc_name pool_config = cfg_active_pool config
                      then table\<lparr>rt_active_pool_index := length (rt_pools table) - 1\<rparr> else table)
         in build_pools getaddrinfo previous config table store pool_configs)"

definition make_routing_table ::
  "resolver \<Rightarrow> backend_store \<Rightarrow> config \<Rightarrow> routing_table option \<Rightarrow> (backend_store \<times> routing_table) result" where
  "make_routing_table getaddrinfo store config previous =
     and_then (resolve_sources getaddrinfo (cfg_upstream_source_addresses config)) (\<lambda>sources.
       build_pools getaddrinfo previous config
         \<lparr>rt_active_pool = cfg_active_pool config, rt_failover = cfg_failover config,
          rt_health = cfg_health config, rt_upstream_source_addresses = sources, rt_pools = [],
          rt_active_pool_index = 0\<rparr>
         store (cfg_pools config))"

section \<open>Selecting a backend\<close>

text \<open>The loop of \<^verbatim>\<open>choose_from_pool\<close> with the selected backend and its load.\<close>

fun choose_loop :: "backend_store \<Rightarrow> (backend_ref \<times> nat) option \<Rightarrow> backend_ref list \<Rightarrow> backend_ref option" where
  "choose_loop store selected [] = map_option fst selected"
| "choose_loop store selected (candidate # candidates) =
     (if \<not> be_healthy (store ! candidate) then choose_loop store selected candidates
      else let load = be_active_connections (store ! candidate)
           in case selected of
                None \<Rightarrow> choose_loop store (Some (candidate, load)) candidates
              | Some (_, selected_load) \<Rightarrow>
                  (if load < selected_load then choose_loop store (Some (candidate, load)) candidates
                   else choose_loop store selected candidates))"

definition rotated :: "nat \<Rightarrow> 'a list \<Rightarrow> 'a list" where
  "rotated offset xs = map (\<lambda>relative_index. xs ! ((relative_index + offset) mod length xs)) [0..<length xs]"

definition choose_from_pool :: "backend_store \<Rightarrow> pool_state \<Rightarrow> nat \<Rightarrow> backend_ref option" where
  "choose_from_pool store pool sequence =
     (if ps_backends pool = [] then None
      else choose_loop store None (rotated (sequence mod length (ps_backends pool)) (ps_backends pool)))"

fun failover_loop :: "backend_store \<Rightarrow> nat \<Rightarrow> nat \<Rightarrow> nat \<Rightarrow> pool_state list \<Rightarrow> backend_ref option" where
  "failover_loop store active_index sequence pool_index [] = None"
| "failover_loop store active_index sequence pool_index (pool # pools) =
     (if pool_index = active_index then failover_loop store active_index sequence (pool_index + 1) pools
      else case choose_from_pool store pool sequence of
             Some backend \<Rightarrow> Some backend
           | None \<Rightarrow> failover_loop store active_index sequence (pool_index + 1) pools)"

definition select_backend :: "backend_store \<Rightarrow> routing_table \<Rightarrow> nat \<Rightarrow> backend_ref option" where
  "select_backend store table sequence =
     (let chosen = (if rt_active_pool_index table < length (rt_pools table)
                    then choose_from_pool store (rt_pools table ! rt_active_pool_index table) sequence else None)
      in case chosen of
           Some backend \<Rightarrow> Some backend
         | None \<Rightarrow>
             (if \<not> rt_failover table then None
              else failover_loop store (rt_active_pool_index table) sequence 0 (rt_pools table)))"

definition pool_has_healthy_backend :: "backend_store \<Rightarrow> pool_state \<Rightarrow> bool" where
  "pool_has_healthy_backend store pool = list_ex (\<lambda>backend. be_healthy (store ! backend)) (ps_backends pool)"

definition has_routable_backend :: "backend_store \<Rightarrow> routing_table \<Rightarrow> bool" where
  "has_routable_backend store table =
     (if rt_active_pool_index table < length (rt_pools table) \<and>
         pool_has_healthy_backend store (rt_pools table ! rt_active_pool_index table)
      then True
      else if \<not> rt_failover table then False
      else list_ex (\<lambda>pool_index. pool_index \<noteq> rt_active_pool_index table \<and>
             pool_has_healthy_backend store (rt_pools table ! pool_index)) [0..<length (rt_pools table)])"

section \<open>Least load first\<close>

text \<open>
  \<open>b\<close> is the first of the candidates, in their order, that is healthy and has the least load among
  the healthy ones.
\<close>

definition least_loaded_first :: "backend_store \<Rightarrow> backend_ref list \<Rightarrow> backend_ref \<Rightarrow> bool" where
  "least_loaded_first store cs b \<longleftrightarrow>
     (\<exists>pre post. cs = pre @ b # post \<and> be_healthy (store ! b) \<and>
        (\<forall>c\<in>set pre. be_healthy (store ! c) \<longrightarrow>
           be_active_connections (store ! b) < be_active_connections (store ! c)) \<and>
        (\<forall>c\<in>set post. be_healthy (store ! c) \<longrightarrow>
           be_active_connections (store ! b) \<le> be_active_connections (store ! c)))"

lemma least_loaded_skip:
  assumes "least_loaded_first store cs b"
    and "be_healthy (store ! c) \<Longrightarrow> be_active_connections (store ! b) < be_active_connections (store ! c)"
  shows "least_loaded_first store (c # cs) b"
proof -
  from assms(1) obtain pre post where "cs = pre @ b # post" "be_healthy (store ! b)"
    "\<forall>c\<in>set pre. be_healthy (store ! c) \<longrightarrow> be_active_connections (store ! b) < be_active_connections (store ! c)"
    "\<forall>c\<in>set post. be_healthy (store ! c) \<longrightarrow> be_active_connections (store ! b) \<le> be_active_connections (store ! c)"
    by (auto simp: least_loaded_first_def)
  with assms(2) show ?thesis
    unfolding least_loaded_first_def by (intro exI [of _ "c # pre"] exI [of _ post]) simp
qed

lemma least_loaded_drop_second:
  assumes "least_loaded_first store (s # cs) b" and "be_healthy (store ! s)"
    and "be_healthy (store ! c) \<Longrightarrow> be_active_connections (store ! s) \<le> be_active_connections (store ! c)"
  shows "least_loaded_first store (s # c # cs) b"
proof -
  from assms(1) obtain pre post where p: "s # cs = pre @ b # post" "be_healthy (store ! b)"
    "\<forall>c\<in>set pre. be_healthy (store ! c) \<longrightarrow> be_active_connections (store ! b) < be_active_connections (store ! c)"
    "\<forall>c\<in>set post. be_healthy (store ! c) \<longrightarrow> be_active_connections (store ! b) \<le> be_active_connections (store ! c)"
    by (auto simp: least_loaded_first_def)
  show ?thesis
  proof (cases pre)
    case Nil
    with p assms(3) show ?thesis
      unfolding least_loaded_first_def by (intro exI [of _ "[]"] exI [of _ "c # cs"]) auto
  next
    case (Cons s' pre')
    with p have "s' = s" "cs = pre' @ b # post" by simp_all
    with p Cons assms(2,3) show ?thesis
      unfolding least_loaded_first_def by (intro exI [of _ "s # c # pre'"] exI [of _ post]) auto
  qed
qed

lemma choose_loop_selected:
  "be_healthy (store ! s) \<Longrightarrow>
     \<exists>b. choose_loop store (Some (s, be_active_connections (store ! s))) cs = Some b \<and> least_loaded_first store (s # cs) b"
proof (induction cs arbitrary: s)
  case Nil
  then show ?case unfolding least_loaded_first_def by (intro exI [of _ s] conjI exI [of _ "[]"]) simp_all
next
  case (Cons c cs)
  show ?case
  proof (cases "be_healthy (store ! c) \<and> be_active_connections (store ! c) < be_active_connections (store ! s)")
    case True
    with Cons.IH [of c] obtain b where b: "choose_loop store (Some (c, be_active_connections (store ! c))) cs = Some b"
      "least_loaded_first store (c # cs) b" by blast
    then have "be_active_connections (store ! b) \<le> be_active_connections (store ! c)"
      using True unfolding least_loaded_first_def by (fastforce simp: Cons_eq_append_conv)
    with True have "be_active_connections (store ! b) < be_active_connections (store ! s)" by simp
    with b True show ?thesis using least_loaded_skip by auto
  next
    case False
    with Cons.IH [OF Cons.prems] obtain b where b:
      "choose_loop store (Some (s, be_active_connections (store ! s))) cs = Some b" "least_loaded_first store (s # cs) b" by blast
    have "least_loaded_first store (s # c # cs) b"
      by (rule least_loaded_drop_second [OF b(2) Cons.prems]) (use False in simp)
    with b False show ?thesis by (auto simp: Let_def)
  qed
qed

lemma choose_loop_None:
  "case choose_loop store None cs of
     None \<Rightarrow> \<forall>c\<in>set cs. \<not> be_healthy (store ! c)
   | Some b \<Rightarrow> least_loaded_first store cs b"
proof (induction cs)
  case (Cons c cs)
  show ?case
  proof (cases "be_healthy (store ! c)")
    case True
    with choose_loop_selected [OF True, of cs] show ?thesis by (auto simp: Let_def)
  next
    case False
    with Cons show ?thesis using least_loaded_skip by (auto split: option.splits)
  qed
qed simp

lemma rotated_eq: "offset \<le> length xs \<Longrightarrow> rotated offset xs = drop offset xs @ take offset xs"
proof (rule nth_equalityI)
  assume o: "offset \<le> length xs"
  then show "length (rotated offset xs) = length (drop offset xs @ take offset xs)" by (simp add: rotated_def)
  fix i assume "i < length (rotated offset xs)"
  then have i: "i < length xs" by (simp add: rotated_def)
  show "rotated offset xs ! i = (drop offset xs @ take offset xs) ! i"
  proof (cases "i + offset < length xs")
    case True
    then have "i < length xs - offset" by simp
    with True i o show ?thesis by (simp add: rotated_def nth_append add.commute)
  next
    case False
    then have "(i + offset) mod length xs = i + offset - length xs" using i o by (simp add: mod_if)
    with False i o show ?thesis by (auto simp: rotated_def nth_append)
  qed
qed

lemma set_rotated: "offset \<le> length xs \<Longrightarrow> set (rotated offset xs) = set xs"
  by (simp add: rotated_eq) (metis Un_commute append_take_drop_id set_append)

text \<open>The candidates of a pool in the order in which a connection number tries them.\<close>

definition candidates :: "pool_state \<Rightarrow> nat \<Rightarrow> backend_ref list" where
  "candidates pool sequence =
     (let n = sequence mod length (ps_backends pool) in drop n (ps_backends pool) @ take n (ps_backends pool))"

lemma choose_from_pool_cases:
  "case choose_from_pool store pool sequence of
     None \<Rightarrow> \<not> pool_has_healthy_backend store pool
   | Some b \<Rightarrow> least_loaded_first store (candidates pool sequence) b"
proof (cases "ps_backends pool = []")
  case False
  let ?n = "sequence mod length (ps_backends pool)"
  have n: "?n \<le> length (ps_backends pool)" using False by (simp add: less_imp_le)
  show ?thesis
    using choose_loop_None [where store = store and cs = "rotated ?n (ps_backends pool)"] False set_rotated [OF n] rotated_eq [OF n]
    by (auto simp: choose_from_pool_def candidates_def pool_has_healthy_backend_def list_ex_iff Let_def split: option.splits)
qed (simp add: choose_from_pool_def pool_has_healthy_backend_def)

lemma least_loaded_healthy:
  "least_loaded_first store (candidates pool sequence) b \<Longrightarrow> pool_has_healthy_backend store pool"
proof -
  assume "least_loaded_first store (candidates pool sequence) b"
  then have "b \<in> set (candidates pool sequence)" "be_healthy (store ! b)" by (auto simp: least_loaded_first_def)
  moreover have "set (candidates pool sequence) \<subseteq> set (ps_backends pool)"
    by (auto simp: candidates_def Let_def dest: in_set_takeD in_set_dropD)
  ultimately show ?thesis by (auto simp: pool_has_healthy_backend_def list_ex_iff)
qed

lemma choose_None_iff: "choose_from_pool store pool sequence = None \<longleftrightarrow> \<not> pool_has_healthy_backend store pool"
  using choose_from_pool_cases [of store pool sequence] least_loaded_healthy by (auto split: option.splits)

lemma failover_loop_cases:
  "case failover_loop store active_index sequence k pools of
     None \<Rightarrow> \<forall>j<length pools. k + j \<noteq> active_index \<longrightarrow> \<not> pool_has_healthy_backend store (pools ! j)
   | Some b \<Rightarrow> \<exists>j<length pools. k + j \<noteq> active_index \<and> choose_from_pool store (pools ! j) sequence = Some b \<and>
       (\<forall>i<j. k + i \<noteq> active_index \<longrightarrow> \<not> pool_has_healthy_backend store (pools ! i))"
proof (induction pools arbitrary: k)
  case (Cons pool pools)
  show ?case
  proof (cases "k = active_index \<or> choose_from_pool store pool sequence = None")
    case True
    then have eq: "failover_loop store active_index sequence k (pool # pools) =
        failover_loop store active_index sequence (k + 1) pools" by auto
    from True have skip: "k \<noteq> active_index \<Longrightarrow> \<not> pool_has_healthy_backend store pool" by (auto simp: choose_None_iff)
    show ?thesis
    proof (cases "failover_loop store active_index sequence (k + 1) pools")
      case None
      with Cons [of "k + 1"] skip eq show ?thesis by (auto simp: less_Suc_eq_0_disj)
    next
      case (Some b)
      with Cons [of "k + 1"] obtain j where "j < length pools" "k + Suc j \<noteq> active_index"
        "choose_from_pool store (pools ! j) sequence = Some b"
        "\<forall>i<j. k + Suc i \<noteq> active_index \<longrightarrow> \<not> pool_has_healthy_backend store (pools ! i)" by auto
      with skip have "Suc j < length (pool # pools) \<and> k + Suc j \<noteq> active_index \<and>
          choose_from_pool store ((pool # pools) ! Suc j) sequence = Some b \<and>
          (\<forall>i<Suc j. k + i \<noteq> active_index \<longrightarrow> \<not> pool_has_healthy_backend store ((pool # pools) ! i))"
        by (auto simp: less_Suc_eq_0_disj)
      with Some show ?thesis unfolding eq by auto
    qed
  next
    case False
    then show ?thesis by (auto intro!: exI [of _ 0])
  qed
qed simp

text \<open>
  Property C8. A connection goes to the healthy backend with the fewest active connections of the
  active pool, ties broken by the round-robin order of its sequence number; only when the active pool
  has no healthy backend and failover is on does it go to the first other pool that has one, by the
  same rule; and there is no backend for it exactly when the table reports that none is routable.
\<close>

theorem select_backend_correct:
  "case select_backend store table sequence of
     None \<Rightarrow> \<not> has_routable_backend store table
   | Some b \<Rightarrow> has_routable_backend store table \<and>
       (\<exists>j<length (rt_pools table). least_loaded_first store (candidates (rt_pools table ! j) sequence) b \<and>
         (j = rt_active_pool_index table \<or>
          rt_failover table \<and>
          (\<forall>i<length (rt_pools table). (i = rt_active_pool_index table \<or> i < j) \<longrightarrow>
             \<not> pool_has_healthy_backend store (rt_pools table ! i))))"
proof (cases "rt_active_pool_index table < length (rt_pools table) \<and>
    pool_has_healthy_backend store (rt_pools table ! rt_active_pool_index table)")
  case True
  then obtain b where "choose_from_pool store (rt_pools table ! rt_active_pool_index table) sequence = Some b"
    using choose_None_iff by (metis option.exhaust)
  with True choose_from_pool_cases [of store "rt_pools table ! rt_active_pool_index table" sequence] show ?thesis
    by (auto simp: select_backend_def has_routable_backend_def)
next
  case False
  then have sel: "select_backend store table sequence =
      (if rt_failover table then failover_loop store (rt_active_pool_index table) sequence 0 (rt_pools table) else None)"
    using choose_None_iff [of store "rt_pools table ! rt_active_pool_index table" sequence]
    by (auto simp: select_backend_def)
  have route: "has_routable_backend store table \<longleftrightarrow> rt_failover table \<and>
      (\<exists>j<length (rt_pools table). j \<noteq> rt_active_pool_index table \<and> pool_has_healthy_backend store (rt_pools table ! j))"
    using False by (auto simp: has_routable_backend_def list_ex_iff)
  show ?thesis
  proof (cases "select_backend store table sequence")
    case None
    with sel route failover_loop_cases [where store = store and active_index = "rt_active_pool_index table" and sequence = sequence and k = 0 and pools = "rt_pools table"] show ?thesis
      by (auto split: if_splits)
  next
    case (Some b)
    with sel have f: "rt_failover table" "failover_loop store (rt_active_pool_index table) sequence 0 (rt_pools table) = Some b"
      by (auto split: if_splits)
    with failover_loop_cases [where store = store and active_index = "rt_active_pool_index table" and sequence = sequence and k = 0 and pools = "rt_pools table"] obtain j where
      j: "j < length (rt_pools table)" "j \<noteq> rt_active_pool_index table"
        "choose_from_pool store (rt_pools table ! j) sequence = Some b"
        "\<forall>i<j. i \<noteq> rt_active_pool_index table \<longrightarrow> \<not> pool_has_healthy_backend store (rt_pools table ! i)" by auto
    have "least_loaded_first store (candidates (rt_pools table ! j) sequence) b"
      using choose_from_pool_cases [of store "rt_pools table ! j" sequence] j(3) by simp
    with Some f j route False least_loaded_healthy show ?thesis by auto
  qed
qed

text \<open>Two healthy backends of one pool, with loads three and one.\<close>

definition sample_backend :: "nat \<Rightarrow> backend_state" where
  "sample_backend load = (new_backend \<lparr>bc_name = ''b'', bc_address = ''10.0.0.1:3333'', bc_health_address = [],
     bc_send_proxy_v2 = True\<rparr> ''main'' [] [])\<lparr>be_healthy := True, be_active_connections := load\<rparr>"

definition sample_table :: routing_table where
  "sample_table = \<lparr>rt_active_pool = ''main'', rt_failover = False, rt_health = default_health,
     rt_upstream_source_addresses = [], rt_pools = [\<lparr>ps_name = ''main'', ps_backends = [0, 1]\<rparr>], rt_active_pool_index = 0\<rparr>"

theorem select_backend_correct_witness:
  "select_backend [sample_backend 3, sample_backend 1] sample_table 4 = Some 1 \<and>
   least_loaded_first [sample_backend 3, sample_backend 1] (candidates (rt_pools sample_table ! 0) 4) 1"
proof -
  have "select_backend [sample_backend 3, sample_backend 1] sample_table 4 = Some 1" by code_simp
  moreover have "length (rt_pools sample_table) = 1" "rt_active_pool_index sample_table = 0" by (simp_all add: sample_table_def)
  ultimately show ?thesis
    using select_backend_correct [where store = "[sample_backend 3, sample_backend 1]" and table = sample_table and sequence = 4]
    by simp
qed

section \<open>Tables and configurations\<close>

text \<open>A reference to a backend that stands for an entry of the configuration.\<close>

definition backend_for :: "backend_store \<Rightarrow> string \<Rightarrow> backend_ref \<Rightarrow> backend_config \<Rightarrow> bool" where
  "backend_for store pool_name ref config \<longleftrightarrow>
     ref < length store \<and> matches_config (store ! ref) config pool_name \<and> be_socket_addresses (store ! ref) \<noteq> []"

definition pool_for :: "backend_store \<Rightarrow> pool_state \<Rightarrow> pool_config \<Rightarrow> bool" where
  "pool_for store pool config \<longleftrightarrow>
     ps_name pool = pc_name config \<and> list_all2 (backend_for store (pc_name config)) (ps_backends pool) (pc_backends config)"

text \<open>Every backend a table refers to exists and has an address.\<close>

definition refs_ok :: "backend_store \<Rightarrow> routing_table \<Rightarrow> bool" where
  "refs_ok store table \<longleftrightarrow>
     (\<forall>ref\<in>set (concat (map ps_backends (rt_pools table))). ref < length store \<and> be_socket_addresses (store ! ref) \<noteq> [])"

lemma resolve_endpoints_nonempty: "resolve_endpoints gai ep passive = Inr as \<Longrightarrow> as \<noteq> []"
  by (auto simp: resolve_endpoints_def resolve_addresses_def Let_def split: sum.splits if_splits)

lemma resolve_configured_nonempty: "resolve_configured gai config = Inr (as, hs) \<Longrightarrow> as \<noteq> []"
  by (auto simp: resolve_configured_def and_then_Inr_iff dest: resolve_endpoints_nonempty split: if_splits)

lemma carried_over_Some:
  assumes "carried_over_backend store previous config pool_name = Some ref"
    and "\<And>table. previous = Some table \<Longrightarrow> refs_ok store table"
  shows "backend_for store pool_name ref config"
proof -
  from assms(1) obtain table where t: "previous = Some table"
    and f: "find (\<lambda>ref. matches_config (store ! ref) config pool_name) (concat (map ps_backends (rt_pools table))) = Some ref"
    by (auto simp: carried_over_backend_def split: option.splits)
  from f have "ref \<in> set (concat (map ps_backends (rt_pools table)))" "matches_config (store ! ref) config pool_name"
    by (metis find_Some_iff nth_mem)+
  with assms(2) [OF t] show ?thesis unfolding refs_ok_def backend_for_def by blast
qed

lemma new_backend_matches: "matches_config (new_backend config pool_name as hs) config pool_name"
  by (simp add: matches_config_def new_backend_def)

lemma resolve_backend_ok:
  assumes "resolve_backend gai store carried config pool_name = Inr (store', ref)"
    and "\<And>r. carried = Some r \<Longrightarrow> backend_for store pool_name r config"
  shows "(\<exists>ext. store' = store @ ext) \<and> backend_for store' pool_name ref config"
proof (cases "resolve_configured gai config")
  case (Inl e)
  with assms(1) have "carried = Some ref" "store' = store"
    by (auto simp: resolve_backend_def split: error.splits option.splits)
  with assms(2) show ?thesis by simp
next
  case (Inr ah)
  obtain as hs where ah: "ah = (as, hs)" by (cases ah)
  let ?fresh = "store @ [new_backend config pool_name as hs]"
  from assms(1) Inr ah have "carried = Some ref \<and> store' = store \<or> store' = ?fresh \<and> ref = length store"
    by (auto simp: resolve_backend_def Let_def split: option.splits if_splits)
  moreover have "backend_for ?fresh pool_name (length store) config"
    using resolve_configured_nonempty [of gai config as hs] Inr ah
    by (simp add: backend_for_def new_backend_matches) (simp add: new_backend_def)
  ultimately show ?thesis using assms(2) by auto
qed

lemma backend_for_extend: "backend_for store pn ref config \<Longrightarrow> backend_for (store @ ext) pn ref config"
  by (simp add: backend_for_def nth_append)

lemma refs_ok_extend: "refs_ok store table \<Longrightarrow> refs_ok (store @ ext) table"
  unfolding refs_ok_def by (simp add: nth_append trans_less_add1 del: set_concat set_map)

lemma build_backends_ok:
  assumes "build_backends gai previous sources pn store configs = Inr (store', refs)"
    and "\<And>table. previous = Some table \<Longrightarrow> refs_ok store table"
  shows "(\<exists>ext. store' = store @ ext) \<and> list_all2 (backend_for store' pn) refs configs"
  using assms
proof (induction configs arbitrary: store refs)
  case Nil
  then show ?case by simp
next
  case (Cons config configs)
  from Cons.prems(1) obtain store1 ref refs' where
    r: "resolve_backend gai store (carried_over_backend store previous config pn) config pn = Inr (store1, ref)"
    and b: "build_backends gai previous sources pn store1 configs = Inr (store', refs')" and refs: "refs = ref # refs'"
    by (auto simp: and_then_Inr_iff split: if_splits prod.splits)
  have carried: "backend_for store pn ref config" if "carried_over_backend store previous config pn = Some ref" for ref
    using carried_over_Some [OF that] Cons.prems(2) by blast
  from resolve_backend_ok [OF r carried] obtain ext where
    e: "store1 = store @ ext" "backend_for store1 pn ref config" by blast
  from Cons.IH [OF b] Cons.prems(2) e(1) refs_ok_extend obtain ext' where
    e': "store' = store1 @ ext'" "list_all2 (backend_for store' pn) refs' configs" by blast
  show ?case using e e' refs backend_for_extend [OF e(2), of ext'] by simp
qed

lemma pool_for_extend: "pool_for store pool config \<Longrightarrow> pool_for (store @ ext) pool config"
  by (auto simp: pool_for_def elim!: list_all2_mono intro: backend_for_extend)

lemma build_pools_ok:
  assumes "build_pools gai previous config table store pcs = Inr (store', table')"
    and "\<And>prev. previous = Some prev \<Longrightarrow> refs_ok store prev"
  shows "\<exists>ext pools. store' = store @ ext \<and> rt_pools table' = rt_pools table @ pools \<and>
    list_all2 (pool_for store') pools pcs \<and>
    (cfg_active_pool config \<in> pc_name ` set pcs \<longrightarrow>
       rt_active_pool_index table' < length (rt_pools table') \<and>
       ps_name (rt_pools table' ! rt_active_pool_index table') = cfg_active_pool config) \<and>
    (cfg_active_pool config \<notin> pc_name ` set pcs \<longrightarrow> rt_active_pool_index table' = rt_active_pool_index table) \<and>
    rt_upstream_source_addresses table' = rt_upstream_source_addresses table \<and> rt_failover table' = rt_failover table"
  using assms
proof (induction pcs arbitrary: store table)
  case Nil
  then show ?case by simp
next
  case (Cons pc pcs)
  from Cons.prems(1) obtain store1 refs where
    b: "build_backends gai previous (rt_upstream_source_addresses table) (pc_name pc) store (pc_backends pc) = Inr (store1, refs)"
    by (auto simp: and_then_Inr_iff)
  let ?pool = "\<lparr>ps_name = pc_name pc, ps_backends = refs\<rparr>"
  let ?t = "table\<lparr>rt_pools := rt_pools table @ [?pool]\<rparr>"
  let ?t1 = "if pc_name pc = cfg_active_pool config then ?t\<lparr>rt_active_pool_index := length (rt_pools table)\<rparr> else ?t"
  from Cons.prems(1) b have rest: "build_pools gai previous config ?t1 store1 pcs = Inr (store', table')"
    by (simp add: Let_def split: if_splits)
  from build_backends_ok [OF b] Cons.prems(2) obtain ext where
    e: "store1 = store @ ext" "list_all2 (backend_for store1 (pc_name pc)) refs (pc_backends pc)" by blast
  have pool: "pool_for store1 ?pool pc" using e(2) by (simp add: pool_for_def)
  from Cons.IH [OF rest] Cons.prems(2) e(1) refs_ok_extend obtain ext' pools where
    i: "store' = store1 @ ext'" "rt_pools table' = rt_pools ?t1 @ pools" "list_all2 (pool_for store') pools pcs"
      "cfg_active_pool config \<in> pc_name ` set pcs \<longrightarrow> rt_active_pool_index table' < length (rt_pools table') \<and>
        ps_name (rt_pools table' ! rt_active_pool_index table') = cfg_active_pool config"
      "cfg_active_pool config \<notin> pc_name ` set pcs \<longrightarrow> rt_active_pool_index table' = rt_active_pool_index ?t1"
      "rt_upstream_source_addresses table' = rt_upstream_source_addresses ?t1" "rt_failover table' = rt_failover ?t1"
    by blast
  have pools: "rt_pools ?t1 = rt_pools table @ [?pool]" by simp
  show ?case
  proof (intro exI [of _ "ext @ ext'"] exI [of _ "?pool # pools"] conjI impI)
    show "list_all2 (pool_for store') (?pool # pools) (pc # pcs)"
      using i(3) pool_for_extend [OF pool, of ext'] i(1) by simp
    assume a: "cfg_active_pool config \<in> pc_name ` set (pc # pcs)"
    show "rt_active_pool_index table' < length (rt_pools table')"
      and "ps_name (rt_pools table' ! rt_active_pool_index table') = cfg_active_pool config"
      using a i(2,4,5) pools by (cases "cfg_active_pool config \<in> pc_name ` set pcs"; auto simp: nth_append)+
  qed (use e(1) i pools in auto)
qed

lemma resolve_sources_length: "resolve_sources gai hosts = Inr as \<Longrightarrow> length as = length hosts"
  by (induction hosts arbitrary: as) (auto simp: and_then_Inr_iff)

lemma routing_table_built:
  assumes "make_routing_table getaddrinfo store config previous = Inr (store', table)"
    and "\<And>prev. previous = Some prev \<Longrightarrow> refs_ok store prev"
    and "cfg_active_pool config \<in> pc_name ` set (cfg_pools config)"
  shows "take (length store) store' = store \<and> list_all2 (pool_for store') (rt_pools table) (cfg_pools config) \<and>
    rt_active_pool_index table < length (rt_pools table) \<and>
    ps_name (rt_pools table ! rt_active_pool_index table) = cfg_active_pool config \<and>
    rt_failover table = cfg_failover config \<and>
    length (rt_upstream_source_addresses table) = length (cfg_upstream_source_addresses config)"
proof -
  from assms(1) obtain sources where s: "resolve_sources getaddrinfo (cfg_upstream_source_addresses config) = Inr sources"
    and b: "build_pools getaddrinfo previous config
         \<lparr>rt_active_pool = cfg_active_pool config, rt_failover = cfg_failover config,
          rt_health = cfg_health config, rt_upstream_source_addresses = sources, rt_pools = [],
          rt_active_pool_index = 0\<rparr> store (cfg_pools config) = Inr (store', table)"
    by (auto simp: make_routing_table_def and_then_Inr_iff)
  from build_pools_ok [OF b assms(2)] assms(3) resolve_sources_length [OF s] show ?thesis by auto
qed

text \<open>
  Property C35. A table built from a configuration whose active pool is configured has the configured
  pools in their order, each with one usable backend per configured backend, its active index points
  at the active pool, and no backend of the previous table was changed: sessions that still hold the
  old table keep seeing the same shared backends.
\<close>

theorem make_routing_table_ok:
  assumes "make_routing_table getaddrinfo store config previous = Inr (store', table)"
    and "\<And>prev. previous = Some prev \<Longrightarrow> refs_ok store prev"
    and "cfg_active_pool config \<in> pc_name ` set (cfg_pools config)"
  shows "take (length store) store' = store \<and> list_all2 (pool_for store') (rt_pools table) (cfg_pools config) \<and>
    rt_active_pool_index table < length (rt_pools table) \<and>
    ps_name (rt_pools table ! rt_active_pool_index table) = cfg_active_pool config \<and>
    rt_failover table = cfg_failover config \<and>
    length (rt_upstream_source_addresses table) = length (cfg_upstream_source_addresses config)"
  by (rule routing_table_built [OF assms])

text \<open>A resolver that knows one address, and the configuration with one pool built with it.\<close>

definition one_address_resolver :: resolver where
  "one_address_resolver host port flags =
     Inr [\<lparr>ai_family = AF_INET, ai_addrlen = 16, ai_addr = [2, 0, 13, 5, 10, 0, 0, 1, 0, 0, 0, 0, 0, 0, 0, 0]\<rparr>]"

lemma parse_sample_address: "parse_endpoint ''10.0.0.1:3333'' = Inr \<lparr>ep_host = ''10.0.0.1'', ep_port = 3333\<rparr>"
  using parse_endpoint_text [of False "''10.0.0.1''" "''3333''"]
  by (simp add: endpoint_text_def host_writable_def is_digit_def digits_value_def)

theorem make_routing_table_ok_witness:
  "case make_routing_table one_address_resolver [] sample_config None of
     Inl e \<Rightarrow> False
   | Inr (store', table) \<Rightarrow> list_all2 (pool_for store') (rt_pools table) (cfg_pools sample_config) \<and>
       rt_active_pool_index table < length (rt_pools table) \<and> ps_name (rt_pools table ! rt_active_pool_index table) = ''main''"
proof -
  have "\<not> isl (make_routing_table one_address_resolver [] sample_config None)"
    by (simp add: make_routing_table_def sample_config_def default_config_def carried_over_backend_def resolve_backend_def
        resolve_configured_def parse_sample_address resolve_endpoints_def resolve_addresses_def one_address_resolver_def
        sockaddr_bytes_def Let_def)
  then obtain store' table where t: "make_routing_table one_address_resolver [] sample_config None = Inr (store', table)"
    by (cases "make_routing_table one_address_resolver [] sample_config None") auto
  have "cfg_active_pool sample_config = ''main''" "pc_name ` set (cfg_pools sample_config) = {''main''}"
    by (simp_all add: sample_config_def)
  with make_routing_table_ok [OF t] t show ?thesis by simp
qed

subsection \<open>Reloading an unchanged configuration\<close>

text \<open>The entry still means what the backend was built from, or its names do not resolve right now.\<close>

definition unchanged :: "resolver \<Rightarrow> backend_store \<Rightarrow> backend_ref \<Rightarrow> backend_config \<Rightarrow> bool" where
  "unchanged getaddrinfo store ref config =
     (case resolve_configured getaddrinfo config of
        Inl (ConfigError message) \<Rightarrow> True
      | Inl (IoError message) \<Rightarrow> False
      | Inr (addresses, health_addresses) \<Rightarrow>
          same_addresses (be_socket_addresses (store ! ref)) addresses \<and>
          same_addresses (be_health_socket_addresses (store ! ref)) health_addresses)"

definition reusable :: "resolver \<Rightarrow> backend_store \<Rightarrow> socket_address list \<Rightarrow> backend_ref \<Rightarrow> backend_config \<Rightarrow> bool" where
  "reusable getaddrinfo store sources ref config \<longleftrightarrow> unchanged getaddrinfo store ref config \<and>
     (sources = [] \<or> has_compatible_source sources (be_socket_addresses (store ! ref)))"

lemma resolve_backend_unchanged:
  "unchanged gai store ref config \<Longrightarrow> resolve_backend gai store (Some ref) config pn = Inr (store, ref)"
proof (cases "resolve_configured gai config")
  case (Inl e)
  then show "unchanged gai store ref config \<Longrightarrow> ?thesis" by (cases e) (simp_all add: unchanged_def resolve_backend_def)
next
  case (Inr ah)
  then show "unchanged gai store ref config \<Longrightarrow> ?thesis" by (cases ah) (simp add: unchanged_def resolve_backend_def)
qed

lemma find_unique: "r \<in> set xs \<Longrightarrow> P r \<Longrightarrow> (\<And>x. x \<in> set xs \<Longrightarrow> P x \<Longrightarrow> x = r) \<Longrightarrow> find P xs = Some r"
  by (metis find_None_iff find_Some_iff not_None_eq nth_mem)

text \<open>With distinct pool names and distinct backend names in a pool, an entry finds its own backend again.\<close>

lemma carried_over_self:
  assumes pools: "list_all2 (pool_for store) (rt_pools prev) pcs" and pn: "distinct (map pc_name pcs)"
    and bn: "\<And>pc. pc \<in> set pcs \<Longrightarrow> distinct (map bc_name (pc_backends pc))"
    and i: "i < length pcs" and j: "j < length (pc_backends (pcs ! i))"
  shows "carried_over_backend store (Some prev) (pc_backends (pcs ! i) ! j) (pc_name (pcs ! i)) =
    Some (ps_backends (rt_pools prev ! i) ! j)"
proof -
  let ?matches = "\<lambda>ref. matches_config (store ! ref) (pc_backends (pcs ! i) ! j) (pc_name (pcs ! i))"
  have entry: "length (ps_backends (rt_pools prev ! k)) = length (pc_backends (pcs ! k))"
      "l < length (pc_backends (pcs ! k)) \<Longrightarrow>
       matches_config (store ! (ps_backends (rt_pools prev ! k) ! l)) (pc_backends (pcs ! k) ! l) (pc_name (pcs ! k))"
    if "k < length pcs" for k l
    using list_all2_nthD2 [OF pools that] by (auto simp: pool_for_def backend_for_def list_all2_conv_all_nth)
  have "rt_pools prev ! i \<in> set (rt_pools prev)" using pools i by (simp add: list_all2_lengthD)
  then have mem: "ps_backends (rt_pools prev ! i) ! j \<in> set (concat (map ps_backends (rt_pools prev)))"
    using entry(1) [OF i] j by (auto intro: bexI [of _ "rt_pools prev ! i"])
  have only: "ref = ps_backends (rt_pools prev ! i) ! j"
    if r: "ref \<in> set (concat (map ps_backends (rt_pools prev)))" and m: "?matches ref" for ref
  proof -
    from r obtain k l where k: "k < length pcs" "l < length (pc_backends (pcs ! k))"
      "ref = ps_backends (rt_pools prev ! k) ! l"
      using entry(1) list_all2_lengthD [OF pools] by (fastforce simp: in_set_conv_nth)
    with entry(2) [OF k(1,2)] m have "pc_name (pcs ! k) = pc_name (pcs ! i)"
      and names: "bc_name (pc_backends (pcs ! k) ! l) = bc_name (pc_backends (pcs ! i) ! j)"
      by (simp_all add: matches_config_def)
    with pn k(1) i have "k = i" by (simp add: distinct_conv_nth) metis
    moreover have "l = j"
      using bn [of "pcs ! i"] names k(2) j i \<open>k = i\<close> by (simp add: distinct_conv_nth) metis
    ultimately show ?thesis using k(3) by simp
  qed
  from find_unique [where P = ?matches, OF mem] entry(2) [OF i j] only show ?thesis by (simp add: carried_over_backend_def)
qed

lemma build_backends_kept:
  assumes "list_all2 (\<lambda>ref c. carried_over_backend store previous c pn = Some ref \<and> reusable gai store sources ref c) refs configs"
  shows "build_backends gai previous sources pn store configs = Inr (store, refs)"
  using assms by (induction rule: list_all2_induct) (auto simp: reusable_def resolve_backend_unchanged and_then_def)

lemma build_pools_kept:
  assumes "list_all2 (\<lambda>pool pc. ps_name pool = pc_name pc \<and>
      build_backends gai previous sources (pc_name pc) store (pc_backends pc) = Inr (store, ps_backends pool)) pools pcs"
    and "rt_upstream_source_addresses table = sources"
  shows "\<exists>table'. build_pools gai previous config table store pcs = Inr (store, table') \<and>
    rt_pools table' = rt_pools table @ pools"
  using assms
proof (induction arbitrary: table rule: list_all2_induct)
  case (Cons pool pools pc pcs)
  let ?t = "table\<lparr>rt_pools := rt_pools table @ [\<lparr>ps_name = pc_name pc, ps_backends = ps_backends pool\<rparr>]\<rparr>"
  let ?t1 = "if pc_name pc = cfg_active_pool config then ?t\<lparr>rt_active_pool_index := length (rt_pools table)\<rparr> else ?t"
  have "\<lparr>ps_name = pc_name pc, ps_backends = ps_backends pool\<rparr> = pool" using Cons.hyps by (cases pool) simp
  then have pools: "rt_pools ?t1 = rt_pools table @ [pool]" "rt_upstream_source_addresses ?t1 = sources"
    using Cons.prems by (simp_all split: if_split_asm) metis
  have "build_pools gai previous config table store (pc # pcs) = build_pools gai previous config ?t1 store pcs"
    using Cons.hyps Cons.prems by (simp add: Let_def)
  with Cons.IH [OF pools(2)] pools(1) show ?case by simp
qed simp

text \<open>
  Property C36. Reloading a configuration whose entries still mean the same addresses, in any order,
  or whose names do not resolve at the moment, yields a table with the very same backends: nothing is
  created, and so health, counters and connection counts carry over. Pool names are distinct, and
  backend names within a pool, as validation demands.
\<close>

theorem reload_keeps_backends:
  assumes "list_all2 (pool_for store) (rt_pools prev) (cfg_pools config)"
    and "distinct (map pc_name (cfg_pools config))"
    and "\<And>pc. pc \<in> set (cfg_pools config) \<Longrightarrow> distinct (map bc_name (pc_backends pc))"
    and "resolve_sources getaddrinfo (cfg_upstream_source_addresses config) = Inr sources"
    and "list_all2 (\<lambda>pool pc. list_all2 (reusable getaddrinfo store sources) (ps_backends pool) (pc_backends pc))
      (rt_pools prev) (cfg_pools config)"
  shows "\<exists>table. make_routing_table getaddrinfo store config (Some prev) = Inr (store, table) \<and> rt_pools table = rt_pools prev"
proof -
  let ?pools = "rt_pools prev" and ?pcs = "cfg_pools config"
  have "ps_name (?pools ! i) = pc_name (?pcs ! i) \<and>
      build_backends getaddrinfo (Some prev) sources (pc_name (?pcs ! i)) store (pc_backends (?pcs ! i)) =
        Inr (store, ps_backends (?pools ! i))" if i: "i < length ?pcs" for i
  proof
    show "ps_name (?pools ! i) = pc_name (?pcs ! i)"
      using list_all2_nthD2 [OF assms(1) i] by (simp add: pool_for_def)
    have "list_all2 (reusable getaddrinfo store sources) (ps_backends (?pools ! i)) (pc_backends (?pcs ! i))"
      using list_all2_nthD2 [OF assms(5) i] .
    then show "build_backends getaddrinfo (Some prev) sources (pc_name (?pcs ! i)) store (pc_backends (?pcs ! i)) =
        Inr (store, ps_backends (?pools ! i))"
      using carried_over_self [OF assms(1,2,3) i]
      by (intro build_backends_kept) (auto simp: list_all2_conv_all_nth)
  qed
  with list_all2_lengthD [OF assms(1)] have "list_all2 (\<lambda>pool pc. ps_name pool = pc_name pc \<and>
      build_backends getaddrinfo (Some prev) sources (pc_name pc) store (pc_backends pc) =
        Inr (store, ps_backends pool)) ?pools ?pcs"
    by (simp add: list_all2_conv_all_nth)
  from build_pools_kept [where table = "\<lparr>rt_active_pool = cfg_active_pool config, rt_failover = cfg_failover config,
          rt_health = cfg_health config, rt_upstream_source_addresses = sources, rt_pools = [],
          rt_active_pool_index = 0\<rparr>" and config = config] this assms(4)
  show ?thesis by (simp add: make_routing_table_def and_then_def)
qed

text \<open>The sample backend under the sample configuration, while the resolver is down.\<close>

theorem reload_keeps_backends_witness:
  "\<exists>table. make_routing_table (\<lambda>_ _ _. Inl ''down'')
      [(sample_backend 3)\<lparr>be_name := ''a'', be_socket_addresses := [\<lparr>sa_value = [], sa_length = 0, sa_family = AF_INET\<rparr>]\<rparr>]
      sample_config (Some (sample_table\<lparr>rt_pools := [\<lparr>ps_name = ''main'', ps_backends = [0]\<rparr>]\<rparr>)) =
    Inr ([(sample_backend 3)\<lparr>be_name := ''a'', be_socket_addresses := [\<lparr>sa_value = [], sa_length = 0, sa_family = AF_INET\<rparr>]\<rparr>], table) \<and>
    rt_pools table = [\<lparr>ps_name = ''main'', ps_backends = [0]\<rparr>]"
  (is "\<exists>table. make_routing_table ?gai [?b] _ (Some ?prev) = _ \<and> _")
proof -
  have "unchanged ?gai [?b] 0 \<lparr>bc_name = ''a'', bc_address = ''10.0.0.1:3333'', bc_health_address = [], bc_send_proxy_v2 = True\<rparr>"
    by (simp add: unchanged_def resolve_configured_def parse_sample_address resolve_endpoints_def resolve_addresses_def)
  then show ?thesis
    using reload_keeps_backends [where store = "[?b]" and prev = ?prev and config = sample_config and sources = "[]"
        and getaddrinfo = ?gai]
    by (simp add: sample_config_def default_config_def pool_for_def backend_for_def matches_config_def sample_backend_def
        new_backend_def reusable_def)
qed

end
