(* ===== verification/Validator.thy ===== *)
theory Validator
  imports Config_Model "HOL-Library.Char_ord" "HOL-Library.List_Lexorder"
begin

text \<open>
  Validation of the Stratum V1 requests of untrusted miners, from
  \<^verbatim>\<open>src/src/stratum/validator.hpp\<close> and \<^verbatim>\<open>validator.cpp\<close>. The JSON library (glaze) is not part of the
  sources: the record \<open>glaze\<close> lists the calls the validator makes of it, and every definition that
  parses takes it as an argument. Everything the validator decides itself is defined here.
\<close>

section \<open>Data\<close>

datatype validation_error =
  NoError | Empty | TooDeep | InvalidJson | InvalidShape | InvalidMethod | InvalidInitialMethod
  | InvalidSequence | InvalidId | InvalidParams | Count

datatype request_method =
  UnknownMethod | Authorize | Capabilities | Configure | ExtranonceSubscribe | GetTransactions
  | MultiVersion | Resume | Submit | Subscribe | SuggestDifficulty | SuggestTarget | UpdatePassword
  | Extension | Response

record protocol_state =
  received_message :: bool
  subscribed :: bool
  authorized :: bool
  resumed :: bool

definition initial_state :: protocol_state where
  "initial_state = \<lparr>received_message = False, subscribed = False, authorized = False, resumed = False\<rparr>"

record validation_result =
  vr_error :: validation_error
  vr_method :: request_method
  vr_rejected_method :: string

definition accepted :: "validation_result \<Rightarrow> bool" where
  "accepted r \<longleftrightarrow> vr_error r = NoError"

fun error_index :: "validation_error \<Rightarrow> nat" where
  "error_index NoError = 0"
| "error_index Empty = 1"
| "error_index TooDeep = 2"
| "error_index InvalidJson = 3"
| "error_index InvalidShape = 4"
| "error_index InvalidMethod = 5"
| "error_index InvalidInitialMethod = 6"
| "error_index InvalidSequence = 7"
| "error_index InvalidId = 8"
| "error_index InvalidParams = 9"
| "error_index Count = 10"

definition kValidationErrorCount :: nat where
  "kValidationErrorCount = error_index Count"

definition kBuiltInMethods :: "(string \<times> request_method) list" where
  "kBuiltInMethods =
     [(''mining.authorize'', Authorize), (''mining.capabilities'', Capabilities),
      (''mining.configure'', Configure), (''mining.extranonce.subscribe'', ExtranonceSubscribe),
      (''mining.get_transactions'', GetTransactions), (''mining.multi_version'', MultiVersion),
      (''mining.resume'', Resume), (''mining.submit'', Submit), (''mining.subscribe'', Subscribe),
      (''mining.suggest_difficulty'', SuggestDifficulty), (''mining.suggest_target'', SuggestTarget),
      (''mining.update_password'', UpdatePassword)]"

definition built_in_methods_are_sorted :: bool where
  "built_in_methods_are_sorted =
     list_all (\<lambda>index. fst (kBuiltInMethods ! (index - 1)) < fst (kBuiltInMethods ! index))
       [1..<length kBuiltInMethods]"

definition kMaximumGenericParams :: nat where "kMaximumGenericParams = 16"
definition kMaximumIdentityBytes :: nat where "kMaximumIdentityBytes = 512"
definition kMaximumShortStringBytes :: nat where "kMaximumShortStringBytes = 128"
definition kMaximumConfigureExtensions :: nat where "kMaximumConfigureExtensions = 32"
definition kMaximumConfigureOptions :: nat where "kMaximumConfigureOptions = 64"
definition kMaximumSubscribeParams :: nat where "kMaximumSubscribeParams = 8"
definition kMaximumAuthorizeParams :: nat where "kMaximumAuthorizeParams = 2"

text \<open>The members of a request object, as the raw text of their values.\<close>

record request_envelope =
  env_id :: "string option"
  env_method :: "string option"
  env_params :: "string option"
  env_result :: "string option"
  env_error :: "string option"

text \<open>
  The calls of the JSON library: reading a text as a string, a double, a generic value, an envelope
  or a vector of at most 16 raw values (\<^term>\<open>None\<close> is an error), and the queries of a generic value.
\<close>

record 'g glaze =
  read_string :: "string \<Rightarrow> string option"
  read_double :: "string \<Rightarrow> double option"
  read_generic :: "string \<Rightarrow> 'g option"
  read_envelope :: "string \<Rightarrow> request_envelope option"
  read_params :: "string \<Rightarrow> string list option"
  is_array :: "'g \<Rightarrow> bool"
  is_object :: "'g \<Rightarrow> bool"
  is_null :: "'g \<Rightarrow> bool"
  is_string :: "'g \<Rightarrow> bool"
  is_number :: "'g \<Rightarrow> bool"
  generic_size :: "'g \<Rightarrow> nat"
  has_member :: "'g \<Rightarrow> string \<Rightarrow> bool"
  get_member :: "'g \<Rightarrow> string \<Rightarrow> 'g"

section \<open>Operations\<close>

text \<open>The loop of \<^verbatim>\<open>within_depth\<close> with its three variables.\<close>

fun depth_loop :: "int \<Rightarrow> int \<Rightarrow> bool \<Rightarrow> bool \<Rightarrow> string \<Rightarrow> bool" where
  "depth_loop maximum_depth depth in_string escaped [] = True"
| "depth_loop maximum_depth depth in_string escaped (character # text) =
     (if in_string
      then if escaped then depth_loop maximum_depth depth True False text
           else if character = CHR 0x5C then depth_loop maximum_depth depth True True text
           else if character = CHR 0x22 then depth_loop maximum_depth depth False False text
           else depth_loop maximum_depth depth True False text
      else if character = CHR 0x22 then depth_loop maximum_depth depth True escaped text
      else if character = CHR ''{'' \<or> character = CHR ''[''
      then if maximum_depth < depth + 1 then False
           else depth_loop maximum_depth (depth + 1) False escaped text
      else if (character = CHR ''}'' \<or> character = CHR '']'') \<and> 0 < depth
      then depth_loop maximum_depth (depth - 1) False escaped text
      else depth_loop maximum_depth depth False escaped text)"

definition within_depth :: "string \<Rightarrow> int \<Rightarrow> bool" where
  "within_depth text maximum_depth = depth_loop maximum_depth 0 False False text"

definition json_whitespace :: "char \<Rightarrow> bool" where
  "json_whitespace c \<longleftrightarrow> c \<in> {CHR '' '', CHR 0x09, CHR 0x0A, CHR 0x0D}"

fun find_first_not :: "('a \<Rightarrow> bool) \<Rightarrow> 'a list \<Rightarrow> nat option" where
  "find_first_not p [] = None"
| "find_first_not p (x # xs) = (if p x then map_option Suc (find_first_not p xs) else Some 0)"

definition find_last_not :: "('a \<Rightarrow> bool) \<Rightarrow> 'a list \<Rightarrow> nat option" where
  "find_last_not p xs = map_option (\<lambda>i. length xs - 1 - i) (find_first_not p (rev xs))"

definition trim_json_whitespace :: "string \<Rightarrow> string" where
  "trim_json_whitespace value =
     (case find_first_not json_whitespace value of
        None \<Rightarrow> []
      | Some first \<Rightarrow>
          (case find_last_not json_whitespace value of
             None \<Rightarrow> []
           | Some last_index \<Rightarrow> take (last_index - first + 1) (drop first value)))"

text \<open>The decoded string, \<^term>\<open>None\<close> where the source returns false.\<close>

definition decode_json_string :: "'g glaze \<Rightarrow> string \<Rightarrow> string option" where
  "decode_json_string glz raw0 =
     (let raw = trim_json_whitespace raw0
      in if length raw < 2 \<or> hd raw \<noteq> CHR 0x22 \<or> last raw \<noteq> CHR 0x22 then None
         else let contents = take (length raw - 2) (drop 1 raw)
              in if CHR 0x5C \<notin> set contents then Some contents else read_string glz raw)"

text \<open>\<^verbatim>\<open>std::lower_bound\<close>: the first index from \<open>first\<close> on whose element is not less, by halving.\<close>

function lower_bound :: "('a \<Rightarrow> bool) \<Rightarrow> 'a list \<Rightarrow> nat \<Rightarrow> nat \<Rightarrow> nat" where
  "lower_bound below xs first len =
     (if 0 < len
      then let half = len div 2; middle = first + half
           in if below (xs ! middle) then lower_bound below xs (middle + 1) (len - half - 1)
              else lower_bound below xs first half
      else first)"
  by pat_completeness auto
termination by (relation "measure (\<lambda>(_, _, _, len). len)") auto

declare lower_bound.simps [simp del]

definition built_in_method :: "string \<Rightarrow> request_method" where
  "built_in_method method =
     (let iterator = lower_bound (\<lambda>entry. fst entry < method) kBuiltInMethods 0 (length kBuiltInMethods)
      in if iterator = length kBuiltInMethods \<or> fst (kBuiltInMethods ! iterator) \<noteq> method
         then UnknownMethod else snd (kBuiltInMethods ! iterator))"

definition allowed_method :: "string \<Rightarrow> protocol_config \<Rightarrow> request_method option" where
  "allowed_method method config =
     (let built_in = built_in_method method
      in if built_in \<noteq> UnknownMethod then Some built_in
         else if method \<in> set (additional_allowed_methods config) then Some Extension
         else if allow_unknown_mining_methods config \<and> starts_with method ''mining.'' \<and>
                 length method \<le> kMaximumProtocolMethodBytes
         then Some Extension
         else None)"

definition allowed_initial_method :: "request_method \<Rightarrow> string \<Rightarrow> protocol_config \<Rightarrow> bool" where
  "allowed_initial_method method method_name config =
     (case method of
        Authorize \<Rightarrow> True | Configure \<Rightarrow> True | ExtranonceSubscribe \<Rightarrow> True | Subscribe \<Rightarrow> True
      | SuggestDifficulty \<Rightarrow> True | Resume \<Rightarrow> True
      | Extension \<Rightarrow> method_name \<in> set (additional_initial_methods config)
      | _ \<Rightarrow> False)"

definition starts_number :: "string \<Rightarrow> bool" where
  "starts_number raw \<longleftrightarrow> raw \<noteq> [] \<and> (hd raw = CHR ''-'' \<or> (CHR ''0'' \<le> hd raw \<and> hd raw \<le> CHR ''9''))"

definition starts_string :: "string \<Rightarrow> bool" where
  "starts_string raw \<longleftrightarrow> raw \<noteq> [] \<and> hd raw = CHR 0x22"

definition valid_id :: "'g glaze \<Rightarrow> string \<Rightarrow> validation_error" where
  "valid_id glz raw0 =
     (let raw = trim_json_whitespace raw0
      in if raw = ''null'' \<or> starts_string raw then NoError
         else if \<not> starts_number raw then InvalidId
         else case read_double glz raw of
                None \<Rightarrow> InvalidJson
              | Some v \<Rightarrow> if isfinite v \<and> v = double_floor v then NoError else InvalidId)"

definition bounded_string :: "'g glaze \<Rightarrow> string \<Rightarrow> nat \<Rightarrow> bool \<Rightarrow> validation_error" where
  "bounded_string glz raw maximum require_nonempty =
     (case decode_json_string glz raw of
        None \<Rightarrow> InvalidParams
      | Some v \<Rightarrow>
          (if maximum < length v \<or> (require_nonempty \<and> v = []) then InvalidParams else NoError))"

text \<open>The loops that return the first error of a parameter.\<close>

fun first_error :: "('a \<Rightarrow> validation_error) \<Rightarrow> 'a list \<Rightarrow> validation_error" where
  "first_error f [] = NoError"
| "first_error f (param # params) =
     (let error = f param in if error \<noteq> NoError then error else first_error f params)"

definition strings_only :: "'g glaze \<Rightarrow> string list \<Rightarrow> nat \<Rightarrow> nat \<Rightarrow> nat \<Rightarrow> validation_error" where
  "strings_only glz params minimum maximum maximum_string_bytes =
     (if length params < minimum \<or> maximum < length params then InvalidParams
      else first_error (\<lambda>param. bounded_string glz param maximum_string_bytes False) params)"

definition primitive_param :: "'g glaze \<Rightarrow> string \<Rightarrow> validation_error" where
  "primitive_param glz param =
     (let raw = trim_json_whitespace param
      in if raw = ''null'' \<or> raw = ''true'' \<or> raw = ''false'' then NoError
         else if starts_string raw then bounded_string glz raw kMaximumIdentityBytes False
         else if starts_number raw then (if read_double glz raw = None then InvalidJson else NoError)
         else InvalidParams)"

definition primitive_params :: "'g glaze \<Rightarrow> string list \<Rightarrow> nat \<Rightarrow> validation_error" where
  "primitive_params glz params maximum =
     (if maximum < length params then InvalidParams else first_error (primitive_param glz) params)"

definition configure_params :: "'g glaze \<Rightarrow> string list \<Rightarrow> validation_error" where
  "configure_params glz params =
     (if params = [] then NoError
      else if length params \<noteq> 2 then InvalidParams
      else case (read_generic glz (params ! 0), read_generic glz (params ! 1)) of
             (Some extensions, Some options) \<Rightarrow>
               (if \<not> is_array glz extensions \<or> \<not> is_object glz options \<or>
                   kMaximumConfigureExtensions < generic_size glz extensions \<or>
                   kMaximumConfigureOptions < generic_size glz options
                then InvalidParams else NoError)
           | _ \<Rightarrow> InvalidJson)"

definition capabilities_params :: "'g glaze \<Rightarrow> string list \<Rightarrow> validation_error" where
  "capabilities_params glz params =
     (if params = [] then NoError
      else if length params \<noteq> 1 then InvalidParams
      else case read_generic glz (hd params) of
             None \<Rightarrow> InvalidJson
           | Some capabilities \<Rightarrow>
               (if is_object glz capabilities \<and> generic_size glz capabilities \<le> kMaximumConfigureOptions
                then NoError else InvalidParams))"

definition suggest_difficulty_params :: "'g glaze \<Rightarrow> string list \<Rightarrow> validation_error" where
  "suggest_difficulty_params glz params =
     (if length params \<noteq> 1 then InvalidParams
      else let raw = trim_json_whitespace (hd params)
           in if starts_number raw
              then (case read_double glz raw of
                      None \<Rightarrow> InvalidJson
                    | Some v \<Rightarrow> if isfinite v \<and> double_less (Fin 0) v then NoError else InvalidParams)
              else bounded_string glz raw kMaximumShortStringBytes True)"

definition valid_params :: "'g glaze \<Rightarrow> request_method \<Rightarrow> string list \<Rightarrow> validation_error" where
  "valid_params glz method params =
     (if kMaximumGenericParams < length params then InvalidParams
      else case method of
             Authorize \<Rightarrow>
               (if params = [] then InvalidParams else primitive_params glz params kMaximumAuthorizeParams)
           | UpdatePassword \<Rightarrow> strings_only glz params 2 2 kMaximumIdentityBytes
           | Submit \<Rightarrow> strings_only glz params 5 6 kMaximumIdentityBytes
           | Subscribe \<Rightarrow> primitive_params glz params kMaximumSubscribeParams
           | ExtranonceSubscribe \<Rightarrow> primitive_params glz params kMaximumSubscribeParams
           | SuggestTarget \<Rightarrow> strings_only glz params 1 1 kMaximumShortStringBytes
           | SuggestDifficulty \<Rightarrow> suggest_difficulty_params glz params
           | Configure \<Rightarrow> configure_params glz params
           | Capabilities \<Rightarrow> capabilities_params glz params
           | GetTransactions \<Rightarrow> strings_only glz params 1 1 kMaximumIdentityBytes
           | _ \<Rightarrow> primitive_params glz params kMaximumGenericParams)"

definition valid_sequence :: "request_method \<Rightarrow> protocol_state \<Rightarrow> bool" where
  "valid_sequence method state =
     (case method of
        Submit \<Rightarrow> (subscribed state \<and> authorized state) \<or> resumed state
      | GetTransactions \<Rightarrow> subscribed state
      | UpdatePassword \<Rightarrow> authorized state
      | _ \<Rightarrow> True)"

definition reject :: "validation_error \<Rightarrow> request_method \<Rightarrow> string \<Rightarrow> validation_result" where
  "reject error method method_name =
     \<lparr>vr_error = error, vr_method = method, vr_rejected_method = method_name\<rparr>"

definition accept :: "request_method \<Rightarrow> validation_result" where
  "accept method = \<lparr>vr_error = NoError, vr_method = method, vr_rejected_method = []\<rparr>"

text \<open>An object without a method: a miner's response to a request of the pool.\<close>

definition validate_response :: "'g glaze \<Rightarrow> string \<Rightarrow> protocol_state \<Rightarrow> validation_result" where
  "validate_response glz line state =
     (if \<not> received_message state then reject InvalidShape UnknownMethod []
      else case read_generic glz line of
             None \<Rightarrow> reject InvalidJson UnknownMethod []
           | Some document \<Rightarrow>
               (if \<not> is_object glz document \<or> \<not> has_member glz document ''id'' \<or>
                   (\<not> has_member glz document ''result'' \<and> \<not> has_member glz document ''error'')
                then reject InvalidShape UnknownMethod []
                else let id = get_member glz document ''id''
                     in if \<not> is_null glz id \<and> \<not> is_string glz id \<and> \<not> is_number glz id
                        then reject InvalidId Response []
                        else accept Response))"

text \<open>An object with a method, from the sequence check on.\<close>

definition validate_call ::
  "'g glaze \<Rightarrow> request_envelope \<Rightarrow> string \<Rightarrow> request_method \<Rightarrow> protocol_state \<Rightarrow> protocol_config \<Rightarrow> validation_result" where
  "validate_call glz envelope method_name method state config =
     (if \<not> received_message state \<and> \<not> allowed_initial_method method method_name config
      then reject InvalidInitialMethod method method_name
      else if \<not> valid_sequence method state then reject InvalidSequence method method_name
      else let id_error = (case env_id envelope of None \<Rightarrow> NoError | Some raw \<Rightarrow> valid_id glz raw)
           in if id_error \<noteq> NoError then reject id_error method method_name
              else case (case env_params envelope of None \<Rightarrow> Some [] | Some raw \<Rightarrow> read_params glz raw) of
                     None \<Rightarrow> reject InvalidParams method method_name
                   | Some params \<Rightarrow>
                       (let params_error = valid_params glz method params
                        in if params_error \<noteq> NoError then reject params_error method method_name
                           else accept method))"

definition chomp :: "string \<Rightarrow> string" where
  "chomp line = (if line \<noteq> [] \<and> last line = CHR 0x0D then butlast line else line)"

definition validate_request ::
  "'g glaze \<Rightarrow> string \<Rightarrow> protocol_state \<Rightarrow> protocol_config \<Rightarrow> validation_result" where
  "validate_request glz line0 state config =
     (let line = chomp line0; trimmed = trim_json_whitespace line
      in if line = [] then reject Empty UnknownMethod []
         else if \<not> within_depth line (max_json_depth config) then reject TooDeep UnknownMethod []
         else if trimmed = [] then reject InvalidJson UnknownMethod []
         else if hd trimmed \<noteq> CHR ''{''
         then (if read_generic glz line = None then reject InvalidJson UnknownMethod []
               else reject InvalidShape UnknownMethod [])
         else case read_envelope glz line of
                None \<Rightarrow> reject InvalidJson UnknownMethod []
              | Some envelope \<Rightarrow>
                  (case env_method envelope of
                     None \<Rightarrow> validate_response glz line state
                   | Some raw_method \<Rightarrow>
                       (case decode_json_string glz raw_method of
                          None \<Rightarrow>
                            reject (if starts_string (trim_json_whitespace raw_method) then InvalidJson
                                    else InvalidShape) UnknownMethod []
                        | Some name \<Rightarrow>
                            (case allowed_method name config of
                               None \<Rightarrow> reject InvalidMethod UnknownMethod name
                             | Some method \<Rightarrow> validate_call glz envelope name method state config))))"

definition record_request :: "protocol_state \<Rightarrow> request_method \<Rightarrow> protocol_state" where
  "record_request state method =
     (let state = state\<lparr>received_message := True\<rparr>
      in if method = Subscribe then state\<lparr>subscribed := True\<rparr>
         else if method = Authorize then state\<lparr>authorized := True\<rparr>
         else if method = Resume then state\<lparr>resumed := True\<rparr>
         else state)"

definition record_request_name :: "protocol_state \<Rightarrow> string \<Rightarrow> protocol_state" where
  "record_request_name state method = record_request state (built_in_method method)"

definition validation_error_name :: "validation_error \<Rightarrow> string" where
  "validation_error_name error =
     (case error of
        NoError \<Rightarrow> ''none'' | Empty \<Rightarrow> ''empty'' | TooDeep \<Rightarrow> ''too_deep'' | InvalidJson \<Rightarrow> ''invalid_json''
      | InvalidShape \<Rightarrow> ''invalid_shape'' | InvalidMethod \<Rightarrow> ''invalid_method''
      | InvalidInitialMethod \<Rightarrow> ''invalid_initial_method'' | InvalidSequence \<Rightarrow> ''invalid_sequence''
      | InvalidId \<Rightarrow> ''invalid_id'' | InvalidParams \<Rightarrow> ''invalid_params'' | Count \<Rightarrow> ''unknown'')"

section \<open>The method table\<close>

lemma lower_bound_correct:
  assumes mono: "\<And>i j. i \<le> j \<Longrightarrow> j < length xs \<Longrightarrow> below (xs ! j) \<Longrightarrow> below (xs ! i)"
    and "first + len \<le> length xs" and "\<And>i. i < first \<Longrightarrow> below (xs ! i)"
    and "\<And>i. first + len \<le> i \<Longrightarrow> i < length xs \<Longrightarrow> \<not> below (xs ! i)"
  shows "lower_bound below xs first len \<le> length xs \<and>
    (\<forall>i<length xs. below (xs ! i) \<longleftrightarrow> i < lower_bound below xs first len)"
  using assms(2-)
proof (induction len arbitrary: first rule: less_induct)
  case (less len)
  show ?case
  proof (cases "0 < len")
    case False
    then have "lower_bound below xs first len = first" by (simp add: lower_bound.simps)
    with False less.prems show ?thesis by (metis add.right_neutral gr0I not_less)
  next
    case True
    let ?m = "first + len div 2"
    have m: "?m < length xs" using True less.prems(1) by simp
    show ?thesis
    proof (cases "below (xs ! ?m)")
      case b: True
      then have step: "lower_bound below xs first len = lower_bound below xs (?m + 1) (len - len div 2 - 1)"
        using True by (simp add: lower_bound.simps [of below xs first len] Let_def)
      have "below (xs ! i)" if "i < ?m + 1" for i using mono [OF _ m b, of i] that by simp
      moreover have "?m + 1 + (len - len div 2 - 1) = first + len" using True by simp
      ultimately show ?thesis
        unfolding step using less.IH [of "len - len div 2 - 1" "?m + 1"] less.prems True by simp
    next
      case nb: False
      then have step: "lower_bound below xs first len = lower_bound below xs first (len div 2)"
        using True by (simp add: lower_bound.simps [of below xs first len] Let_def)
      have "\<not> below (xs ! i)" if "?m \<le> i" "i < length xs" for i using mono [OF that] nb by blast
      moreover have "first + len div 2 \<le> length xs" "len div 2 < len" using m True by simp_all
      ultimately show ?thesis
        unfolding step using less.prems(2) by (intro less.IH)
    qed
  qed
qed

lemma kBuiltInMethods_sorted: "sorted_wrt (<) (map fst kBuiltInMethods)"
  by code_simp

lemma built_in_method_correct:
  "built_in_method m = (case map_of kBuiltInMethods m of Some r \<Rightarrow> r | None \<Rightarrow> UnknownMethod)"
proof -
  let ?T = kBuiltInMethods
  let ?b = "\<lambda>entry. fst entry < m"
  let ?k = "lower_bound ?b ?T 0 (length ?T)"
  have lt: "fst (?T ! i) < fst (?T ! j)" if "i < j" "j < length ?T" for i j
    using sorted_wrt_nth_less [OF kBuiltInMethods_sorted, of i j] that by simp
  then have "?b (?T ! i)" if "i \<le> j" "j < length ?T" "?b (?T ! j)" for i j
    using that lt [of i j] by (metis le_neq_implies_less order_less_trans)
  from lower_bound_correct [of ?T ?b 0 "length ?T", OF this]
  have k: "?k \<le> length ?T" "\<And>i. i < length ?T \<Longrightarrow> ?b (?T ! i) \<longleftrightarrow> i < ?k" by auto
  have dist: "distinct (map fst ?T)"
    using kBuiltInMethods_sorted strict_sorted_iff by blast
  show ?thesis
  proof (cases "map_of ?T m")
    case None
    then have "fst (?T ! i) \<noteq> m" if "i < length ?T" for i
      using that by (auto simp: map_of_eq_None_iff)
    with None k(1) show ?thesis by (auto simp: built_in_method_def Let_def)
  next
    case (Some r)
    then have "(m, r) \<in> set ?T" by (rule map_of_SomeD)
    then obtain j where j: "j < length ?T" "?T ! j = (m, r)" by (auto simp: in_set_conv_nth)
    have "\<not> j < ?k" using k(2) [OF j(1)] j(2) by simp
    moreover have "\<not> ?k < j" using k(2) [of ?k] lt [of ?k j] j by auto
    ultimately have "?k = j" by simp
    with Some j show ?thesis by (simp add: built_in_method_def Let_def)
  qed
qed

text \<open>
  The binary search over the table of built-in methods finds exactly what a linear search
  would: the entry with that name, and no method when there is none. The table is strictly sorted.
\<close>

lemma built_in_method_lookup:
  "built_in_methods_are_sorted \<and>
   built_in_method m = (case map_of kBuiltInMethods m of Some r \<Rightarrow> r | None \<Rightarrow> UnknownMethod)"
proof -
  have "built_in_methods_are_sorted" by code_simp
  with built_in_method_correct show ?thesis by blast
qed

section \<open>Trimming\<close>

lemma find_first_not_dropWhile:
  "find_first_not p xs = (if dropWhile p xs = [] then None else Some (length (takeWhile p xs)))"
  by (induction xs) auto

lemma trim_eq: "trim_json_whitespace v = rev (dropWhile json_whitespace (rev (dropWhile json_whitespace v)))"
proof (cases "dropWhile json_whitespace v = []")
  case True
  moreover from True have "rev (dropWhile json_whitespace (rev (dropWhile json_whitespace v))) = []"
    by (simp only: rev.simps dropWhile.simps)
  ultimately show ?thesis by (simp add: trim_json_whitespace_def find_first_not_dropWhile)
next
  case False
  let ?ws = json_whitespace
  define a b where "a = takeWhile ?ws v" and "b = dropWhile ?ws v"
  have v: "v = a @ b" by (simp add: a_def b_def)
  define c d where "c = rev (dropWhile ?ws (rev b))" and "d = rev (takeWhile ?ws (rev b))"
  have b: "b = c @ d" unfolding c_def d_def by (metis rev_append rev_rev_ident takeWhile_dropWhile_id)
  have "b \<noteq> []" "\<not> ?ws (hd b)" using False hd_dropWhile [of ?ws v] by (simp_all add: b_def)
  then have "\<exists>x\<in>set (rev b). \<not> ?ws x" by (metis hd_in_set set_rev)
  then have dv: "dropWhile ?ws (rev v) = dropWhile ?ws (rev b) @ rev a"
    and tv: "takeWhile ?ws (rev v) = takeWhile ?ws (rev b)"
    unfolding v rev_append by (metis dropWhile_append1, metis takeWhile_append1)
  have cne: "c \<noteq> []" unfolding c_def using \<open>\<exists>x\<in>set (rev b). \<not> ?ws x\<close> by (simp add: dropWhile_eq_Nil_conv)
  then have last: "find_last_not ?ws v = Some (length v - 1 - length d)"
    by (simp add: find_last_not_def find_first_not_dropWhile dv tv c_def d_def)
  have "length v - 1 - length d - length a + 1 = length c" using cne by (simp add: v b Suc_leI length_greater_0_conv)
  then show ?thesis
    using last False by (simp add: trim_json_whitespace_def find_first_not_dropWhile a_def [symmetric] b_def [symmetric] c_def [symmetric])
      (simp add: v b)
qed

text \<open>
  Trimming removes exactly the JSON whitespace at both ends: the text is the trimmed
  value between two runs of whitespace, and the value neither begins nor ends with whitespace.
\<close>

lemma trim_json_whitespace_exact:
  "\<exists>before after. v = before @ trim_json_whitespace v @ after \<and>
     list_all json_whitespace before \<and> list_all json_whitespace after \<and>
     (trim_json_whitespace v = [] \<or>
       \<not> json_whitespace (hd (trim_json_whitespace v)) \<and> \<not> json_whitespace (last (trim_json_whitespace v)))"
proof -
  let ?ws = json_whitespace
  let ?b = "dropWhile ?ws v"
  let ?t = "rev (dropWhile ?ws (rev ?b))" and ?d = "rev (takeWhile ?ws (rev ?b))"
  have split: "v = takeWhile ?ws v @ ?t @ ?d"
    by (metis append.assoc rev_append rev_rev_ident takeWhile_dropWhile_id)
  have ws: "list_all ?ws (takeWhile ?ws v)" "list_all ?ws ?d"
    by (auto simp: list_all_iff dest: set_takeWhileD)
  have "\<not> ?ws (hd ?t) \<and> \<not> ?ws (last ?t)" if "?t \<noteq> []"
  proof
    show "\<not> ?ws (last ?t)" using that hd_dropWhile [of ?ws "rev ?b"] by (simp add: last_rev)
    have "?b = ?t @ ?d" by (metis rev_append rev_rev_ident takeWhile_dropWhile_id)
    then have "hd ?b = hd ?t" "?b \<noteq> []" using that by (metis hd_append2, metis append_is_Nil_conv)
    then show "\<not> ?ws (hd ?t)" using hd_dropWhile [of ?ws v] by simp
  qed
  then show ?thesis unfolding trim_eq using split ws by blast
qed

section \<open>Nesting depth\<close>

text \<open>
  JSON texts: scalars, strings of plain and escaped characters, arrays and objects, with padding
  around any value. The classes are wider than the standard's (a scalar is any run of characters
  without quotes, braces and brackets), so what is shown of them holds of every JSON text.
\<close>

datatype piece = Plain char | Escape char

datatype json = Scalar string | Text "piece list" | Array "json list" | Object "json list"
  | Member json json | Padded string json string

fun piece_text :: "piece \<Rightarrow> string" where
  "piece_text (Plain c) = [c]"
| "piece_text (Escape c) = [CHR 0x5C, c]"

fun piece_ok :: "piece \<Rightarrow> bool" where
  "piece_ok (Plain c) = (c \<noteq> CHR 0x5C \<and> c \<noteq> CHR 0x22)"
| "piece_ok (Escape c) = True"

fun join_with :: "char \<Rightarrow> string list \<Rightarrow> string" where
  "join_with c [] = []"
| "join_with c [x] = x"
| "join_with c (x # y # ys) = x @ c # join_with c (y # ys)"

fun render :: "json \<Rightarrow> string" where
  "render (Scalar s) = s"
| "render (Text ps) = CHR 0x22 # concat (map piece_text ps) @ [CHR 0x22]"
| "render (Array vs) = CHR ''['' # join_with (CHR '','') (map render vs) @ '']''"
| "render (Object vs) = CHR ''{'' # join_with (CHR '','') (map render vs) @ ''}''"
| "render (Member k v) = render k @ CHR '':'' # render v"
| "render (Padded a v b) = a @ render v @ b"

fun json_depth :: "json \<Rightarrow> int" where
  "json_depth (Scalar s) = 0"
| "json_depth (Text ps) = 0"
| "json_depth (Array vs) = 1 + foldr max (map json_depth vs) 0"
| "json_depth (Object vs) = 1 + foldr max (map json_depth vs) 0"
| "json_depth (Member k v) = max (json_depth k) (json_depth v)"
| "json_depth (Padded a v b) = json_depth v"

definition quiet :: "char \<Rightarrow> bool" where
  "quiet c \<longleftrightarrow> c \<notin> {CHR 0x22, CHR ''{'', CHR ''}'', CHR ''['', CHR '']''}"

fun json_ok :: "json \<Rightarrow> bool" where
  "json_ok (Scalar s) = list_all quiet s"
| "json_ok (Text ps) = list_all piece_ok ps"
| "json_ok (Array vs) = list_all json_ok vs"
| "json_ok (Object vs) = list_all json_ok vs"
| "json_ok (Member k v) = (json_ok k \<and> json_ok v)"
| "json_ok (Padded a v b) = (list_all quiet a \<and> json_ok v \<and> list_all quiet b)"

lemma json_depth_nonneg: "0 \<le> json_depth v"
proof (induction v rule: json_depth.induct)
  case (3 vs)
  have "0 \<le> foldr max (map json_depth vs) 0" by (induction vs) auto
  then show ?case by simp
next
  case (4 vs)
  have "0 \<le> foldr max (map json_depth vs) 0" by (induction vs) auto
  then show ?case by simp
qed auto

lemma depth_loop_quiet:
  "list_all quiet s \<Longrightarrow> depth_loop m d False False (s @ r) = depth_loop m d False False r"
  by (induction s) (auto simp: quiet_def)

lemma depth_loop_pieces:
  "list_all piece_ok ps \<Longrightarrow>
     depth_loop m d True False (concat (map piece_text ps) @ CHR 0x22 # r) = depth_loop m d False False r"
proof (induction ps)
  case (Cons p ps)
  then show ?case by (cases p) simp_all
qed simp

lemma depth_loop_join:
  assumes "\<And>v r. v \<in> set vs \<Longrightarrow> depth_loop m d False False (render v @ r) = (d + json_depth v \<le> m \<and> depth_loop m d False False r)"
    and "d \<le> m"
  shows "depth_loop m d False False (join_with (CHR '','') (map render vs) @ r) =
    (d + foldr max (map json_depth vs) 0 \<le> m \<and> depth_loop m d False False r)"
  using assms
proof (induction vs arbitrary: r rule: induct_list012)
  case (2 v)
  then show ?case using json_depth_nonneg [of v] by (simp add: max_def)
next
  case (3 v w vs)
  have "depth_loop m d False False (join_with (CHR '','') (map render (v # w # vs)) @ r) =
      (d + json_depth v \<le> m \<and> depth_loop m d False False (join_with (CHR '','') (map render (w # vs)) @ r))"
    using 3(3) by simp
  also have "\<dots> = (d + json_depth v \<le> m \<and> d + foldr max (map json_depth (w # vs)) 0 \<le> m \<and> depth_loop m d False False r)"
    using 3(2) [of r] 3(3,4) by simp
  finally have step: "depth_loop m d False False (join_with (CHR '','') (map render (v # w # vs)) @ r) = \<dots>" .
  have max: "d + max a b \<le> m \<longleftrightarrow> d + a \<le> m \<and> d + b \<le> m" for a b by auto
  show ?case unfolding step unfolding list.map foldr_Cons o_apply max by blast
qed simp

lemma depth_loop_render:
  "json_ok v \<Longrightarrow> 0 \<le> d \<Longrightarrow> d \<le> m \<Longrightarrow>
     depth_loop m d False False (render v @ r) = (d + json_depth v \<le> m \<and> depth_loop m d False False r)"
proof (induction v arbitrary: d r rule: render.induct)
  case (1 s)
  then show ?case by (simp add: depth_loop_quiet)
next
  case (2 ps)
  then show ?case using depth_loop_pieces [of ps m d r] by simp
next
  case (3 vs)
  have nonneg: "0 \<le> foldr max (map json_depth vs) 0" by (induction vs) auto
  show ?case
  proof (cases "d + 1 \<le> m")
    case True
    have "depth_loop m (d + 1) False False (join_with (CHR '','') (map render vs) @ CHR '']'' # r) =
        (d + 1 + foldr max (map json_depth vs) 0 \<le> m \<and> depth_loop m (d + 1) False False (CHR '']'' # r))"
      using 3 True by (intro depth_loop_join) (auto simp: list_all_iff)
    with True 3(3) show ?thesis by (simp add: add.assoc)
  next
    case False
    with nonneg show ?thesis by simp
  qed
next
  case (4 vs)
  have nonneg: "0 \<le> foldr max (map json_depth vs) 0" by (induction vs) auto
  show ?case
  proof (cases "d + 1 \<le> m")
    case True
    have "depth_loop m (d + 1) False False (join_with (CHR '','') (map render vs) @ CHR ''}'' # r) =
        (d + 1 + foldr max (map json_depth vs) 0 \<le> m \<and> depth_loop m (d + 1) False False (CHR ''}'' # r))"
      using 4 True by (intro depth_loop_join) (auto simp: list_all_iff)
    with True 4(3) show ?thesis by (simp add: add.assoc)
  next
    case False
    with nonneg show ?thesis by simp
  qed
next
  case (5 k v)
  then show ?case by auto
next
  case (6 a v b)
  then show ?case by (simp add: depth_loop_quiet)
qed

text \<open>
  Property C30. On the text of a JSON value, strings with escapes and padding included, the one-pass
  scan accepts exactly the values whose arrays and objects nest at most as deep as the limit.
\<close>

theorem within_depth_exact:
  assumes "json_ok v" and "0 \<le> maximum_depth"
  shows "within_depth (render v) maximum_depth \<longleftrightarrow> json_depth v \<le> maximum_depth"
  using depth_loop_render [OF assms(1), of 0 maximum_depth "[]"] assms(2) by (simp add: within_depth_def)

theorem within_depth_exact_witness:
  "within_depth (render (Array [Text [Plain (CHR ''[''), Escape (CHR 0x22)], Scalar ''1''])) 1"
proof -
  let ?v = "Array [Text [Plain (CHR ''[''), Escape (CHR 0x22)], Scalar ''1'']"
  have "json_ok ?v" "json_depth ?v \<le> 1" by code_simp+
  then show ?thesis using within_depth_exact [of ?v 1] by simp
qed

section \<open>Accepted requests\<close>

lemma accepted_simps [simp]: "accepted (accept m)" "accepted (reject e m n) \<longleftrightarrow> e = NoError"
  "vr_method (accept m) = m" "vr_method (reject e m n) = m"
  by (simp_all add: accepted_def accept_def reject_def)

lemma first_error_iff: "first_error f xs = NoError \<longleftrightarrow> (\<forall>x\<in>set xs. f x = NoError)"
  by (induction xs) (auto simp: Let_def)

lemma bounded_string_iff:
  "bounded_string glz raw maximum ne = NoError \<longleftrightarrow>
     (\<exists>v. decode_json_string glz raw = Some v \<and> length v \<le> maximum \<and> (ne \<longrightarrow> v \<noteq> []))"
  by (auto simp: bounded_string_def not_le split: option.splits)

lemma strings_only_iff:
  "strings_only glz params lo hi n = NoError \<longleftrightarrow>
     lo \<le> length params \<and> length params \<le> hi \<and>
     (\<forall>p\<in>set params. \<exists>v. decode_json_string glz p = Some v \<and> length v \<le> n)"
  by (auto simp: strings_only_def first_error_iff bounded_string_iff)

lemma valid_params_length: "valid_params glz m params = NoError \<Longrightarrow> length params \<le> 16"
  by (simp add: valid_params_def kMaximumGenericParams_def split: if_splits)

text \<open>The parameters of an envelope: an absent member is an empty list.\<close>

definition envelope_params :: "'g glaze \<Rightarrow> request_envelope \<Rightarrow> string list option" where
  "envelope_params glz envelope = (case env_params envelope of None \<Rightarrow> Some [] | Some raw \<Rightarrow> read_params glz raw)"

lemma validate_call_accepted:
  "accepted (validate_call glz envelope name method state config) \<longleftrightarrow>
     (received_message state \<or> allowed_initial_method method name config) \<and> valid_sequence method state \<and>
     (\<forall>raw. env_id envelope = Some raw \<longrightarrow> valid_id glz raw = NoError) \<and>
     (\<exists>params. envelope_params glz envelope = Some params \<and> valid_params glz method params = NoError)"
  by (auto simp: validate_call_def envelope_params_def Let_def split: option.splits)

lemma validate_call_method: "vr_method (validate_call glz envelope name method state config) = method"
  by (simp add: validate_call_def Let_def split: option.split)

lemma validate_response_accepted:
  "accepted (validate_response glz line state) \<Longrightarrow>
     received_message state \<and> vr_method (validate_response glz line state) = Response"
  by (auto simp: validate_response_def Let_def split: option.splits if_splits)

lemma built_in_not_special: "built_in_method name \<noteq> Response \<and> built_in_method name \<noteq> Extension"
proof -
  have "r \<in> snd ` set kBuiltInMethods" if "map_of kBuiltInMethods name = Some r" for r
    using map_of_SomeD [OF that] by force
  then show ?thesis
    by (auto simp: built_in_method_correct kBuiltInMethods_def split: option.splits)
qed

lemma allowed_method_not_response: "allowed_method name config = Some m \<Longrightarrow> m \<noteq> Response"
  using built_in_not_special [of name] by (auto simp: allowed_method_def Let_def split: if_splits)

lemma validate_request_accepted:
  assumes "accepted (validate_request glz line state config)"
  shows "(received_message state \<and> vr_method (validate_request glz line state config) = Response) \<or>
    (\<exists>envelope raw name. read_envelope glz (chomp line) = Some envelope \<and> env_method envelope = Some raw \<and>
       decode_json_string glz raw = Some name \<and>
       allowed_method name config = Some (vr_method (validate_request glz line state config)) \<and>
       accepted (validate_call glz envelope name (vr_method (validate_request glz line state config)) state config))"
proof -
  from assms obtain envelope where env: "read_envelope glz (chomp line) = Some envelope"
    and eq: "validate_request glz line state config =
      (case env_method envelope of
         None \<Rightarrow> validate_response glz (chomp line) state
       | Some raw_method \<Rightarrow>
           (case decode_json_string glz raw_method of
              None \<Rightarrow>
                reject (if starts_string (trim_json_whitespace raw_method) then InvalidJson else InvalidShape)
                  UnknownMethod []
            | Some name \<Rightarrow>
                (case allowed_method name config of
                   None \<Rightarrow> reject InvalidMethod UnknownMethod name
                 | Some method \<Rightarrow> validate_call glz envelope name method state config)))"
    by (auto simp: validate_request_def Let_def split: if_splits option.split_asm)
  show ?thesis
    using assms env unfolding eq
    by (auto simp: validate_call_method dest: validate_response_accepted split: option.splits if_splits)
qed

text \<open>A connection's accepted lines, each validated in the state the earlier ones left.\<close>

fun accept_lines :: "'g glaze \<Rightarrow> protocol_config \<Rightarrow> protocol_state \<Rightarrow> string list \<Rightarrow> request_method list option" where
  "accept_lines glz config state [] = Some []"
| "accept_lines glz config state (line # lines) =
     (let r = validate_request glz line state config
      in if accepted r
         then map_option (\<lambda>ms. vr_method r # ms) (accept_lines glz config (record_request state (vr_method r)) lines)
         else None)"

lemma record_request_simps [simp]:
  "received_message (record_request st m)"
  "subscribed (record_request st m) \<longleftrightarrow> subscribed st \<or> m = Subscribe"
  "authorized (record_request st m) \<longleftrightarrow> authorized st \<or> m = Authorize"
  "resumed (record_request st m) \<longleftrightarrow> resumed st \<or> m = Resume"
  by (auto simp: record_request_def Let_def)

text \<open>What the methods accepted so far must contain before a method is accepted.\<close>

definition preceded :: "protocol_state \<Rightarrow> request_method list \<Rightarrow> request_method \<Rightarrow> bool" where
  "preceded st before m =
     (case m of
        Submit \<Rightarrow> ((subscribed st \<or> Subscribe \<in> set before) \<and> (authorized st \<or> Authorize \<in> set before)) \<or>
          (resumed st \<or> Resume \<in> set before)
      | GetTransactions \<Rightarrow> subscribed st \<or> Subscribe \<in> set before
      | UpdatePassword \<Rightarrow> authorized st \<or> Authorize \<in> set before
      | _ \<Rightarrow> True)"

lemma preceded_Cons: "preceded (record_request st m) before k = preceded st (m # before) k"
  by (cases k) (auto simp: preceded_def)

lemma accepted_sequence: "accepted (validate_request glz line st config) \<Longrightarrow>
    preceded st [] (vr_method (validate_request glz line st config))"
  by (drule validate_request_accepted)
    (auto simp: validate_call_accepted valid_sequence_def preceded_def split: request_method.splits)

lemma accept_lines_preceded:
  "accept_lines glz config st lines = Some ms \<Longrightarrow> i < length ms \<Longrightarrow> preceded st (take i ms) (ms ! i)"
proof (induction lines arbitrary: st ms i)
  case (Cons line lines)
  let ?r = "validate_request glz line st config"
  from Cons.prems obtain ms' where acc: "accepted ?r" and ms: "ms = vr_method ?r # ms'"
    and rest: "accept_lines glz config (record_request st (vr_method ?r)) lines = Some ms'"
    by (auto simp: Let_def split: if_splits)
  show ?case
  proof (cases i)
    case 0
    with ms accepted_sequence [OF acc] show ?thesis by simp
  next
    case (Suc j)
    with Cons.IH [OF rest, of j] Cons.prems(2) ms show ?thesis by (simp add: preceded_Cons)
  qed
qed simp

text \<open>A reader that knows a few requests, standing for the JSON library in examples.\<close>

definition quoted :: "string \<Rightarrow> string" where
  "quoted s = CHR 0x22 # s @ [CHR 0x22]"

definition sample_call :: "string \<Rightarrow> string option \<Rightarrow> request_envelope" where
  "sample_call name params =
     \<lparr>env_id = Some ''1'', env_method = Some (quoted name), env_params = params, env_result = None, env_error = None\<rparr>"

definition sample_glaze :: "unit glaze" where
  "sample_glaze =
     \<lparr>read_string = (\<lambda>_. None), read_double = (\<lambda>raw. if raw = ''1'' then Some (Fin 1) else None),
      read_generic = (\<lambda>_. None),
      read_envelope = (\<lambda>line. if line = ''{s}'' then Some (sample_call ''mining.subscribe'' None)
        else if line = ''{a}'' then Some (sample_call ''mining.authorize'' (Some ''[1]''))
        else if line = ''{x}'' then Some (sample_call ''mining.submit'' (Some ''[5]'')) else None),
      read_params = (\<lambda>raw. if raw = ''[1]'' then Some [quoted ''w''] else Some (replicate 5 (quoted ''w''))),
      is_array = (\<lambda>_. False), is_object = (\<lambda>_. False), is_null = (\<lambda>_. False), is_string = (\<lambda>_. False),
      is_number = (\<lambda>_. False), generic_size = (\<lambda>_. 0), has_member = (\<lambda>_ _. False), get_member = (\<lambda>g _. g)\<rparr>"

lemma sample_lines_accepted:
  "accept_lines sample_glaze default_protocol initial_state [''{s}'', ''{a}'', ''{x}''] = Some [Subscribe, Authorize, Submit]"
  by code_simp

definition initial_methods :: "request_method set" where
  "initial_methods = {Authorize, Configure, ExtranonceSubscribe, Subscribe, SuggestDifficulty, Resume}"

text \<open>
  Property C6. In the stream of requests a connection gets accepted, whatever the miner sends and
  however the JSON library behaves, the first is an authorize, configure, subscribe, extranonce
  subscribe, suggest-difficulty or resume call, or an extension if initial extensions are configured;
  a share is accepted only after both a subscribe and an authorize call or after a resume call, a
  transaction query only after a subscribe and a password change only after an authorize call.
\<close>

theorem stratum_session_order:
  assumes "accept_lines glz config initial_state lines = Some ms" and "i < length ms"
  shows "(ms ! 0 \<in> initial_methods \<or> ms ! 0 = Extension \<and> additional_initial_methods config \<noteq> []) \<and>
    (ms ! i = Submit \<longrightarrow>
      (Subscribe \<in> set (take i ms) \<and> Authorize \<in> set (take i ms)) \<or> Resume \<in> set (take i ms)) \<and>
    (ms ! i = GetTransactions \<longrightarrow> Subscribe \<in> set (take i ms)) \<and>
    (ms ! i = UpdatePassword \<longrightarrow> Authorize \<in> set (take i ms))"
proof -
  from assms obtain line lines' where "lines = line # lines'" by (cases lines) auto
  with assms have first: "accepted (validate_request glz line initial_state config)"
      "ms ! 0 = vr_method (validate_request glz line initial_state config)"
    by (auto simp: Let_def split: if_splits)
  have "\<not> received_message initial_state" by (simp add: initial_state_def)
  with validate_request_accepted [OF first(1)] obtain name where "allowed_initial_method (ms ! 0) name config"
    unfolding first(2) [symmetric] validate_call_accepted by blast
  then have "ms ! 0 \<in> initial_methods \<or> ms ! 0 = Extension \<and> additional_initial_methods config \<noteq> []"
    by (cases "ms ! 0") (auto simp: allowed_initial_method_def initial_methods_def)
  moreover have "preceded initial_state (take i ms) (ms ! i)" by (rule accept_lines_preceded [OF assms])
  ultimately show ?thesis by (cases "ms ! i") (simp_all add: preceded_def initial_state_def)
qed

theorem stratum_session_order_witness:
  "[Subscribe, Authorize, Submit] ! 0 \<in> initial_methods \<and>
   (Subscribe \<in> set (take 2 [Subscribe, Authorize, Submit]) \<and> Authorize \<in> set (take 2 [Subscribe, Authorize, Submit]) \<or>
    Resume \<in> set (take 2 [Subscribe, Authorize, Submit]))"
  using stratum_session_order [OF sample_lines_accepted, of 2] by (simp add: default_protocol_def)

lemma built_in_names:
  assumes "built_in_method name = m" and "m \<noteq> UnknownMethod"
  shows "(name, m) \<in> set kBuiltInMethods"
  using assms by (auto simp: built_in_method_correct dest: map_of_SomeD split: option.splits)

text \<open>
  An accepted share carries the method name mining.submit and five or six parameters,
  each of which decodes to a string of at most 512 bytes.
\<close>

lemma accepted_submit:
  assumes "accepted (validate_request glz line state config)"
    and "vr_method (validate_request glz line state config) = Submit"
  shows "\<exists>envelope raw params. read_envelope glz (chomp line) = Some envelope \<and>
    env_method envelope = Some raw \<and> decode_json_string glz raw = Some ''mining.submit'' \<and>
    envelope_params glz envelope = Some params \<and> length params \<in> {5, 6} \<and>
    (\<forall>p\<in>set params. \<exists>s. decode_json_string glz p = Some s \<and> length s \<le> 512)"
proof -
  from validate_request_accepted [OF assms(1)] assms(2) obtain envelope raw name where
    env: "read_envelope glz (chomp line) = Some envelope" "env_method envelope = Some raw"
      "decode_json_string glz raw = Some name" and name: "allowed_method name config = Some Submit"
    and call: "accepted (validate_call glz envelope name Submit state config)" by auto
  from name have "built_in_method name = Submit" by (auto simp: allowed_method_def Let_def split: if_splits)
  then have "name = ''mining.submit''" using built_in_names [of name Submit] by (simp add: kBuiltInMethods_def)
  moreover from call obtain params where p: "envelope_params glz envelope = Some params"
      and v: "valid_params glz Submit params = NoError" by (auto simp: validate_call_accepted)
  from v have "5 \<le> length params \<and> length params \<le> 6 \<and>
      (\<forall>p\<in>set params. \<exists>s. decode_json_string glz p = Some s \<and> length s \<le> 512)"
    by (simp add: valid_params_def strings_only_iff kMaximumIdentityBytes_def split: if_splits)
  moreover from this have "length params \<in> {5, 6}" by auto
  ultimately show ?thesis using env p by blast
qed

lemma accepted_submit_witness:
  "\<exists>params. envelope_params sample_glaze (sample_call ''mining.submit'' (Some ''[5]'')) = Some params \<and>
     length params \<in> {5, 6} \<and> (\<forall>p\<in>set params. \<exists>s. decode_json_string sample_glaze p = Some s \<and> length s \<le> 512)"
proof -
  let ?st = "\<lparr>received_message = True, subscribed = True, authorized = True, resumed = False\<rparr>"
  let ?r = "validate_request sample_glaze ''{x}'' ?st default_protocol"
  have "?r = accept Submit" by code_simp
  then have "accepted ?r" "vr_method ?r = Submit" by simp_all
  from accepted_submit [OF this] obtain envelope params where
    "read_envelope sample_glaze (chomp ''{x}'') = Some envelope" "envelope_params sample_glaze envelope = Some params"
    "length params \<in> {5, 6}" "\<forall>p\<in>set params. \<exists>s. decode_json_string sample_glaze p = Some s \<and> length s \<le> 512"
    by blast
  moreover have "read_envelope sample_glaze (chomp ''{x}'') = Some (sample_call ''mining.submit'' (Some ''[5]''))"
    by code_simp
  ultimately show ?thesis by auto
qed

lemma first_error_not_Count: "(\<And>x. f x \<noteq> Count) \<Longrightarrow> first_error f xs \<noteq> Count"
  by (induction xs) (auto simp: Let_def)

lemma bounded_string_not_Count: "bounded_string glz raw n ne \<noteq> Count"
  by (simp add: bounded_string_def split: option.split)

lemma primitive_params_not_Count: "primitive_params glz params n \<noteq> Count"
proof -
  have "primitive_param glz x \<noteq> Count" for x
    by (simp add: primitive_param_def Let_def bounded_string_not_Count)
  then show ?thesis by (simp add: primitive_params_def first_error_not_Count)
qed

lemma strings_only_not_Count: "strings_only glz params lo hi n \<noteq> Count"
  by (simp add: strings_only_def bounded_string_not_Count first_error_not_Count)

lemma valid_params_not_Count: "valid_params glz m params \<noteq> Count"
  by (cases m)
    (simp_all add: valid_params_def primitive_params_not_Count strings_only_not_Count configure_params_def
      capabilities_params_def suggest_difficulty_params_def bounded_string_not_Count Let_def split: option.split)

lemma valid_id_not_Count: "valid_id glz raw \<noteq> Count"
  by (simp add: valid_id_def Let_def split: option.split)

text \<open>What callers rely on in every result.\<close>

definition result_ok :: "validation_result \<Rightarrow> bool" where
  "result_ok r \<longleftrightarrow> vr_error r \<noteq> Count \<and> (accepted r \<longrightarrow> vr_rejected_method r = [])"

lemma result_ok_simps [simp]: "result_ok (accept m)" "e \<noteq> Count \<Longrightarrow> e \<noteq> NoError \<Longrightarrow> result_ok (reject e m n)"
  "e \<noteq> Count \<Longrightarrow> result_ok (reject e m [])"
  by (simp_all add: result_ok_def accept_def reject_def accepted_def)

lemma validate_call_ok: "result_ok (validate_call glz envelope name m st config)"
  by (simp add: validate_call_def Let_def valid_params_not_Count valid_id_not_Count split: option.split)

lemma validate_request_ok: "result_ok (validate_request glz line st config)"
  by (simp add: validate_request_def validate_response_def Let_def validate_call_ok split: option.split)

lemma error_index_less: "e \<noteq> Count \<Longrightarrow> error_index e < kValidationErrorCount"
  by (cases e) (simp_all add: kValidationErrorCount_def)

lemma error_index_inj: "inj error_index"
proof (rule injI)
  fix x y show "error_index x = error_index y \<Longrightarrow> x = y" by (cases x; cases y) simp_all
qed

lemma error_name_inj: "inj validation_error_name"
proof (rule injI)
  fix x y show "validation_error_name x = validation_error_name y \<Longrightarrow> x = y"
    by (cases x; cases y) (simp_all add: validation_error_name_def)
qed

text \<open>
  The error of every result indexes the counter array of the statistics, an accepted
  request never carries a rejected method name, and different errors have different counters and are
  reported under different names.
\<close>

lemma validation_outcomes:
  "error_index (vr_error (validate_request glz line state config)) < kValidationErrorCount \<and>
   \<not> (accepted (validate_request glz line state config) \<and>
      vr_rejected_method (validate_request glz line state config) \<noteq> []) \<and>
   inj validation_error_name \<and> inj error_index"
  using validate_request_ok [of glz line state config] error_index_less error_index_inj error_name_inj
  by (simp add: result_ok_def)

end
