(* ===== verification/Stats.thy ===== *)
theory Stats
  imports Validator
begin

text \<open>
  The reactor counters and the process-wide byte budget of \<^verbatim>\<open>src/src/core/stats.hpp\<close> and
  \<^verbatim>\<open>stats.cpp\<close>. Counters are 64-bit values with the wrap-around written out. The budget is shared by
  all reactor threads through compare-exchange loops, so its operations are given twice: as the
  function one thread computes when it runs alone, and step by step, one atomic access per step, for
  every interleaving of any number of threads.
\<close>

section \<open>Counters of a worker\<close>

record worker_stats =
  accepted_connections :: nat
  closed_connections :: nat
  worker_active_connections :: nat
  rejected_global_limit :: nat
  rejected_global_rate :: nat
  rejected_source_capacity :: nat
  rejected_ip_limit :: nat
  rejected_rate_limit :: nat
  rejected_traffic_rate :: nat
  rejected_queue_limit :: nat
  rejected_tls :: nat
  rejected_protocol :: nat
  rejected_no_backend :: nat
  upstream_connect_errors :: nat
  client_bytes :: nat
  upstream_bytes :: nat
  client_reads_paused :: nat
  upstream_reads_paused :: nat
  shared_pressure_pauses :: nat
  events_processed :: nat
  event_batches :: nat
  batch_processing_nanoseconds :: nat
  maximum_batch_processing_nanoseconds :: nat
  tls_handshake_attempts :: nat
  tls_handshake_successes :: nat
  tls_handshake_nanoseconds :: nat
  protocol_errors :: "nat list"

definition new_worker_stats :: worker_stats where
  "new_worker_stats =
     \<lparr>accepted_connections = 0, closed_connections = 0, worker_active_connections = 0,
      rejected_global_limit = 0, rejected_global_rate = 0, rejected_source_capacity = 0,
      rejected_ip_limit = 0, rejected_rate_limit = 0, rejected_traffic_rate = 0,
      rejected_queue_limit = 0, rejected_tls = 0, rejected_protocol = 0, rejected_no_backend = 0,
      upstream_connect_errors = 0, client_bytes = 0, upstream_bytes = 0, client_reads_paused = 0,
      upstream_reads_paused = 0, shared_pressure_pauses = 0, events_processed = 0, event_batches = 0,
      batch_processing_nanoseconds = 0, maximum_batch_processing_nanoseconds = 0,
      tls_handshake_attempts = 0, tls_handshake_successes = 0, tls_handshake_nanoseconds = 0,
      protocol_errors = replicate kValidationErrorCount 0\<rparr>"

definition fetch_add :: "nat \<Rightarrow> nat \<Rightarrow> nat" where
  "fetch_add counter n = wrap64 (counter + n)"

definition fetch_sub :: "nat \<Rightarrow> nat \<Rightarrow> nat" where
  "fetch_sub counter n = wrap64 (counter + 2 ^ 64 - n mod 2 ^ 64)"

definition record_protocol_error :: "worker_stats \<Rightarrow> validation_error \<Rightarrow> worker_stats" where
  "record_protocol_error w error =
     (let w = w\<lparr>rejected_protocol := fetch_add (rejected_protocol w) 1\<rparr>; index = error_index error
      in if index < length (protocol_errors w)
         then w\<lparr>protocol_errors := (protocol_errors w)[index := fetch_add (protocol_errors w ! index) 1]\<rparr>
         else w)"

text \<open>Each worker's statistics are written by its own thread, so the maximum is raised in one round.\<close>

definition record_event_batch :: "worker_stats \<Rightarrow> nat \<Rightarrow> int \<Rightarrow> worker_stats" where
  "record_event_batch w events processing_time =
     (let elapsed = nat (max processing_time 0);
          w = w\<lparr>events_processed := fetch_add (events_processed w) events\<rparr>;
          w = w\<lparr>event_batches := fetch_add (event_batches w) 1\<rparr>;
          w = w\<lparr>batch_processing_nanoseconds := fetch_add (batch_processing_nanoseconds w) elapsed\<rparr>;
          maximum = maximum_batch_processing_nanoseconds w
      in if maximum < elapsed then w\<lparr>maximum_batch_processing_nanoseconds := elapsed\<rparr> else w)"

section \<open>Process aggregation\<close>

record stats =
  started_at :: time_point
  active_connections :: nat
  queued_bytes :: nat
  queued_bytes_high_water :: nat
  queued_bytes_limit :: nat
  tracked_clients :: nat
  io_workers :: nat
  tls_reload_successes :: nat
  tls_reload_failures :: nat
  workers :: "worker_stats list"

definition new_stats :: "time_point \<Rightarrow> stats" where
  "new_stats now =
     \<lparr>started_at = now, active_connections = 0, queued_bytes = 0, queued_bytes_high_water = 0,
      queued_bytes_limit = 2 ^ 64 - 1, tracked_clients = 0, io_workers = 0, tls_reload_successes = 0,
      tls_reload_failures = 0, workers = []\<rparr>"

definition initialize_workers :: "stats \<Rightarrow> nat \<Rightarrow> stats" where
  "initialize_workers s how_many =
     (if workers s \<noteq> [] then s else s\<lparr>workers := replicate how_many new_worker_stats\<rparr>)"

definition worker_count :: "stats \<Rightarrow> nat" where
  "worker_count s = length (workers s)"

text \<open>
  A snapshot has the counters of a worker except its active connections, which stay zero; every
  counter is added up, the largest batch time is the largest of the workers'.
\<close>

definition add_worker :: "worker_stats \<Rightarrow> worker_stats \<Rightarrow> worker_stats" where
  "add_worker output w =
     \<lparr>accepted_connections = wrap64 (accepted_connections output + accepted_connections w),
      closed_connections = wrap64 (closed_connections output + closed_connections w),
      worker_active_connections = worker_active_connections output,
      rejected_global_limit = wrap64 (rejected_global_limit output + rejected_global_limit w),
      rejected_global_rate = wrap64 (rejected_global_rate output + rejected_global_rate w),
      rejected_source_capacity = wrap64 (rejected_source_capacity output + rejected_source_capacity w),
      rejected_ip_limit = wrap64 (rejected_ip_limit output + rejected_ip_limit w),
      rejected_rate_limit = wrap64 (rejected_rate_limit output + rejected_rate_limit w),
      rejected_traffic_rate = wrap64 (rejected_traffic_rate output + rejected_traffic_rate w),
      rejected_queue_limit = wrap64 (rejected_queue_limit output + rejected_queue_limit w),
      rejected_tls = wrap64 (rejected_tls output + rejected_tls w),
      rejected_protocol = wrap64 (rejected_protocol output + rejected_protocol w),
      rejected_no_backend = wrap64 (rejected_no_backend output + rejected_no_backend w),
      upstream_connect_errors = wrap64 (upstream_connect_errors output + upstream_connect_errors w),
      client_bytes = wrap64 (client_bytes output + client_bytes w),
      upstream_bytes = wrap64 (upstream_bytes output + upstream_bytes w),
      client_reads_paused = wrap64 (client_reads_paused output + client_reads_paused w),
      upstream_reads_paused = wrap64 (upstream_reads_paused output + upstream_reads_paused w),
      shared_pressure_pauses = wrap64 (shared_pressure_pauses output + shared_pressure_pauses w),
      events_processed = wrap64 (events_processed output + events_processed w),
      event_batches = wrap64 (event_batches output + event_batches w),
      batch_processing_nanoseconds = wrap64 (batch_processing_nanoseconds output + batch_processing_nanoseconds w),
      maximum_batch_processing_nanoseconds =
        max (maximum_batch_processing_nanoseconds output) (maximum_batch_processing_nanoseconds w),
      tls_handshake_attempts = wrap64 (tls_handshake_attempts output + tls_handshake_attempts w),
      tls_handshake_successes = wrap64 (tls_handshake_successes output + tls_handshake_successes w),
      tls_handshake_nanoseconds = wrap64 (tls_handshake_nanoseconds output + tls_handshake_nanoseconds w),
      protocol_errors = map2 (\<lambda>a b. wrap64 (a + b)) (protocol_errors output) (protocol_errors w)\<rparr>"

definition snapshot :: "stats \<Rightarrow> worker_stats" where
  "snapshot s = foldl add_worker new_worker_stats (workers s)"

section \<open>The byte budget, one thread alone\<close>

definition try_reserve_queued_bytes :: "stats \<Rightarrow> nat \<Rightarrow> stats \<times> bool" where
  "try_reserve_queued_bytes s bytes =
     (let maximum = queued_bytes_limit s
      in if maximum < bytes then (s, False)
         else let current = queued_bytes s
              in if current \<le> maximum - bytes
                 then let replacement = wrap64 (current + bytes); high_water = queued_bytes_high_water s
                      in (s\<lparr>queued_bytes := replacement,
                            queued_bytes_high_water := (if high_water < replacement then replacement else high_water)\<rparr>, True)
                 else (s, False))"

definition release_queued_bytes :: "stats \<Rightarrow> nat \<Rightarrow> stats" where
  "release_queued_bytes s bytes = s\<lparr>queued_bytes := fetch_sub (queued_bytes s) bytes\<rparr>"

section \<open>The byte budget, one atomic access at a time\<close>

record budget =
  b_queued :: nat
  b_high_water :: nat
  b_limit :: nat

text \<open>
  Where a thread is in \<^verbatim>\<open>try_reserve_queued_bytes\<close>, with its local variables: about to load the limit,
  about to load the current value, in the first loop, about to load the high-water mark, in the second
  loop, or returned.
\<close>

datatype reserve_pc =
    LoadLimit nat
  | LoadCurrent nat nat
  | ReserveLoop nat nat nat
  | LoadHighWater nat
  | HighWaterLoop nat nat
  | Returned bool

text \<open>
  One atomic access. \<open>weak\<close> says that a weak compare-exchange fails although the value is as
  expected; a failed exchange loads the value it found.
\<close>

fun reserve_step :: "bool \<Rightarrow> budget \<Rightarrow> reserve_pc \<Rightarrow> budget \<times> reserve_pc" where
  "reserve_step weak g (LoadLimit bytes) =
     (g, if b_limit g < bytes then Returned False else LoadCurrent bytes (b_limit g))"
| "reserve_step weak g (LoadCurrent bytes maximum) = (g, ReserveLoop bytes maximum (b_queued g))"
| "reserve_step weak g (ReserveLoop bytes maximum current) =
     (if current \<le> maximum - bytes
      then if b_queued g = current \<and> \<not> weak
           then (g\<lparr>b_queued := wrap64 (current + bytes)\<rparr>, LoadHighWater (wrap64 (current + bytes)))
           else (g, ReserveLoop bytes maximum (b_queued g))
      else (g, Returned False))"
| "reserve_step weak g (LoadHighWater replacement) = (g, HighWaterLoop replacement (b_high_water g))"
| "reserve_step weak g (HighWaterLoop replacement high_water) =
     (if high_water < replacement
      then if b_high_water g = high_water \<and> \<not> weak
           then (g\<lparr>b_high_water := replacement\<rparr>, Returned True)
           else (g, HighWaterLoop replacement (b_high_water g))
      else (g, Returned True))"
| "reserve_step weak g (Returned r) = (g, Returned r)"

text \<open>
  The system: the shared values, each thread's position, and as a ghost value the bytes each thread
  has reserved and not yet released.
\<close>

record budget_system =
  shared :: budget
  pcs :: "reserve_pc list"
  held :: "nat list"

fun newly_reserved :: "budget \<Rightarrow> budget \<times> reserve_pc \<Rightarrow> reserve_pc \<Rightarrow> nat" where
  "newly_reserved g (g', LoadHighWater r) (ReserveLoop bytes maximum current) = bytes"
| "newly_reserved g _ _ = 0"

inductive budget_step :: "budget_system \<Rightarrow> budget_system \<Rightarrow> bool" where
  call: "i < length (pcs s) \<Longrightarrow> pcs s ! i = Returned r \<Longrightarrow> bytes < 2 ^ 64 \<Longrightarrow>
    budget_step s (s\<lparr>pcs := (pcs s)[i := LoadLimit bytes]\<rparr>)"
| run: "i < length (pcs s) \<Longrightarrow> reserve_step weak (shared s) (pcs s ! i) = (g, pc) \<Longrightarrow>
    budget_step s (s\<lparr>shared := g, pcs := (pcs s)[i := pc],
      held := (held s)[i := held s ! i + newly_reserved (shared s) (g, pc) (pcs s ! i)]\<rparr>)"
| release: "i < length (pcs s) \<Longrightarrow> pcs s ! i = Returned r \<Longrightarrow> bytes \<le> held s ! i \<Longrightarrow>
    budget_step s (s\<lparr>shared := (shared s)\<lparr>b_queued := fetch_sub (b_queued (shared s)) bytes\<rparr>,
      held := (held s)[i := held s ! i - bytes]\<rparr>)"
| publish: "limit < 2 ^ 64 \<Longrightarrow> budget_step s (s\<lparr>shared := (shared s)\<lparr>b_limit := limit\<rparr>\<rparr>)"

definition new_budget_system :: "nat \<Rightarrow> nat \<Rightarrow> budget_system" where
  "new_budget_system threads limit =
     \<lparr>shared = \<lparr>b_queued = 0, b_high_water = 0, b_limit = limit\<rparr>, pcs = replicate threads (Returned True),
      held = replicate threads 0\<rparr>"

text \<open>States reachable by any interleaving in which no limit above \<open>L\<close> is ever published.\<close>

inductive budget_reach :: "nat \<Rightarrow> budget_system \<Rightarrow> bool" for L where
  start: "limit \<le> L \<Longrightarrow> budget_reach L (new_budget_system threads limit)"
| step: "budget_reach L s \<Longrightarrow> budget_step s s' \<Longrightarrow> b_limit (shared s') \<le> L \<Longrightarrow> budget_reach L s'"

section \<open>Every interleaving keeps the budget\<close>

fun pc_ok :: "nat \<Rightarrow> nat \<Rightarrow> reserve_pc \<Rightarrow> bool" where
  "pc_ok L h (LoadCurrent bytes maximum) = (bytes \<le> maximum \<and> maximum \<le> L)"
| "pc_ok L h (ReserveLoop bytes maximum current) = (bytes \<le> maximum \<and> maximum \<le> L)"
| "pc_ok L h (HighWaterLoop replacement high_water) = (high_water \<le> h)"
| "pc_ok L h _ = True"

lemma pc_ok_mono: "pc_ok L h pc \<Longrightarrow> h \<le> h' \<Longrightarrow> pc_ok L h' pc"
  by (cases pc) auto

text \<open>The value a thread has reserved but not yet offered to the high-water mark.\<close>

fun pending_mark :: "reserve_pc \<Rightarrow> nat" where
  "pending_mark (LoadHighWater r) = r"
| "pending_mark (HighWaterLoop r _) = r"
| "pending_mark _ = 0"

definition budget_ok :: "nat \<Rightarrow> budget_system \<Rightarrow> bool" where
  "budget_ok L s \<longleftrightarrow>
     length (held s) = length (pcs s) \<and> b_queued (shared s) = sum_list (held s) \<and>
     b_queued (shared s) \<le> L \<and> b_limit (shared s) \<le> L \<and> (\<forall>pc\<in>set (pcs s). pc_ok L (b_high_water (shared s)) pc) \<and>
     (b_queued (shared s) \<le> b_high_water (shared s) \<or> (\<exists>pc\<in>set (pcs s). b_queued (shared s) \<le> pending_mark pc))"

lemma fetch_sub_exact: "n \<le> c \<Longrightarrow> c < 2 ^ 64 \<Longrightarrow> fetch_sub c n = c - n"
proof -
  assume n: "n \<le> c" "c < 2 ^ 64"
  then have "c + 2 ^ 64 - n mod 2 ^ 64 = c - n + 2 ^ 64" by simp
  then show ?thesis using n by (simp only: fetch_sub_def wrap64_def mod_add_self2) simp
qed

lemma set_list_update_other: "i < length xs \<Longrightarrow> x \<in> set xs \<Longrightarrow> x \<noteq> xs ! i \<Longrightarrow> x \<in> set (xs[i := y])"
  by (metis in_set_conv_nth length_list_update nth_list_update_neq)

text \<open>A thread that moves on keeps the high-water condition if what it had pending is now covered.\<close>

lemma mark_kept:
  assumes "q \<le> h \<or> (\<exists>pc\<in>set ps. q \<le> pending_mark pc)" and "i < length ps" and "h \<le> h'" and "q' \<le> q"
    and "pending_mark (ps ! i) \<le> max h' (pending_mark pc')"
  shows "q' \<le> h' \<or> (\<exists>pc\<in>set (ps[i := pc']). q' \<le> pending_mark pc)"
proof (cases "q \<le> h")
  case True
  with assms show ?thesis by linarith
next
  case False
  with assms(1) obtain pc where pc: "pc \<in> set ps" "q \<le> pending_mark pc" by blast
  show ?thesis
  proof (cases "pc = ps ! i")
    case True
    have "pc' \<in> set (ps[i := pc'])" using assms(2) by (rule set_update_memI)
    with pc True assms(4,5) show ?thesis by (metis max_def order.trans)
  next
    case False
    with pc set_list_update_other [OF assms(2), of pc pc'] assms(4) show ?thesis by (meson order.trans)
  qed
qed

lemma pcs_update_ok:
  "\<forall>pc\<in>set ps. pc_ok L h pc \<Longrightarrow> h \<le> h' \<Longrightarrow> pc_ok L h' p \<Longrightarrow> \<forall>pc\<in>set (ps[i := p]). pc_ok L h' pc"
  using set_update_subset_insert [of ps i p] pc_ok_mono by blast

lemma reserve_step_ok:
  assumes "reserve_step weak g pc = (g', pc')" and "pc_ok L (b_high_water g) pc" and "b_limit g \<le> L" and "L < 2 ^ 64"
  shows "pc_ok L (b_high_water g') pc' \<and> b_limit g' = b_limit g \<and> b_high_water g \<le> b_high_water g' \<and>
    b_queued g' = b_queued g + newly_reserved g (g', pc') pc \<and>
    (b_queued g \<le> L \<longrightarrow> b_queued g' \<le> L) \<and>
    (b_queued g' \<noteq> b_queued g \<longrightarrow> pending_mark pc' = b_queued g') \<and>
    pending_mark pc \<le> max (b_high_water g') (pending_mark pc')"
proof (cases pc)
  case (ReserveLoop bytes maximum current)
  show ?thesis
  proof (cases "current \<le> maximum - bytes \<and> b_queued g = current \<and> \<not> weak")
    case True
    with ReserveLoop assms(2) have "current + bytes \<le> L" by auto
    moreover from this have "wrap64 (current + bytes) = current + bytes"
      using assms(4) by (intro wrap64_id) simp
    ultimately show ?thesis using assms ReserveLoop True by auto
  next
    case False
    with ReserveLoop assms show ?thesis by (auto split: if_splits)
  qed
qed (use assms in \<open>auto split: if_splits\<close>)

lemma sum_list_update_add: "i < length xs \<Longrightarrow> sum_list (xs[i := xs ! i + n]) = sum_list xs + (n :: nat)"
  by (simp add: sum_list_update)

lemma sum_list_update_sub: "i < length xs \<Longrightarrow> n \<le> xs ! i \<Longrightarrow> sum_list (xs[i := xs ! i - n]) = sum_list xs - (n :: nat)"
  using elem_le_sum_list [of i xs] by (simp add: sum_list_update)

lemma budget_step_ok:
  assumes "budget_step s s'" and ok: "budget_ok L s" and L: "L < 2 ^ 64" and "b_limit (shared s') \<le> L"
  shows "budget_ok L s'"
  using assms(1,4)
proof cases
  case (call i r bytes)
  let ?q = "b_queued (shared s)" and ?h = "b_high_water (shared s)"
  have "?q \<le> ?h \<or> (\<exists>pc\<in>set ((pcs s)[i := LoadLimit bytes]). ?q \<le> pending_mark pc)"
  proof (rule mark_kept)
    show "?q \<le> ?h \<or> (\<exists>pc\<in>set (pcs s). ?q \<le> pending_mark pc)" using ok unfolding budget_ok_def by blast
  qed (use call(2,3) in simp_all)
  moreover have "\<forall>pc\<in>set ((pcs s)[i := LoadLimit bytes]). pc_ok L ?h pc"
    using ok pcs_update_ok [of "pcs s" L ?h ?h "LoadLimit bytes" i] by (simp add: budget_ok_def)
  ultimately show ?thesis using ok call(1) unfolding budget_ok_def by simp
next
  case (run i weak g pc)
  let ?n = "newly_reserved (shared s) (g, pc) (pcs s ! i)"
  have i: "i < length (held s)" "pc_ok L (b_high_water (shared s)) (pcs s ! i)" "b_limit (shared s) \<le> L"
    using ok run(2) by (auto simp: budget_ok_def)
  note st = reserve_step_ok [OF run(3) i(2,3) L]
  have sum: "sum_list ((held s)[i := held s ! i + ?n]) = sum_list (held s) + ?n"
    by (rule sum_list_update_add [OF i(1)])
  have "b_queued g \<le> b_high_water g \<or> (\<exists>p\<in>set ((pcs s)[i := pc]). b_queued g \<le> pending_mark p)"
  proof (cases "b_queued g = b_queued (shared s)")
    case True
    have "b_queued (shared s) \<le> b_high_water (shared s) \<or> (\<exists>p\<in>set (pcs s). b_queued (shared s) \<le> pending_mark p)"
      using ok unfolding budget_ok_def by blast
    then show ?thesis by (rule mark_kept) (use run(2) st True in simp_all)
  next
    case False
    then have "pending_mark pc = b_queued g" using st by blast
    then show ?thesis using set_update_memI [OF run(2), of pc] by (metis order_refl)
  qed
  moreover have "\<forall>p\<in>set ((pcs s)[i := pc]). pc_ok L (b_high_water g) p"
    by (rule pcs_update_ok [of "pcs s" L "b_high_water (shared s)"]) (use ok st in \<open>simp_all add: budget_ok_def\<close>)
  ultimately show ?thesis using ok st sum run(1) unfolding budget_ok_def by simp
next
  case (release i r bytes)
  have i: "i < length (held s)" using ok release(2) by (simp add: budget_ok_def)
  have le: "bytes \<le> b_queued (shared s)"
    using ok release(4) elem_le_sum_list [OF i] by (simp add: budget_ok_def)
  have "fetch_sub (b_queued (shared s)) bytes = b_queued (shared s) - bytes"
    using ok L le by (intro fetch_sub_exact) (auto simp: budget_ok_def)
  moreover have "b_queued (shared s) - bytes \<le> b_high_water (shared s) \<or>
      (\<exists>pc\<in>set (pcs s). b_queued (shared s) - bytes \<le> pending_mark pc)"
    using ok unfolding budget_ok_def by (meson diff_le_self order.trans)
  ultimately show ?thesis
    using ok release(1) sum_list_update_sub [OF i release(4)] unfolding budget_ok_def
    by (simp add: le_diff_conv trans_le_add1)
next
  case (publish limit)
  with ok assms(4) show ?thesis unfolding budget_ok_def by (elim conjE) simp
qed

lemma budget_reach_ok: "budget_reach L s \<Longrightarrow> L < 2 ^ 64 \<Longrightarrow> budget_ok L s"
proof (induction rule: budget_reach.induct)
  case (start limit threads)
  then show ?case
    by (auto simp: budget_ok_def new_budget_system_def sum_list_replicate)
next
  case (step s s')
  then show ?case using budget_step_ok by blast
qed

text \<open>
  Property C5. However the atomic accesses of any number of threads interleave, spurious failures of
  the weak exchanges and limits published in between included, the shared counter is exactly the sum
  of the bytes the threads hold, never exceeds the largest limit ever in force, and is covered by the
  high-water mark whenever no call is in progress.
\<close>

theorem queued_bytes_budget:
  assumes "budget_reach L s" and "L < 2 ^ 64"
  shows "b_queued (shared s) = sum_list (held s) \<and> b_queued (shared s) \<le> L \<and>
    ((\<forall>pc\<in>set (pcs s). \<exists>r. pc = Returned r) \<longrightarrow> b_queued (shared s) \<le> b_high_water (shared s))"
proof -
  have "pending_mark pc = 0" if "\<forall>pc\<in>set (pcs s). \<exists>r. pc = Returned r" "pc \<in> set (pcs s)" for pc
    using that by fastforce
  then show ?thesis using budget_reach_ok [OF assms] unfolding budget_ok_def by (metis le_zero_eq zero_le)
qed

theorem queued_bytes_budget_witness:
  "b_queued \<lparr>b_queued = 40, b_high_water = 0, b_limit = 100\<rparr> = sum_list [40, 0] \<and> sum_list [40, 0] \<le> (100 :: nat)"
proof -
  let ?g = "\<lparr>b_queued = 0, b_high_water = 0, b_limit = 100\<rparr>"
  let ?sys = "\<lambda>g pc held. \<lparr>shared = g, pcs = [pc, Returned True], held = [held, 0]\<rparr>"
  let ?h = "\<lparr>b_queued = 40, b_high_water = 0, b_limit = 100\<rparr>"
  have "budget_reach 100 (new_budget_system 2 100)" by (rule budget_reach.start) simp
  then have "budget_reach 100 (?sys ?g (Returned True) 0)" by (simp add: new_budget_system_def numeral_2_eq_2)
  moreover have "budget_step (?sys ?g (Returned True) 0) (?sys ?g (LoadLimit 40) 0)"
    using budget_step.call [of 0 "?sys ?g (Returned True) 0" True 40] by simp
  ultimately have "budget_reach 100 (?sys ?g (LoadLimit 40) 0)" by (rule budget_reach.step) simp
  moreover have "budget_step (?sys ?g (LoadLimit 40) 0) (?sys ?g (LoadCurrent 40 100) 0)"
    using budget_step.run [of 0 "?sys ?g (LoadLimit 40) 0" False ?g "LoadCurrent 40 100"] by simp
  ultimately have "budget_reach 100 (?sys ?g (LoadCurrent 40 100) 0)" by (rule budget_reach.step) simp
  moreover have "budget_step (?sys ?g (LoadCurrent 40 100) 0) (?sys ?g (ReserveLoop 40 100 0) 0)"
    using budget_step.run [of 0 "?sys ?g (LoadCurrent 40 100) 0" False ?g "ReserveLoop 40 100 0"] by simp
  ultimately have "budget_reach 100 (?sys ?g (ReserveLoop 40 100 0) 0)" by (rule budget_reach.step) simp
  moreover have "budget_step (?sys ?g (ReserveLoop 40 100 0) 0) (?sys ?h (LoadHighWater 40) 40)"
    using budget_step.run [of 0 "?sys ?g (ReserveLoop 40 100 0) 0" False ?h "LoadHighWater 40"] by (simp add: wrap64_def)
  ultimately have "budget_reach 100 (?sys ?h (LoadHighWater 40) 40)" by (rule budget_reach.step) simp
  from queued_bytes_budget [OF this] show ?thesis by simp
qed

section \<open>A thread alone computes the sequential function\<close>

definition budget_of :: "stats \<Rightarrow> budget" where
  "budget_of s = \<lparr>b_queued = queued_bytes s, b_high_water = queued_bytes_high_water s, b_limit = queued_bytes_limit s\<rparr>"

text \<open>A run of one thread: for each of its accesses, whether a weak compare-exchange there fails although the value is as expected.\<close>

fun run_alone :: "bool list \<Rightarrow> budget \<times> reserve_pc \<Rightarrow> budget \<times> reserve_pc" where
  "run_alone [] x = x"
| "run_alone (weak # weaks) x = run_alone weaks (reserve_step weak (fst x) (snd x))"

text \<open>What a thread has loaded is still there.\<close>

fun undisturbed :: "budget \<times> reserve_pc \<Rightarrow> bool" where
  "undisturbed (g, ReserveLoop bytes maximum current) \<longleftrightarrow> current = b_queued g"
| "undisturbed (g, HighWaterLoop replacement high_water) \<longleftrightarrow> high_water = b_high_water g"
| "undisturbed (g, _) \<longleftrightarrow> True"

lemma undisturbed_step: "undisturbed (g, pc) \<Longrightarrow> undisturbed (reserve_step weak g pc)"
  by (cases pc) auto

text \<open>A spurious failure repeats the access or makes no difference.\<close>

lemma spurious_repeats:
  assumes "undisturbed (g, pc)" shows "reserve_step True g pc = (g, pc) \<or> reserve_step True g pc = reserve_step False g pc"
  using assms by (cases pc) auto

lemma run_alone_steps:
  assumes "undisturbed x"
  shows "\<exists>k. count_list weaks False \<le> k \<and> run_alone weaks x = run_alone (replicate k False) x"
  using assms
proof (induction weaks arbitrary: x)
  case (Cons weak weaks)
  obtain g pc where x: "x = (g, pc)" by (cases x)
  have IH: "\<exists>k. count_list weaks False \<le> k \<and> run_alone weaks (reserve_step False g pc) = run_alone (replicate (Suc k) False) x"
    using Cons.IH [OF undisturbed_step [of g pc False]] Cons.prems by (auto simp: x)
  show ?case
  proof (cases weak)
    case False
    from IH obtain k where "count_list weaks False \<le> k" "run_alone weaks (reserve_step False g pc) = run_alone (replicate (Suc k) False) x" by blast
    with False x show ?thesis by (intro exI [of _ "Suc k"]) simp
  next
    case True
    from spurious_repeats Cons.prems x consider "reserve_step True g pc = x" | "reserve_step True g pc = reserve_step False g pc" by blast
    then show ?thesis
    proof cases
      case 1
      with True x Cons show ?thesis by simp
    next
      case 2
      from IH obtain k where "count_list weaks False \<le> k" "run_alone weaks (reserve_step False g pc) = run_alone (replicate (Suc k) False) x" by blast
      with True 2 x show ?thesis by (intro exI [of _ "Suc k"]) simp
    qed
  qed
qed (auto intro: exI [of _ 0])

lemma run_alone_append: "run_alone (weaks @ weaks') x = run_alone weaks' (run_alone weaks x)"
  by (induction weaks arbitrary: x) auto

lemma run_alone_returned: "run_alone weaks (g, Returned r) = (g, Returned r)"
  by (induction weaks) auto

lemma five_steps:
  "run_alone (replicate 5 False) (budget_of s, LoadLimit bytes) =
     (budget_of (fst (try_reserve_queued_bytes s bytes)), Returned (snd (try_reserve_queued_bytes s bytes)))"
  by (auto simp: eval_nat_numeral try_reserve_queued_bytes_def budget_of_def Let_def)

text \<open>
  Property C31. A thread that runs alone has returned from a reservation once five of its accesses did not fail spuriously,
  wherever the failures of its weak compare-exchanges fall, and with the result and the shared values of the sequential
  function. That one reserves exactly when the bytes fit under the limit, whatever the counter holds and without the sum
  wrapping around, and otherwise changes nothing; releasing what was reserved restores the counter. (A thread whose
  every compare-exchange fails spuriously never returns.)
\<close>

theorem try_reserve_sequential:
  assumes "queued_bytes_limit s < 2 ^ 64" and "5 \<le> count_list weaks False"
  shows "run_alone weaks (budget_of s, LoadLimit bytes) =
      (budget_of (fst (try_reserve_queued_bytes s bytes)), Returned (snd (try_reserve_queued_bytes s bytes))) \<and>
    (snd (try_reserve_queued_bytes s bytes) \<longleftrightarrow> queued_bytes s + bytes \<le> queued_bytes_limit s) \<and>
    (\<not> snd (try_reserve_queued_bytes s bytes) \<longrightarrow> fst (try_reserve_queued_bytes s bytes) = s) \<and>
    (snd (try_reserve_queued_bytes s bytes) \<longrightarrow>
      queued_bytes (fst (try_reserve_queued_bytes s bytes)) = queued_bytes s + bytes \<and>
      queued_bytes (release_queued_bytes (fst (try_reserve_queued_bytes s bytes)) bytes) = queued_bytes s)"
proof -
  let ?x = "(budget_of s, LoadLimit bytes)"
  obtain k where k: "count_list weaks False \<le> k" "run_alone weaks ?x = run_alone (replicate k False) ?x"
    using run_alone_steps [of ?x weaks] by auto
  with assms(2) have "replicate k False = replicate 5 False @ replicate (k - 5) False" by (simp add: replicate_add [symmetric])
  then have alone: "run_alone weaks ?x =
      (budget_of (fst (try_reserve_queued_bytes s bytes)), Returned (snd (try_reserve_queued_bytes s bytes)))"
    using k(2) by (simp only: run_alone_append five_steps run_alone_returned)
  have fits: "snd (try_reserve_queued_bytes s bytes) \<longleftrightarrow> queued_bytes s + bytes \<le> queued_bytes_limit s"
    by (auto simp: try_reserve_queued_bytes_def Let_def)
  have w: "wrap64 (queued_bytes s + bytes) = queued_bytes s + bytes" "fetch_sub (queued_bytes s + bytes) bytes = queued_bytes s"
    if "queued_bytes s + bytes \<le> queued_bytes_limit s"
    using that assms(1) by (simp_all add: wrap64_id fetch_sub_exact)
  have kept: "\<not> snd (try_reserve_queued_bytes s bytes) \<Longrightarrow> fst (try_reserve_queued_bytes s bytes) = s"
    by (auto simp: try_reserve_queued_bytes_def Let_def split: if_splits)
  have "queued_bytes (fst (try_reserve_queued_bytes s bytes)) = queued_bytes s + bytes" if r: "snd (try_reserve_queued_bytes s bytes)"
    using r w(1) fits by (auto simp: try_reserve_queued_bytes_def Let_def split: if_splits)
  with alone fits kept w(2) show ?thesis by (simp add: release_queued_bytes_def)
qed

theorem try_reserve_sequential_witness:
  "snd (try_reserve_queued_bytes ((new_stats 0)\<lparr>queued_bytes_limit := 100\<rparr>) 100) \<and>
   \<not> snd (try_reserve_queued_bytes ((new_stats 0)\<lparr>queued_bytes_limit := 100\<rparr>) 101) \<and>
   \<not> snd (try_reserve_queued_bytes ((new_stats 0)\<lparr>queued_bytes := 2 ^ 64 - 1, queued_bytes_limit := 100\<rparr>) 2)"
  using try_reserve_sequential [of "(new_stats 0)\<lparr>queued_bytes_limit := 100\<rparr>" "[False, False, True, False, True, False, False]" 100]
    try_reserve_sequential [of "(new_stats 0)\<lparr>queued_bytes_limit := 100\<rparr>" "[False, False, True, False, True, False, False]" 101]
    try_reserve_sequential [of "(new_stats 0)\<lparr>queued_bytes := 2 ^ 64 - 1, queued_bytes_limit := 100\<rparr>" "[False, False, True, False, True, False, False]" 2]
  by (simp add: new_stats_def)

section \<open>Protocol errors add up\<close>

text \<open>The total of rejected requests is the sum of the counters by reason, up to wrap-around.\<close>

definition errors_add_up :: "worker_stats \<Rightarrow> bool" where
  "errors_add_up w \<longleftrightarrow>
     length (protocol_errors w) = kValidationErrorCount \<and>
     rejected_protocol w mod 2 ^ 64 = sum_list (protocol_errors w) mod 2 ^ 64"

lemma record_protocol_error_adds_up:
  assumes "errors_add_up w" and "e \<noteq> Count"
  shows "errors_add_up (record_protocol_error w e)"
proof -
  let ?i = "error_index e" and ?es = "protocol_errors w"
  have i: "?i < length ?es" using assms error_index_less by (simp add: errors_add_up_def)
  have mod: "(a + b) mod 2 ^ 64 = (c + b) mod 2 ^ 64" if "a mod 2 ^ 64 = c mod 2 ^ 64" for a b c :: nat
    using that by (rule mod_add_cong) simp
  have "sum_list (?es[?i := fetch_add (?es ! ?i) 1]) mod 2 ^ 64 = (sum_list ?es + 1) mod 2 ^ 64"
  proof -
    let ?rest = "sum_list (take ?i ?es) + sum_list (drop (Suc ?i) ?es)"
    have "sum_list ?es = ?es ! ?i + ?rest"
      by (subst id_take_nth_drop [OF i]) simp
    moreover have "sum_list (?es[?i := fetch_add (?es ! ?i) 1]) = fetch_add (?es ! ?i) 1 + ?rest"
      using i by (simp add: upd_conv_take_nth_drop)
    ultimately show ?thesis by (simp add: fetch_add_def wrap64_def mod_add_left_eq)
  qed
  moreover have "(rejected_protocol w + 1) mod 2 ^ 64 = (sum_list ?es + 1) mod 2 ^ 64"
    by (rule mod) (use assms(1) in \<open>simp add: errors_add_up_def\<close>)
  ultimately show ?thesis
    using assms(1) i by (simp add: record_protocol_error_def errors_add_up_def Let_def fetch_add_def wrap64_def)
qed

lemma sum_list_map2_wrap:
  "length xs = length ys \<Longrightarrow> sum_list (map2 (\<lambda>a b. wrap64 (a + b)) xs ys) mod 2 ^ 64 = (sum_list xs + sum_list ys) mod 2 ^ 64"
proof (induction xs ys rule: list_induct2)
  case (Cons x xs y ys)
  have "(wrap64 (x + y) + sum_list (map2 (\<lambda>a b. wrap64 (a + b)) xs ys)) mod 2 ^ 64 = (x + y + (sum_list xs + sum_list ys)) mod 2 ^ 64"
    by (rule mod_add_cong) (use Cons.IH in \<open>simp_all add: wrap64_def\<close>)
  then show ?case by (simp add: algebra_simps)
qed simp

lemma add_worker_adds_up: "errors_add_up o' \<Longrightarrow> errors_add_up w \<Longrightarrow> errors_add_up (add_worker o' w)"
  using sum_list_map2_wrap [of "protocol_errors o'" "protocol_errors w"]
    mod_add_cong [of "rejected_protocol o'" "2 ^ 64" "sum_list (protocol_errors o')" "rejected_protocol w" "sum_list (protocol_errors w)"]
  by (simp add: errors_add_up_def add_worker_def) (simp add: wrap64_def)

lemma new_worker_adds_up: "errors_add_up new_worker_stats"
  by (simp add: errors_add_up_def new_worker_stats_def sum_list_replicate)

lemma snapshot_adds_up:
  "\<forall>w\<in>set ws. errors_add_up w \<Longrightarrow> errors_add_up o' \<Longrightarrow> errors_add_up (foldl add_worker o' ws)"
  by (induction ws arbitrary: o') (auto simp: add_worker_adds_up)

text \<open>
  In whatever order the workers record the errors of rejected requests, the aggregated
  number of protocol rejections equals the sum of the aggregated counters by reason.
\<close>

lemma protocol_errors_add_up:
  "errors_add_up (snapshot (s\<lparr>workers := map (\<lambda>lines.
     foldl (\<lambda>w (line, state). record_protocol_error w (vr_error (validate_request glz line state config)))
       new_worker_stats lines) requests\<rparr>))"
proof -
  have "errors_add_up (foldl (\<lambda>w (line, state).
      record_protocol_error w (vr_error (validate_request glz line state config))) w lines)"
    if "errors_add_up w" for w and lines :: "(string \<times> protocol_state) list"
    using that
  proof (induction lines arbitrary: w)
    case (Cons x lines)
    obtain line state where x: "x = (line, state)" by (cases x)
    have "vr_error (validate_request glz line state config) \<noteq> Count"
      using validate_request_ok [of glz line state config] by (simp add: result_ok_def)
    with Cons x show ?case by (simp add: record_protocol_error_adds_up)
  qed simp
  then show ?thesis
    unfolding snapshot_def by (intro snapshot_adds_up) (simp_all add: new_worker_adds_up)
qed

end
