(* ===== verification/Service_State.thy ===== *)
theory Service_State
  imports Router Stats
begin

text \<open>
  The published snapshots, from \<^verbatim>\<open>src/src/core/service_state.hpp\<close> and \<^verbatim>\<open>tls_certificate.hpp\<close>, and the TLS
  context slots of \<^verbatim>\<open>src/src/net/tls.cpp\<close>.
\<close>

section \<open>Snapshots\<close>

record runtime_snapshot =
  rs_config :: config
  rs_routing :: routing_table

record tls_certificate_status =
  tc_listener_name :: string
  tc_expiry_timestamp_seconds :: int

record service_state =
  ss_runtime :: runtime_snapshot
  ss_tls_certificates :: "tls_certificate_status list"
  ss_stats :: stats

text \<open>The byte limit is stored before the snapshot; both stores are atomic, and a reader may run between them.\<close>

definition publish_limit :: "config \<Rightarrow> service_state \<Rightarrow> service_state" where
  "publish_limit config s =
     s\<lparr>ss_stats := (ss_stats s)\<lparr>queued_bytes_limit := max_queued_bytes (cfg_limits config)\<rparr>\<rparr>"

definition publish_runtime :: "config \<Rightarrow> routing_table \<Rightarrow> service_state \<Rightarrow> service_state" where
  "publish_runtime config routing s = s\<lparr>ss_runtime := \<lparr>rs_config = config, rs_routing = routing\<rparr>\<rparr>"

definition publish :: "config \<Rightarrow> routing_table \<Rightarrow> service_state \<Rightarrow> service_state" where
  "publish config routing s = publish_runtime config routing (publish_limit config s)"

section \<open>TLS contexts\<close>

text \<open>A context is a handle; the slot of a plaintext listener holds none.\<close>

type_synonym ssl_context = nat

type_synonym tls_context_store = "ssl_context option list"

definition context_for :: "tls_context_store \<Rightarrow> nat \<Rightarrow> ssl_context option" where
  "context_for contexts listener_index =
     (if length contexts \<le> listener_index then None else contexts ! listener_index)"

definition publish_contexts :: "ssl_context option list \<Rightarrow> tls_context_store \<Rightarrow> tls_context_store result" where
  "publish_contexts replacement contexts =
     (let slots = (if contexts = [] then replicate (length replacement) None else contexts)
      in if contexts \<noteq> [] \<and> length contexts \<noteq> length replacement
         then Inl (ConfigError ''TLS listener topology changed during context publication'')
         else Inr (foldl (\<lambda>slots index. slots[index := replacement ! index]) slots [0..<length replacement]))"

lemma store_slots:
  "n \<le> length replacement \<Longrightarrow> length slots = length replacement \<Longrightarrow>
   foldl (\<lambda>slots index. slots[index := replacement ! index]) slots [0..<n] = take n replacement @ drop n slots"
proof (induction n)
  case (Suc n)
  then have "(take n replacement @ drop n slots)[n := replacement ! n] = take (Suc n) replacement @ drop (Suc n) slots"
    by (simp add: list_update_append take_Suc_conv_app_nth Cons_nth_drop_Suc [symmetric])
  with Suc show ?case by simp
qed simp

text \<open>A publication replaces every slot or none; a store that has listeners never changes its length.\<close>

lemma publish_contexts_spec:
  "publish_contexts replacement contexts =
     (if contexts \<noteq> [] \<and> length contexts \<noteq> length replacement
      then Inl (ConfigError ''TLS listener topology changed during context publication'') else Inr replacement)"
  by (auto simp: publish_contexts_def Let_def store_slots)

end
