(* ===== verification/Os_Interface.thy ===== *)
theory Os_Interface
  imports Endpoint "HOL-Library.State_Monad"
begin

text \<open>
  The operating system and OpenSSL as the code calls them. Both are outside the repository, so they
  are an argument of the model: a record of actions over a state of their own. Every call that
  can fail returns the error number on the left. Also the calculus of weakest preconditions with
  which the effectful components are verified.
\<close>

unbundle bit_operations_syntax

section \<open>System calls\<close>

text \<open>
  The error numbers the code tells apart. \<^verbatim>\<open>EWOULDBLOCK\<close> is \<^verbatim>\<open>EAGAIN\<close> on Linux, the only platform
  with \<^verbatim>\<open>epoll\<close>.
\<close>

datatype errno = EAGAIN | EINTR | EINPROGRESS | EMFILE | ENFILE | ENOBUFS | ENOMEM | ENOENT | OtherErrno nat

datatype ssl_error = SSL_ERROR_WANT_READ | SSL_ERROR_WANT_WRITE | SSL_ERROR_ZERO_RETURN | SSL_ERROR_SYSCALL | SSL_ERROR_OTHER

datatype socket_option = SO_REUSEADDR | SO_REUSEPORT | SO_KEEPALIVE | TCP_NODELAY | TCP_USER_TIMEOUT | IPV6_V6ONLY
  | IP_BIND_ADDRESS_NO_PORT

type_synonym 'a sys = "errno + 'a"

text \<open>A descriptor is an \<^verbatim>\<open>int\<close>; \<open>-1\<close> is none.\<close>

type_synonym fd = int

text \<open>
  Result of \<^verbatim>\<open>recv\<close> and \<^verbatim>\<open>SSL_read\<close>: the bytes written to the buffer, none when the return value is
  zero. A failing TLS call gives what \<^verbatim>\<open>SSL_get_error\<close> reports and the \<^verbatim>\<open>errno\<close> saved before it.
  \<^verbatim>\<open>poll\<close> returns the ready events, or nothing on a timeout. A TLS stream is a handle.
\<close>

record 'e os =
  os_now :: "('e, time_point) state"
  os_stop_requested :: "('e, bool) state"
  os_wait_until :: "time_point \<Rightarrow> ('e, unit) state"
  os_strerror :: "errno \<Rightarrow> string"
  os_socket :: "nat \<Rightarrow> ('e, fd sys) state"
  os_setsockopt :: "fd \<Rightarrow> socket_option \<Rightarrow> nat \<Rightarrow> ('e, unit sys) state"
  os_bind :: "fd \<Rightarrow> socket_address \<Rightarrow> ('e, unit sys) state"
  os_listen :: "fd \<Rightarrow> nat \<Rightarrow> ('e, unit sys) state"
  os_connect :: "fd \<Rightarrow> socket_address \<Rightarrow> ('e, unit sys) state"
  os_socket_error :: "fd \<Rightarrow> ('e, int sys) state"
  os_accept4 :: "fd \<Rightarrow> ('e, (fd \<times> sockaddr_storage) sys) state"
  os_getsockname :: "fd \<Rightarrow> ('e, sockaddr_storage sys) state"
  os_close :: "fd \<Rightarrow> ('e, unit) state"
  os_poll :: "fd \<Rightarrow> 16 word \<Rightarrow> int \<Rightarrow> ('e, 16 word option sys) state"
  os_send :: "fd \<Rightarrow> string \<Rightarrow> ('e, nat sys) state"
  os_recv :: "fd \<Rightarrow> nat \<Rightarrow> ('e, string sys) state"
  os_epoll_create :: "('e, fd sys) state"
  os_epoll_add :: "fd \<Rightarrow> 32 word \<Rightarrow> u64 \<Rightarrow> ('e, unit sys) state"
  os_epoll_mod :: "fd \<Rightarrow> 32 word \<Rightarrow> u64 \<Rightarrow> ('e, unit sys) state"
  os_epoll_del :: "fd \<Rightarrow> ('e, unit sys) state"
  os_epoll_wait :: "nat \<Rightarrow> int \<Rightarrow> ('e, (u64 \<times> 32 word) list sys) state"
  os_ssl_new :: "nat \<Rightarrow> fd \<Rightarrow> ('e, nat option) state"
  os_ssl_accept :: "nat \<Rightarrow> ('e, (ssl_error \<times> errno) + unit) state"
  os_ssl_read :: "nat \<Rightarrow> nat \<Rightarrow> ('e, (ssl_error \<times> errno) + string) state"
  os_ssl_write :: "nat \<Rightarrow> string \<Rightarrow> ('e, (ssl_error \<times> errno) + nat) state"
  os_ssl_pending :: "nat \<Rightarrow> ('e, nat) state"
  os_ssl_free :: "nat \<Rightarrow> ('e, unit) state"

section \<open>An operating system beside a note\<close>

text \<open>The same calls with a value of the verification beside the environment, which they leave alone.\<close>

definition beside :: "('e, 'a) state \<Rightarrow> ('e \<times> 't, 'a) state" where
  "beside m = State (\<lambda>(e, t). case run_state m e of (x, e') \<Rightarrow> (x, e', t))"

definition beside_os :: "'e os \<Rightarrow> ('e \<times> 't) os" where
  "beside_os os =
     \<lparr>os_now = beside (os_now os), os_stop_requested = beside (os_stop_requested os),
      os_wait_until = (\<lambda>x. beside (os_wait_until os x)), os_strerror = os_strerror os,
      os_socket = (\<lambda>x. beside (os_socket os x)), os_setsockopt = (\<lambda>x y z. beside (os_setsockopt os x y z)),
      os_bind = (\<lambda>x y. beside (os_bind os x y)), os_listen = (\<lambda>x y. beside (os_listen os x y)),
      os_connect = (\<lambda>x y. beside (os_connect os x y)), os_socket_error = (\<lambda>x. beside (os_socket_error os x)),
      os_accept4 = (\<lambda>x. beside (os_accept4 os x)), os_getsockname = (\<lambda>x. beside (os_getsockname os x)),
      os_close = (\<lambda>x. beside (os_close os x)), os_poll = (\<lambda>x y z. beside (os_poll os x y z)),
      os_send = (\<lambda>x y. beside (os_send os x y)), os_recv = (\<lambda>x y. beside (os_recv os x y)),
      os_epoll_create = beside (os_epoll_create os), os_epoll_add = (\<lambda>x y z. beside (os_epoll_add os x y z)),
      os_epoll_mod = (\<lambda>x y z. beside (os_epoll_mod os x y z)), os_epoll_del = (\<lambda>x. beside (os_epoll_del os x)),
      os_epoll_wait = (\<lambda>x y. beside (os_epoll_wait os x y)), os_ssl_new = (\<lambda>x y. beside (os_ssl_new os x y)),
      os_ssl_accept = (\<lambda>x. beside (os_ssl_accept os x)), os_ssl_read = (\<lambda>x y. beside (os_ssl_read os x y)),
      os_ssl_write = (\<lambda>x y. beside (os_ssl_write os x y)), os_ssl_pending = (\<lambda>x. beside (os_ssl_pending os x)),
      os_ssl_free = (\<lambda>x. beside (os_ssl_free os x))\<rparr>"

lemma run_state_beside: "run_state (beside m) w = (case run_state m (fst w) of (x, e') \<Rightarrow> (x, e', snd w))"
  by (cases w) (simp add: beside_def)

lemma beside_os_simps [simp]:
  "os_now (beside_os os) = beside (os_now os)" "os_stop_requested (beside_os os) = beside (os_stop_requested os)"
  "os_wait_until (beside_os os) = (\<lambda>x. beside (os_wait_until os x))" "os_socket (beside_os os) = (\<lambda>x. beside (os_socket os x))"
  "os_setsockopt (beside_os os) = (\<lambda>x y z. beside (os_setsockopt os x y z))" "os_bind (beside_os os) = (\<lambda>x y. beside (os_bind os x y))"
  "os_listen (beside_os os) = (\<lambda>x y. beside (os_listen os x y))" "os_connect (beside_os os) = (\<lambda>x y. beside (os_connect os x y))"
  "os_socket_error (beside_os os) = (\<lambda>x. beside (os_socket_error os x))" "os_accept4 (beside_os os) = (\<lambda>x. beside (os_accept4 os x))"
  "os_getsockname (beside_os os) = (\<lambda>x. beside (os_getsockname os x))" "os_close (beside_os os) = (\<lambda>x. beside (os_close os x))"
  "os_poll (beside_os os) = (\<lambda>x y z. beside (os_poll os x y z))" "os_send (beside_os os) = (\<lambda>x y. beside (os_send os x y))"
  "os_recv (beside_os os) = (\<lambda>x y. beside (os_recv os x y))" "os_epoll_create (beside_os os) = beside (os_epoll_create os)"
  "os_epoll_add (beside_os os) = (\<lambda>x y z. beside (os_epoll_add os x y z))"
  "os_epoll_mod (beside_os os) = (\<lambda>x y z. beside (os_epoll_mod os x y z))" "os_epoll_del (beside_os os) = (\<lambda>x. beside (os_epoll_del os x))"
  "os_epoll_wait (beside_os os) = (\<lambda>x y. beside (os_epoll_wait os x y))" "os_ssl_new (beside_os os) = (\<lambda>x y. beside (os_ssl_new os x y))"
  "os_ssl_accept (beside_os os) = (\<lambda>x. beside (os_ssl_accept os x))" "os_ssl_read (beside_os os) = (\<lambda>x y. beside (os_ssl_read os x y))"
  "os_ssl_write (beside_os os) = (\<lambda>x y. beside (os_ssl_write os x y))" "os_ssl_pending (beside_os os) = (\<lambda>x. beside (os_ssl_pending os x))"
  "os_ssl_free (beside_os os) = (\<lambda>x. beside (os_ssl_free os x))"
  by (simp_all add: beside_os_def)

section \<open>Weakest preconditions\<close>

named_theorems wp_simps \<open>weakest preconditions of the building blocks\<close>
named_theorems keeps_intros \<open>actions that keep an invariant\<close>

definition wp :: "('s, 'a) state \<Rightarrow> ('a \<Rightarrow> 's \<Rightarrow> bool) \<Rightarrow> 's \<Rightarrow> bool" where
  "wp m Q s \<longleftrightarrow> (case run_state m s of (x, s') \<Rightarrow> Q x s')"

definition modify :: "('s \<Rightarrow> 's) \<Rightarrow> ('s, unit) state" where
  "modify f = State (\<lambda>s. ((), f s))"

definition gets :: "('s \<Rightarrow> 'a) \<Rightarrow> ('s, 'a) state" where
  "gets f = State (\<lambda>s. (f s, s))"

definition do_if :: "bool \<Rightarrow> ('s, unit) state \<Rightarrow> ('s, unit) state" where
  "do_if b m = (if b then m else State_Monad.return ())"

lemma run_state_modify [simp]: "run_state (modify f) s = ((), f s)"
  by (simp add: modify_def)

lemma run_state_gets [simp]: "run_state (gets f) s = (f s, s)"
  by (simp add: gets_def)

lemma wp_return [wp_simps]: "wp (State_Monad.return x) Q = Q x"
  by (simp add: wp_def fun_eq_iff)

lemma wp_bind [wp_simps]: "wp (State_Monad.bind m f) Q = wp m (\<lambda>x. wp (f x) Q)"
  by (simp add: wp_def fun_eq_iff split: prod.splits)

lemma wp_modify [wp_simps]: "wp (modify f) Q = (\<lambda>s. Q () (f s))"
  by (simp add: wp_def fun_eq_iff)

lemma wp_gets [wp_simps]: "wp (gets f) Q = (\<lambda>s. Q (f s) s)"
  by (simp add: wp_def fun_eq_iff)

lemma wp_if [wp_simps]: "wp (if b then m else n) Q = (\<lambda>s. if b then wp m Q s else wp n Q s)"
  by simp

lemma wp_do_if [wp_simps]: "wp (do_if b m) Q = (\<lambda>s. if b then wp m Q s else Q () s)"
  by (simp add: do_if_def wp_simps)

lemma wp_case_option [wp_simps]:
  "wp (case x of None \<Rightarrow> m | Some y \<Rightarrow> f y) Q = (\<lambda>s. case x of None \<Rightarrow> wp m Q s | Some y \<Rightarrow> wp (f y) Q s)"
  by (simp split: option.splits)

lemma wp_case_sum [wp_simps]:
  "wp (case x of Inl y \<Rightarrow> f y | Inr z \<Rightarrow> g z) Q = (\<lambda>s. case x of Inl y \<Rightarrow> wp (f y) Q s | Inr z \<Rightarrow> wp (g z) Q s)"
  by (simp split: sum.splits)

lemma wp_case_prod [wp_simps]:
  "wp (case x of (y, z) \<Rightarrow> f y z) Q = (\<lambda>s. case x of (y, z) \<Rightarrow> wp (f y z) Q s)"
  by (simp split: prod.splits)

lemma wp_Let [wp_simps]: "wp (let x = t in f x) Q = wp (f t) Q"
  by simp

lemma wp_beside: "wp (beside m) Q w = wp m (\<lambda>x e. Q x (e, snd w)) (fst w)"
  by (simp add: wp_def run_state_beside split: prod.splits)

lemma wp_mono: "wp m Q s \<Longrightarrow> (\<And>x s'. Q x s' \<Longrightarrow> R x s') \<Longrightarrow> wp m R s"
  by (auto simp: wp_def split: prod.splits)

lemma wp_conj: "wp m Q s \<Longrightarrow> wp m R s \<Longrightarrow> wp m (\<lambda>x s'. Q x s' \<and> R x s') s"
  by (auto simp: wp_def split: prod.splits)

lemma wp_any: "(\<And>x s'. Q x s') \<Longrightarrow> wp m Q s"
  by (auto simp: wp_def split: prod.splits)

lemma ifI: "(b \<Longrightarrow> P) \<Longrightarrow> (\<not> b \<Longrightarrow> Q) \<Longrightarrow> if b then P else Q"
  by simp

lemma wp_run: "wp m Q s \<Longrightarrow> run_state m s = (x, s') \<Longrightarrow> Q x s'"
  by (simp add: wp_def)

lemma wpI: "(\<And>x s'. run_state m s = (x, s') \<Longrightarrow> Q x s') \<Longrightarrow> wp m Q s"
  by (simp add: wp_def split: prod.splits)

subsection \<open>Actions that keep an invariant\<close>

definition keeps :: "('s \<Rightarrow> bool) \<Rightarrow> ('s, 'a) state \<Rightarrow> bool" where
  "keeps I m \<longleftrightarrow> (\<forall>s. I s \<longrightarrow> wp m (\<lambda>_. I) s)"

lemma keepsI: "(\<And>s. I s \<Longrightarrow> wp m (\<lambda>_. I) s) \<Longrightarrow> keeps I m"
  by (simp add: keeps_def)

lemma keepsD: "keeps I m \<Longrightarrow> I s \<Longrightarrow> wp m (\<lambda>_. I) s"
  by (simp add: keeps_def)

lemma keeps_run: "keeps I m \<Longrightarrow> run_state m s = (x, s') \<Longrightarrow> I s \<Longrightarrow> I s'"
  by (auto simp: keeps_def dest: wp_run)

lemma keeps_return [keeps_intros]: "keeps I (State_Monad.return x)"
  by (simp add: keeps_def wp_simps)

lemma keeps_bind [keeps_intros]: "keeps I m \<Longrightarrow> (\<And>x. keeps I (f x)) \<Longrightarrow> keeps I (State_Monad.bind m f)"
  by (auto simp: keeps_def wp_simps intro: wp_mono)

lemma keeps_gets [keeps_intros]: "keeps I (gets f)"
  by (simp add: keeps_def wp_simps)

lemma keeps_modify: "(\<And>s. I s \<Longrightarrow> I (f s)) \<Longrightarrow> keeps I (modify f)"
  by (simp add: keeps_def wp_simps)

lemma keeps_do_if [keeps_intros]: "(b \<Longrightarrow> keeps I m) \<Longrightarrow> keeps I (do_if b m)"
  by (simp add: do_if_def keeps_return)

lemma keeps_if [keeps_intros]: "(b \<Longrightarrow> keeps I m) \<Longrightarrow> (\<not> b \<Longrightarrow> keeps I n) \<Longrightarrow> keeps I (if b then m else n)"
  by simp

lemma keeps_case_option [keeps_intros]:
  "(x = None \<Longrightarrow> keeps I m) \<Longrightarrow> (\<And>y. x = Some y \<Longrightarrow> keeps I (f y)) \<Longrightarrow> keeps I (case x of None \<Rightarrow> m | Some y \<Rightarrow> f y)"
  by (simp split: option.splits)

lemma keeps_case_sum [keeps_intros]:
  "(\<And>y. x = Inl y \<Longrightarrow> keeps I (f y)) \<Longrightarrow> (\<And>y. x = Inr y \<Longrightarrow> keeps I (g y)) \<Longrightarrow> keeps I (case x of Inl y \<Rightarrow> f y | Inr y \<Rightarrow> g y)"
  by (simp split: sum.splits)

lemma keeps_case_prod [keeps_intros]: "(\<And>y z. x = (y, z) \<Longrightarrow> keeps I (f y z)) \<Longrightarrow> keeps I (case x of (y, z) \<Rightarrow> f y z)"
  by (simp split: prod.splits)

lemma keeps_Let [keeps_intros]: "keeps I (f t) \<Longrightarrow> keeps I (let x = t in f x)"
  by simp

text \<open>For recursive definitions over actions: the continuation only matters on values the action can return.\<close>

lemma state_bind_cong [fundef_cong]:
  assumes "m = m'" and "\<And>x. x \<in> set_state m' \<Longrightarrow> f x = f' x"
  shows "State_Monad.bind m f = State_Monad.bind m' f'"
proof (rule state_ext)
  fix s
  obtain x s' where r: "run_state m' s = (x, s')" by (cases "run_state m' s")
  then have "x \<in> set_state m'" by (auto simp: set_state_iff)
  with r assms show "run_state (State_Monad.bind m f) s = run_state (State_Monad.bind m' f') s" by simp
qed

lemma do_if_cong [fundef_cong]: "b = c \<Longrightarrow> (c \<Longrightarrow> m = n) \<Longrightarrow> do_if b m = do_if c n"
  by (simp add: do_if_def)

end
