(* ===== verification/Tls_Context.thy ===== *)
theory Tls_Context
  imports Calendar Service_State Os_Interface
begin

text \<open>
  Server contexts and certificate dates, from \<^verbatim>\<open>src/src/net/tls.cpp\<close>. OpenSSL is a record of actions.
\<close>

section \<open>Contexts\<close>

text \<open>The fields of \<^verbatim>\<open>struct tm\<close> the code reads.\<close>

record tm =
  tm_year :: int
  tm_mon :: int
  tm_mday :: int
  tm_hour :: int
  tm_min :: int
  tm_sec :: int

datatype ssl_option = SSL_OP_NO_COMPRESSION | SSL_OP_NO_RENEGOTIATION | SSL_OP_CIPHER_SERVER_PREFERENCE

datatype ssl_mode = SSL_MODE_ENABLE_PARTIAL_WRITE | SSL_MODE_ACCEPT_MOVING_WRITE_BUFFER | SSL_MODE_RELEASE_BUFFERS

text \<open>
  What the code calls of OpenSSL. \<open>ol_not_after\<close> stands for \<^verbatim>\<open>SSL_CTX_get0_certificate\<close> (nothing without a
  certificate), \<^verbatim>\<open>X509_get0_notAfter\<close> and \<^verbatim>\<open>ASN1_TIME_to_tm\<close> (nothing inside when it fails).
\<close>

record 'e openssl =
  ol_ctx_new :: "('e, ssl_context option) state"
  ol_set_min_tls12 :: "ssl_context \<Rightarrow> ('e, unit) state"
  ol_set_options :: "ssl_context \<Rightarrow> ssl_option list \<Rightarrow> ('e, unit) state"
  ol_session_cache_off :: "ssl_context \<Rightarrow> ('e, unit) state"
  ol_set_mode :: "ssl_context \<Rightarrow> ssl_mode list \<Rightarrow> ('e, unit) state"
  ol_use_chain_file :: "ssl_context \<Rightarrow> string \<Rightarrow> ('e, bool) state"
  ol_use_key_file :: "ssl_context \<Rightarrow> string \<Rightarrow> ('e, bool) state"
  ol_check_key :: "ssl_context \<Rightarrow> ('e, bool) state"
  ol_not_after :: "ssl_context \<Rightarrow> ('e, tm option option) state"
  ol_ctx_free :: "ssl_context \<Rightarrow> ('e, unit) state"

text \<open>A thrown error releases the context the function owns.\<close>

definition throw_context :: "'e openssl \<Rightarrow> ssl_context \<Rightarrow> string \<Rightarrow> ('e, 'a result) state" where
  "throw_context ol ctx message = do { ol_ctx_free ol ctx; State_Monad.return (Inl (ConfigError message)) }"

definition create_server_context :: "'e openssl \<Rightarrow> string \<Rightarrow> string \<Rightarrow> ('e, ssl_context result) state" where
  "create_server_context ol certificate_file private_key_file =
     do {
       created \<leftarrow> ol_ctx_new ol;
       case created of
         None \<Rightarrow> State_Monad.return (Inl (ConfigError ''cannot create OpenSSL server context''))
       | Some ctx \<Rightarrow>
           do {
             ol_set_min_tls12 ol ctx;
             ol_set_options ol ctx [SSL_OP_NO_COMPRESSION, SSL_OP_NO_RENEGOTIATION, SSL_OP_CIPHER_SERVER_PREFERENCE];
             ol_session_cache_off ol ctx;
             ol_set_mode ol ctx [SSL_MODE_ENABLE_PARTIAL_WRITE, SSL_MODE_ACCEPT_MOVING_WRITE_BUFFER, SSL_MODE_RELEASE_BUFFERS];
             chain \<leftarrow> ol_use_chain_file ol ctx certificate_file;
             if \<not> chain then throw_context ol ctx (''cannot load TLS certificate chain: '' @ certificate_file)
             else do {
               key \<leftarrow> ol_use_key_file ol ctx private_key_file;
               if \<not> key then throw_context ol ctx (''cannot load TLS private key: '' @ private_key_file)
               else do {
                 matching \<leftarrow> ol_check_key ol ctx;
                 if \<not> matching then throw_context ol ctx ''TLS certificate and private key do not match''
                 else State_Monad.return (Inr ctx)
               }
             }
           }
     }"

definition expiry_of_tm :: "tm \<Rightarrow> int result" where
  "expiry_of_tm expiration =
     (let y = tm_year expiration + 1900; m = tm_mon expiration + 1; d = tm_mday expiration
      in if \<not> date_ok y m d then Inl (ConfigError ''TLS certificate has an invalid expiration date'')
         else Inr (sys_days y m d * 86400 + tm_hour expiration * 3600 + tm_min expiration * 60 + tm_sec expiration))"

definition certificate_expiry_timestamp_seconds :: "'e openssl \<Rightarrow> ssl_context \<Rightarrow> ('e, int result) state" where
  "certificate_expiry_timestamp_seconds ol ctx =
     do {
       not_after \<leftarrow> ol_not_after ol ctx;
       State_Monad.return
         (case not_after of
            None \<Rightarrow> Inl (ConfigError ''TLS context has no leaf certificate'')
          | Some None \<Rightarrow> Inl (ConfigError ''cannot parse TLS certificate expiration'')
          | Some (Some expiration) \<Rightarrow> expiry_of_tm expiration)
     }"

text \<open>Releasing what a list of slots holds.\<close>

fun free_contexts :: "'e openssl \<Rightarrow> ssl_context option list \<Rightarrow> ('e, unit) state" where
  "free_contexts ol [] = State_Monad.return ()"
| "free_contexts ol (None # contexts) = free_contexts ol contexts"
| "free_contexts ol (Some ctx # contexts) = do { ol_ctx_free ol ctx; free_contexts ol contexts }"

section \<open>Ownership\<close>

text \<open>
  What the code relies on: \<open>live\<close> are the contexts the process owns a reference to; only creation and release change it.
\<close>

definition stays :: "('e \<Rightarrow> 'b) \<Rightarrow> ('e, 'a) state \<Rightarrow> bool" where
  "stays f m \<longleftrightarrow> (\<forall>x. keeps (\<lambda>e. f e = x) m)"

definition tracks_contexts :: "'e openssl \<Rightarrow> ('e \<Rightarrow> ssl_context set) \<Rightarrow> bool" where
  "tracks_contexts ol live \<longleftrightarrow>
     (\<forall>e. wp (ol_ctx_new ol) (\<lambda>r e'. case r of None \<Rightarrow> live e' = live e
        | Some ctx \<Rightarrow> ctx \<notin> live e \<and> live e' = insert ctx (live e)) e) \<and>
     (\<forall>ctx e. wp (ol_ctx_free ol ctx) (\<lambda>_ e'. live e' = live e - {ctx}) e) \<and>
     (\<forall>ctx. stays live (ol_set_min_tls12 ol ctx) \<and> stays live (ol_session_cache_off ol ctx) \<and>
        stays live (ol_check_key ol ctx) \<and> stays live (ol_not_after ol ctx) \<and>
        (\<forall>options. stays live (ol_set_options ol ctx options)) \<and> (\<forall>modes. stays live (ol_set_mode ol ctx modes)) \<and>
        (\<forall>path. stays live (ol_use_chain_file ol ctx path) \<and> stays live (ol_use_key_file ol ctx path)))"

definition handles :: "ssl_context option list \<Rightarrow> ssl_context set" where
  "handles contexts = {ctx. Some ctx \<in> set contexts}"

lemma handles_simps [simp]:
  "handles [] = {}" "handles (None # cs) = handles cs" "handles (Some c # cs) = insert c (handles cs)"
  "handles (as @ bs) = handles as \<union> handles bs"
  by (auto simp: handles_def)

lemma wp_stays: "stays f m \<Longrightarrow> (\<And>x e'. f e' = f e \<Longrightarrow> Q x e') \<Longrightarrow> wp m Q e"
  by (rule wp_mono [where Q = "\<lambda>_ e'. f e' = f e"]) (auto simp: stays_def keeps_def)

lemma tracks_new:
  "tracks_contexts ol live \<Longrightarrow> wp (ol_ctx_new ol) (\<lambda>r e'. case r of None \<Rightarrow> live e' = live e
     | Some ctx \<Rightarrow> ctx \<notin> live e \<and> live e' = insert ctx (live e)) e"
  by (simp add: tracks_contexts_def)

lemma tracks_free: "tracks_contexts ol live \<Longrightarrow> wp (ol_ctx_free ol ctx) (\<lambda>_ e'. live e' = live e - {ctx}) e"
  by (simp add: tracks_contexts_def)

lemma tracks_stays:
  assumes "tracks_contexts ol live"
  shows "stays live (ol_set_min_tls12 ol ctx)" and "stays live (ol_session_cache_off ol ctx)"
    and "stays live (ol_check_key ol ctx)" and "stays live (ol_not_after ol ctx)"
    and "stays live (ol_set_options ol ctx options)" and "stays live (ol_set_mode ol ctx modes)"
    and "stays live (ol_use_chain_file ol ctx path)" and "stays live (ol_use_key_file ol ctx path)"
  using assms by (simp_all add: tracks_contexts_def)

lemma free_contexts_live:
  assumes "tracks_contexts ol live"
  shows "wp (free_contexts ol contexts) (\<lambda>_ e'. live e' = live e - handles contexts) e"
proof (induction contexts arbitrary: e)
  case (Cons slot contexts)
  show ?case
  proof (cases slot)
    case (Some ctx)
    have "wp (ol_ctx_free ol ctx) (\<lambda>_. wp (free_contexts ol contexts) (\<lambda>_ e'. live e' = live e - insert ctx (handles contexts))) e"
      by (rule wp_mono [OF tracks_free [OF assms]], rule wp_mono [OF Cons.IH]) auto
    with Some show ?thesis by (simp add: wp_simps)
  qed (use Cons.IH in simp)
qed (simp add: wp_simps)

lemma throw_context_live:
  assumes "tracks_contexts ol live" and "ctx \<notin> L" and "live e = insert ctx L" and "\<And>m e'. live e' = L \<Longrightarrow> Q (Inl m) e'"
  shows "wp (throw_context ol ctx message) Q e"
  unfolding throw_context_def wp_simps
  by (rule wp_mono [OF tracks_free [OF assms(1)]]) (use assms(2-4) in auto)

text \<open>A context is owned exactly when the function returns it.\<close>

lemma create_server_context_live:
  assumes "tracks_contexts ol live"
  shows "wp (create_server_context ol certificate key)
    (\<lambda>r e'. case r of Inl _ \<Rightarrow> live e' = live e | Inr ctx \<Rightarrow> ctx \<notin> live e \<and> live e' = insert ctx (live e)) e"
  unfolding create_server_context_def wp_bind
proof (rule wp_mono [OF tracks_new [OF assms]], goal_cases)
  case (1 created e1)
  note steps = tracks_stays [OF assms, THEN wp_stays]
  show ?case
  proof (cases created)
    case None
    with 1 show ?thesis by (simp add: wp_simps)
  next
    case (Some ctx)
    with 1 have l: "ctx \<notin> live e" "live e1 = insert ctx (live e)" by simp_all
    show ?thesis unfolding Some option.case wp_simps
      apply (rule steps(1), rule steps(5), rule steps(2), rule steps(6), rule steps(7), rule ifI)
       apply (rule throw_context_live [OF assms l(1)]; simp add: l)
      apply (rule steps(8), rule ifI)
       apply (rule throw_context_live [OF assms l(1)]; simp add: l)
      apply (rule steps(3), rule ifI)
       apply (rule throw_context_live [OF assms l(1)]; simp add: l)
      apply (simp add: l)
      done
  qed
qed

lemma certificate_expiry_live:
  assumes "tracks_contexts ol live" and "\<And>r e'. live e' = live e \<Longrightarrow> Q r e'"
  shows "wp (certificate_expiry_timestamp_seconds ol ctx) Q e"
  unfolding certificate_expiry_timestamp_seconds_def wp_simps
  by (rule wp_stays [OF tracks_stays(4) [OF assms(1)]]) (rule assms(2))

text \<open>A store of contexts: the list of those that are live; one certificate path can be read.\<close>

definition vault_openssl :: "nat list openssl" where
  "vault_openssl =
     \<lparr>ol_ctx_new = State (\<lambda>e. (Some (Suc (sum_list e)), Suc (sum_list e) # e)),
      ol_set_min_tls12 = (\<lambda>_. State_Monad.return ()),
      ol_set_options = (\<lambda>_ _. State_Monad.return ()),
      ol_session_cache_off = (\<lambda>_. State_Monad.return ()),
      ol_set_mode = (\<lambda>_ _. State_Monad.return ()),
      ol_use_chain_file = (\<lambda>_ path. State_Monad.return (path = ''chain.pem'')),
      ol_use_key_file = (\<lambda>_ _. State_Monad.return True),
      ol_check_key = (\<lambda>_. State_Monad.return True),
      ol_not_after = (\<lambda>_. State_Monad.return (Some (Some \<lparr>tm_year = 130, tm_mon = 1, tm_mday = 28, tm_hour = 23, tm_min = 59, tm_sec = 59\<rparr>))),
      ol_ctx_free = (\<lambda>ctx. State (\<lambda>e. ((), removeAll ctx e)))\<rparr>"

lemma vault_tracks: "tracks_contexts vault_openssl set"
proof -
  have "Suc (sum_list e) \<notin> set e" for e :: "nat list" using member_le_sum_list [of "Suc (sum_list e)" e] by auto
  then show ?thesis
    by (auto simp: tracks_contexts_def vault_openssl_def stays_def wp_def keeps_return)
qed

end
