(* ===== verification/Rate_Limiter.thy ===== *)
theory Rate_Limiter
  imports Config_Model
begin

text \<open>
  Admission control per client address and for the whole process, from
  \<^verbatim>\<open>src/src/net/rate_limiter.hpp\<close> and \<^verbatim>\<open>rate_limiter.cpp\<close>: sharded client tables with token buckets,
  leases on table entries, and a process-wide GCRA limiter. Every operation holds the mutex of its
  shard, and its accesses to the two process-wide atomics are single compare-exchange rounds, so an
  operation is one transition here.

  A lease keeps a pointer to an entry of an \<^verbatim>\<open>unordered_map\<close>. Entries therefore carry the address they
  were allocated at, an address is never used twice, and an access through a pointer whose entry is
  gone is \<^term>\<open>None\<close>. The iteration order of the map is a parameter.
\<close>

section \<open>State\<close>

datatype admission_result = Accepted | ConcurrentLimit | RateLimit | GlobalRateLimit | SourceCapacity

record token_bucket =
  tokens :: double
  updated_at :: time_point

record client_state =
  connection_bucket :: token_bucket
  message_bucket :: token_bucket
  byte_bucket :: token_bucket
  active :: nat
  last_seen :: time_point
  node :: nat

type_synonym client_entry = "client_key \<times> client_state"

record shard =
  clients :: "client_entry list"
  last_pruned :: time_point

record rate_limiter =
  shards :: "shard list"
  theoretical_arrival :: int
  tracked :: nat
  next_node :: nat

text \<open>A lease: the shard and the address of the entry; an empty lease is \<^term>\<open>None\<close> where it may occur.\<close>

type_synonym lease = "nat \<times> nat"

type_synonym iteration_order = "client_entry list \<Rightarrow> client_entry list"

definition kShardCount :: nat where "kShardCount = 64"
definition kPruneInterval :: int where "kPruneInterval = 60 * ns_per_second"
definition kMaximumGcraIntervalNanoseconds :: int where
  "kMaximumGcraIntervalNanoseconds = 1000000000000000000"
definition int64_max :: int where "int64_max = 2 ^ 63 - 1"

definition new_rate_limiter :: rate_limiter where
  "new_rate_limiter =
     \<lparr>shards = replicate kShardCount \<lparr>clients = [], last_pruned = 0\<rparr>, theoretical_arrival = 0,
      tracked = 0, next_node = 0\<rparr>"

definition empty_bucket :: token_bucket where
  "empty_bucket = \<lparr>tokens = Fin 0, updated_at = 0\<rparr>"

section \<open>Operations\<close>

definition saturating_add :: "int \<Rightarrow> int \<Rightarrow> int" where
  "saturating_add left right = (if int64_max - left < right then int64_max else left + right)"

definition saturating_multiply :: "nat \<Rightarrow> int \<Rightarrow> int" where
  "saturating_multiply left right =
     (if int64_max div right < int left then int64_max else int left * right)"

definition refill :: "token_bucket \<Rightarrow> time_point \<Rightarrow> double \<Rightarrow> nat \<Rightarrow> token_bucket" where
  "refill bucket now rate_per_second burst =
     \<lparr>tokens =
        (if updated_at bucket = 0 then double_of_nat burst
         else double_min (double_of_nat burst)
                (double_add (tokens bucket) (double_mul (elapsed_seconds (now - updated_at bucket)) rate_per_second))),
      updated_at = now\<rparr>"

definition shard_index_for :: "client_key \<Rightarrow> nat" where
  "shard_index_for key = unat (client_key_hash key) mod kShardCount"

text \<open>The entry a pointer leads to, and an update through it.\<close>

definition deref :: "shard \<Rightarrow> nat \<Rightarrow> client_state option" where
  "deref sh n = map_option snd (find (\<lambda>(_, st). node st = n) (clients sh))"

definition update_node :: "nat \<Rightarrow> (client_state \<Rightarrow> client_state) \<Rightarrow> shard \<Rightarrow> shard" where
  "update_node n f sh = sh\<lparr>clients := map (\<lambda>(k, st). (k, if node st = n then f st else st)) (clients sh)\<rparr>"

definition erase_node :: "nat \<Rightarrow> shard \<Rightarrow> shard" where
  "erase_node n sh = sh\<lparr>clients := filter (\<lambda>(_, st). node st \<noteq> n) (clients sh)\<rparr>"

definition set_shard :: "nat \<Rightarrow> shard \<Rightarrow> rate_limiter \<Rightarrow> rate_limiter" where
  "set_shard i sh l = l\<lparr>shards := (shards l)[i := sh]\<rparr>"

definition tracked_sub :: "nat \<Rightarrow> rate_limiter \<Rightarrow> rate_limiter" where
  "tracked_sub n l = l\<lparr>tracked := wrap64 (tracked l + 2 ^ 64 - n)\<rparr>"

definition prune :: "nat \<Rightarrow> time_point \<Rightarrow> int \<Rightarrow> rate_limiter \<Rightarrow> rate_limiter" where
  "prune i now retention l =
     (let sh = shards l ! i;
          kept = filter (\<lambda>(_, st). \<not> (active st = 0 \<and> retention < now - last_seen st)) (clients sh)
      in tracked_sub (length (clients sh) - length kept) (set_shard i (sh\<lparr>clients := kept\<rparr>) l))"

text \<open>The scan of \<^verbatim>\<open>evict_oldest_inactive\<close>: the first inactive entry with the least last use.\<close>

fun oldest_inactive :: "client_entry option \<Rightarrow> client_entry list \<Rightarrow> client_entry option" where
  "oldest_inactive oldest [] = oldest"
| "oldest_inactive oldest (entry # entries) =
     (if active (snd entry) \<noteq> 0 then oldest_inactive oldest entries
      else case oldest of
             None \<Rightarrow> oldest_inactive (Some entry) entries
           | Some best \<Rightarrow>
               (if last_seen (snd entry) < last_seen (snd best) then oldest_inactive (Some entry) entries
                else oldest_inactive oldest entries))"

definition evict_oldest_inactive :: "iteration_order \<Rightarrow> nat \<Rightarrow> rate_limiter \<Rightarrow> rate_limiter \<times> bool" where
  "evict_oldest_inactive order i l =
     (case oldest_inactive None (order (clients (shards l ! i))) of
        None \<Rightarrow> (l, False)
      | Some (_, st) \<Rightarrow> (tracked_sub 1 (set_shard i (erase_node (node st) (shards l ! i)) l), True))"

definition reserve_tracking_slot :: "nat \<Rightarrow> rate_limiter \<Rightarrow> rate_limiter \<times> bool" where
  "reserve_tracking_slot maximum l =
     (if tracked l < maximum then (l\<lparr>tracked := tracked l + 1\<rparr>, True) else (l, False))"

text \<open>The conversion of a finite double to an integer truncates; the clamped interval is at least one.\<close>

fun double_to_int :: "double \<Rightarrow> int" where
  "double_to_int (Fin q) = (if 0 \<le> q then \<lfloor>q\<rfloor> else \<lceil>q\<rceil>)"
| "double_to_int _ = 0"

definition gcra_interval :: "limits_config \<Rightarrow> int" where
  "gcra_interval limits =
     double_to_int (double_clamp
       (double_ceil (double_div (Fin 1000000000) (global_connections_per_second limits)))
       (Fin 1) (to_double (of_int kMaximumGcraIntervalNanoseconds)))"

definition consume_global_connection :: "time_point \<Rightarrow> limits_config \<Rightarrow> rate_limiter \<Rightarrow> rate_limiter \<times> bool" where
  "consume_global_connection now limits l =
     (let interval = gcra_interval limits;
          tolerance = saturating_multiply (wrap64 (global_connection_burst limits + 2 ^ 64 - 1)) interval;
          base = max (theoretical_arrival l) now
      in if tolerance < base - now then (l, False)
         else (l\<lparr>theoretical_arrival := saturating_add base interval\<rparr>, True))"

definition new_client :: "nat \<Rightarrow> time_point \<Rightarrow> limits_config \<Rightarrow> client_state" where
  "new_client n now limits =
     \<lparr>connection_bucket = \<lparr>tokens = double_of_nat (connection_burst_per_ip limits), updated_at = now\<rparr>,
      message_bucket = \<lparr>tokens = double_of_nat (message_burst_per_ip limits), updated_at = now\<rparr>,
      byte_bucket = \<lparr>tokens = double_of_nat (byte_burst_per_ip limits), updated_at = now\<rparr>,
      active = 0, last_seen = 0, node = n\<rparr>"

definition prune_if_due :: "nat \<Rightarrow> time_point \<Rightarrow> limits_config \<Rightarrow> rate_limiter \<Rightarrow> rate_limiter" where
  "prune_if_due i now limits l =
     (if last_pruned (shards l ! i) = 0 \<or> kPruneInterval \<le> now - last_pruned (shards l ! i)
      then let l = prune i now (client_state_retention_seconds limits * ns_per_second) l
           in set_shard i ((shards l ! i)\<lparr>last_pruned := now\<rparr>) l
      else l)"

text \<open>A slot for a new client, evicting an inactive one of the shard when the table is full.\<close>

definition make_room :: "iteration_order \<Rightarrow> nat \<Rightarrow> limits_config \<Rightarrow> rate_limiter \<Rightarrow> rate_limiter \<times> bool" where
  "make_room order i limits l =
     (case reserve_tracking_slot (max_tracked_client_ips limits) l of
        (l, True) \<Rightarrow> (l, True)
      | (l, False) \<Rightarrow>
          (case evict_oldest_inactive order i l of
             (l, False) \<Rightarrow> (l, False)
           | (l, True) \<Rightarrow> reserve_tracking_slot (max_tracked_client_ips limits) l))"

text \<open>
  From the client's entry on: touch it and refill its bucket, then the two limits of the address and
  the global one.
\<close>

definition admit :: "nat \<Rightarrow> client_state \<Rightarrow> bool \<Rightarrow> limits_config \<Rightarrow> time_point \<Rightarrow> rate_limiter \<Rightarrow>
    rate_limiter \<times> admission_result \<times> lease option" where
  "admit i st inserted limits now l =
     (let n = node st;
          st = st\<lparr>last_seen := now,
            connection_bucket := refill (connection_bucket st) now
              (connections_per_second_per_ip limits) (connection_burst_per_ip limits)\<rparr>;
          l = set_shard i (update_node n (\<lambda>_. st) (shards l ! i)) l
      in if max_connections_per_ip limits \<le> active st then (l, ConcurrentLimit, None)
         else if double_less (tokens (connection_bucket st)) (Fin 1) then (l, RateLimit, None)
         else case consume_global_connection now limits l of
                (l, False) \<Rightarrow>
                  ((if inserted then tracked_sub 1 (set_shard i (erase_node n (shards l ! i)) l) else l),
                   GlobalRateLimit, None)
              | (l, True) \<Rightarrow>
                  (let st = st\<lparr>connection_bucket := (connection_bucket st)
                         \<lparr>tokens := double_sub (tokens (connection_bucket st)) (Fin 1)\<rparr>,
                         active := active st + 1\<rparr>
                   in (set_shard i (update_node n (\<lambda>_. st) (shards l ! i)) l, Accepted, Some (i, n))))"

text \<open>
  \<open>no_memory\<close> says that inserting the entry throws; then the reserved slot is given back and the
  exception, the result \<^term>\<open>None\<close>, propagates.
\<close>

definition acquire :: "iteration_order \<Rightarrow> bool \<Rightarrow> client_key \<Rightarrow> limits_config \<Rightarrow> time_point \<Rightarrow> rate_limiter \<Rightarrow>
    rate_limiter \<times> (admission_result \<times> lease option) option" where
  "acquire order no_memory key limits now l =
     (let i = shard_index_for key; l = prune_if_due i now limits l
      in case map_of (clients (shards l ! i)) key of
           Some st \<Rightarrow> map_prod id Some (admit i st False limits now l)
         | None \<Rightarrow>
             (case make_room order i limits l of
                (l, False) \<Rightarrow> (l, Some (SourceCapacity, None))
              | (l, True) \<Rightarrow>
                  (if no_memory then (tracked_sub 1 l, None)
                   else let st = new_client (next_node l) now limits; sh = shards l ! i;
                            l = set_shard i (sh\<lparr>clients := clients sh @ [(key, st)]\<rparr>) l;
                            l = l\<lparr>next_node := next_node l + 1\<rparr>
                        in map_prod id Some (admit i st True limits now l))))"

text \<open>Traffic of a connection; \<^term>\<open>None\<close> would be an access through a dangling pointer.\<close>

definition consume_traffic :: "lease option \<Rightarrow> nat \<Rightarrow> nat \<Rightarrow> limits_config \<Rightarrow> time_point \<Rightarrow> rate_limiter \<Rightarrow>
    (rate_limiter \<times> bool) option" where
  "consume_traffic ls bytes messages limits now l =
     (case ls of
        None \<Rightarrow> Some (l, False)
      | Some (i, n) \<Rightarrow>
          (case deref (shards l ! i) n of
             None \<Rightarrow> None
           | Some st \<Rightarrow>
               (let st = st\<lparr>last_seen := now,
                      byte_bucket := refill (byte_bucket st) now (bytes_per_second_per_ip limits) (byte_burst_per_ip limits),
                      message_bucket := refill (message_bucket st) now (messages_per_second_per_ip limits) (message_burst_per_ip limits)\<rparr>
                in if double_less (tokens (byte_bucket st)) (double_of_nat bytes) \<or>
                      double_less (tokens (message_bucket st)) (double_of_nat messages)
                   then Some (set_shard i (update_node n (\<lambda>_. st) (shards l ! i)) l, False)
                   else let st = st\<lparr>byte_bucket := (byte_bucket st)
                                  \<lparr>tokens := double_sub (tokens (byte_bucket st)) (double_of_nat bytes)\<rparr>,
                                message_bucket := (message_bucket st)
                                  \<lparr>tokens := double_sub (tokens (message_bucket st)) (double_of_nat messages)\<rparr>\<rparr>
                        in Some (set_shard i (update_node n (\<lambda>_. st) (shards l ! i)) l, True))))"

definition release :: "lease \<Rightarrow> rate_limiter \<Rightarrow> rate_limiter option" where
  "release ls l =
     (case ls of (i, n) \<Rightarrow>
        (case deref (shards l ! i) n of
           None \<Rightarrow> None
         | Some st \<Rightarrow>
             Some (if 0 < active st
                   then set_shard i (update_node n (\<lambda>st. st\<lparr>active := active st - 1\<rparr>) (shards l ! i)) l
                   else l)))"

text \<open>\<^verbatim>\<open>Lease::reset\<close>, which the destructor and the move assignment call.\<close>

definition lease_reset :: "lease option \<Rightarrow> rate_limiter \<Rightarrow> (rate_limiter \<times> lease option) option" where
  "lease_reset ls l =
     (case ls of
        None \<Rightarrow> Some (l, None)
      | Some ls \<Rightarrow> map_option (\<lambda>l. (l, None)) (release ls l))"

definition lease_move_assign :: "lease option \<Rightarrow> lease option \<Rightarrow> rate_limiter \<Rightarrow>
    (rate_limiter \<times> lease option \<times> lease option) option" where
  "lease_move_assign target other l =
     map_option (\<lambda>(l, _). (l, other, None)) (lease_reset target l)"

section \<open>Leases and table entries\<close>

definition nodes :: "shard \<Rightarrow> nat list" where
  "nodes sh = map (node \<circ> snd) (clients sh)"

text \<open>
  A shard of index \<open>i\<close> with all addresses below \<open>N\<close>: keys and addresses are unique, every key belongs
  to the shard, an entry counts the leases on it, and every lease leads to an entry.
\<close>

definition shard_ok :: "nat \<Rightarrow> nat \<Rightarrow> lease multiset \<Rightarrow> shard \<Rightarrow> bool" where
  "shard_ok i N ls sh \<longleftrightarrow>
     distinct (map fst (clients sh)) \<and> distinct (nodes sh) \<and>
     (\<forall>(k, st)\<in>set (clients sh). shard_index_for k = i \<and> node st < N \<and> active st = count ls (i, node st)) \<and>
     (\<forall>n. (i, n) \<in># ls \<longrightarrow> n \<in> set (nodes sh))"

definition limiter_ok :: "lease multiset \<Rightarrow> rate_limiter \<Rightarrow> bool" where
  "limiter_ok ls l \<longleftrightarrow>
     length (shards l) = kShardCount \<and> (\<forall>i<kShardCount. shard_ok i (next_node l) ls (shards l ! i)) \<and>
     (\<forall>(i, n)\<in>#ls. i < kShardCount)"

definition table_size :: "rate_limiter \<Rightarrow> nat" where
  "table_size l = sum_list (map (\<lambda>sh. length (clients sh)) (shards l))"

lemma shard_index_less [simp]: "shard_index_for key < kShardCount"
  by (simp add: shard_index_for_def kShardCount_def)

lemma nodes_in: "n \<in> set (nodes sh) \<longleftrightarrow> (\<exists>(k, st)\<in>set (clients sh). node st = n)"
  by (force simp: nodes_def)

lemma deref_Some:
  assumes "distinct (nodes sh)"
  shows "deref sh n = Some st \<longleftrightarrow> (\<exists>k. (k, st) \<in> set (clients sh)) \<and> node st = n"
proof
  assume "deref sh n = Some st"
  then show "(\<exists>k. (k, st) \<in> set (clients sh)) \<and> node st = n"
    by (auto simp: deref_def find_Some_iff) (metis nth_mem)
next
  assume "(\<exists>k. (k, st) \<in> set (clients sh)) \<and> node st = n"
  then obtain k where k: "(k, st) \<in> set (clients sh)" "node st = n" by blast
  then have "find (\<lambda>(_, st). node st = n) (clients sh) \<noteq> None" by (auto simp: find_None_iff)
  then obtain k' st' where f: "find (\<lambda>(_, st). node st = n) (clients sh) = Some (k', st')" by auto
  then have "(k', st') \<in> set (clients sh)" "node st' = n" by (auto simp: find_Some_iff) (metis nth_mem)
  with k assms have "st' = st" unfolding nodes_def distinct_map inj_on_def by fastforce
  with f show "deref sh n = Some st" by (simp add: deref_def)
qed

lemma deref_leased: "shard_ok i N ls sh \<Longrightarrow> (i, n) \<in># ls \<Longrightarrow> \<exists>st. deref sh n = Some st"
  unfolding shard_ok_def by (auto simp: nodes_in deref_Some) blast

lemma clients_update_node [simp]:
  "map fst (clients (update_node n f sh)) = map fst (clients sh)" "length (clients (update_node n f sh)) = length (clients sh)"
  by (induction "clients sh") (auto simp: update_node_def)

lemma nodes_update_node: "(\<And>st. node st = n \<Longrightarrow> node (f st) = n) \<Longrightarrow> nodes (update_node n f sh) = nodes sh"
  by (auto simp: nodes_def update_node_def)

lemma set_update_node:
  "set (clients (update_node n f sh)) = (\<lambda>(k, st). (k, if node st = n then f st else st)) ` set (clients sh)"
  by (simp add: update_node_def)

text \<open>Updating an entry through its pointer, with the leases on it changed accordingly.\<close>

lemma update_node_ok:
  assumes "shard_ok i N ls sh" and "(k, st) \<in> set (clients sh)" and "node (f st) = node st"
    and "active (f st) = count ls' (i, node st)" and "\<And>n. n \<noteq> node st \<Longrightarrow> count ls' (i, n) = count ls (i, n)"
  shows "shard_ok i N ls' (update_node (node st) f sh)"
proof -
  from assms(1) have d: "distinct (nodes sh)" by (simp add: shard_ok_def)
  have same: "st' = st" if "(k', st') \<in> set (clients sh)" "node st' = node st" for k' st'
    using d assms(2) that unfolding nodes_def distinct_map inj_on_def by fastforce
  have nodes: "nodes (update_node (node st) f sh) = nodes sh"
    unfolding nodes_def update_node_def using same assms(3) by (auto dest: same)
  have "n \<in> set (nodes sh)" if "(i, n) \<in># ls'" for n
  proof (cases "n = node st")
    case True
    with assms(2) show ?thesis by (auto simp: nodes_in)
  next
    case False
    with assms(1,5) that show ?thesis unfolding shard_ok_def by (metis count_greater_zero_iff)
  qed
  moreover have "shard_index_for k' = i \<and> node st' < N \<and> active st' = count ls' (i, node st')"
    if mem: "(k', st') \<in> set (clients (update_node (node st) f sh))" for k' st'
  proof -
    from mem obtain st0 where st0: "(k', st0) \<in> set (clients sh)" "st' = (if node st0 = node st then f st0 else st0)"
      by (auto simp: set_update_node)
    show ?thesis
      using assms(1,3,4,5) st0 same [OF st0(1)] by (cases "node st0 = node st") (auto simp: shard_ok_def)
  qed
  ultimately show ?thesis using assms(1) unfolding shard_ok_def nodes by auto
qed

text \<open>Dropping entries without leases.\<close>

lemma filter_ok:
  assumes "shard_ok i N ls sh" and "\<And>k st. (k, st) \<in> set (clients sh) \<Longrightarrow> \<not> P (k, st) \<Longrightarrow> active st = 0"
  shows "shard_ok i N ls (sh\<lparr>clients := filter P (clients sh)\<rparr>)"
proof -
  have "n \<in> set (nodes (sh\<lparr>clients := filter P (clients sh)\<rparr>))" if "(i, n) \<in># ls" for n
  proof -
    from assms(1) that have "n \<in> set (nodes sh)" by (simp add: shard_ok_def)
    then obtain k st where e: "(k, st) \<in> set (clients sh)" "node st = n" by (auto simp: nodes_in)
    with assms(1) that have "active st \<noteq> 0" by (auto simp: shard_ok_def)
    with assms(2) [OF e(1)] have "P (k, st)" by auto
    with e show ?thesis by (auto simp: nodes_in)
  qed
  then show ?thesis
    using assms(1) unfolding shard_ok_def nodes_def by (auto simp: distinct_map_filter)
qed

lemma erase_node_ok:
  assumes "shard_ok i N ls sh" and "(k, st) \<in> set (clients sh)" and "active st = 0"
  shows "shard_ok i N ls (erase_node (node st) sh)"
  unfolding erase_node_def
proof (rule filter_ok [OF assms(1)])
  fix k' st' assume e: "(k', st') \<in> set (clients sh)" "\<not> (case (k', st') of (_, st') \<Rightarrow> node st' \<noteq> node st)"
  with assms(1,2) have "st' = st" unfolding shard_ok_def nodes_def distinct_map inj_on_def by fastforce
  with assms(3) show "active st' = 0" by simp
qed

lemma append_ok:
  assumes "shard_ok i N ls sh" and "k \<notin> set (map fst (clients sh))" and "shard_index_for k = i"
    and "node st = N" and "active st = 0"
  shows "shard_ok i (Suc N) ls (sh\<lparr>clients := clients sh @ [(k, st)]\<rparr>)"
proof -
  have fresh: "N \<notin> set (nodes sh)" using assms(1) by (auto simp: shard_ok_def nodes_in)
  then have "(i, N) \<notin># ls" using assms(1) by (auto simp: shard_ok_def)
  then have "count ls (i, N) = 0" by (simp add: not_in_iff)
  with assms fresh show ?thesis
    unfolding shard_ok_def nodes_def by (auto simp: less_Suc_eq)
qed

lemma shard_ok_other:
  "shard_ok i N ls sh \<Longrightarrow> (\<And>n. count ls' (i, n) = count ls (i, n)) \<Longrightarrow> N \<le> N' \<Longrightarrow> shard_ok i N' ls' sh"
  unfolding shard_ok_def by (auto simp flip: count_greater_zero_iff)

text \<open>One shard changes, and with it the leases on it.\<close>

lemma limiter_ok_shard:
  assumes "limiter_ok ls l" and "i < kShardCount" and "shard_ok i (next_node l') ls' sh"
    and "shards l' = (shards l)[i := sh]" and "next_node l \<le> next_node l'"
    and "\<And>j n. j \<noteq> i \<Longrightarrow> count ls' (j, n) = count ls (j, n)"
  shows "limiter_ok ls' l'"
proof -
  have "shard_ok j (next_node l') ls' (shards l' ! j)" if "j < kShardCount" for j
    using assms that shard_ok_other [of j "next_node l" ls "shards l ! j" ls' "next_node l'"]
    by (cases "j = i") (auto simp: limiter_ok_def)
  moreover have "j < kShardCount" if "(j, n) \<in># ls'" for j n
    using that assms(1,2,6) unfolding limiter_ok_def by (cases "j = i") (metis, metis case_prodD count_greater_zero_iff)
  ultimately show ?thesis using assms(1,4) by (auto simp: limiter_ok_def)
qed

section \<open>Every operation keeps the tables\<close>

lemma setter_simps [simp]:
  "shards (set_shard i sh l) = (shards l)[i := sh]" "next_node (set_shard i sh l) = next_node l"
  "tracked (set_shard i sh l) = tracked l" "theoretical_arrival (set_shard i sh l) = theoretical_arrival l"
  "shards (tracked_sub n l) = shards l" "next_node (tracked_sub n l) = next_node l"
  by (simp_all add: set_shard_def tracked_sub_def)

lemma limiter_ok_setters:
  "limiter_ok ls (tracked_sub n l) = limiter_ok ls l"
  "limiter_ok ls (l\<lparr>tracked := m\<rparr>) = limiter_ok ls l"
  "limiter_ok ls (l\<lparr>theoretical_arrival := t\<rparr>) = limiter_ok ls l"
  by (simp_all add: limiter_ok_def)

lemma limiter_shard: "limiter_ok ls l \<Longrightarrow> i < kShardCount \<Longrightarrow> shard_ok i (next_node l) ls (shards l ! i) \<and> i < length (shards l)"
  by (simp add: limiter_ok_def)

lemma last_pruned_ok [simp]: "shard_ok i N ls (sh\<lparr>last_pruned := t\<rparr>) = shard_ok i N ls sh"
  by (simp add: shard_ok_def nodes_def)

lemma set_shard_ok:
  "limiter_ok ls l \<Longrightarrow> i < kShardCount \<Longrightarrow> shard_ok i (next_node l) ls sh \<Longrightarrow> limiter_ok ls (set_shard i sh l)"
  by (rule limiter_ok_shard [of ls l i _ ls sh]) simp_all

lemma prune_if_due_ok:
  assumes "limiter_ok ls l" and "i < kShardCount"
  shows "limiter_ok ls (prune_if_due i now limits l)"
proof -
  let ?P = "\<lambda>(_ :: client_key, st). \<not> (active st = 0 \<and> client_state_retention_seconds limits * ns_per_second < now - last_seen st)"
  have ok: "shard_ok i (next_node l) ls (shards l ! i)" and len: "i < length (shards l)"
    using limiter_shard [OF assms] by simp_all
  have "shard_ok i (next_node l) ls ((shards l ! i)\<lparr>clients := filter ?P (clients (shards l ! i))\<rparr>)"
    by (rule filter_ok [OF ok]) auto
  then have "limiter_ok ls (prune i now (client_state_retention_seconds limits * ns_per_second) l)"
    unfolding prune_def Let_def limiter_ok_setters by (rule set_shard_ok [OF assms])
  moreover from limiter_shard [OF this assms(2)] have
    "shard_ok i (next_node (prune i now (client_state_retention_seconds limits * ns_per_second) l)) ls
       ((shards (prune i now (client_state_retention_seconds limits * ns_per_second) l) ! i)\<lparr>last_pruned := now\<rparr>)"
    by simp
  ultimately show ?thesis
    using assms by (simp add: prune_if_due_def Let_def set_shard_ok)
qed

lemma oldest_inactive_Some:
  "oldest_inactive oldest entries = Some e \<Longrightarrow>
     oldest = Some e \<or> e \<in> set entries \<and> active (snd e) = 0"
  by (induction oldest entries rule: oldest_inactive.induct) (auto split: if_splits option.splits)

lemma evict_ok:
  assumes "limiter_ok ls l" and "i < kShardCount" and "\<And>es. mset (order es) = mset es"
    and "evict_oldest_inactive order i l = (l', b)"
  shows "limiter_ok ls l'"
proof (cases "oldest_inactive None (order (clients (shards l ! i)))")
  case None
  with assms show ?thesis by (simp add: evict_oldest_inactive_def)
next
  case (Some e)
  obtain k st where e: "e = (k, st)" by (cases e)
  from oldest_inactive_Some [OF Some] e have "(k, st) \<in> set (order (clients (shards l ! i)))" "active st = 0" by auto
  then have "(k, st) \<in> set (clients (shards l ! i))" "active st = 0" by (metis assms(3) set_mset_mset)+
  from erase_node_ok [OF _ this] limiter_shard [OF assms(1,2)]
  have "limiter_ok ls (set_shard i (erase_node (node st) (shards l ! i)) l)"
    by (intro set_shard_ok [OF assms(1,2)]) blast
  with assms(4) Some e show ?thesis by (auto simp: evict_oldest_inactive_def limiter_ok_setters)
qed

lemma make_room_ok:
  assumes "limiter_ok ls l" and "i < kShardCount" and "\<And>es. mset (order es) = mset es"
    and "make_room order i limits l = (l', b)"
  shows "limiter_ok ls l'"
  using assms(4) evict_ok [OF assms(1-3)]
  by (auto simp: make_room_def reserve_tracking_slot_def limiter_ok_setters assms(1) split: prod.splits if_splits bool.splits)

lemma make_room_keys:
  assumes "make_room order i limits l = (l', b)" and "i < length (shards l)"
  shows "set (clients (shards l' ! i)) \<subseteq> set (clients (shards l ! i))"
  using assms
  by (auto simp: make_room_def reserve_tracking_slot_def evict_oldest_inactive_def erase_node_def
      split: prod.splits if_splits bool.splits option.splits)

lemma consume_global_ok:
  "consume_global_connection now limits l = (l', b) \<Longrightarrow> shards l' = shards l \<and> next_node l' = next_node l \<and> tracked l' = tracked l"
  by (auto simp: consume_global_connection_def Let_def split: if_splits)

text \<open>The leases after an operation that may grant one.\<close>

definition granted :: "lease option \<Rightarrow> lease multiset \<Rightarrow> lease multiset" where
  "granted x ls = (case x of None \<Rightarrow> ls | Some ll \<Rightarrow> add_mset ll ls)"

lemma limiter_ok_same: "limiter_ok ls l \<Longrightarrow> shards l' = shards l \<Longrightarrow> next_node l' = next_node l \<Longrightarrow> limiter_ok ls l'"
  by (simp add: limiter_ok_def)

lemma write_node_ok:
  assumes "limiter_ok ls l" and "i < kShardCount" and "(k, st) \<in> set (clients (shards l ! i))"
    and "node st' = node st" and "active st' = count ls' (i, node st)"
    and "\<And>x. x \<noteq> (i, node st) \<Longrightarrow> count ls' x = count ls x"
  shows "limiter_ok ls' (set_shard i (update_node (node st) (\<lambda>_. st') (shards l ! i)) l)"
proof (rule limiter_ok_shard [OF assms(1,2)])
  have "shard_ok i (next_node l) ls (shards l ! i)" using limiter_shard [OF assms(1,2)] by simp
  then show "shard_ok i (next_node (set_shard i (update_node (node st) (\<lambda>_. st') (shards l ! i)) l)) ls'
      (update_node (node st) (\<lambda>_. st') (shards l ! i))"
    unfolding setter_simps by (rule update_node_ok [OF _ assms(3)]) (use assms in auto)
qed (use assms(6) in auto)

lemma entry_active:
  "limiter_ok ls l \<Longrightarrow> i < kShardCount \<Longrightarrow> (k, st) \<in> set (clients (shards l ! i)) \<Longrightarrow> active st = count ls (i, node st)"
  by (auto simp: limiter_ok_def shard_ok_def)

lemma written_in:
  "(k, st) \<in> set (clients sh) \<Longrightarrow> (k, st') \<in> set (clients (update_node (node st) (\<lambda>_. st') sh))"
  by (force simp: set_update_node)

lemma admit_ok:
  assumes "limiter_ok ls l" and "i < kShardCount" and st: "(k, st) \<in> set (clients (shards l ! i))"
    and "inserted \<Longrightarrow> active st = 0" and "admit i st inserted limits now l = (l', result, x)"
  shows "limiter_ok (granted x ls) l' \<and> (result = Accepted \<longleftrightarrow> x \<noteq> None) \<and>
    (x \<noteq> None \<longrightarrow> x = Some (i, node st) \<and> active st < max_connections_per_ip limits)"
proof -
  define st1 where "st1 = st\<lparr>last_seen := now, connection_bucket := refill (connection_bucket st) now
    (connections_per_second_per_ip limits) (connection_burst_per_ip limits)\<rparr>"
  define l1 where "l1 = set_shard i (update_node (node st) (\<lambda>_. st1) (shards l ! i)) l"
  have st1: "node st1 = node st" "active st1 = active st" by (simp_all add: st1_def)
  have ok1: "limiter_ok ls l1"
    unfolding l1_def by (rule write_node_ok [OF assms(1,2) st]) (simp_all add: st1 entry_active [OF assms(1,2) st])
  have len: "i < length (shards l)" using limiter_shard [OF assms(1,2)] by simp
  have in1: "(k, st1) \<in> set (clients (shards l1 ! i))"
    using written_in [OF st] len by (simp add: l1_def)
  obtain l2 b where g: "consume_global_connection now limits l1 = (l2, b)" by (cases "consume_global_connection now limits l1")
  note same = consume_global_ok [OF g]
  have ok2: "limiter_ok ls l2" and in2: "(k, st1) \<in> set (clients (shards l2 ! i))"
    using ok1 in1 same limiter_ok_same by auto
  have erase: "limiter_ok ls (tracked_sub 1 (set_shard i (erase_node (node st) (shards l2 ! i)) l2))" if "inserted"
    unfolding limiter_ok_setters using limiter_shard [OF ok2 assms(2)] erase_node_ok [OF _ in2] assms(4) that st1
    by (intro set_shard_ok [OF ok2 assms(2)]) auto
  have take: "limiter_ok (add_mset (i, node st) ls) (set_shard i (update_node (node st) (\<lambda>_. st2) (shards l2 ! i)) l2)"
    if "node st2 = node st" "active st2 = active st + 1" for st2
    using write_node_ok [OF ok2 assms(2) in2, of st2 "add_mset (i, node st) ls"] that st1
      entry_active [OF assms(1,2) st] by simp
  show ?thesis
    using assms(5) ok1 ok2 erase take
    unfolding admit_def Let_def st1_def [symmetric] l1_def [symmetric] g prod.case
    by (auto simp: granted_def st1 split: if_splits bool.splits)
qed

section \<open>Leases never dangle\<close>

text \<open>
  The limiter with the leases in circulation: any sequence of admissions under limits that satisfy
  \<open>ok\<close>, of traffic on a lease that is held, and of releases of one.
\<close>

inductive limiter_reach :: "iteration_order \<Rightarrow> (limits_config \<Rightarrow> bool) \<Rightarrow> rate_limiter \<Rightarrow> lease multiset \<Rightarrow> bool"
  for order ok where
  start: "limiter_reach order ok new_rate_limiter {#}"
| acquire: "limiter_reach order ok l ls \<Longrightarrow> ok limits \<Longrightarrow> acquire order no_memory key limits now l = (l', r) \<Longrightarrow>
    limiter_reach order ok l' (case r of None \<Rightarrow> ls | Some (_, x) \<Rightarrow> granted x ls)"
| traffic: "limiter_reach order ok l ls \<Longrightarrow> x \<in># ls \<Longrightarrow>
    consume_traffic (Some x) bytes messages limits now l = Some (l', b) \<Longrightarrow> limiter_reach order ok l' ls"
| release: "limiter_reach order ok l ls \<Longrightarrow> x \<in># ls \<Longrightarrow> release x l = Some l' \<Longrightarrow>
    limiter_reach order ok l' (ls - {#x#})"

lemma new_rate_limiter_ok: "limiter_ok {#} new_rate_limiter"
  by (simp add: limiter_ok_def new_rate_limiter_def shard_ok_def nodes_def)

lemma admit_result_ok:
  assumes "limiter_ok ls l" and "i < kShardCount" and "(k, st) \<in> set (clients (shards l ! i))"
    and "inserted \<Longrightarrow> active st = 0" and "map_prod id Some (admit i st inserted limits now l) = (l', r)"
  shows "limiter_ok (case r of None \<Rightarrow> ls | Some (_, x) \<Rightarrow> granted x ls) l' \<and>
    (\<forall>result x. r = Some (result, Some x) \<longrightarrow> result = Accepted \<and> count ls x < max_connections_per_ip limits)"
proof -
  obtain l2 res x where a: "admit i st inserted limits now l = (l2, res, x)" by (metis prod_cases3)
  with assms(5) have "l' = l2" "r = Some (res, x)" by auto
  with admit_ok [OF assms(1-4) a] entry_active [OF assms(1-3)] show ?thesis by auto
qed

lemma insert_client_ok:
  assumes "limiter_ok ls l" and i: "i = shard_index_for key" and "\<And>es. mset (order es) = mset es"
    and "map_of (clients (shards l ! i)) key = None" and room: "make_room order i limits l = (l1, b)"
  shows "limiter_ok ls ((set_shard i ((shards l1 ! i)\<lparr>clients := clients (shards l1 ! i) @
    [(key, new_client (next_node l1) now limits)]\<rparr>) l1)\<lparr>next_node := next_node l1 + 1\<rparr>)"
    (is "limiter_ok ls ?l2")
proof -
  have il: "i < kShardCount" by (simp add: i)
  have ok1: "limiter_ok ls l1" by (rule make_room_ok [OF assms(1) il assms(3) room])
  let ?sh = "(shards l1 ! i)\<lparr>clients := clients (shards l1 ! i) @ [(key, new_client (next_node l1) now limits)]\<rparr>"
  have "fst ` set (clients (shards l1 ! i)) \<subseteq> fst ` set (clients (shards l ! i))"
    using make_room_keys [OF room] il assms(1) by (auto simp: limiter_ok_def)
  with assms(4) have "key \<notin> set (map fst (clients (shards l1 ! i)))" by (auto simp: map_of_eq_None_iff)
  with limiter_shard [OF ok1 il] have "shard_ok i (Suc (next_node l1)) ls ?sh"
    by (intro append_ok) (simp_all add: i new_client_def)
  then show ?thesis by (intro limiter_ok_shard [OF ok1 il, of ?l2 ls ?sh]) simp_all
qed

lemma acquire_ok:
  assumes "limiter_ok ls l" and "\<And>es. mset (order es) = mset es" and "acquire order no_memory key limits now l = (l', r)"
  shows "limiter_ok (case r of None \<Rightarrow> ls | Some (_, x) \<Rightarrow> granted x ls) l' \<and>
    (\<forall>result x. r = Some (result, Some x) \<longrightarrow> result = Accepted \<and> count ls x < max_connections_per_ip limits)"
proof -
  define i where "i = shard_index_for key"
  define l0 where "l0 = prune_if_due i now limits l"
  have i: "i < kShardCount" by (simp add: i_def)
  have ok0: "limiter_ok ls l0" unfolding l0_def by (rule prune_if_due_ok [OF assms(1) i])
  show ?thesis
  proof (cases "map_of (clients (shards l0 ! i)) key")
    case (Some st)
    then have "(key, st) \<in> set (clients (shards l0 ! i))" by (rule map_of_SomeD)
    moreover have "map_prod id Some (admit i st False limits now l0) = (l', r)"
      using assms(3) Some unfolding acquire_def Let_def i_def [symmetric] l0_def [symmetric] by simp
    ultimately show ?thesis using admit_result_ok [OF ok0 i, of key st False] by simp
  next
    case None
    obtain l1 b where room: "make_room order i limits l0 = (l1, b)" by (cases "make_room order i limits l0")
    have ok1: "limiter_ok ls l1" by (rule make_room_ok [OF ok0 i assms(2) room])
    let ?st = "new_client (next_node l1) now limits"
    let ?l2 = "(set_shard i ((shards l1 ! i)\<lparr>clients := clients (shards l1 ! i) @ [(key, ?st)]\<rparr>) l1)
      \<lparr>next_node := next_node l1 + 1\<rparr>"
    have ok2: "limiter_ok ls ?l2" by (rule insert_client_ok [OF ok0 i_def assms(2) None room])
    have st: "(key, ?st) \<in> set (clients (shards ?l2 ! i))" using limiter_shard [OF ok1 i] by simp
    have fresh: "active ?st = 0" by (simp add: new_client_def)
    have "\<not> b \<and> l' = l1 \<and> r = Some (SourceCapacity, None) \<or> b \<and> no_memory \<and> l' = tracked_sub 1 l1 \<and> r = None \<or>
        b \<and> map_prod id Some (admit i ?st True limits now ?l2) = (l', r)"
      using assms(3) None room unfolding acquire_def Let_def i_def [symmetric] l0_def [symmetric]
      by (auto split: if_splits bool.splits)
    then show ?thesis
      using ok1 admit_result_ok [OF ok2 i st fresh] by (auto simp: granted_def limiter_ok_setters)
  qed
qed

lemma leased_entry:
  assumes "limiter_ok ls l" and "(i, n) \<in># ls"
  obtains k st where "i < kShardCount" and "(k, st) \<in> set (clients (shards l ! i))" and "node st = n"
    and "deref (shards l ! i) n = Some st" and "active st = count ls (i, n)"
proof -
  have i: "i < kShardCount" using assms by (auto simp: limiter_ok_def)
  have sh: "shard_ok i (next_node l) ls (shards l ! i)" using limiter_shard [OF assms(1) i] by simp
  then obtain k st where "(k, st) \<in> set (clients (shards l ! i))" "node st = n"
    using assms(2) by (auto simp: shard_ok_def nodes_in)
  moreover from this sh have "deref (shards l ! i) n = Some st" by (auto simp: deref_Some shard_ok_def)
  ultimately show ?thesis using that i entry_active [OF assms(1) i] by blast
qed

lemma consume_traffic_ok:
  assumes "limiter_ok ls l" and "x \<in># ls"
  shows "\<exists>l' b. consume_traffic (Some x) bytes messages limits now l = Some (l', b) \<and> limiter_ok ls l'"
proof -
  obtain i n where x: "x = (i, n)" by (cases x)
  with assms obtain k st where e: "i < kShardCount" "(k, st) \<in> set (clients (shards l ! i))" "node st = n"
    "deref (shards l ! i) n = Some st" "active st = count ls (i, n)" by (blast elim: leased_entry)
  have "limiter_ok ls (set_shard i (update_node n (\<lambda>_. st') (shards l ! i)) l)"
    if "node st' = n" "active st' = active st" for st'
    using write_node_ok [OF assms(1) e(1,2), of st' ls] that e by simp
  with e x show ?thesis by (auto simp: consume_traffic_def Let_def ex_bool_eq)
qed

lemma release_ok:
  assumes "limiter_ok ls l" and "x \<in># ls"
  shows "\<exists>l'. release x l = Some l' \<and> limiter_ok (ls - {#x#}) l'"
proof -
  obtain i n where x: "x = (i, n)" by (cases x)
  with assms obtain k st where e: "i < kShardCount" "(k, st) \<in> set (clients (shards l ! i))" "node st = n"
    "deref (shards l ! i) n = Some st" "active st = count ls (i, n)" by (blast elim: leased_entry)
  have pos: "0 < active st" using e(5) assms(2) x by simp
  let ?f = "\<lambda>st. st\<lparr>active := active st - 1\<rparr>"
  have "limiter_ok (ls - {#x#}) (set_shard i (update_node (node st) ?f (shards l ! i)) l)"
  proof (rule limiter_ok_shard [OF assms(1) e(1)])
    show "shard_ok i (next_node (set_shard i (update_node (node st) ?f (shards l ! i)) l)) (ls - {#x#})
        (update_node (node st) ?f (shards l ! i))"
      unfolding setter_simps
      by (rule update_node_ok [OF _ e(2)]) (use limiter_shard [OF assms(1) e(1)] e x in auto)
  qed (use x in auto)
  with pos e x show ?thesis by (simp add: release_def)
qed

lemma limiter_reach_ok:
  assumes "limiter_reach order ok l ls" and "\<And>es. mset (order es) = mset es"
  shows "limiter_ok ls l"
  using assms(1)
proof (induction rule: limiter_reach.induct)
  case start
  show ?case by (rule new_rate_limiter_ok)
next
  case (acquire l ls limits no_memory key now l' r)
  then show ?case using acquire_ok [OF acquire.IH assms(2) acquire.hyps(3)] by blast
next
  case (traffic l ls x bytes messages limits now l' b)
  then show ?case using consume_traffic_ok [OF traffic.IH traffic.hyps(2), of bytes messages limits now] by auto
next
  case (release l ls x l')
  then show ?case using release_ok [OF release.IH release.hyps(2)] by auto
qed

text \<open>
  Property C7. In every reachable state, whatever the iteration order of the hash tables, each lease
  still points at the entry it was granted on, that entry counts exactly the leases held on it, and
  accounting traffic on the lease or releasing it finds the entry: pruning and eviction never free an
  entry that a connection still refers to.
\<close>

theorem lease_never_dangles:
  assumes "limiter_reach order ok l ls" and "\<And>es. mset (order es) = mset es" and "(i, n) \<in># ls"
  shows "\<exists>k st. (k, st) \<in> set (clients (shards l ! i)) \<and> node st = n \<and> shard_index_for k = i \<and>
    active st = count ls (i, n) \<and> deref (shards l ! i) n = Some st \<and>
    consume_traffic (Some (i, n)) bytes messages limits now l \<noteq> None \<and> release (i, n) l \<noteq> None"
proof -
  have ok: "limiter_ok ls l" by (rule limiter_reach_ok [OF assms(1,2)])
  from leased_entry [OF ok assms(3)] obtain k st where e: "i < kShardCount"
    "(k, st) \<in> set (clients (shards l ! i))" "node st = n" "deref (shards l ! i) n = Some st" "active st = count ls (i, n)" .
  with limiter_shard [OF ok e(1)] have "shard_index_for k = i" by (auto simp: shard_ok_def)
  moreover have "consume_traffic (Some (i, n)) bytes messages limits now l \<noteq> None" "release (i, n) l \<noteq> None"
    using consume_traffic_ok [OF ok assms(3), of bytes messages limits now] release_ok [OF ok assms(3)] by auto
  ultimately show ?thesis using e by blast
qed

lemma limiter_reach_leases:
  assumes "limiter_reach order ok l ls" and "\<And>es. mset (order es) = mset es"
    and "\<And>limits. ok limits \<Longrightarrow> max_connections_per_ip limits \<le> C"
  shows "count ls x \<le> C"
  using assms(1)
proof (induction arbitrary: x rule: limiter_reach.induct)
  case (acquire l ls limits no_memory key now l' r)
  have "count ls x < C" if "r = Some (result, Some x)" for result x
    using acquire_ok [OF limiter_reach_ok [OF acquire.hyps(1) assms(2)] assms(2) acquire.hyps(3)] that
      assms(3) [OF acquire.hyps(2)] by fastforce
  then show ?case
    using acquire.IH [of x] by (cases r) (auto simp: granted_def Suc_le_eq split: option.split)
next
  case (release l ls x l')
  then show ?case by (metis count_diff diff_le_self order.trans)
qed auto

text \<open>
  Property C32. As long as no limit above \<open>C\<close> connections per address is in force, no client key, an
  IPv4 address or an IPv6 prefix, ever has more than \<open>C\<close> admitted connections at the same time.
\<close>

theorem connections_per_ip_bounded:
  assumes "limiter_reach order ok l ls" and "\<And>es. mset (order es) = mset es"
    and "\<And>limits. ok limits \<Longrightarrow> max_connections_per_ip limits \<le> C"
    and "(key, st) \<in> set (clients (shards l ! shard_index_for key))"
  shows "active st = count ls (shard_index_for key, node st) \<and> active st \<le> C"
  using entry_active [OF limiter_reach_ok [OF assms(1,2)] shard_index_less assms(4)]
    limiter_reach_leases [OF assms(1-3)] by simp

section \<open>The number of tracked clients\<close>

text \<open>The counter is the number of entries, plus \<open>d\<close> slots reserved for entries still to be made.\<close>

definition tracked_ok :: "nat \<Rightarrow> nat \<Rightarrow> rate_limiter \<Rightarrow> bool" where
  "tracked_ok M d l \<longleftrightarrow> length (shards l) = kShardCount \<and> tracked l = table_size l + d \<and> tracked l \<le> M \<and> M < 2 ^ 64"

lemma table_size_set_shard:
  "i < length (shards l) \<Longrightarrow>
     table_size (set_shard i sh l) + length (clients (shards l ! i)) = table_size l + length (clients sh)"
  using elem_le_sum_list [of i "map (\<lambda>sh. length (clients sh)) (shards l)"]
  by (simp add: table_size_def map_update sum_list_update)

lemma tracked_sub_exact:
  assumes "n \<le> tracked l" and "tracked l < 2 ^ 64"
  shows "tracked (tracked_sub n l) = tracked l - n"
proof -
  have "tracked l + 2 ^ 64 - n = tracked l - n + 2 ^ 64" using assms by simp
  then show ?thesis using assms by (simp only: tracked_sub_def wrap64_def mod_add_self2) simp
qed

lemma tracked_shrink:
  assumes "tracked_ok M d l" and "i < kShardCount" and "length (clients sh) + n = length (clients (shards l ! i))"
  shows "tracked_ok M d (tracked_sub n (set_shard i sh l))"
proof -
  let ?l = "set_shard i sh l"
  have i: "i < length (shards l)" using assms by (simp add: tracked_ok_def)
  have size: "table_size ?l + n = table_size l" using table_size_set_shard [OF i, of sh] assms(3) by simp
  have "tracked (tracked_sub n ?l) = tracked ?l - n"
    by (rule tracked_sub_exact) (use assms(1) size in \<open>auto simp: tracked_ok_def\<close>)
  moreover have "table_size (tracked_sub n ?l) = table_size ?l" by (simp add: table_size_def)
  ultimately show ?thesis using assms(1) size unfolding tracked_ok_def by auto
qed

lemma tracked_ok_same_size:
  assumes "tracked_ok M d l" and "i < kShardCount" and "length (clients sh) = length (clients (shards l ! i))"
  shows "tracked_ok M d (set_shard i sh l)"
  using assms table_size_set_shard [of i l sh] by (simp add: tracked_ok_def)

lemma prune_if_due_tracked:
  assumes "tracked_ok M d l" and "i < kShardCount"
  shows "tracked_ok M d (prune_if_due i now limits l)"
proof -
  let ?l = "prune i now (client_state_retention_seconds limits * ns_per_second) l"
  have "tracked_ok M d ?l"
    unfolding prune_def Let_def by (rule tracked_shrink [OF assms]) (simp add: length_filter_le)
  then show ?thesis
    using assms tracked_ok_same_size [of M d ?l i "(shards ?l ! i)\<lparr>last_pruned := now\<rparr>"]
    by (simp add: prune_if_due_def Let_def)
qed

lemma erase_node_length:
  assumes "distinct (nodes sh)" and "n \<in> set (nodes sh)"
  shows "length (clients (erase_node n sh)) + 1 = length (clients sh)"
proof -
  have "filter (\<lambda>m. m \<noteq> n) (nodes sh) = map (node \<circ> snd) (clients (erase_node n sh))"
    by (simp add: nodes_def erase_node_def filter_map o_def case_prod_unfold)
  then have "length (clients (erase_node n sh)) = length (filter (\<lambda>m. m \<noteq> n) (nodes sh))"
    by (metis length_map)
  also have "\<dots> = length (remove1 n (nodes sh))" using assms(1) by (simp add: distinct_remove1_removeAll removeAll_filter_not_eq neq_commute)
  finally show ?thesis using assms(2) by (simp add: length_remove1 nodes_def) (metis Suc_pred length_pos_if_in_set list.set_map length_map)
qed

lemma make_room_tracked:
  assumes "tracked_ok M 0 l" and "i < kShardCount" and "limiter_ok ls l" and "\<And>es. mset (order es) = mset es"
    and "max_tracked_client_ips limits \<le> M" and "make_room order i limits l = (l', b)"
  shows "tracked_ok M (if b then 1 else 0) l'"
proof -
  have reserve: "tracked_ok M (if c then 1 else 0) l2"
    if "tracked_ok M 0 l1" "reserve_tracking_slot (max_tracked_client_ips limits) l1 = (l2, c)" for l1 l2 c
    using that assms(5) by (auto simp: reserve_tracking_slot_def tracked_ok_def table_size_def split: if_splits)
  have evict: "tracked_ok M 0 l2" if "evict_oldest_inactive order i l = (l2, c)" for l2 c
  proof (cases "oldest_inactive None (order (clients (shards l ! i)))")
    case None
    with that assms(1) show ?thesis by (simp add: evict_oldest_inactive_def)
  next
    case (Some e)
    with oldest_inactive_Some [OF Some] have "e \<in> set (order (clients (shards l ! i)))" by simp
    then have "e \<in> set (clients (shards l ! i))" by (metis assms(4) set_mset_mset)
    then have "node (snd e) \<in> set (nodes (shards l ! i))" by (auto simp: nodes_def)
    moreover have "distinct (nodes (shards l ! i))" using limiter_shard [OF assms(3,2)] by (simp add: shard_ok_def)
    ultimately have "length (clients (erase_node (node (snd e)) (shards l ! i))) + 1 = length (clients (shards l ! i))"
      by (intro erase_node_length)
    from tracked_shrink [OF assms(1,2) this] Some that show ?thesis
      by (auto simp: evict_oldest_inactive_def case_prod_unfold)
  qed
  obtain l1 c where first: "reserve_tracking_slot (max_tracked_client_ips limits) l = (l1, c)" by fastforce
  show ?thesis
  proof (cases c)
    case True
    with first assms(6) reserve [OF assms(1) first] show ?thesis by (simp add: make_room_def)
  next
    case False
    then have l1: "l1 = l" using first by (auto simp: reserve_tracking_slot_def split: if_splits)
    obtain l2 e where ev: "evict_oldest_inactive order i l = (l2, e)" by fastforce
    from assms(6) first False ev l1 have
      "(l', b) = (if e then reserve_tracking_slot (max_tracked_client_ips limits) l2 else (l2, False))"
      by (cases e) (auto simp: make_room_def)
    then show ?thesis using evict [OF ev] reserve [of l2 l' b] by (cases e) auto
  qed
qed

lemma admit_tracked:
  assumes "tracked_ok M 0 l" and "i < kShardCount" and "limiter_ok ls l" and "(k, st) \<in> set (clients (shards l ! i))"
    and "admit i st inserted limits now l = (l', result, x)"
  shows "tracked_ok M 0 l'"
proof -
  define st1 where "st1 = st\<lparr>last_seen := now, connection_bucket := refill (connection_bucket st) now
    (connections_per_second_per_ip limits) (connection_burst_per_ip limits)\<rparr>"
  define l1 where "l1 = set_shard i (update_node (node st) (\<lambda>_. st1) (shards l ! i)) l"
  have len: "i < length (shards l)" using limiter_shard [OF assms(3,2)] by simp
  have ok1: "tracked_ok M 0 l1" unfolding l1_def by (rule tracked_ok_same_size [OF assms(1,2)]) simp
  obtain l2 b where g: "consume_global_connection now limits l1 = (l2, b)" by fastforce
  note same = consume_global_ok [OF g]
  have ok2: "tracked_ok M 0 l2" using ok1 same by (simp add: tracked_ok_def table_size_def)
  have nodes: "nodes (shards l2 ! i) = nodes (shards l ! i)"
    using same len by (simp add: l1_def nodes_update_node st1_def)
  have "node st \<in> set (nodes (shards l ! i))" using assms(4) by (auto simp: nodes_in)
  moreover have "distinct (nodes (shards l ! i))" using limiter_shard [OF assms(3,2)] by (simp add: shard_ok_def)
  ultimately have "length (clients (erase_node (node st) (shards l2 ! i))) + 1 = length (clients (shards l2 ! i))"
    using nodes by (intro erase_node_length) simp_all
  note erase = tracked_shrink [OF ok2 assms(2) this]
  have written: "tracked_ok M 0 (set_shard i (update_node (node st) (\<lambda>_. st2) (shards l2 ! i)) l2)" for st2
    by (rule tracked_ok_same_size [OF ok2 assms(2)]) simp
  show ?thesis
    using assms(5) ok1 ok2 erase written
    unfolding admit_def Let_def st1_def [symmetric] l1_def [symmetric] g prod.case
    by (auto split: if_splits bool.splits)
qed

lemma acquire_tracked:
  assumes "tracked_ok M 0 l" and "limiter_ok ls l" and "\<And>es. mset (order es) = mset es"
    and "max_tracked_client_ips limits \<le> M" and "acquire order no_memory key limits now l = (l', r)"
  shows "tracked_ok M 0 l'"
proof -
  define i where "i = shard_index_for key"
  define l0 where "l0 = prune_if_due i now limits l"
  have i: "i < kShardCount" by (simp add: i_def)
  have ok0: "limiter_ok ls l0" "tracked_ok M 0 l0"
    unfolding l0_def using prune_if_due_ok [OF assms(2) i] prune_if_due_tracked [OF assms(1) i] by simp_all
  show ?thesis
  proof (cases "map_of (clients (shards l0 ! i)) key")
    case (Some st)
    obtain l2 res x where a: "admit i st False limits now l0 = (l2, res, x)" by (metis prod_cases3)
    with assms(5) Some have "l' = l2" unfolding acquire_def Let_def i_def [symmetric] l0_def [symmetric] by auto
    with admit_tracked [OF ok0(2) i ok0(1) map_of_SomeD [OF Some] a] show ?thesis by simp
  next
    case None
    obtain l1 b where room: "make_room order i limits l0 = (l1, b)" by fastforce
    let ?st = "new_client (next_node l1) now limits"
    let ?sh = "(shards l1 ! i)\<lparr>clients := clients (shards l1 ! i) @ [(key, ?st)]\<rparr>"
    let ?l2 = "(set_shard i ?sh l1)\<lparr>next_node := next_node l1 + 1\<rparr>"
    have t1: "tracked_ok M (if b then 1 else 0) l1" by (rule make_room_tracked [OF ok0(2) i ok0(1) assms(3,4) room])
    have ok2: "limiter_ok ls ?l2" by (rule insert_client_ok [OF ok0(1) i_def assms(3) None room])
    have st: "(key, ?st) \<in> set (clients (shards ?l2 ! i))" using t1 i by (simp add: tracked_ok_def)
    obtain l3 res x where a: "admit i ?st True limits now ?l2 = (l3, res, x)" by (metis prod_cases3)
    have "\<not> b \<and> l' = l1 \<or> b \<and> l' = tracked_sub 1 l1 \<or> b \<and> l' = l3"
      using assms(5) None room a unfolding acquire_def Let_def i_def [symmetric] l0_def [symmetric]
      by (auto split: if_splits bool.splits)
    moreover have "tracked_ok M 0 (tracked_sub 1 l1)" if b
      using t1 that tracked_sub_exact [of 1 l1] by (simp add: tracked_ok_def table_size_def)
    moreover have "tracked_ok M 0 ?l2" if b
      using t1 that table_size_set_shard [of i l1 ?sh] i by (simp add: tracked_ok_def) (simp add: table_size_def)
    ultimately show ?thesis using t1 admit_tracked [OF _ i ok2 st a] by auto
  qed
qed

lemma traffic_release_tracked:
  "tracked_ok M d l \<Longrightarrow> i < kShardCount \<Longrightarrow>
     consume_traffic (Some (i, n)) bytes messages limits now l = Some (l', b) \<Longrightarrow> tracked_ok M d l'"
  "tracked_ok M d l \<Longrightarrow> i < kShardCount \<Longrightarrow> release (i, n) l = Some l' \<Longrightarrow> tracked_ok M d l'"
  by (auto simp: consume_traffic_def release_def Let_def split: option.splits if_splits intro!: tracked_ok_same_size)

lemma limiter_reach_tracked:
  assumes "limiter_reach order ok l ls" and "\<And>es. mset (order es) = mset es"
    and "\<And>limits. ok limits \<Longrightarrow> max_tracked_client_ips limits \<le> M" and "M < 2 ^ 64"
  shows "tracked_ok M 0 l"
  using assms(1)
proof (induction rule: limiter_reach.induct)
  case start
  show ?case
    using assms(4) by (simp add: tracked_ok_def new_rate_limiter_def table_size_def sum_list_replicate)
next
  case (acquire l ls limits no_memory key now l' r)
  then show ?case
    using acquire_tracked [OF acquire.IH limiter_reach_ok [OF acquire.hyps(1) assms(2)] assms(2,3)] by blast
next
  case (traffic l ls x bytes messages limits now l' b)
  moreover from limiter_reach_ok [OF traffic.hyps(1) assms(2)] traffic.hyps(2) have "fst x < kShardCount"
    by (auto simp: limiter_ok_def)
  ultimately show ?case using traffic_release_tracked(1) [of M 0 l "fst x" "snd x"] by simp
next
  case (release l ls x l')
  moreover from limiter_reach_ok [OF release.hyps(1) assms(2)] release.hyps(2) have "fst x < kShardCount"
    by (auto simp: limiter_ok_def)
  ultimately show ?case using traffic_release_tracked(2) [of M 0 l "fst x" "snd x"] by simp
qed

text \<open>
  Property C33. The published number of tracked clients is exactly the number of entries in all shards,
  and never exceeds the largest configured maximum: insertions, prunings, evictions, rejected newcomers
  and failed allocations all keep the count.
\<close>

theorem tracked_clients_exact:
  assumes "limiter_reach order ok l ls" and "\<And>es. mset (order es) = mset es"
    and "\<And>limits. ok limits \<Longrightarrow> max_tracked_client_ips limits \<le> M" and "M < 2 ^ 64"
  shows "tracked l = sum_list (map (\<lambda>sh. length (clients sh)) (shards l)) \<and> tracked l \<le> M"
  using limiter_reach_tracked [OF assms] by (simp add: tracked_ok_def table_size_def)

section \<open>The global rate\<close>

lemma gcra_interval_pos: "positive_rate (global_connections_per_second limits) \<Longrightarrow> 1 \<le> gcra_interval limits"
proof -
  assume "positive_rate (global_connections_per_second limits)"
  then obtain q where q: "global_connections_per_second limits = Fin q" "0 < q" by (auto simp: positive_rate_def)
  have max: "to_double (of_int kMaximumGcraIntervalNanoseconds) = Fin (round64 1000000000000000000)"
    and big: "1 \<le> round64 1000000000000000000" by code_simp+
  have "double_div (Fin 1000000000) (Fin q) = to_double (1000000000 / q)" using q by simp
  moreover have "0 \<le> round64 (1000000000 / q)" using q by (simp add: round64_nonneg)
  then have "to_double (1000000000 / q) \<noteq> NaN" "to_double (1000000000 / q) \<noteq> NInf"
    using overflow_bound_pos by (auto simp: to_double_def Let_def)
  ultimately show ?thesis
    using big unfolding gcra_interval_def q max
    by (cases "to_double (1000000000 / q)") (auto simp: double_clamp_def)
qed

text \<open>The admissions of a sequence of attempts: the ts at which one was granted.\<close>

fun gcra_admitted :: "limits_config \<Rightarrow> rate_limiter \<Rightarrow> time_point list \<Rightarrow> time_point list" where
  "gcra_admitted limits l [] = []"
| "gcra_admitted limits l (now # ts) =
     (case consume_global_connection now limits l of
        (l', True) \<Rightarrow> now # gcra_admitted limits l' ts
      | (l', False) \<Rightarrow> gcra_admitted limits l' ts)"

definition gcra_in_range :: "limits_config \<Rightarrow> time_point \<Rightarrow> bool" where
  "gcra_in_range limits now \<longleftrightarrow>
     0 \<le> now \<and> now + int (global_connection_burst limits) * gcra_interval limits \<le> int64_max"

lemma consume_global_exact:
  assumes "gcra_in_range limits now" and "1 \<le> global_connection_burst limits" and "1 \<le> gcra_interval limits"
  shows "consume_global_connection now limits l =
    (let base = max (theoretical_arrival l) now
     in if int (global_connection_burst limits - 1) * gcra_interval limits < base - now then (l, False)
        else (l\<lparr>theoretical_arrival := base + gcra_interval limits\<rparr>, True))"
proof -
  let ?B = "global_connection_burst limits" and ?I = "gcra_interval limits"
  have BI: "int ?B * ?I \<le> int64_max" and now: "0 \<le> now" "now + int ?B * ?I \<le> int64_max"
    using assms(1) by (simp_all add: gcra_in_range_def)
  have split: "int ?B * ?I = int (?B - 1) * ?I + ?I" using assms(2) by (simp add: of_nat_diff algebra_simps)
  have "int ?B * 1 \<le> int ?B * ?I" using assms(3) by (intro mult_left_mono) simp_all
  with BI have "int ?B < 2 ^ 64" by (simp add: int64_max_def)
  then have "?B < 2 ^ 64" by simp
  have "?B + 2 ^ 64 - 1 = ?B - 1 + 2 ^ 64" using assms(2) by simp
  then have w: "wrap64 (?B + 2 ^ 64 - 1) = ?B - 1"
    using \<open>?B < 2 ^ 64\<close> by (simp only: wrap64_def mod_add_self2) simp
  have "int (?B - 1) \<le> int64_max div ?I"
    using BI split assms(3) zdiv_mono1 [of "int (?B - 1) * ?I" int64_max ?I] by simp
  then have m: "saturating_multiply (?B - 1) ?I = int (?B - 1) * ?I" by (simp add: saturating_multiply_def)
  have "saturating_add base ?I = base + ?I" if "base - now \<le> int (?B - 1) * ?I" for base
    using that split now by (simp add: saturating_add_def)
  then show ?thesis unfolding consume_global_connection_def Let_def w m by (simp add: not_less)
qed

lemma gcra_spacing:
  assumes "1 \<le> global_connection_burst limits" and "1 \<le> gcra_interval limits"
    and "\<forall>t\<in>set ts. gcra_in_range limits t" and "c \<le> theoretical_arrival l"
    and "j < length (gcra_admitted limits l ts)"
  shows "c + int j * gcra_interval limits - gcra_admitted limits l ts ! j \<le>
    int (global_connection_burst limits - 1) * gcra_interval limits"
  using assms(3-)
proof (induction ts arbitrary: l c j)
  case (Cons t ts)
  let ?I = "gcra_interval limits" and ?T = "int (global_connection_burst limits - 1) * gcra_interval limits"
  let ?base = "max (theoretical_arrival l) t"
  have step: "consume_global_connection t limits l =
      (if ?T < ?base - t then (l, False) else (l\<lparr>theoretical_arrival := ?base + ?I\<rparr>, True))"
    using consume_global_exact [of limits t l] assms(1,2) Cons.prems(1) by (simp add: Let_def)
  show ?case
  proof (cases "?T < ?base - t")
    case True
    with Cons step show ?thesis by simp
  next
    case False
    let ?l = "l\<lparr>theoretical_arrival := ?base + ?I\<rparr>"
    show ?thesis
    proof (cases j)
      case 0
      with False Cons.prems step show ?thesis by simp
    next
      case (Suc k)
      have "c + ?I + int k * ?I - gcra_admitted limits ?l ts ! k \<le> ?T"
        using Cons.prems Suc step False by (intro Cons.IH) (simp_all add: max_def)
      with Suc step False show ?thesis by (simp add: algebra_simps)
    qed
  qed
qed simp

text \<open>
  Property C34. However connection attempts arrive, any \<open>j + 1\<close> consecutive admissions of the
  process-wide limiter span at least \<open>j + 1 - burst\<close> emission intervals: beyond the configured burst
  the admission rate never exceeds one per interval.
\<close>

theorem gcra_rate:
  assumes "1 \<le> global_connection_burst limits" and "positive_rate (global_connections_per_second limits)"
    and "\<forall>t\<in>set ts. gcra_in_range limits t" and "j < length (gcra_admitted limits l ts)"
  shows "(int j + 1 - int (global_connection_burst limits)) * gcra_interval limits \<le>
    gcra_admitted limits l ts ! j - gcra_admitted limits l ts ! 0"
  using assms(3,4)
proof (induction ts arbitrary: l)
  case (Cons t ts)
  let ?I = "gcra_interval limits" and ?B = "global_connection_burst limits"
  let ?T = "int (?B - 1) * ?I" and ?base = "max (theoretical_arrival l) t"
  have I: "1 \<le> ?I" by (rule gcra_interval_pos [OF assms(2)])
  have step: "consume_global_connection t limits l =
      (if ?T < ?base - t then (l, False) else (l\<lparr>theoretical_arrival := ?base + ?I\<rparr>, True))"
    using consume_global_exact [of limits t l] assms(1) I Cons.prems(1) by (simp add: Let_def)
  have B: "int (?B - 1) = int ?B - 1" using assms(1) by simp
  show ?case
  proof (cases "?T < ?base - t")
    case True
    with Cons step show ?thesis by simp
  next
    case False
    let ?l = "l\<lparr>theoretical_arrival := ?base + ?I\<rparr>"
    show ?thesis
    proof (cases j)
      case 0
      have "(1 - int ?B) * ?I \<le> 0" using assms(1) I by (intro mult_nonpos_nonneg) simp_all
      with 0 False step show ?thesis by simp
    next
      case (Suc k)
      have "t + ?I + int k * ?I - gcra_admitted limits ?l ts ! k \<le> ?T"
        using Cons.prems Suc step False assms(1) I by (intro gcra_spacing) (simp_all add: max_def)
      with Suc step False B show ?thesis by (simp add: algebra_simps)
    qed
  qed
qed simp

lemma gcra_burst_step:
  assumes "1 \<le> global_connection_burst limits" and "1 \<le> gcra_interval limits" and "gcra_in_range limits now"
    and "theoretical_arrival l = now + int k * gcra_interval limits" and "k \<le> global_connection_burst limits"
  shows "gcra_admitted limits l (replicate n now) = replicate (min n (global_connection_burst limits - k)) now"
  using assms(4,5)
proof (induction n arbitrary: l k)
  case (Suc n)
  let ?I = "gcra_interval limits" and ?B = "global_connection_burst limits"
  have base: "max (theoretical_arrival l) now = now + int k * ?I" using Suc.prems(1) assms(2) by simp
  have cmp: "int (?B - 1) * ?I < int k * ?I \<longleftrightarrow> ?B - 1 < k" using assms(2) by simp
  have step: "consume_global_connection now limits l =
      (if ?B - 1 < k then (l, False) else (l\<lparr>theoretical_arrival := now + int (Suc k) * ?I\<rparr>, True))"
    unfolding consume_global_exact [OF assms(3,1,2)] base Let_def using cmp by (simp add: algebra_simps)
  show ?case
  proof (cases "?B - 1 < k")
    case True
    then have "?B - k = 0" using assms(1) by simp
    with True step Suc.IH [OF Suc.prems] show ?thesis by simp
  next
    case False
    with assms(1) have le: "Suc k \<le> ?B" by simp
    let ?l = "l\<lparr>theoretical_arrival := now + int (Suc k) * ?I\<rparr>"
    have "gcra_admitted limits ?l (replicate n now) = replicate (min n (?B - Suc k)) now"
      by (rule Suc.IH) (use le in simp_all)
    moreover have "min (Suc n) (?B - k) = Suc (min n (?B - Suc k))" using le by simp
    ultimately show ?thesis using False step by simp
  qed
qed simp

text \<open>
  An idle process admits a burst of exactly the configured size: of \<open>n\<close> simultaneous
  attempts the first \<open>burst\<close> are admitted and the others are not.
\<close>

lemma gcra_burst:
  assumes "1 \<le> global_connection_burst limits" and "positive_rate (global_connections_per_second limits)"
    and "gcra_in_range limits now" and "theoretical_arrival l \<le> now"
  shows "gcra_admitted limits l (replicate n now) = replicate (min n (global_connection_burst limits)) now"
proof -
  have I: "1 \<le> gcra_interval limits" by (rule gcra_interval_pos [OF assms(2)])
  show ?thesis
  proof (cases n)
    case (Suc m)
    let ?l = "l\<lparr>theoretical_arrival := now + int 1 * gcra_interval limits\<rparr>"
    have "0 \<le> int (global_connection_burst limits - 1) * gcra_interval limits" using I by simp
    then have "consume_global_connection now limits l = (?l, True)"
      unfolding consume_global_exact [OF assms(3,1) I] Let_def using assms(4) by (simp add: max_def)
    moreover have "gcra_admitted limits ?l (replicate m now) = replicate (min m (global_connection_burst limits - 1)) now"
      by (rule gcra_burst_step [OF assms(1) I assms(3)]) (use assms(1) in simp_all)
    moreover have "min (Suc m) (global_connection_burst limits) = Suc (min m (global_connection_burst limits - 1))"
      using assms(1) by simp
    ultimately show ?thesis using Suc by simp
  qed simp
qed

text \<open>Witnesses with the default rate of 5000 connections a second and a burst of one or two.\<close>

abbreviation burst_limits :: "nat \<Rightarrow> limits_config" where
  "burst_limits b \<equiv> default_limits\<lparr>global_connection_burst := b\<rparr>"

lemma default_gcra: "gcra_interval (burst_limits b) = 200000"
proof -
  have "to_double 200000 = Fin 200000" using to_double_int [of 200000] by simp
  moreover have "to_double (of_int kMaximumGcraIntervalNanoseconds) = Fin 1000000000000000000" by code_simp
  ultimately show ?thesis by (simp add: gcra_interval_def default_limits_def double_clamp_def)
qed

lemma burst_limits_rate: "positive_rate (global_connections_per_second (burst_limits b))"
  by (simp add: default_limits_def positive_rate_def)

lemma burst_limits_range: "0 \<le> t \<Longrightarrow> t \<le> 1000000000 \<Longrightarrow> b \<le> 2 \<Longrightarrow> gcra_in_range (burst_limits b) t"
  by (simp add: gcra_in_range_def default_gcra int64_max_def)

lemma gcra_burst_witness: "gcra_admitted (burst_limits 2) new_rate_limiter [5, 5, 5] = [5, 5]"
  using gcra_burst [of "burst_limits 2" 5 new_rate_limiter 3] burst_limits_rate [of 2] burst_limits_range [of 5 2]
  by (simp add: new_rate_limiter_def numeral_3_eq_3 numeral_2_eq_2)

lemma sample_admissions: "gcra_admitted (burst_limits 1) new_rate_limiter [5, 6, 300000] = [5, 300000]"
  by (simp add: consume_global_connection_def Let_def default_gcra wrap64_def saturating_multiply_def
      saturating_add_def int64_max_def new_rate_limiter_def)

theorem gcra_rate_witness:
  "(int 1 + 1 - int 1) * gcra_interval (burst_limits 1) \<le>
     gcra_admitted (burst_limits 1) new_rate_limiter [5, 6, 300000] ! 1 - gcra_admitted (burst_limits 1) new_rate_limiter [5, 6, 300000] ! 0"
proof -
  have "\<forall>t\<in>set [5, 6, 300000]. gcra_in_range (burst_limits 1) t"
    unfolding list.set using burst_limits_range [of 5 1] burst_limits_range [of 6 1] burst_limits_range [of 300000 1] by simp
  moreover have "1 < length (gcra_admitted (burst_limits 1) new_rate_limiter [5, 6, 300000])"
    unfolding sample_admissions by simp
  moreover have "global_connection_burst (burst_limits 1) = 1" by simp
  ultimately show ?thesis
    using gcra_rate [OF _ burst_limits_rate, of 1 "[5, 6, 300000]" 1 new_rate_limiter] by (metis le_refl of_nat_1)
qed

section \<open>Token buckets\<close>

text \<open>A bucket holds a finite amount between zero and the burst size.\<close>

definition bucket_ok :: "nat \<Rightarrow> token_bucket \<Rightarrow> bool" where
  "bucket_ok burst b \<longleftrightarrow>
     (\<exists>y c. tokens b = Fin y \<and> double_of_nat burst = Fin c \<and> 0 \<le> y \<and> y \<le> c \<and> representable y)"

lemma to_double_nonneg: "0 \<le> x \<Longrightarrow> to_double x = PInf \<or> (\<exists>e. to_double x = Fin e \<and> 0 \<le> e)"
  using round64_nonneg [of x] overflow_bound_pos by (auto simp: to_double_def Let_def)

lemma elapsed_nonneg:
  assumes "0 \<le> d"
  shows "elapsed_seconds d = PInf \<or> (\<exists>e. elapsed_seconds d = Fin e \<and> 0 \<le> e)"
proof -
  have "0 \<le> (of_int d :: rat)" using assms by simp
  from to_double_nonneg [OF this] show ?thesis
  proof
    assume "\<exists>e. to_double (of_int d) = Fin e \<and> 0 \<le> e"
    then obtain e where "to_double (of_int d) = Fin e" "0 \<le> e" by blast
    then show ?thesis using to_double_nonneg [of "e / 1000000000"] by (simp add: elapsed_seconds_def)
  qed (simp add: elapsed_seconds_def)
qed

lemma refill_ok:
  assumes "bucket_ok burst b" and "updated_at b \<le> now" and "positive_rate rate" and "burst \<le> 2 ^ 64"
  shows "bucket_ok burst (refill b now rate burst)"
proof -
  from assms(1) obtain y c where y: "tokens b = Fin y" "double_of_nat burst = Fin c" "0 \<le> y" "y \<le> c" by (auto simp: bucket_ok_def)
  from double_of_nat_Fin [OF assms(4)] y(2) have c: "0 \<le> c" "representable c" by auto
  from assms(3) obtain q where q: "rate = Fin q" "0 < q" by (auto simp: positive_rate_def)
  have sum: "\<exists>z. double_min (Fin c) (double_add (Fin y) m) = Fin z \<and> 0 \<le> z \<and> z \<le> c \<and> representable z"
    if m: "m = PInf \<or> (\<exists>e. m = Fin e \<and> 0 \<le> e)" for m
  proof (cases m)
    case (Fin e)
    with m have e: "0 \<le> y + e" using y by simp
    then have "0 \<le> round64 (y + e)" by (rule round64_nonneg)
    with c Fin show ?thesis
      using overflow_bound_pos to_double_representable [of "y + e"]
      by (cases "to_double (y + e)") (auto simp: double_min_def to_double_def Let_def split: if_splits)
  qed (use m c in \<open>auto simp: double_min_def\<close>)
  have "double_mul (elapsed_seconds (now - updated_at b)) (Fin q) = PInf \<or>
      (\<exists>e. double_mul (elapsed_seconds (now - updated_at b)) (Fin q) = Fin e \<and> 0 \<le> e)"
    using elapsed_nonneg [of "now - updated_at b"]
  proof
    assume "\<exists>e. elapsed_seconds (now - updated_at b) = Fin e \<and> 0 \<le> e"
    then obtain e where "elapsed_seconds (now - updated_at b) = Fin e" "0 \<le> e" by blast
    then show ?thesis using to_double_nonneg [of "e * q"] q(2) by simp
  qed (use assms(2) q(2) in \<open>simp_all add: signed_inf_def\<close>)
  from sum [OF this] y c q show ?thesis by (auto simp: bucket_ok_def refill_def)
qed

lemma take_ok:
  assumes "bucket_ok burst b" and "\<not> double_less (tokens b) (double_of_nat n)" and "n \<le> 2 ^ 64"
  shows "bucket_ok burst (b\<lparr>tokens := double_sub (tokens b) (double_of_nat n)\<rparr>)"
proof -
  from assms(1) obtain y c where y: "tokens b = Fin y" "double_of_nat burst = Fin c" "0 \<le> y" "y \<le> c" "representable y"
    by (auto simp: bucket_ok_def)
  from double_of_nat_Fin [OF assms(3)] obtain m where m: "double_of_nat n = Fin m" "0 \<le> m" by blast
  with assms(2) y have "m \<le> y" by simp
  with m y to_double_between [of "y - m" y] obtain z where "to_double (y - m) = Fin z" "0 \<le> z" "z \<le> y" by auto
  then show ?thesis
    using y m to_double_representable [of "y - m" z] by (auto simp: bucket_ok_def double_sub_def)
qed

text \<open>
  With a clock that does not run backwards, a token bucket in floating point always holds
  a finite amount between zero and the burst size: a refill, even after an arbitrarily long pause,
  never exceeds the burst, and taking an amount the bucket has leaves nothing negative.
\<close>

lemma token_bucket_bounds:
  assumes "bucket_ok burst b" and "updated_at b \<le> now" and "positive_rate rate" and "burst \<le> 2 ^ 64"
    and "\<not> double_less (tokens (refill b now rate burst)) (double_of_nat n)" and "n \<le> 2 ^ 64"
  shows "bucket_ok burst (refill b now rate burst) \<and>
    bucket_ok burst ((refill b now rate burst)\<lparr>tokens := double_sub (tokens (refill b now rate burst)) (double_of_nat n)\<rparr>)"
  using refill_ok [OF assms(1-4)] take_ok [OF refill_ok [OF assms(1-4)] assms(5,6)] by simp

lemma token_bucket_bounds_witness:
  "bucket_ok 4 (refill \<lparr>tokens = Fin 1, updated_at = 7\<rparr> 2000000007 (Fin 1) 4)"
proof -
  have "bucket_ok 4 \<lparr>tokens = Fin 1, updated_at = 7\<rparr>"
    using round64_of_int [of 1] double_of_nat_exact [of 4]
    by (simp add: bucket_ok_def representable_def overflow_bound_def)
  moreover have "tokens (refill \<lparr>tokens = Fin 1, updated_at = 7\<rparr> 2000000007 (Fin 1) 4) = Fin 3"
    using to_double_int [of 2000000000] to_double_int [of 2] to_double_int [of 3] double_of_nat_exact [of 4]
    by (simp add: refill_def elapsed_seconds_def double_min_def)
  moreover have "double_of_nat 2 = Fin 2" using double_of_nat_exact [of 2] by simp
  ultimately show ?thesis
    using token_bucket_bounds [of 4 "\<lparr>tokens = Fin 1, updated_at = 7\<rparr>" 2000000007 "Fin 1" 2]
    by (simp add: positive_rate_def)
qed

section \<open>An admitted client\<close>

text \<open>The first connection of any client to a new limiter is admitted under the default limits.\<close>

lemma first_refill: "tokens (refill \<lparr>tokens = double_of_nat 512, updated_at = 5\<rparr> 5 (Fin 16) 512) = Fin 512"
  using double_of_nat_exact [of 512] to_double_int [of 0] to_double_int [of 512]
  by (simp add: refill_def elapsed_seconds_def double_min_def)

lemma first_shard: "shards new_rate_limiter ! shard_index_for key = \<lparr>clients = [], last_pruned = 0\<rparr>"
  by (simp add: new_rate_limiter_def)

lemma first_global: "theoretical_arrival l = 0 \<Longrightarrow> \<exists>l'. consume_global_connection 5 default_limits l = (l', True)"
proof -
  assume l: "theoretical_arrival l = 0"
  have "gcra_interval default_limits = 200000" using default_gcra [of 20000] by (simp add: default_limits_def)
  with l show ?thesis
    by (simp add: consume_global_connection_def Let_def saturating_multiply_def wrap64_def int64_max_def default_limits_def)
qed

lemma first_admitted:
  "snd (acquire id False key default_limits 5 new_rate_limiter) = Some (Accepted, Some (shard_index_for key, 0))"
proof -
  let ?i = "shard_index_for key"
  define l0 where "l0 = prune_if_due ?i 5 default_limits new_rate_limiter"
  have i: "?i < length (shards new_rate_limiter)" by (simp add: new_rate_limiter_def)
  have l0: "shards l0 ! ?i = \<lparr>clients = [], last_pruned = 5\<rparr>" "tracked l0 = 0" "next_node l0 = 0" "theoretical_arrival l0 = 0"
    unfolding l0_def prune_if_due_def prune_def Let_def first_shard
    using i by (simp_all add: tracked_sub_def wrap64_def new_rate_limiter_def)
  have room: "make_room id ?i default_limits l0 = (l0\<lparr>tracked := 1\<rparr>, True)"
    by (simp add: make_room_def reserve_tracking_slot_def l0(2) default_limits_def)
  have adm: "snd (admit ?i (new_client 0 5 default_limits) True default_limits 5 l) = (Accepted, Some (?i, 0))"
    if "theoretical_arrival l = 0" for l
  proof -
    let ?c = "new_client 0 5 default_limits"
    let ?st = "?c\<lparr>last_seen := 5, connection_bucket := refill (connection_bucket ?c) 5
      (connections_per_second_per_ip default_limits) (connection_burst_per_ip default_limits)\<rparr>"
    have "theoretical_arrival (set_shard ?i (update_node 0 (\<lambda>_. ?st) (shards l ! ?i)) l) = 0" using that by simp
    from first_global [OF this] obtain l' where "consume_global_connection 5 default_limits
        (set_shard ?i (update_node 0 (\<lambda>_. ?st) (shards l ! ?i)) l) = (l', True)" ..
    moreover have "tokens (connection_bucket ?st) = Fin 512"
      using first_refill by (simp add: new_client_def default_limits_def)
    moreover have "active ?st = 0" "node ?c = 0" "max_connections_per_ip default_limits = 1024"
      by (simp_all add: new_client_def default_limits_def)
    ultimately show ?thesis unfolding admit_def Let_def by simp
  qed
  show ?thesis
    unfolding acquire_def Let_def l0_def [symmetric] using l0 room adm by (simp add: snd_map_prod)
qed

lemma sample_reach:
  "limiter_reach id (\<lambda>limits. limits = default_limits) (fst (acquire id False key default_limits 5 new_rate_limiter))
     {#(shard_index_for key, 0)#}"
proof -
  obtain l r where a: "acquire id False key default_limits 5 new_rate_limiter = (l, r)" by fastforce
  then have "r = Some (Accepted, Some (shard_index_for key, 0))" using first_admitted [of key] by simp
  with limiter_reach.acquire [OF limiter_reach.start _ a, of "\<lambda>limits. limits = default_limits"] a show ?thesis by (simp add: granted_def)
qed

theorem lease_never_dangles_witness:
  "release (shard_index_for empty_client_key, 0)
     (fst (acquire id False empty_client_key default_limits 5 new_rate_limiter)) \<noteq> None"
proof -
  have "mset (id es) = mset es" for es :: "client_entry list" by simp
  from lease_never_dangles [OF sample_reach this, of "shard_index_for empty_client_key" 0] show ?thesis by simp blast
qed

theorem tracked_clients_exact_witness:
  "tracked (fst (acquire id False empty_client_key default_limits 5 new_rate_limiter)) \<le> 262144"
  using tracked_clients_exact [OF sample_reach [of empty_client_key], of 262144] by (simp add: default_limits_def)

lemma leased_key:
  assumes "limiter_ok ls l" and "(i, n) \<in># ls"
  shows "\<exists>k st. (k, st) \<in> set (clients (shards l ! i)) \<and> shard_index_for k = i \<and> active st = count ls (i, n)"
proof -
  obtain k st where e: "i < kShardCount" "(k, st) \<in> set (clients (shards l ! i))" "active st = count ls (i, n)"
    by (rule leased_entry [OF assms])
  moreover have "shard_index_for k = i" using limiter_shard [OF assms(1) e(1)] e(2) unfolding shard_ok_def by blast
  ultimately show ?thesis by blast
qed

theorem connections_per_ip_bounded_witness:
  "\<exists>key st. (key, st) \<in> set (clients (shards
       (fst (acquire id False empty_client_key default_limits 5 new_rate_limiter)) ! shard_index_for key)) \<and>
     active st = 1 \<and> active st \<le> 1024"
proof -
  let ?l = "fst (acquire id False empty_client_key default_limits 5 new_rate_limiter)"
  let ?x = "(shard_index_for empty_client_key, 0)"
  have perm: "mset (id es) = mset es" for es :: "client_entry list" by simp
  have C: "max_connections_per_ip limits \<le> 1024" if "limits = default_limits" for limits
    using that by (simp add: default_limits_def)
  have "limiter_ok {#?x#} ?l" by (rule limiter_reach_ok [OF sample_reach perm])
  from leased_key [OF this, of "fst ?x" "snd ?x"] obtain k st where
    e: "(k, st) \<in> set (clients (shards ?l ! shard_index_for empty_client_key))"
      "shard_index_for k = shard_index_for empty_client_key" "active st = 1" by auto
  from e(1,2) have "(k, st) \<in> set (clients (shards ?l ! shard_index_for k))" by simp
  from connections_per_ip_bounded [OF sample_reach perm C this] this e(3) show ?thesis by blast
qed

end
