(* ===== verification/Timer_Wheel.thy ===== *)
theory Timer_Wheel
  imports Pool_Prelude
begin

text \<open>
  The one-second timer wheel of \<^verbatim>\<open>src/src/net/timer_wheel.hpp\<close> and \<^verbatim>\<open>timer_wheel.cpp\<close>. The array
  of buckets is a function from bucket numbers, the \<^verbatim>\<open>unordered_map\<close> of locations a map from
  session identifiers. The invariant ties the two together; the abstraction \<open>deadlines\<close> forgets the
  buckets and keeps, for each scheduled session, its generation and due tick, and each operation is
  shown to act on that map as a table of deadlines would.
\<close>

section \<open>The class TimerWheel\<close>

definition kBucketCount :: nat where
  "kBucketCount = 4096"

record timer_expiry =
  te_session :: nat
  te_generation :: nat

record wheel_entry =
  we_expiry :: timer_expiry
  we_due :: nat

record wheel_location =
  loc_bucket :: nat
  loc_index :: nat

record timer_wheel =
  tw_buckets :: "nat \<Rightarrow> wheel_entry list"
  tw_locations :: "nat \<rightharpoonup> wheel_location"
  tw_current :: nat

abbreviation we_session :: "wheel_entry \<Rightarrow> nat" where
  "we_session e \<equiv> te_session (we_expiry e)"

text \<open>
  A tick is a \<^verbatim>\<open>uint64_t\<close> made from a signed second count, so a negative one wraps. The casts of
  \<^verbatim>\<open>chrono\<close> truncate towards zero.
\<close>

definition tick_floor :: "time_point \<Rightarrow> nat" where
  "tick_floor time = nat (cxx_quot time ns_per_second mod 2 ^ 64)"

definition tick_at_or_after :: "time_point \<Rightarrow> nat" where
  "tick_at_or_after time =
     (let whole_seconds = cxx_quot time ns_per_second;
          tick = nat (whole_seconds mod 2 ^ 64)
      in if whole_seconds * ns_per_second < time then wrap64 (tick + 1) else tick)"

definition wheel_new :: "time_point \<Rightarrow> timer_wheel" where
  "wheel_new now =
     \<lparr>tw_buckets = (\<lambda>_. []), tw_locations = (\<lambda>_. None), tw_current = tick_floor now\<rparr>"

definition wheel_size :: "timer_wheel \<Rightarrow> nat" where
  "wheel_size w = card (dom (tw_locations w))"

definition wheel_insert :: "timer_wheel \<Rightarrow> wheel_entry \<Rightarrow> timer_wheel" where
  "wheel_insert w entry =
     (let bucket_index = we_due entry mod kBucketCount; bucket = tw_buckets w bucket_index
      in w\<lparr>tw_locations := (tw_locations w)
             (we_session entry \<mapsto> \<lparr>loc_bucket = bucket_index, loc_index = length bucket\<rparr>),
           tw_buckets := (tw_buckets w)(bucket_index := bucket @ [entry])\<rparr>)"

text \<open>
  \<^verbatim>\<open>cancel\<close> fills the hole with the bucket's last entry, redirects that entry's location if it has
  one, and drops the last slot.
\<close>

definition wheel_cancel :: "timer_wheel \<Rightarrow> nat \<Rightarrow> timer_wheel" where
  "wheel_cancel w session_id =
     (case tw_locations w session_id of
        None \<Rightarrow> w
      | Some location \<Rightarrow>
          (let b = loc_bucket location; index = loc_index location;
               bucket = tw_buckets w b; final = length bucket - 1;
               filled = (if index \<noteq> final then bucket[index := bucket ! final] else bucket);
               swapped = we_session (filled ! index);
               locations =
                 (if index \<noteq> final \<and> tw_locations w swapped \<noteq> None
                  then (tw_locations w)(swapped \<mapsto> \<lparr>loc_bucket = b, loc_index = index\<rparr>)
                  else tw_locations w)
           in w\<lparr>tw_buckets := (tw_buckets w)(b := butlast filled),
                tw_locations := locations(session_id := None)\<rparr>))"

definition wheel_schedule :: "timer_wheel \<Rightarrow> nat \<Rightarrow> nat \<Rightarrow> time_point \<Rightarrow> timer_wheel" where
  "wheel_schedule w session_id generation deadline =
     (let w = wheel_cancel w session_id;
          due_tick = max (tick_at_or_after deadline) (wrap64 (tw_current w + 1))
      in wheel_insert w
           \<lparr>we_expiry = \<lparr>te_session = session_id, te_generation = generation\<rparr>, we_due = due_tick\<rparr>)"

text \<open>The body of the loop over one bucket's entries, which were moved out before.\<close>

fun wheel_drain ::
  "timer_wheel \<Rightarrow> wheel_entry list \<Rightarrow> timer_expiry list \<Rightarrow> timer_wheel \<times> timer_expiry list" where
  "wheel_drain w [] expired = (w, expired)"
| "wheel_drain w (entry # entries) expired =
     (let w = w\<lparr>tw_locations := (tw_locations w)(we_session entry := None)\<rparr>
      in if we_due entry \<le> tw_current w
         then wheel_drain w entries (expired @ [we_expiry entry])
         else wheel_drain (wheel_insert w entry) entries expired)"

text \<open>One round of the outer loop: step the tick and drain the bucket it selects.\<close>

definition wheel_tick :: "timer_wheel \<Rightarrow> timer_expiry list \<Rightarrow> timer_wheel \<times> timer_expiry list" where
  "wheel_tick w expired =
     (let w = w\<lparr>tw_current := Suc (tw_current w)\<rparr>;
          b = tw_current w mod kBucketCount;
          entries = tw_buckets w b;
          w = w\<lparr>tw_buckets := (tw_buckets w)(b := [])\<rparr>
      in wheel_drain w entries expired)"

lemma wheel_insert_current [simp]: "tw_current (wheel_insert w e) = tw_current w"
  by (simp add: wheel_insert_def Let_def)

lemma wheel_drain_current [simp]: "tw_current (fst (wheel_drain w es out)) = tw_current w"
  by (induction w es out rule: wheel_drain.induct) (simp_all add: Let_def)

lemma wheel_tick_current [simp]: "tw_current (fst (wheel_tick w out)) = Suc (tw_current w)"
  by (simp add: wheel_tick_def Let_def)

text \<open>
  The loop of \<^verbatim>\<open>advance\<close>. The increment cannot wrap: it runs only below the target, which is a
  64-bit tick itself.
\<close>

function wheel_run ::
  "timer_wheel \<Rightarrow> nat \<Rightarrow> timer_expiry list \<Rightarrow> timer_wheel \<times> timer_expiry list" where
  "wheel_run w target_tick expired =
     (if tw_current w < target_tick
      then wheel_run (fst (wheel_tick w expired)) target_tick (snd (wheel_tick w expired))
      else (w, expired))"
  by pat_completeness auto
termination
  by (relation "measure (\<lambda>(w, target, _). target - tw_current w)") auto

declare wheel_run.simps [simp del]

definition wheel_advance :: "timer_wheel \<Rightarrow> time_point \<Rightarrow> timer_wheel \<times> timer_expiry list" where
  "wheel_advance w now = wheel_run w (tick_floor now) []"

section \<open>Invariant\<close>

definition entries :: "timer_wheel \<Rightarrow> wheel_entry set" where
  "entries w = (\<Union>b. set (tw_buckets w b))"

text \<open>
  The state of the wheel while the entries \<open>es\<close> are in flight, moved out of their bucket and not yet
  expired or put back; between operations nothing is in flight.
\<close>

definition wheel_ok :: "timer_wheel \<Rightarrow> wheel_entry list \<Rightarrow> bool" where
  "wheel_ok w es \<longleftrightarrow>
     (\<forall>b i. i < length (tw_buckets w b) \<longrightarrow>
        tw_locations w (we_session (tw_buckets w b ! i)) = Some \<lparr>loc_bucket = b, loc_index = i\<rparr>) \<and>
     (\<forall>s l. tw_locations w s = Some l \<longrightarrow> s \<notin> we_session ` set es \<longrightarrow>
        loc_index l < length (tw_buckets w (loc_bucket l)) \<and>
        we_session (tw_buckets w (loc_bucket l) ! loc_index l) = s) \<and>
     (\<forall>b. \<forall>e\<in>set (tw_buckets w b). b = we_due e mod kBucketCount \<and> tw_current w < we_due e) \<and>
     distinct (map we_session es) \<and>
     we_session ` set es \<inter> we_session ` entries w = {}"

abbreviation wheel_inv :: "timer_wheel \<Rightarrow> bool" where
  "wheel_inv w \<equiv> wheel_ok w []"

text \<open>What a client can observe: the generation and the due tick of each scheduled session.\<close>

definition deadlines :: "timer_wheel \<Rightarrow> nat \<rightharpoonup> nat \<times> nat" where
  "deadlines w s =
     map_option (\<lambda>l. let e = tw_buckets w (loc_bucket l) ! loc_index l
                     in (te_generation (we_expiry e), we_due e)) (tw_locations w s)"

lemma wheel_okD:
  assumes "wheel_ok w es"
  shows "i < length (tw_buckets w b) \<Longrightarrow>
      tw_locations w (we_session (tw_buckets w b ! i)) = Some \<lparr>loc_bucket = b, loc_index = i\<rparr>"
    and "tw_locations w s = Some l \<Longrightarrow> s \<notin> we_session ` set es \<Longrightarrow>
      loc_index l < length (tw_buckets w (loc_bucket l)) \<and>
      we_session (tw_buckets w (loc_bucket l) ! loc_index l) = s"
    and "e \<in> set (tw_buckets w b) \<Longrightarrow> b = we_due e mod kBucketCount \<and> tw_current w < we_due e"
    and "distinct (map we_session es)"
    and "we_session ` set es \<inter> we_session ` entries w = {}"
  using assms by (auto simp: wheel_ok_def)

lemma entries_nth: "e \<in> entries w \<longleftrightarrow> (\<exists>b i. i < length (tw_buckets w b) \<and> tw_buckets w b ! i = e)"
  by (auto simp: entries_def in_set_conv_nth)

lemma entriesI: "i < length (tw_buckets w b) \<Longrightarrow> tw_buckets w b ! i \<in> entries w"
  unfolding entries_def by (rule UN_I [of b]) simp_all

lemma entriesE:
  assumes "e \<in> entries w"
  obtains b i where "i < length (tw_buckets w b)" and "tw_buckets w b ! i = e"
  using assms by (auto simp: entries_nth)

lemma bucket_session_unique:
  assumes "wheel_ok w es" and "i < length (tw_buckets w b)" and "j < length (tw_buckets w c)"
    and "we_session (tw_buckets w b ! i) = we_session (tw_buckets w c ! j)"
  shows "b = c \<and> i = j"
proof -
  have "Some \<lparr>loc_bucket = b, loc_index = i\<rparr> = Some \<lparr>loc_bucket = c, loc_index = j\<rparr>"
    by (metis assms wheel_okD(1))
  then show ?thesis by simp
qed

lemma entries_inj:
  assumes "wheel_ok w es"
  shows "inj_on we_session (entries w)"
proof (rule inj_onI)
  fix x y
  assume mem: "x \<in> entries w" "y \<in> entries w" and eq: "we_session x = we_session y"
  from mem(1) obtain b i where x: "i < length (tw_buckets w b)" "tw_buckets w b ! i = x"
    by (rule entriesE)
  from mem(2) obtain c j where y: "j < length (tw_buckets w c)" "tw_buckets w c ! j = y"
    by (rule entriesE)
  have "b = c \<and> i = j"
    by (rule bucket_session_unique [OF assms x(1) y(1)]) (simp add: x y eq)
  with x y show "x = y" by simp
qed

lemma located_iff:
  assumes "wheel_inv w"
  shows "tw_locations w s \<noteq> None \<longleftrightarrow> s \<in> we_session ` entries w"
proof
  assume "tw_locations w s \<noteq> None"
  then obtain l where "tw_locations w s = Some l" by auto
  from wheel_okD(2) [OF assms this]
  have "tw_buckets w (loc_bucket l) ! loc_index l \<in> entries w"
    and "s = we_session (tw_buckets w (loc_bucket l) ! loc_index l)"
    by (auto intro: entriesI)
  then show "s \<in> we_session ` entries w" by (rule rev_image_eqI)
next
  assume "s \<in> we_session ` entries w"
  then obtain e where "e \<in> entries w" and s: "s = we_session e" by auto
  from this(1) obtain b i where "i < length (tw_buckets w b)" and "tw_buckets w b ! i = e"
    by (rule entriesE)
  with wheel_okD(1) [OF assms, of i b] s show "tw_locations w s \<noteq> None" by simp
qed

lemma deadlines_iff:
  assumes "wheel_inv w"
  shows "deadlines w s = Some (g, d) \<longleftrightarrow>
    \<lparr>we_expiry = \<lparr>te_session = s, te_generation = g\<rparr>, we_due = d\<rparr> \<in> entries w"
    (is "?L \<longleftrightarrow> ?e \<in> _")
proof
  assume ?L
  then obtain l where l: "tw_locations w s = Some l"
    and e: "te_generation (we_expiry (tw_buckets w (loc_bucket l) ! loc_index l)) = g"
      "we_due (tw_buckets w (loc_bucket l) ! loc_index l) = d"
    by (auto simp: deadlines_def Let_def)
  from wheel_okD(2) [OF assms l] e
  have "loc_index l < length (tw_buckets w (loc_bucket l))"
    and "tw_buckets w (loc_bucket l) ! loc_index l = ?e"
    by simp_all
  then show "?e \<in> entries w" by (auto simp: entries_nth)
next
  assume "?e \<in> entries w"
  then obtain b i where bi: "i < length (tw_buckets w b)" "tw_buckets w b ! i = ?e"
    by (auto simp: entries_nth)
  with wheel_okD(1) [OF assms bi(1)] show ?L
    by (simp add: deadlines_def)
qed

section \<open>The operations keep the invariant and act on the deadlines\<close>

lemma entries_insert: "entries (wheel_insert w e) = insert e (entries w)"
  by (auto simp: entries_def wheel_insert_def Let_def split: if_splits)

lemma wheel_insert_ok:
  assumes ok: "wheel_ok w es" and new: "we_session e \<notin> we_session ` entries w"
    and es: "we_session e \<notin> we_session ` set es" and due: "tw_current w < we_due e"
  shows "wheel_ok (wheel_insert w e) es"
proof -
  let ?k = "we_due e mod kBucketCount"
  have other: "we_session (tw_buckets w b ! i) \<noteq> we_session e" if "i < length (tw_buckets w b)" for b i
    using new that by (metis entriesI image_eqI)
  have loc: "loc_index l < length (tw_buckets w (loc_bucket l))"
    "we_session (tw_buckets w (loc_bucket l) ! loc_index l) = s"
    if "tw_locations w s = Some l" "s \<notin> we_session ` set es" for s l
    using wheel_okD(2) [OF ok that] by auto
  show ?thesis
    unfolding wheel_ok_def entries_insert
  proof (intro conjI allI impI ballI)
    fix b i
    assume "i < length (tw_buckets (wheel_insert w e) b)"
    then show "tw_locations (wheel_insert w e) (we_session (tw_buckets (wheel_insert w e) b ! i)) =
        Some \<lparr>loc_bucket = b, loc_index = i\<rparr>"
      using other [of i b] wheel_okD(1) [OF ok, of i b]
      by (auto simp: wheel_insert_def Let_def nth_append less_Suc_eq split: if_splits)
  next
    fix s l
    assume "tw_locations (wheel_insert w e) s = Some l" and "s \<notin> we_session ` set es"
    with loc [of s l]
    have *: "loc_index l < length (tw_buckets (wheel_insert w e) (loc_bucket l)) \<and>
        we_session (tw_buckets (wheel_insert w e) (loc_bucket l) ! loc_index l) = s"
      by (auto simp: wheel_insert_def Let_def nth_append split: if_splits)
    then show "loc_index l < length (tw_buckets (wheel_insert w e) (loc_bucket l))"
      and "we_session (tw_buckets (wheel_insert w e) (loc_bucket l) ! loc_index l) = s"
      by auto
  next
    fix b x
    assume "x \<in> set (tw_buckets (wheel_insert w e) b)"
    then show "b = we_due x mod kBucketCount" and "tw_current (wheel_insert w e) < we_due x"
      using wheel_okD(3) [OF ok, of x b] due
      by (auto simp: wheel_insert_def Let_def split: if_splits)
  next
    show "distinct (map we_session es)" by (rule wheel_okD(4) [OF ok])
    show "we_session ` set es \<inter> we_session ` insert e (entries w) = {}"
      using wheel_okD(5) [OF ok] es by auto
  qed
qed

lemma wheel_erase_ok:
  assumes ok: "wheel_ok w (e # es)"
  shows "wheel_ok (w\<lparr>tw_locations := (tw_locations w)(we_session e := None)\<rparr>) es" (is "wheel_ok ?w es")
proof -
  have same: "tw_buckets ?w = tw_buckets w" "tw_current ?w = tw_current w" "entries ?w = entries w"
    by (simp_all add: entries_def)
  have other: "we_session (tw_buckets w b ! i) \<noteq> we_session e" if "i < length (tw_buckets w b)" for b i
    using wheel_okD(5) [OF ok] entriesI [OF that] by (metis disjoint_iff image_eqI list.set_intros(1))
  show ?thesis
    unfolding wheel_ok_def same
  proof (intro conjI allI impI ballI)
    fix b i
    assume "i < length (tw_buckets w b)"
    then show "tw_locations ?w (we_session (tw_buckets w b ! i)) = Some \<lparr>loc_bucket = b, loc_index = i\<rparr>"
      using wheel_okD(1) [OF ok] other by simp
  next
    fix s l
    assume "tw_locations ?w s = Some l" and "s \<notin> we_session ` set es"
    then have "tw_locations w s = Some l" and "s \<notin> we_session ` set (e # es)"
      by (auto split: if_splits)
    from wheel_okD(2) [OF ok this]
    show "loc_index l < length (tw_buckets w (loc_bucket l))"
      and "we_session (tw_buckets w (loc_bucket l) ! loc_index l) = s"
      by auto
  next
    fix b x
    assume "x \<in> set (tw_buckets w b)"
    from wheel_okD(3) [OF ok this] show "b = we_due x mod kBucketCount" and "tw_current w < we_due x"
      by auto
  next
    show "distinct (map we_session es)" and "we_session ` set es \<inter> we_session ` entries w = {}"
      using wheel_okD(4,5) [OF ok] by auto
  qed
qed

lemma wheel_drain_spec:
  assumes "wheel_ok w es"
  shows "wheel_inv (fst (wheel_drain w es out)) \<and>
    entries (fst (wheel_drain w es out)) = entries w \<union> {e \<in> set es. tw_current w < we_due e} \<and>
    snd (wheel_drain w es out) = out @ map we_expiry (filter (\<lambda>e. we_due e \<le> tw_current w) es)"
  using assms
proof (induction w es out rule: wheel_drain.induct)
  case (1 w out)
  then show ?case by simp
next
  case (2 w e es out)
  let ?w = "w\<lparr>tw_locations := (tw_locations w)(we_session e := None)\<rparr>"
  have ok: "wheel_ok ?w es" by (rule wheel_erase_ok [OF "2.prems"])
  have ent: "entries ?w = entries w" by (simp add: entries_def)
  show ?case
  proof (cases "we_due e \<le> tw_current w")
    case True
    with "2.IH"(1) [OF refl _ ok] ent show ?thesis by auto
  next
    case False
    have fresh: "we_session e \<notin> we_session ` entries ?w" "we_session e \<notin> we_session ` set es"
      using wheel_okD(4,5) [OF "2.prems"] ent by auto
    have "wheel_ok (wheel_insert ?w e) es"
      by (rule wheel_insert_ok [OF ok fresh]) (use False in simp)
    with "2.IH"(2) [OF refl _ this] False ent show ?thesis by (auto simp: entries_insert)
  qed
qed

lemma bucket_distinct:
  assumes "wheel_ok w es"
  shows "distinct (map we_session (tw_buckets w b))"
proof (subst distinct_conv_nth, intro allI impI)
  fix i j
  assume "i < length (map we_session (tw_buckets w b))" and "j < length (map we_session (tw_buckets w b))"
    and "i \<noteq> j"
  then show "map we_session (tw_buckets w b) ! i \<noteq> map we_session (tw_buckets w b) ! j"
    using bucket_session_unique [OF assms, of i b j b] by auto
qed

text \<open>
  Stepping the tick and moving the due bucket out leaves a wheel whose remaining entries are all
  still in the future: an entry due now would be in the bucket that was moved.
\<close>

lemma wheel_moved_ok:
  assumes inv: "wheel_inv w"
  defines "b \<equiv> Suc (tw_current w) mod kBucketCount"
  defines "w' \<equiv> w\<lparr>tw_current := Suc (tw_current w), tw_buckets := (tw_buckets w)(b := [])\<rparr>"
  shows "wheel_ok w' (tw_buckets w b) \<and> entries w = entries w' \<union> set (tw_buckets w b)"
proof -
  have ent: "e \<in> entries w' \<longleftrightarrow> (\<exists>c. c \<noteq> b \<and> e \<in> set (tw_buckets w c))" for e
    by (auto simp: entries_def w'_def split: if_splits)
  have later: "tw_current w' < we_due e" if "e \<in> set (tw_buckets w c)" "c \<noteq> b" for e c
    using wheel_okD(3) [OF inv that(1)] that(2)
    by (metis Suc_lessI b_def timer_wheel.select_convs(3) timer_wheel.surjective
        timer_wheel.update_convs(1,3) w'_def)
  have "we_session x \<noteq> we_session y" if "x \<in> set (tw_buckets w b)" "y \<in> entries w'" for x y
  proof
    assume eq: "we_session x = we_session y"
    from that(2) obtain c where c: "c \<noteq> b" "y \<in> set (tw_buckets w c)" by (auto simp: ent)
    with that(1) obtain i j where "i < length (tw_buckets w b)" "tw_buckets w b ! i = x"
      "j < length (tw_buckets w c)" "tw_buckets w c ! j = y" by (auto simp: in_set_conv_nth)
    with bucket_session_unique [OF inv, of i b j c] eq c show False by simp
  qed
  then have disj: "we_session ` set (tw_buckets w b) \<inter> we_session ` entries w' = {}" by auto
  have "wheel_ok w' (tw_buckets w b)"
    unfolding wheel_ok_def
  proof (intro conjI allI impI ballI)
    fix c i
    assume "i < length (tw_buckets w' c)"
    then show "tw_locations w' (we_session (tw_buckets w' c ! i)) = Some \<lparr>loc_bucket = c, loc_index = i\<rparr>"
      using wheel_okD(1) [OF inv, of i c] by (auto simp: w'_def split: if_splits)
  next
    fix s l
    assume l: "tw_locations w' s = Some l" and s: "s \<notin> we_session ` set (tw_buckets w b)"
    from l have l': "tw_locations w s = Some l" by (simp add: w'_def)
    from wheel_okD(2) [OF inv l'] s have "loc_bucket l \<noteq> b"
      by (metis empty_iff image_eqI image_empty list.set(1) nth_mem)
    with wheel_okD(2) [OF inv l']
    show "loc_index l < length (tw_buckets w' (loc_bucket l))"
      and "we_session (tw_buckets w' (loc_bucket l) ! loc_index l) = s"
      by (auto simp: w'_def)
  next
    fix c e
    assume "e \<in> set (tw_buckets w' c)"
    then have e: "e \<in> set (tw_buckets w c)" "c \<noteq> b" by (auto simp: w'_def split: if_splits)
    from later [OF e] wheel_okD(3) [OF inv e(1)]
    show "c = we_due e mod kBucketCount" and "tw_current w' < we_due e" by auto
  next
    show "distinct (map we_session (tw_buckets w b))" by (rule bucket_distinct [OF inv])
    show "we_session ` set (tw_buckets w b) \<inter> we_session ` entries w' = {}" by (rule disj)
  qed
  moreover have "e \<in> entries w \<longleftrightarrow> e \<in> entries w' \<or> e \<in> set (tw_buckets w b)" for e
    unfolding ent entries_def [of w] by (simp, metis)
  ultimately show ?thesis by auto
qed

lemma wheel_tick_spec:
  assumes inv: "wheel_inv w"
  defines "c \<equiv> Suc (tw_current w)"
  shows "wheel_inv (fst (wheel_tick w out)) \<and>
    entries (fst (wheel_tick w out)) = {e \<in> entries w. c < we_due e} \<and>
    (\<exists>es. snd (wheel_tick w out) = out @ map we_expiry es \<and> distinct (map we_session es) \<and>
       set es = {e \<in> entries w. we_due e = c})"
proof -
  let ?b = "c mod kBucketCount"
  let ?w = "w\<lparr>tw_current := c, tw_buckets := (tw_buckets w)(?b := [])\<rparr>"
  let ?es = "filter (\<lambda>e. we_due e \<le> c) (tw_buckets w ?b)"
  from wheel_moved_ok [OF inv]
  have ok: "wheel_ok ?w (tw_buckets w ?b)" and ent: "entries w = entries ?w \<union> set (tw_buckets w ?b)"
    by (simp_all add: c_def)
  have tick: "wheel_tick w out = wheel_drain ?w (tw_buckets w ?b) out"
    by (simp add: wheel_tick_def Let_def c_def)
  have future: "c < we_due e" if "e \<in> entries ?w" for e
    using that wheel_okD(3) [OF ok] by (auto simp: entries_def)
  have due: "c \<le> we_due e" if "e \<in> set (tw_buckets w ?b)" for e
    using wheel_okD(3) [OF inv that] by (simp add: c_def)
  note drain = wheel_drain_spec [OF ok, of out]
  have "set ?es = {e \<in> entries w. we_due e = c}"
    using due future by (force simp: ent)
  moreover have "distinct (map we_session ?es)"
    using bucket_distinct [OF inv, of ?b] by (rule distinct_map_filter)
  moreover have "snd (wheel_tick w out) = out @ map we_expiry ?es"
    using drain by (simp add: tick)
  moreover have "entries (fst (wheel_tick w out)) = {e \<in> entries w. c < we_due e}"
    using drain future by (auto simp: tick ent)
  ultimately show ?thesis using drain tick by auto
qed

lemma sorted_due_const: "\<forall>e\<in>set es. we_due e = c \<Longrightarrow> sorted (map we_due es)"
  by (induction es) auto

text \<open>
  The whole loop: what is due by the target leaves, in the order of its due tick, and what is due
  later stays.
\<close>

lemma wheel_run_spec:
  assumes "wheel_inv w"
  shows "\<exists>es. snd (wheel_run w target out) = out @ map we_expiry es \<and>
    distinct (map we_session es) \<and> sorted (map we_due es) \<and>
    set es = {e \<in> entries w. we_due e \<le> target} \<and>
    entries (fst (wheel_run w target out)) = {e \<in> entries w. target < we_due e} \<and>
    wheel_inv (fst (wheel_run w target out)) \<and>
    tw_current (fst (wheel_run w target out)) = max (tw_current w) target"
  using assms
proof (induction w target out rule: wheel_run.induct)
  case (1 w target out)
  show ?case
  proof (cases "tw_current w < target")
    case False
    have "target < we_due e" if "e \<in> entries w" for e
      using that wheel_okD(3) [OF "1.prems"] False by (fastforce simp: entries_def)
    with False "1.prems" show ?thesis
      by (intro exI [of _ "[]"]) (auto simp: wheel_run.simps [of w target out] not_le)
  next
    case True
    let ?c = "Suc (tw_current w)"
    let ?w = "fst (wheel_tick w out)" and ?out = "snd (wheel_tick w out)"
    from wheel_tick_spec [OF "1.prems", of out] obtain es where
      inv: "wheel_inv ?w" and ent: "entries ?w = {e \<in> entries w. ?c < we_due e}"
      and es: "?out = out @ map we_expiry es" "distinct (map we_session es)"
        "set es = {e \<in> entries w. we_due e = ?c}"
      by auto
    from "1.IH" [OF True inv] obtain es' where
      es': "snd (wheel_run ?w target ?out) = ?out @ map we_expiry es'" "distinct (map we_session es')"
        "sorted (map we_due es')" "set es' = {e \<in> entries ?w. we_due e \<le> target}"
      and fin: "entries (fst (wheel_run ?w target ?out)) = {e \<in> entries ?w. target < we_due e}"
        "wheel_inv (fst (wheel_run ?w target ?out))"
        "tw_current (fst (wheel_run ?w target ?out)) = max (tw_current ?w) target"
      by auto
    have low: "tw_current w < we_due e" if "e \<in> entries w" for e
      using that wheel_okD(3) [OF "1.prems"] by (auto simp: entries_def)
    have "set (es @ es') = {e \<in> entries w. we_due e \<le> target}"
      using es(3) es'(4) True low by (force simp: ent)
    moreover have "we_session x \<noteq> we_session y" if "x \<in> set es" "y \<in> set es'" for x y
      using that es(3) es'(4) inj_onD [OF entries_inj [OF "1.prems"], of x y] by (auto simp: ent)
    then have "distinct (map we_session (es @ es'))"
      using es(2) es'(2) by auto
    moreover have "sorted (map we_due (es @ es'))"
      using es(3) es'(3,4) sorted_due_const [of es ?c] by (auto simp: sorted_append ent)
    ultimately show ?thesis
      using es(1) es'(1) fin True
      by (intro exI [of _ "es @ es'"]) (auto simp: wheel_run.simps [of w target out] ent)
  qed
qed

subsection \<open>Cancelling\<close>

definition swap_remove :: "'a list \<Rightarrow> nat \<Rightarrow> 'a list" where
  "swap_remove xs i = butlast (if i \<noteq> length xs - 1 then xs[i := xs ! (length xs - 1)] else xs)"

lemma length_swap_remove [simp]: "length (swap_remove xs i) = length xs - 1"
  by (simp add: swap_remove_def)

lemma swap_remove_nth:
  "j < length xs - 1 \<Longrightarrow> i < length xs \<Longrightarrow>
   swap_remove xs i ! j = (if j = i then xs ! (length xs - 1) else xs ! j)"
  by (auto simp: swap_remove_def nth_butlast)

lemma set_swap_remove:
  assumes i: "i < length xs" and inj: "\<And>j. j < length xs \<Longrightarrow> j \<noteq> i \<Longrightarrow> f (xs ! j) \<noteq> f (xs ! i)"
  shows "set (swap_remove xs i) = {x \<in> set xs. f x \<noteq> f (xs ! i)}"
proof (intro set_eqI iffI)
  fix x
  assume "x \<in> set (swap_remove xs i)"
  then obtain j where j: "j < length xs - 1" and x: "x = swap_remove xs i ! j"
    by (auto simp: in_set_conv_nth)
  define k where "k = (if j = i then length xs - 1 else j)"
  have "k < length xs" "k \<noteq> i" "x = xs ! k"
    using i j x by (auto simp: k_def swap_remove_nth)
  then show "x \<in> {x \<in> set xs. f x \<noteq> f (xs ! i)}" using inj by simp
next
  fix x
  assume "x \<in> {x \<in> set xs. f x \<noteq> f (xs ! i)}"
  then obtain k where k: "k < length xs" "x = xs ! k" "k \<noteq> i" by (auto simp: in_set_conv_nth)
  define j where "j = (if k = length xs - 1 then i else k)"
  have "j < length xs - 1" "x = swap_remove xs i ! j"
    using i k by (auto simp: j_def swap_remove_nth)
  then show "x \<in> set (swap_remove xs i)" by (auto simp: in_set_conv_nth)
qed

lemma wheel_cancel_Some:
  assumes inv: "wheel_inv w" and l: "tw_locations w s = Some \<lparr>loc_bucket = b, loc_index = i\<rparr>"
  defines "final \<equiv> length (tw_buckets w b) - 1"
  shows "wheel_cancel w s =
    w\<lparr>tw_buckets := (tw_buckets w)(b := swap_remove (tw_buckets w b) i),
      tw_locations :=
        (if i \<noteq> final
         then (tw_locations w)(we_session (tw_buckets w b ! final) \<mapsto> \<lparr>loc_bucket = b, loc_index = i\<rparr>)
         else tw_locations w)(s := None)\<rparr>"
proof -
  from wheel_okD(2) [OF inv l] have i: "i < length (tw_buckets w b)" by simp
  then have "final < length (tw_buckets w b)" by (simp add: final_def)
  from wheel_okD(1) [OF inv this] i show ?thesis
    by (simp add: wheel_cancel_def l Let_def swap_remove_def final_def)
qed

lemma wheel_cancel_None: "tw_locations w s = None \<Longrightarrow> wheel_cancel w s = w"
  by (simp add: wheel_cancel_def)

lemma wheel_cancel_current [simp]: "tw_current (wheel_cancel w s) = tw_current w"
  by (simp add: wheel_cancel_def Let_def split: option.split)

lemma entries_cancel:
  assumes inv: "wheel_inv w"
  shows "entries (wheel_cancel w s) = {e \<in> entries w. we_session e \<noteq> s}"
proof (cases "tw_locations w s")
  case None
  with located_iff [OF inv, of s] show ?thesis by (auto simp: wheel_cancel_None)
next
  case (Some l)
  obtain b i where l: "l = \<lparr>loc_bucket = b, loc_index = i\<rparr>" by (cases l)
  from wheel_okD(2) [OF inv Some] l
  have i: "i < length (tw_buckets w b)" and s: "we_session (tw_buckets w b ! i) = s" by simp_all
  have uniq: "we_session (tw_buckets w c ! j) \<noteq> s" if "j < length (tw_buckets w c)" "c \<noteq> b \<or> j \<noteq> i" for c j
    using bucket_session_unique [OF inv that(1) i] s that(2) by auto
  have new: "set (swap_remove (tw_buckets w b) i) = {e \<in> set (tw_buckets w b). we_session e \<noteq> s}"
    using set_swap_remove [OF i, of we_session] uniq s by auto
  have old: "e \<in> set (tw_buckets w c) \<Longrightarrow> c \<noteq> b \<Longrightarrow> we_session e \<noteq> s" for e c
    using uniq by (auto simp: in_set_conv_nth)
  have "set (tw_buckets (wheel_cancel w s) c) = {e \<in> set (tw_buckets w c). we_session e \<noteq> s}" for c
    using new old [of _ c] by (cases "c = b") (auto simp: wheel_cancel_Some [OF inv Some [unfolded l]])
  then show ?thesis by (auto simp: entries_def)
qed

lemma wheel_cancel_nth:
  assumes inv: "wheel_inv w" and l: "tw_locations w s = Some \<lparr>loc_bucket = b, loc_index = i\<rparr>"
    and j: "j < length (tw_buckets (wheel_cancel w s) c)"
  defines "final \<equiv> length (tw_buckets w b) - 1"
  shows "tw_buckets (wheel_cancel w s) c ! j =
      (if c = b \<and> j = i then tw_buckets w b ! final else tw_buckets w c ! j)"
    and "j < length (tw_buckets w c)" and "c = b \<longrightarrow> j \<noteq> final"
proof -
  from wheel_okD(2) [OF inv l] have "i < length (tw_buckets w b)" by simp
  with j show "tw_buckets (wheel_cancel w s) c ! j =
      (if c = b \<and> j = i then tw_buckets w b ! final else tw_buckets w c ! j)"
    and "j < length (tw_buckets w c)" and "c = b \<longrightarrow> j \<noteq> final"
    by (auto simp: wheel_cancel_Some [OF inv l] swap_remove_nth final_def split: if_splits)
qed

text \<open>A location that survives the cancellation still points at its session's entry.\<close>

lemma wheel_cancel_located:
  assumes inv: "wheel_inv w" and l: "tw_locations w s = Some \<lparr>loc_bucket = b, loc_index = i\<rparr>"
    and k: "tw_locations (wheel_cancel w s) t = Some k"
  shows "loc_index k < length (tw_buckets (wheel_cancel w s) (loc_bucket k)) \<and>
    we_session (tw_buckets (wheel_cancel w s) (loc_bucket k) ! loc_index k) = t"
proof -
  let ?bkt = "tw_buckets w b"
  define final where "final = length ?bkt - 1"
  note cancel = wheel_cancel_Some [OF inv l, folded final_def]
  from wheel_okD(2) [OF inv l] have i: "i < length ?bkt" and s: "we_session (?bkt ! i) = s"
    by simp_all
  show ?thesis
  proof (cases "i \<noteq> final \<and> t = we_session (?bkt ! final)")
    case True
    with k have "k = \<lparr>loc_bucket = b, loc_index = i\<rparr>" by (auto simp: cancel split: if_splits)
    with True i show ?thesis by (auto simp: cancel swap_remove_nth final_def)
  next
    case False
    with k have "t \<noteq> s" and "tw_locations w t = Some k" by (auto simp: cancel split: if_splits)
    note loc = wheel_okD(2) [OF inv this(2), simplified]
    have "loc_bucket k = b \<Longrightarrow> loc_index k \<noteq> i" using loc s \<open>t \<noteq> s\<close> by auto
    moreover from this have "loc_bucket k = b \<Longrightarrow> loc_index k \<noteq> final"
      using loc False by auto
    ultimately show ?thesis using loc i by (auto simp: cancel swap_remove_nth final_def)
  qed
qed

lemma wheel_cancel_inv [pool_inv]:
  assumes inv: "wheel_inv w"
  shows "wheel_inv (wheel_cancel w s)"
proof (cases "tw_locations w s")
  case None
  with inv show ?thesis by (simp add: wheel_cancel_None)
next
  case (Some l)
  obtain b i where l: "l = \<lparr>loc_bucket = b, loc_index = i\<rparr>" by (cases l)
  let ?bkt = "tw_buckets w b" and ?w = "wheel_cancel w s"
  define final where "final = length ?bkt - 1"
  note loc = Some [unfolded l]
  note cancel = wheel_cancel_Some [OF inv loc, folded final_def]
  note at = wheel_cancel_nth [OF inv loc, folded final_def]
  from wheel_okD(2) [OF inv loc] have i: "i < length ?bkt" and s: "we_session (?bkt ! i) = s"
    by simp_all
  then have f: "final < length ?bkt" by (simp add: final_def)
  have uniq: "we_session (tw_buckets w c ! j) = we_session (?bkt ! k) \<longleftrightarrow> c = b \<and> j = k"
    if "j < length (tw_buckets w c)" "k < length ?bkt" for c j k
    using bucket_session_unique [OF inv that] by auto
  show ?thesis
    unfolding wheel_ok_def
  proof (intro conjI allI impI ballI)
    fix c j
    assume "j < length (tw_buckets ?w c)"
    note at = at [OF this]
    show "tw_locations ?w (we_session (tw_buckets ?w c ! j)) = Some \<lparr>loc_bucket = c, loc_index = j\<rparr>"
      using uniq [OF at(2) i] uniq [OF at(2) f] uniq [OF f i] at(1,3) wheel_okD(1) [OF inv at(2)] s
      by (auto simp: cancel)
  next
    fix t k
    assume "tw_locations ?w t = Some k"
    from wheel_cancel_located [OF inv loc this]
    show "loc_index k < length (tw_buckets ?w (loc_bucket k))"
      and "we_session (tw_buckets ?w (loc_bucket k) ! loc_index k) = t"
      by auto
  next
    fix c e
    assume "e \<in> set (tw_buckets ?w c)"
    then obtain j where j: "j < length (tw_buckets ?w c)" "e = tw_buckets ?w c ! j"
      by (auto simp: in_set_conv_nth)
    with at [OF j(1)] f have "e \<in> set (tw_buckets w c)" by (auto split: if_splits)
    from wheel_okD(3) [OF inv this] show "c = we_due e mod kBucketCount" and "tw_current ?w < we_due e"
      by auto
  qed simp_all
qed

subsection \<open>Deadlines after each operation\<close>

lemma deadlines_new: "deadlines (wheel_new now) = Map.empty"
  by (rule ext) (simp add: deadlines_def wheel_new_def)

lemma wheel_new_inv [pool_inv]: "wheel_inv (wheel_new now)"
  by (simp add: wheel_ok_def wheel_new_def entries_def)

lemma deadlines_eqI:
  assumes "wheel_inv w" and "wheel_inv w'"
    and "\<And>g d. \<lparr>we_expiry = \<lparr>te_session = s, te_generation = g\<rparr>, we_due = d\<rparr> \<in> entries w \<longleftrightarrow>
      \<lparr>we_expiry = \<lparr>te_session = s, te_generation = g\<rparr>, we_due = d\<rparr> \<in> entries w'"
  shows "deadlines w s = deadlines w' s"
proof (rule option_eqI)
  fix p :: "nat \<times> nat"
  obtain g d where p: "p = (g, d)" by (cases p)
  show "deadlines w s = Some p \<longleftrightarrow> deadlines w' s = Some p"
    unfolding p deadlines_iff [OF assms(1)] deadlines_iff [OF assms(2)] by (rule assms(3))
qed

lemma deadlines_None_iff: "wheel_inv w \<Longrightarrow> deadlines w s = None \<longleftrightarrow> s \<notin> we_session ` entries w"
  using located_iff [of w s] by (cases "tw_locations w s") (simp_all add: deadlines_def)

lemma deadlines_cancel:
  assumes "wheel_inv w"
  shows "deadlines (wheel_cancel w s) = (deadlines w)(s := None)"
proof
  fix t
  note inv = wheel_cancel_inv [OF assms, of s]
  show "deadlines (wheel_cancel w s) t = ((deadlines w)(s := None)) t"
  proof (cases "t = s")
    case True
    with deadlines_None_iff [OF inv, of s] show ?thesis by (auto simp: entries_cancel [OF assms])
  next
    case False
    then have "deadlines (wheel_cancel w s) t = deadlines w t"
      by (intro deadlines_eqI [OF inv assms]) (simp add: entries_cancel [OF assms])
    with False show ?thesis by simp
  qed
qed

lemma deadlines_insert:
  fixes g :: nat
  assumes inv: "wheel_inv w" and new: "deadlines w s = None" and due: "tw_current w < d"
  defines "e \<equiv> \<lparr>we_expiry = \<lparr>te_session = s, te_generation = g\<rparr>, we_due = d\<rparr>"
  shows "wheel_inv (wheel_insert w e)" and "deadlines (wheel_insert w e) = (deadlines w)(s \<mapsto> (g, d))"
proof -
  have fresh: "we_session e \<notin> we_session ` entries w"
    using new deadlines_None_iff [OF inv] by (simp add: e_def)
  then show inv': "wheel_inv (wheel_insert w e)"
    by (intro wheel_insert_ok [OF inv]) (simp_all add: due e_def)
  have "deadlines (wheel_insert w e) s = Some (g, d)"
    unfolding deadlines_iff [OF inv'] by (simp add: entries_insert e_def)
  moreover have "deadlines (wheel_insert w e) t = deadlines w t" if "t \<noteq> s" for t
    by (rule deadlines_eqI [OF inv' inv]) (use that in \<open>simp add: entries_insert e_def\<close>)
  ultimately show "deadlines (wheel_insert w e) = (deadlines w)(s \<mapsto> (g, d))" by auto
qed

definition due_tick :: "timer_wheel \<Rightarrow> time_point \<Rightarrow> nat" where
  "due_tick w deadline = max (tick_at_or_after deadline) (Suc (tw_current w))"

lemma wheel_schedule_spec:
  assumes inv: "wheel_inv w" and cur: "Suc (tw_current w) < 2 ^ 64"
  shows "wheel_inv (wheel_schedule w s g t)"
    and "deadlines (wheel_schedule w s g t) = (deadlines w)(s \<mapsto> (g, due_tick w t))"
proof -
  have eq: "wheel_schedule w s g t = wheel_insert (wheel_cancel w s)
      \<lparr>we_expiry = \<lparr>te_session = s, te_generation = g\<rparr>, we_due = due_tick w t\<rparr>"
    using wrap64_id [OF cur] by (simp add: wheel_schedule_def due_tick_def)
  note c = wheel_cancel_inv [OF inv, of s]
  have none: "deadlines (wheel_cancel w s) s = None" by (simp add: deadlines_cancel [OF inv])
  have due: "tw_current (wheel_cancel w s) < due_tick w t" by (simp add: due_tick_def)
  show "wheel_inv (wheel_schedule w s g t)"
    unfolding eq by (rule deadlines_insert(1) [OF c none due])
  show "deadlines (wheel_schedule w s g t) = (deadlines w)(s \<mapsto> (g, due_tick w t))"
    unfolding eq deadlines_insert(2) [OF c none due] by (simp add: deadlines_cancel [OF inv])
qed

definition expired_by :: "nat \<Rightarrow> (nat \<rightharpoonup> nat \<times> nat) \<Rightarrow> (nat \<rightharpoonup> nat \<times> nat)" where
  "expired_by target m s = (case m s of None \<Rightarrow> None | Some (g, d) \<Rightarrow> if d \<le> target then None else Some (g, d))"

lemma wheel_advance_spec:
  assumes inv: "wheel_inv w"
  shows "wheel_inv (fst (wheel_advance w now))"
    and "deadlines (fst (wheel_advance w now)) = expired_by (tick_floor now) (deadlines w)"
    and "\<exists>es. snd (wheel_advance w now) = map we_expiry es \<and> distinct (map we_session es) \<and>
      sorted (map we_due es) \<and> set es = {e \<in> entries w. we_due e \<le> tick_floor now}"
    and "tw_current (fst (wheel_advance w now)) = max (tw_current w) (tick_floor now)"
proof -
  let ?w = "fst (wheel_advance w now)"
  from wheel_run_spec [OF inv, of "tick_floor now" "[]"]
  show inv': "wheel_inv ?w"
    and "\<exists>es. snd (wheel_advance w now) = map we_expiry es \<and> distinct (map we_session es) \<and>
      sorted (map we_due es) \<and> set es = {e \<in> entries w. we_due e \<le> tick_floor now}"
    and "tw_current ?w = max (tw_current w) (tick_floor now)"
    by (auto simp: wheel_advance_def)
  from wheel_run_spec [OF inv, of "tick_floor now" "[]"]
  have ent: "entries ?w = {e \<in> entries w. tick_floor now < we_due e}"
    by (auto simp: wheel_advance_def)
  show "deadlines ?w = expired_by (tick_floor now) (deadlines w)"
  proof
    fix s
    have "deadlines ?w s = Some (g, d) \<longleftrightarrow> expired_by (tick_floor now) (deadlines w) s = Some (g, d)" for g d
      using deadlines_iff [OF inv, of s g d]
      by (auto simp: deadlines_iff [OF inv'] ent expired_by_def split: option.splits prod.splits if_splits)
    then show "deadlines ?w s = expired_by (tick_floor now) (deadlines w) s"
      by (intro option_eqI) (metis surj_pair)
  qed
qed

lemma wheel_advance_fired:
  assumes "wheel_inv w"
  shows "\<lparr>te_session = s, te_generation = g\<rparr> \<in> set (snd (wheel_advance w now)) \<longleftrightarrow>
    (\<exists>d. deadlines w s = Some (g, d) \<and> d \<le> tick_floor now)"
proof -
  from wheel_advance_spec(3) [OF assms, of now] obtain es where
    es: "snd (wheel_advance w now) = map we_expiry es"
      "set es = {e \<in> entries w. we_due e \<le> tick_floor now}" by auto
  have "(\<exists>e. e \<in> set es \<and> we_expiry e = \<lparr>te_session = s, te_generation = g\<rparr>) \<longleftrightarrow>
      (\<exists>d. \<lparr>we_expiry = \<lparr>te_session = s, te_generation = g\<rparr>, we_due = d\<rparr> \<in> entries w \<and> d \<le> tick_floor now)"
    unfolding es(2) by (metis (mono_tags, lifting) mem_Collect_eq wheel_entry.select_convs wheel_entry.surjective old.unit.exhaust)
  then show ?thesis by (force simp: es(1) deadlines_iff [OF assms])
qed

section \<open>Ticks and the clock\<close>

text \<open>
  The steady clock counts up from a past boot and its 64-bit nanosecond count does not overflow
  within 292 years; on that range both tick conversions are exact roundings to seconds.
\<close>

definition clock_ok :: "time_point \<Rightarrow> bool" where
  "clock_ok t \<longleftrightarrow> 0 \<le> t \<and> t < 2 ^ 63"

lemma clock_ok_div:
  assumes "clock_ok t"
  shows "cxx_quot t ns_per_second = t div 1000000000" and "0 \<le> t div 1000000000"
    and "t div 1000000000 < 9223372037"
proof -
  from assms have t: "0 \<le> t" "t < 9223372036854775808" by (simp_all add: clock_ok_def)
  then show "cxx_quot t ns_per_second = t div 1000000000" and "0 \<le> t div 1000000000"
    by (simp_all add: cxx_quot_nonneg ns_per_second_def pos_imp_zdiv_nonneg_iff)
  from t have "t div 1000000000 \<le> 9223372036854775807 div 1000000000"
    by (intro zdiv_mono1) simp_all
  then show "t div 1000000000 < 9223372037" by simp
qed

lemma tick_floor_clock: "clock_ok t \<Longrightarrow> int (tick_floor t) = t div 1000000000"
  using clock_ok_div [of t] by (simp add: tick_floor_def)

lemma tick_floor_bound: "clock_ok t \<Longrightarrow> Suc (tick_floor t) < 2 ^ 64"
  using clock_ok_div(3) [of t] tick_floor_clock [of t] by simp

lemma tick_at_or_after_clock:
  assumes "clock_ok t"
  shows "int (tick_at_or_after t) =
    t div 1000000000 + (if t div 1000000000 * 1000000000 < t then 1 else 0)"
proof -
  define q where "q = t div 1000000000"
  have q: "0 \<le> q" "q < 9223372037" "cxx_quot t ns_per_second = q"
    using clock_ok_div [OF assms] by (simp_all add: q_def)
  then have "nat (q mod 2 ^ 64) = nat q" by simp
  with q show ?thesis
    by (auto simp: tick_at_or_after_def wrap64_def ns_per_second_def simp flip: q_def)
qed

lemma tick_reached_not_early:
  assumes "clock_ok t" and "clock_ok now" and "tick_at_or_after t \<le> tick_floor now"
  shows "t \<le> now"
proof -
  have "int (tick_at_or_after t) \<le> int (tick_floor now)" using assms(3) by simp
  then show ?thesis
    unfolding tick_at_or_after_clock [OF assms(1)] tick_floor_clock [OF assms(2)]
    by (simp split: if_splits)
qed

lemma tick_reached_in_time:
  assumes "clock_ok t" and "clock_ok now" and "t + ns_per_second \<le> now"
  shows "tick_at_or_after t \<le> tick_floor now"
proof -
  have "(t + 1000000000) div 1000000000 \<le> now div 1000000000"
    using assms(3) by (intro zdiv_mono1) (simp_all add: ns_per_second_def)
  then have "int (tick_at_or_after t) \<le> int (tick_floor now)"
    unfolding tick_at_or_after_clock [OF assms(1)] tick_floor_clock [OF assms(2)] by simp
  then show ?thesis by simp
qed

section \<open>What a timer service promises\<close>

text \<open>
  The reactor schedules at most one timer per session, cancels it when the session closes, and
  collects what is due. It relies on these laws only.
\<close>

locale timer_service =
  fixes t_schedule :: "'w \<Rightarrow> nat \<Rightarrow> nat \<Rightarrow> time_point \<Rightarrow> 'w"
    and t_cancel :: "'w \<Rightarrow> nat \<Rightarrow> 'w"
    and t_advance :: "'w \<Rightarrow> time_point \<Rightarrow> 'w \<times> timer_expiry list"
    and t_view :: "'w \<Rightarrow> nat \<rightharpoonup> nat \<times> nat"
    and t_due :: "'w \<Rightarrow> time_point \<Rightarrow> nat"
    and t_now :: "time_point \<Rightarrow> nat"
    and t_inv :: "'w \<Rightarrow> bool"
    and t_ready :: "'w \<Rightarrow> bool"
  assumes view_schedule: "t_inv w \<Longrightarrow> t_ready w \<Longrightarrow>
      t_view (t_schedule w s g t) = (t_view w)(s \<mapsto> (g, t_due w t))"
    and view_cancel: "t_inv w \<Longrightarrow> t_view (t_cancel w s) = (t_view w)(s := None)"
    and view_advance: "t_inv w \<Longrightarrow> t_view (fst (t_advance w now)) = expired_by (t_now now) (t_view w)"
    and advance_fires: "t_inv w \<Longrightarrow>
      \<lparr>te_session = s, te_generation = g\<rparr> \<in> set (snd (t_advance w now)) \<longleftrightarrow>
        (\<exists>d. t_view w s = Some (g, d) \<and> d \<le> t_now now)"
    and inv_schedule: "t_inv w \<Longrightarrow> t_ready w \<Longrightarrow> t_inv (t_schedule w s g t)"
    and inv_cancel: "t_inv w \<Longrightarrow> t_inv (t_cancel w s)"
    and inv_advance: "t_inv w \<Longrightarrow> t_inv (fst (t_advance w now))"
begin

lemma cancelled_never_fires:
  "t_inv w \<Longrightarrow> \<lparr>te_session = s, te_generation = g\<rparr> \<notin> set (snd (t_advance (t_cancel w s) now))"
  by (simp add: advance_fires inv_cancel view_cancel)

lemma rescheduled_fires_latest:
  "t_inv w \<Longrightarrow> t_ready w \<Longrightarrow>
   \<lparr>te_session = s, te_generation = g'\<rparr> \<in> set (snd (t_advance (t_schedule w s g t) now)) \<longleftrightarrow>
   g' = g \<and> t_due w t \<le> t_now now"
  by (auto simp: advance_fires inv_schedule view_schedule)

lemma fires_once:
  assumes "t_inv w" and "\<lparr>te_session = s, te_generation = g\<rparr> \<in> set (snd (t_advance w now))"
  shows "\<lparr>te_session = s, te_generation = g'\<rparr> \<notin> set (snd (t_advance (fst (t_advance w now)) later))"
proof -
  from assms obtain d where "t_view w s = Some (g, d)" and "d \<le> t_now now"
    by (auto simp: advance_fires)
  then have "t_view (fst (t_advance w now)) s = None"
    by (simp add: view_advance [OF assms(1)] expired_by_def)
  then show ?thesis by (simp add: advance_fires inv_advance assms(1))
qed

end

abbreviation wheel_ready :: "timer_wheel \<Rightarrow> bool" where
  "wheel_ready w \<equiv> Suc (tw_current w) < 2 ^ 64"

interpretation wheel: timer_service wheel_schedule wheel_cancel wheel_advance deadlines due_tick
    tick_floor wheel_inv wheel_ready
  by unfold_locales
    (simp_all only: wheel_schedule_spec wheel_advance_spec(1,2) wheel_advance_fired deadlines_cancel
      wheel_cancel_inv)

section \<open>Every wheel the reactor can reach\<close>

inductive wheel_reach :: "timer_wheel \<Rightarrow> bool" where
  new: "clock_ok now \<Longrightarrow> wheel_reach (wheel_new now)"
| schedule: "wheel_reach w \<Longrightarrow> wheel_reach (wheel_schedule w s g t)"
| cancel: "wheel_reach w \<Longrightarrow> wheel_reach (wheel_cancel w s)"
| advance: "wheel_reach w \<Longrightarrow> clock_ok now \<Longrightarrow> wheel_reach (fst (wheel_advance w now))"

lemma wheel_schedule_current [simp]: "tw_current (wheel_schedule w s g t) = tw_current w"
  by (simp add: wheel_schedule_def Let_def)

lemma wheel_reach_ok: "wheel_reach w \<Longrightarrow> wheel_inv w \<and> wheel_ready w"
proof (induction rule: wheel_reach.induct)
  case (new now)
  with tick_floor_bound [OF new] show ?case by (simp add: wheel_new_inv) (simp add: wheel_new_def)
next
  case (schedule w s g t)
  then show ?case using wheel.inv_schedule [of w s g t] by simp
next
  case (cancel w s)
  then show ?case using wheel.inv_cancel [of w s] by simp
next
  case (advance w now)
  with tick_floor_bound [of now] show ?case
    using wheel.inv_advance [of w now] by (simp add: wheel_advance_spec(4) max_def)
qed

section \<open>Properties\<close>

text \<open>
  Property C18. In every wheel reachable by constructing, scheduling, cancelling and advancing at
  times of the steady clock, each entry sits in the bucket of its due tick, lies in the future and
  is the one its session's location points at, and the next tick does not wrap.
\<close>

theorem wheel_reachable_invariant:
  assumes "wheel_reach w"
  shows "wheel_inv w \<and> Suc (tw_current w) < 2 ^ 64"
  using wheel_reach_ok [OF assms] by simp

theorem wheel_reachable_invariant_witness:
  "wheel_inv (wheel_schedule (wheel_new 0) 7 1 5000000000)"
  using wheel_reachable_invariant [OF wheel_reach.schedule [OF wheel_reach.new [of 0]]]
  by (simp add: clock_ok_def)

text \<open>
  Property C19. Seen through the table of deadlines, \<^verbatim>\<open>schedule\<close> replaces the session's single timer
  by one due at the deadline rounded up to a second, but not before the next tick, and \<^verbatim>\<open>cancel\<close>
  removes it; every other session's timer is untouched.
\<close>

theorem wheel_refines_deadline_table:
  assumes "wheel_reach w"
  shows "deadlines (wheel_schedule w s g t) = (deadlines w)(s \<mapsto> (g, due_tick w t)) \<and>
    deadlines (wheel_cancel w s) = (deadlines w)(s := None)"
  using wheel_reach_ok [OF assms] by (simp add: wheel.view_schedule wheel.view_cancel)

theorem wheel_refines_deadline_table_witness:
  "deadlines (wheel_cancel (wheel_schedule (wheel_new 0) 7 1 5000000000) 7) 7 = None"
proof -
  have "wheel_reach (wheel_schedule (wheel_new 0) 7 1 5000000000)"
    by (intro wheel_reach.schedule wheel_reach.new) (simp add: clock_ok_def)
  from wheel_refines_deadline_table [OF this] show ?thesis by simp
qed

text \<open>
  Property C20. \<^verbatim>\<open>advance\<close> returns exactly the timers due by the tick of the given time, each once
  and in the order of their due ticks, and keeps exactly the timers due later, however many ticks
  or turns of the wheel it skips.
\<close>

theorem wheel_advance_exact:
  assumes "wheel_reach w"
  shows "\<exists>es. snd (wheel_advance w now) = map we_expiry es \<and>
      distinct (map we_session es) \<and> sorted (map we_due es) \<and>
      (\<forall>s g d. \<lparr>we_expiry = \<lparr>te_session = s, te_generation = g\<rparr>, we_due = d\<rparr> \<in> set es \<longleftrightarrow>
         deadlines w s = Some (g, d) \<and> d \<le> tick_floor now) \<and>
      deadlines (fst (wheel_advance w now)) = expired_by (tick_floor now) (deadlines w)"
proof -
  from wheel_reach_ok [OF assms] have inv: "wheel_inv w" by simp
  from wheel_advance_spec(3) [OF inv, of now] obtain es where
    es: "snd (wheel_advance w now) = map we_expiry es" "distinct (map we_session es)"
      "sorted (map we_due es)" "set es = {e \<in> entries w. we_due e \<le> tick_floor now}" by auto
  with wheel_advance_spec(2) [OF inv, of now] show ?thesis
    by (intro exI [of _ es]) (simp add: deadlines_iff [OF inv])
qed

theorem wheel_advance_exact_witness:
  "deadlines (fst (wheel_advance (wheel_schedule (wheel_new 0) 7 1 5000000000) 6000000000)) 7 = None"
proof -
  let ?w = "wheel_schedule (wheel_new 0) 7 1 5000000000"
  have new: "wheel_reach (wheel_new 0)" by (intro wheel_reach.new) (simp add: clock_ok_def)
  have "deadlines ?w 7 = Some (1, 5)"
    using wheel_reach_ok [OF new] by (simp add: wheel.view_schedule due_tick_def tick_at_or_after_def
        wheel_new_def tick_floor_def cxx_quot_def ns_per_second_def)
  then show ?thesis
    using wheel_advance_exact [OF wheel_reach.schedule [OF new, of 7 1 5000000000], of 6000000000]
    by (auto simp: expired_by_def tick_floor_def cxx_quot_def ns_per_second_def)
qed

text \<open>
  Property C21. A timer never fires before its deadline, and it has fired at the latest by the first
  \<^verbatim>\<open>advance\<close> that runs a full second after the deadline on a later tick; only the generation that
  was scheduled last can fire.
\<close>

theorem wheel_fires_on_time:
  assumes "wheel_reach w" and "clock_ok t" and "clock_ok now"
  shows "(\<lparr>te_session = s, te_generation = g'\<rparr> \<in> set (snd (wheel_advance (wheel_schedule w s g t) now))
        \<longrightarrow> g' = g \<and> t \<le> now) \<and>
    (t + ns_per_second \<le> now \<and> tw_current w < tick_floor now \<longrightarrow>
      \<lparr>te_session = s, te_generation = g\<rparr> \<in> set (snd (wheel_advance (wheel_schedule w s g t) now)))"
proof -
  from wheel_reach_ok [OF assms(1)] have w: "wheel_inv w" "wheel_ready w" by simp_all
  show ?thesis
    using tick_reached_not_early [OF assms(2,3)] tick_reached_in_time [OF assms(2,3)]
    by (auto simp: wheel.rescheduled_fires_latest [OF w] due_tick_def)
qed

theorem wheel_fires_on_time_witness:
  "\<lparr>te_session = 7, te_generation = 1\<rparr>
     \<in> set (snd (wheel_advance (wheel_schedule (wheel_new 0) 7 1 5000000000) 6000000000))"
proof -
  have "tw_current (wheel_new 0) < tick_floor 6000000000"
    by (simp add: wheel_new_def tick_floor_def cxx_quot_def ns_per_second_def)
  with wheel_fires_on_time [OF wheel_reach.new [of 0], of 5000000000 6000000000 7 1 1]
  show ?thesis by (simp add: clock_ok_def ns_per_second_def)
qed

end
