(* ===== verification/Pending_Buffer.thy ===== *)
theory Pending_Buffer
  imports Pool_Prelude
begin

text \<open>
  The relay queue of \<^verbatim>\<open>src/src/net/pending_buffer.hpp\<close>: a string and the offset up to which it has
  been sent. The interface \<open>byte_queue\<close> states what a relay queue promises in terms of the bytes
  still waiting; its derived lemmas give the order in which bytes leave any queue that keeps the
  promise, and the interpretation shows that \<^verbatim>\<open>PendingBuffer\<close> does.
\<close>

section \<open>The class PendingBuffer\<close>

definition kMaximumRetainedBufferBytes :: nat where
  "kMaximumRetainedBufferBytes = 4096"

definition release_oversized_string :: "cxx_string \<Rightarrow> cxx_string" where
  "release_oversized_string value =
     (if kMaximumRetainedBufferBytes < str_capacity value then str_copy value else value)"

record pending_buffer =
  pb_data :: cxx_string
  pb_offset :: nat

definition pb_new :: pending_buffer where
  "pb_new = \<lparr>pb_data = empty_string, pb_offset = 0\<rparr>"

definition pb_empty :: "pending_buffer \<Rightarrow> bool" where
  "pb_empty b \<longleftrightarrow> pb_offset b = length (chars (pb_data b))"

definition pb_size :: "pending_buffer \<Rightarrow> nat" where
  "pb_size b = length (chars (pb_data b)) - pb_offset b"

definition pb_capacity :: "pending_buffer \<Rightarrow> nat" where
  "pb_capacity b = str_capacity (pb_data b)"

text \<open>The bytes that \<^verbatim>\<open>data()\<close> points at, up to the end of the string.\<close>

definition pb_bytes :: "pending_buffer \<Rightarrow> string" where
  "pb_bytes b = drop (pb_offset b) (chars (pb_data b))"

definition compact_if_needed :: "pending_buffer \<Rightarrow> pending_buffer" where
  "compact_if_needed b =
     (if 0 < pb_offset b \<and>
         (length (chars (pb_data b)) div 2 \<le> pb_offset b \<or>
          kMaximumRetainedBufferBytes < pb_offset b)
      then b\<lparr>pb_data := str_erase_front (pb_data b) (pb_offset b), pb_offset := 0\<rparr>
      else b)"

definition pb_append :: "pending_buffer \<Rightarrow> string \<Rightarrow> pending_buffer" where
  "pb_append b bs =
     (let c = compact_if_needed b in c\<lparr>pb_data := str_append (pb_data c) bs\<rparr>)"

text \<open>
  \<^verbatim>\<open>prepend\<close> overwrites the bytes just before the offset when there is room for them, and
  otherwise builds a replacement string.
\<close>

definition pb_prepend :: "pending_buffer \<Rightarrow> string \<Rightarrow> pending_buffer" where
  "pb_prepend b bs =
     (if bs = [] then b
      else if length bs \<le> pb_offset b
      then let off = pb_offset b - length bs; d = chars (pb_data b)
           in b\<lparr>pb_data := (pb_data b)\<lparr>chars := take off d @ bs @ drop (off + length bs) d\<rparr>,
                pb_offset := off\<rparr>
      else let replacement = str_reserve empty_string (length bs + pb_size b);
               replacement = str_append (str_append replacement bs) (pb_bytes b)
           in b\<lparr>pb_data := str_move_assign (pb_data b) replacement, pb_offset := 0\<rparr>)"

definition pb_consume :: "pending_buffer \<Rightarrow> nat \<Rightarrow> pending_buffer" where
  "pb_consume b n =
     (if n < pb_size b then b\<lparr>pb_offset := pb_offset b + n\<rparr>
      else b\<lparr>pb_data := release_oversized_string (str_clear (pb_data b)), pb_offset := 0\<rparr>)"

text \<open>
  The class invariant: the offset stays inside the string, and only a string with bytes left to
  send has an offset at all.
\<close>

definition pb_inv :: "pending_buffer \<Rightarrow> bool" where
  "pb_inv b \<longleftrightarrow> (pb_offset b < length (chars (pb_data b)) \<or> pb_offset b = 0) \<and> str_ok (pb_data b)"

lemmas pb_defs =
  pb_new_def pb_empty_def pb_size_def pb_bytes_def compact_if_needed_def pb_append_def
  pb_prepend_def pb_consume_def release_oversized_string_def

lemma compact_bytes [simp]: "pb_bytes (compact_if_needed b) = pb_bytes b"
  by (simp add: pb_defs)

lemma compact_inv: "pb_inv b \<Longrightarrow> pb_inv (compact_if_needed b)"
  by (auto simp: pb_defs pb_inv_def)

lemma pb_size_length: "pb_size b = length (pb_bytes b)"
  by (simp add: pb_defs)

lemma pb_append_bytes: "pb_inv b \<Longrightarrow> pb_bytes (pb_append b bs) = pb_bytes b @ bs"
  by (auto simp: pb_defs pb_inv_def Let_def)

lemma pb_append_inv [pool_inv]: "pb_inv b \<Longrightarrow> pb_inv (pb_append b bs)"
  by (auto simp: pb_defs pb_inv_def Let_def)

lemma pb_prepend_bytes: "pb_inv b \<Longrightarrow> pb_bytes (pb_prepend b bs) = bs @ pb_bytes b"
  by (auto simp: pb_defs pb_inv_def Let_def min_absorb2)

lemma str_ok_same_length:
  "str_ok s \<Longrightarrow> length cs = length (chars s) \<Longrightarrow> str_ok (s\<lparr>chars := cs\<rparr>)"
  by (simp add: str_ok_def)

lemma pb_prepend_inv [pool_inv]: "pb_inv b \<Longrightarrow> pb_inv (pb_prepend b bs)"
  unfolding pb_prepend_def pb_inv_def Let_def
  by (auto intro!: str_ok_same_length)

lemma pb_consume_bytes: "pb_bytes (pb_consume b n) = drop n (pb_bytes b)"
  by (auto simp: pb_defs add.commute)

lemma pb_consume_inv [pool_inv]: "pb_inv b \<Longrightarrow> pb_inv (pb_consume b n)"
  by (auto simp: pb_defs pb_inv_def)

section \<open>What a relay queue promises\<close>

datatype queue_op = QAppend string | QPrepend string | QConsume nat

text \<open>
  A run of queue operations, with the bytes that each consume takes off the front (they are the
  bytes the socket accepted).
\<close>

primrec run_queue ::
  "('q \<Rightarrow> string \<Rightarrow> 'q) \<Rightarrow> ('q \<Rightarrow> string \<Rightarrow> 'q) \<Rightarrow> ('q \<Rightarrow> nat \<Rightarrow> 'q) \<Rightarrow> ('q \<Rightarrow> string)
   \<Rightarrow> 'q \<Rightarrow> queue_op list \<Rightarrow> string \<times> 'q" where
  "run_queue app pre con bytes q [] = ([], q)"
| "run_queue app pre con bytes q (op # ops) =
     (case op of
        QAppend bs \<Rightarrow> run_queue app pre con bytes (app q bs) ops
      | QPrepend bs \<Rightarrow> run_queue app pre con bytes (pre q bs) ops
      | QConsume n \<Rightarrow>
          (take n (bytes q) @ fst (run_queue app pre con bytes (con q n) ops),
           snd (run_queue app pre con bytes (con q n) ops)))"

primrec appended :: "queue_op list \<Rightarrow> string" where
  "appended [] = []"
| "appended (op # ops) = (case op of QAppend bs \<Rightarrow> bs | _ \<Rightarrow> []) @ appended ops"

primrec no_prepend :: "queue_op list \<Rightarrow> bool" where
  "no_prepend [] = True"
| "no_prepend (op # ops) = ((case op of QPrepend _ \<Rightarrow> False | _ \<Rightarrow> True) \<and> no_prepend ops)"

locale byte_queue =
  fixes q_new :: 'q
    and q_append :: "'q \<Rightarrow> string \<Rightarrow> 'q"
    and q_prepend :: "'q \<Rightarrow> string \<Rightarrow> 'q"
    and q_consume :: "'q \<Rightarrow> nat \<Rightarrow> 'q"
    and q_size :: "'q \<Rightarrow> nat"
    and q_empty :: "'q \<Rightarrow> bool"
    and q_bytes :: "'q \<Rightarrow> string"
    and q_inv :: "'q \<Rightarrow> bool"
  assumes bytes_new: "q_bytes q_new = []"
    and bytes_append: "q_inv q \<Longrightarrow> q_bytes (q_append q bs) = q_bytes q @ bs"
    and bytes_prepend: "q_inv q \<Longrightarrow> q_bytes (q_prepend q bs) = bs @ q_bytes q"
    and bytes_consume: "q_inv q \<Longrightarrow> q_bytes (q_consume q n) = drop n (q_bytes q)"
    and size_bytes: "q_inv q \<Longrightarrow> q_size q = length (q_bytes q)"
    and empty_bytes: "q_inv q \<Longrightarrow> q_empty q \<longleftrightarrow> q_bytes q = []"
    and inv_new: "q_inv q_new"
    and inv_append: "q_inv q \<Longrightarrow> q_inv (q_append q bs)"
    and inv_prepend: "q_inv q \<Longrightarrow> q_inv (q_prepend q bs)"
    and inv_consume: "q_inv q \<Longrightarrow> q_inv (q_consume q n)"
begin

abbreviation q_run :: "'q \<Rightarrow> queue_op list \<Rightarrow> string \<times> 'q" where
  "q_run \<equiv> run_queue q_append q_prepend q_consume q_bytes"

lemma run_inv: "q_inv q \<Longrightarrow> q_inv (snd (q_run q ops))"
  by (induction ops arbitrary: q)
    (auto split: queue_op.split simp: inv_append inv_prepend inv_consume)

lemma run_appends_fifo:
  assumes "q_inv q" and "no_prepend ops"
  shows "fst (q_run q ops) @ q_bytes (snd (q_run q ops)) = q_bytes q @ appended ops"
  using assms
proof (induction ops arbitrary: q)
  case Nil
  then show ?case by simp
next
  case (Cons op ops)
  show ?case
  proof (cases op)
    case (QAppend bs)
    with Cons show ?thesis by (simp add: inv_append bytes_append)
  next
    case (QPrepend bs)
    with Cons.prems show ?thesis by simp
  next
    case (QConsume n)
    then have "fst (q_run (q_consume q n) ops) @ q_bytes (snd (q_run (q_consume q n) ops)) =
        drop n (q_bytes q) @ appended ops"
      using Cons by (simp add: inv_consume bytes_consume)
    then show ?thesis
      using QConsume by simp
  qed
qed

end

interpretation pending: byte_queue pb_new pb_append pb_prepend pb_consume pb_size pb_empty pb_bytes
    pb_inv
proof unfold_locales
  fix q :: pending_buffer and bs :: string and n :: nat
  show "pb_bytes pb_new = []" and "pb_inv pb_new"
    by (simp_all add: pb_defs pb_inv_def)
  assume q: "pb_inv q"
  show "pb_empty q \<longleftrightarrow> pb_bytes q = []"
    using q by (auto simp: pb_defs pb_inv_def)
  show "pb_bytes (pb_append q bs) = pb_bytes q @ bs"
    and "pb_bytes (pb_prepend q bs) = bs @ pb_bytes q"
    and "pb_bytes (pb_consume q n) = drop n (pb_bytes q)"
    and "pb_size q = length (pb_bytes q)"
    using q by (simp_all add: pb_append_bytes pb_prepend_bytes pb_consume_bytes pb_size_length)
  show "pb_inv (pb_append q bs)" and "pb_inv (pb_prepend q bs)" and "pb_inv (pb_consume q n)"
    using q by (simp_all add: pool_inv)
qed

section \<open>Properties\<close>

text \<open>
  Property C22. Bytes leave a pending buffer in the order they were queued and none is lost or
  repeated: after any sequence of appends and consumes, the bytes handed to the socket followed by
  the bytes still waiting are the bytes waiting at the start followed by all appended bytes, whatever
  compactions happened on the way.
\<close>

theorem pending_buffer_fifo:
  assumes "pb_inv b" and "no_prepend ops"
  defines "r \<equiv> run_queue pb_append pb_prepend pb_consume pb_bytes b ops"
  shows "fst r @ pb_bytes (snd r) = pb_bytes b @ appended ops \<and> pb_inv (snd r)"
  using pending.run_appends_fifo [OF assms(1,2)] pending.run_inv [OF assms(1)] by (simp add: r_def)

theorem pending_buffer_fifo_witness:
  "(let r = run_queue pb_append pb_prepend pb_consume pb_bytes pb_new
              [QAppend ''abcd'', QConsume 3, QAppend ''ef'', QConsume 1]
    in fst r @ pb_bytes (snd r) = ''abcdef'')"
  using pending_buffer_fifo [OF pending.inv_new,
      of "[QAppend ''abcd'', QConsume 3, QAppend ''ef'', QConsume 1]"]
  by (simp add: Let_def pending.bytes_new)

text \<open>
  Prepending puts the new bytes before the waiting ones, both when it overwrites the
  space of already consumed bytes and when it rebuilds the string, and keeps the offset inside the
  string.
\<close>

lemma pending_buffer_prepend:
  assumes "pb_inv b"
  shows "pb_bytes (pb_prepend b bs) = bs @ pb_bytes b \<and> pb_size (pb_prepend b bs) = length bs + pb_size b
    \<and> pb_inv (pb_prepend b bs)"
  using pending.bytes_prepend [OF assms] pending.inv_prepend [OF assms] by (simp add: pb_size_length)

lemma pending_buffer_prepend_witness:
  "pb_bytes (pb_prepend (pb_consume (pb_append pb_new ''abcd'') 3) ''xy'') = ''xyd''"
proof -
  have inv: "pb_inv (pb_consume (pb_append pb_new ''abcd'') 3)"
    by (intro pb_consume_inv pb_append_inv pending.inv_new)
  have "pb_bytes (pb_consume (pb_append pb_new ''abcd'') 3) = ''d''"
    by (simp add: pb_consume_bytes pb_append_bytes pending.inv_new pending.bytes_new)
  with pending_buffer_prepend [OF inv, of "''xy''"] show ?thesis by simp
qed

text \<open>
  Once a buffer drains it is empty, starts again at offset zero and retains at most
  4096 bytes of capacity, whatever burst it held before.
\<close>

lemma pending_buffer_drained_capacity:
  assumes "pb_size b \<le> n"
  shows "pb_bytes (pb_consume b n) = [] \<and> pb_offset (pb_consume b n) = 0 \<and>
    pb_capacity (pb_consume b n) \<le> 4096"
  using assms
  by (simp add: pb_consume_def pb_capacity_def pb_bytes_def release_oversized_string_def str_copy_def
      sso_capacity_def kMaximumRetainedBufferBytes_def not_less)

lemma pending_buffer_drained_capacity_witness:
  "pb_capacity (pb_consume (pb_append pb_new (replicate 10000 CHR ''a'')) 10000) \<le> 4096"
proof -
  have "pb_size (pb_append pb_new (replicate 10000 CHR ''a'')) = 10000"
    by (simp only: pb_size_length pb_append_bytes pending.inv_new pending.bytes_new append_Nil
        length_replicate)
  with pending_buffer_drained_capacity [of "pb_append pb_new (replicate 10000 CHR ''a'')" 10000]
  show ?thesis by simp
qed

end
