(* ===== verification/Proxy_Protocol.thy ===== *)
theory Proxy_Protocol
  imports Endpoint "HOL-Library.Monad_Syntax"
begin

text \<open>
  The PROXY protocol v2 encoder of \<^verbatim>\<open>src/src/net/proxy_protocol.cpp\<close>, which tells a backend the address
  of the miner. The header is built in a fixed array of 52 bytes with unchecked copies; in the model a
  copy that would leave the array is \<^term>\<open>None\<close>, so a result is also a proof of memory safety. The
  bytes are read back by a decoder written from the protocol's specification.
\<close>

definition kMaximumProxyV2HeaderBytes :: nat where "kMaximumProxyV2HeaderBytes = 52"

record proxy_v2_header =
  ph_storage :: "byte list"
  ph_length :: byte

definition new_header :: proxy_v2_header where
  "new_header = \<lparr>ph_storage = replicate kMaximumProxyV2HeaderBytes 0, ph_length = 0\<rparr>"

definition ph_view :: "proxy_v2_header \<Rightarrow> byte list" where
  "ph_view h = take (unat (ph_length h)) (ph_storage h)"

definition kSignature :: "byte list" where
  "kSignature = [0x0d, 0x0a, 0x0d, 0x0a, 0x00, 0x0d, 0x0a, 0x51, 0x55, 0x49, 0x54, 0x0a]"

definition ph_append :: "proxy_v2_header \<Rightarrow> byte list \<Rightarrow> proxy_v2_header option" where
  "ph_append h source =
     (let start = unat (ph_length h)
      in if length (ph_storage h) < start + length source then None
         else Some \<lparr>ph_storage = take start (ph_storage h) @ source @ drop (start + length source) (ph_storage h),
                    ph_length = of_nat (start + length source)\<rparr>)"

definition ph_push :: "proxy_v2_header \<Rightarrow> byte \<Rightarrow> proxy_v2_header option" where
  "ph_push h v =
     (let start = unat (ph_length h)
      in if length (ph_storage h) \<le> start then None
         else Some \<lparr>ph_storage = (ph_storage h)[start := v], ph_length = ph_length h + 1\<rparr>)"

definition append_port :: "proxy_v2_header \<Rightarrow> byte list \<Rightarrow> proxy_v2_header option" where
  "append_port h network_port = ph_append h network_port"

definition append_ipv4 ::
  "proxy_v2_header \<Rightarrow> byte list \<Rightarrow> byte list \<Rightarrow> byte list \<Rightarrow> byte list \<Rightarrow> proxy_v2_header option" where
  "append_ipv4 h source destination source_port destination_port =
     do {
       h \<leftarrow> ph_push h 0x11;
       h \<leftarrow> ph_push h 0;
       h \<leftarrow> ph_push h 12;
       h \<leftarrow> ph_append h source;
       h \<leftarrow> ph_append h destination;
       h \<leftarrow> append_port h source_port;
       append_port h destination_port
     }"

definition is_ipv4_mapped :: "sockaddr_storage \<Rightarrow> bool" where
  "is_ipv4_mapped address = is_v4mapped (sin6_addr address)"

definition make_proxy_v2_header :: "sockaddr_storage \<Rightarrow> sockaddr_storage \<Rightarrow> proxy_v2_header option" where
  "make_proxy_v2_header source destination =
     do {
       h \<leftarrow> ph_append new_header kSignature;
       h \<leftarrow> ph_push h 0x21;
       if ss_family source = AF_INET \<and> ss_family destination = AF_INET
       then append_ipv4 h (sin_addr source) (sin_addr destination) (sin_port source) (sin_port destination)
       else if ss_family source = AF_INET6 \<and> ss_family destination = AF_INET6
       then if is_ipv4_mapped source \<and> is_ipv4_mapped destination
            then append_ipv4 h (take 4 (drop 12 (sin6_addr source))) (take 4 (drop 12 (sin6_addr destination)))
                   (sin_port source) (sin_port destination)
            else do {
              h \<leftarrow> ph_push h 0x21;
              h \<leftarrow> ph_push h 0;
              h \<leftarrow> ph_push h 36;
              h \<leftarrow> ph_append h (sin6_addr source);
              h \<leftarrow> ph_append h (sin6_addr destination);
              h \<leftarrow> append_port h (sin_port source);
              append_port h (sin_port destination)
            }
       else do {
         h \<leftarrow> ph_push h 0x00;
         h \<leftarrow> ph_push h 0;
         ph_push h 0
       }
     }"

section \<open>Reading a header back\<close>

text \<open>
  A receiver, from the protocol's specification: the signature, a byte for version 2 and the PROXY
  command, a byte for family and transport, a 16-bit length in network order and that many bytes.
  Anything that follows belongs to the connection.
\<close>

datatype proxied = ProxyUnspec | ProxyInet "byte list" "byte list" "byte list" "byte list"
  | ProxyInet6 "byte list" "byte list" "byte list" "byte list"

definition split_fields :: "nat \<Rightarrow> byte list \<Rightarrow> byte list \<times> byte list \<times> byte list \<times> byte list" where
  "split_fields n bs =
     (take n bs, take n (drop n bs), take 2 (drop (2 * n) bs), take 2 (drop (2 * n + 2) bs))"

definition decode_proxy_v2 :: "byte list \<Rightarrow> (proxied \<times> byte list) option" where
  "decode_proxy_v2 bs =
     (if length bs < 16 \<or> take 12 bs \<noteq> kSignature \<or> bs ! 12 \<noteq> 0x21 then None
      else let n = 256 * unat (bs ! 14) + unat (bs ! 15); body = take n (drop 16 bs); rest = drop (16 + n) bs
           in if length body < n then None
              else if bs ! 13 = 0x11 \<and> 12 \<le> n
              then (case split_fields 4 body of (s, d, sp, dp) \<Rightarrow> Some (ProxyInet s d sp dp, rest))
              else if bs ! 13 = 0x21 \<and> 36 \<le> n
              then (case split_fields 16 body of (s, d, sp, dp) \<Rightarrow> Some (ProxyInet6 s d sp dp, rest))
              else if bs ! 13 = 0 then Some (ProxyUnspec, rest) else None)"

text \<open>What the backend is meant to learn.\<close>

definition proxied_peer :: "sockaddr_storage \<Rightarrow> sockaddr_storage \<Rightarrow> proxied" where
  "proxied_peer source destination =
     (if ss_family source = AF_INET \<and> ss_family destination = AF_INET
      then ProxyInet (sin_addr source) (sin_addr destination) (sin_port source) (sin_port destination)
      else if ss_family source = AF_INET6 \<and> ss_family destination = AF_INET6
      then if is_v4mapped (sin6_addr source) \<and> is_v4mapped (sin6_addr destination)
           then ProxyInet (drop 12 (sin6_addr source)) (drop 12 (sin6_addr destination)) (sin_port source) (sin_port destination)
           else ProxyInet6 (sin6_addr source) (sin6_addr destination) (sin_port source) (sin_port destination)
      else ProxyUnspec)"

section \<open>The bytes written so far\<close>

text \<open>The header whose first bytes are \<open>bs\<close>, with the rest of the array still zero.\<close>

definition header_of :: "byte list \<Rightarrow> proxy_v2_header" where
  "header_of bs = \<lparr>ph_storage = bs @ replicate (52 - length bs) 0, ph_length = of_nat (length bs)\<rparr>"

lemma new_header_of: "new_header = header_of []"
  by (simp add: header_of_def new_header_def kMaximumProxyV2HeaderBytes_def)

lemma byte_length: "n \<le> 52 \<Longrightarrow> unat (of_nat n :: byte) = n"
  by (simp add: unat_of_nat)

lemma ph_append_header_of [simp]:
  "length bs + length xs \<le> 52 \<Longrightarrow> ph_append (header_of bs) xs = Some (header_of (bs @ xs))"
  by (simp add: ph_append_def header_of_def byte_length Let_def)

lemma ph_push_header_of [simp]:
  "length bs < 52 \<Longrightarrow> ph_push (header_of bs) v = Some (header_of (bs @ [v]))"
  by (cases "52 - length bs") (simp_all add: ph_push_def header_of_def byte_length Let_def list_update_append)

lemma ph_view_header_of: "length bs \<le> 52 \<Longrightarrow> ph_view (header_of bs) = bs"
  by (simp add: ph_view_def header_of_def byte_length)

lemma append_ipv4_header_of:
  assumes "length bs + 15 \<le> 52" and "length s = 4" and "length d = 4" and "length sp = 2" and "length dp = 2"
  shows "append_ipv4 (header_of bs) s d sp dp = Some (header_of (bs @ [0x11, 0, 12] @ s @ d @ sp @ dp))"
  using assms by (simp add: append_ipv4_def append_port_def)

text \<open>The bytes of the header, by the three kinds of peer.\<close>

fun proxied_bytes :: "proxied \<Rightarrow> byte list" where
  "proxied_bytes ProxyUnspec = [0, 0, 0]"
| "proxied_bytes (ProxyInet s d sp dp) = [0x11, 0, 12] @ s @ d @ sp @ dp"
| "proxied_bytes (ProxyInet6 s d sp dp) = [0x21, 0, 36] @ s @ d @ sp @ dp"

fun proxied_ok :: "proxied \<Rightarrow> bool" where
  "proxied_ok ProxyUnspec = True"
| "proxied_ok (ProxyInet s d sp dp) = (length s = 4 \<and> length d = 4 \<and> length sp = 2 \<and> length dp = 2)"
| "proxied_ok (ProxyInet6 s d sp dp) = (length s = 16 \<and> length d = 16 \<and> length sp = 2 \<and> length dp = 2)"

lemma sockaddr_field_lengths [simp]:
  "length s = sockaddr_bytes \<Longrightarrow> length (sin_addr s) = 4"
  "length s = sockaddr_bytes \<Longrightarrow> length (sin6_addr s) = 16"
  "length s = sockaddr_bytes \<Longrightarrow> length (sin_port s) = 2"
  by (simp_all add: sin_addr_def sin6_addr_def sin_port_def sockaddr_bytes_def)

lemma proxied_peer_ok:
  "length s = sockaddr_bytes \<Longrightarrow> length d = sockaddr_bytes \<Longrightarrow> proxied_ok (proxied_peer s d)"
  by (simp add: proxied_peer_def)

lemma make_proxy_v2_header_of:
  assumes "length s = sockaddr_bytes" and "length d = sockaddr_bytes"
  shows "make_proxy_v2_header s d = Some (header_of (kSignature @ [0x21] @ proxied_bytes (proxied_peer s d)))"
  using assms
  by (simp add: make_proxy_v2_header_def new_header_of kSignature_def append_ipv4_header_of proxied_peer_def
      is_ipv4_mapped_def append_port_def)

lemma decode_proxied:
  assumes "proxied_ok p"
  shows "decode_proxy_v2 (kSignature @ [0x21] @ proxied_bytes p @ rest) = Some (p, rest)"
  using assms
  by (cases p) (simp_all add: decode_proxy_v2_def kSignature_def split_fields_def Let_def nth_append)

text \<open>
  Property C27. For any two socket addresses the encoder stays within its 52-byte array and produces a
  header of 16, 28 or 52 bytes that a receiver reads back, whatever bytes follow it, as exactly the
  miner's address and port and the address it connected to: in IPv4 form also when both are
  IPv4-mapped, and as an unspecified peer when the families differ or are unknown.
\<close>

theorem proxy_v2_round_trip:
  assumes "length source = sockaddr_bytes" and "length destination = sockaddr_bytes"
  shows "\<exists>h. make_proxy_v2_header source destination = Some h \<and>
    unat (ph_length h) \<in> {16, 28, 52} \<and> length (ph_view h) = unat (ph_length h) \<and>
    decode_proxy_v2 (ph_view h @ rest) = Some (proxied_peer source destination, rest)"
proof -
  let ?p = "proxied_peer source destination"
  let ?bs = "kSignature @ [0x21] @ proxied_bytes ?p"
  have ok: "proxied_ok ?p" using assms by (rule proxied_peer_ok)
  then have len: "length ?bs \<in> {16, 28, 52}" by (cases ?p) (simp_all add: kSignature_def)
  then have small: "length ?bs \<le> 52" by auto
  show ?thesis
    using make_proxy_v2_header_of [OF assms] decode_proxied [OF ok, of rest] len ph_view_header_of [OF small] byte_length [OF small]
    by (simp add: header_of_def)
qed

theorem proxy_v2_round_trip_witness:
  "\<exists>h. make_proxy_v2_header (ipv4_sockaddr [192, 0, 2, 7]) (ipv4_sockaddr [10, 0, 0, 1]) = Some h \<and>
    decode_proxy_v2 (ph_view h @ [0x7b]) = Some (ProxyInet [192, 0, 2, 7] [10, 0, 0, 1] [0, 80] [0, 80], [0x7b])"
proof -
  let ?s = "ipv4_sockaddr [192, 0, 2, 7]" and ?d = "ipv4_sockaddr [10, 0, 0, 1]"
  have "length ?s = sockaddr_bytes" "length ?d = sockaddr_bytes" by code_simp+
  moreover have "proxied_peer ?s ?d = ProxyInet [192, 0, 2, 7] [10, 0, 0, 1] [0, 80] [0, 80]" by code_simp
  ultimately show ?thesis using proxy_v2_round_trip [of ?s ?d "[0x7b]"] by auto
qed

end
