(* ===== verification/Socket_Ops.thy ===== *)
theory Socket_Ops
  imports Os_Interface
begin

text \<open>
  Listening, connecting and waiting, from \<^verbatim>\<open>src/src/net/socket.cpp\<close>, \<^verbatim>\<open>socket.hpp\<close> and \<^verbatim>\<open>unique_fd.hpp\<close>.
  A \<^verbatim>\<open>UniqueFd\<close> is the descriptor it owns; where the code destroys one that still owns a descriptor,
  the model closes it.
\<close>

section \<open>Owned descriptors\<close>

definition fd_valid :: "fd \<Rightarrow> bool" where
  "fd_valid v \<longleftrightarrow> 0 \<le> v"

text \<open>\<^verbatim>\<open>UniqueFd::reset\<close>: the action closes what was owned and returns the replacement to own.\<close>

definition fd_reset :: "'e os \<Rightarrow> fd \<Rightarrow> fd \<Rightarrow> ('e, fd) state" where
  "fd_reset os v replacement =
     do {
       do_if (fd_valid v) (os_close os v);
       State_Monad.return replacement
     }"

definition fd_destroy :: "'e os \<Rightarrow> fd \<Rightarrow> ('e, unit) state" where
  "fd_destroy os v = do { _ \<leftarrow> fd_reset os v (-1); State_Monad.return () }"

text \<open>A wrapper around a call that returns a descriptor holds \<open>-1\<close> when the call failed.\<close>

definition fd_of :: "fd sys \<Rightarrow> fd" where
  "fd_of r = (case r of Inl _ \<Rightarrow> -1 | Inr v \<Rightarrow> v)"

section \<open>Sockets\<close>

definition kDeadPeerTimeout_milliseconds :: nat where
  "kDeadPeerTimeout_milliseconds = 90000"

definition configure_stream_socket :: "'e os \<Rightarrow> fd \<Rightarrow> ('e, unit) state" where
  "configure_stream_socket os file_descriptor =
     do {
       _ \<leftarrow> os_setsockopt os file_descriptor TCP_NODELAY 1;
       _ \<leftarrow> os_setsockopt os file_descriptor SO_KEEPALIVE 1;
       _ \<leftarrow> os_setsockopt os file_descriptor TCP_USER_TIMEOUT kDeadPeerTimeout_milliseconds;
       State_Monad.return ()
     }"

text \<open>A throw while the socket is owned closes it.\<close>

definition listener_error :: "'e os \<Rightarrow> fd \<Rightarrow> string \<Rightarrow> errno \<Rightarrow> ('e, fd result) state" where
  "listener_error os v call error_number =
     do {
       fd_destroy os v;
       State_Monad.return (Inl (IoError (call @ '': '' @ os_strerror os error_number)))
     }"

definition create_listener :: "'e os \<Rightarrow> socket_address \<Rightarrow> nat \<Rightarrow> bool \<Rightarrow> ('e, fd result) state" where
  "create_listener os address backlog reuse_port =
     do {
       created \<leftarrow> os_socket os (sa_family address);
       case created of
         Inl error_number \<Rightarrow> State_Monad.return (Inl (IoError (''socket: '' @ os_strerror os error_number)))
       | Inr v \<Rightarrow>
           do {
             reused \<leftarrow> os_setsockopt os v SO_REUSEADDR 1;
             case reused of
               Inl error_number \<Rightarrow> listener_error os v ''setsockopt(SO_REUSEADDR)'' error_number
             | Inr _ \<Rightarrow>
                 do {
                   ported \<leftarrow> (if reuse_port then os_setsockopt os v SO_REUSEPORT 1 else State_Monad.return (Inr ()));
                   case ported of
                     Inl error_number \<Rightarrow> listener_error os v ''setsockopt(SO_REUSEPORT)'' error_number
                   | Inr _ \<Rightarrow>
                       do {
                         _ \<leftarrow> (if sa_family address = AF_INET6 then os_setsockopt os v IPV6_V6ONLY 0
                               else State_Monad.return (Inr ()));
                         bound \<leftarrow> os_bind os v address;
                         case bound of
                           Inl error_number \<Rightarrow> listener_error os v ''bind'' error_number
                         | Inr _ \<Rightarrow>
                             do {
                               listening \<leftarrow> os_listen os v backlog;
                               case listening of
                                 Inl error_number \<Rightarrow> listener_error os v ''listen'' error_number
                               | Inr _ \<Rightarrow> State_Monad.return (Inr v)
                             }
                       }
                 }
           }
     }"

record connect_start =
  cs_socket :: fd
  cs_connected :: bool

definition no_connect :: connect_start where
  "no_connect = \<lparr>cs_socket = -1, cs_connected = False\<rparr>"

definition abandon_connect :: "'e os \<Rightarrow> fd \<Rightarrow> ('e, connect_start) state" where
  "abandon_connect os v = do { fd_destroy os v; State_Monad.return no_connect }"

definition finish_start :: "'e os \<Rightarrow> socket_address \<Rightarrow> fd \<Rightarrow> ('e, connect_start) state" where
  "finish_start os address v =
     do {
       connected \<leftarrow> os_connect os v address;
       case connected of
         Inr _ \<Rightarrow> State_Monad.return \<lparr>cs_socket = v, cs_connected = True\<rparr>
       | Inl error_number \<Rightarrow>
           (if error_number \<noteq> EINPROGRESS then abandon_connect os v
            else State_Monad.return \<lparr>cs_socket = v, cs_connected = False\<rparr>)
     }"

definition start_connect :: "'e os \<Rightarrow> socket_address \<Rightarrow> socket_address option \<Rightarrow> ('e, connect_start) state" where
  "start_connect os address source_address =
     do {
       created \<leftarrow> os_socket os (sa_family address);
       case created of
         Inl _ \<Rightarrow> State_Monad.return no_connect
       | Inr v \<Rightarrow>
           do {
             configure_stream_socket os v;
             case source_address of
               None \<Rightarrow> finish_start os address v
             | Some source \<Rightarrow>
                 (if sa_family source \<noteq> sa_family address then abandon_connect os v
                  else do {
                    _ \<leftarrow> (if sa_family address = AF_INET then os_setsockopt os v IP_BIND_ADDRESS_NO_PORT 1
                          else State_Monad.return (Inr ()));
                    bound \<leftarrow> os_bind os v source;
                    case bound of
                      Inl _ \<Rightarrow> abandon_connect os v
                    | Inr _ \<Rightarrow> finish_start os address v
                  })
           }
     }"

section \<open>Waiting\<close>

definition POLLIN :: "16 word" where "POLLIN = 1"
definition POLLOUT :: "16 word" where "POLLOUT = 4"
definition POLLERR :: "16 word" where "POLLERR = 8"
definition POLLHUP :: "16 word" where "POLLHUP = 16"
definition POLLNVAL :: "16 word" where "POLLNVAL = 32"

definition INT_MAX :: int where "INT_MAX = 2 ^ 31 - 1"

definition remaining_milliseconds :: "'e os \<Rightarrow> time_point \<Rightarrow> ('e, int) state" where
  "remaining_milliseconds os deadline =
     do {
       now \<leftarrow> os_now os;
       let remaining = cxx_quot (deadline - now) ns_per_millisecond;
       State_Monad.return (if remaining \<le> 0 then 0 else min remaining INT_MAX)
     }"

text \<open>The loop ends only when the descriptor is ready, the deadline passes or the service stops; not returning is \<open>None\<close>.\<close>

partial_function (option) wait_fd :: "'e os \<Rightarrow> fd \<Rightarrow> 16 word \<Rightarrow> time_point \<Rightarrow> 'e \<Rightarrow> (bool \<times> 'e) option" where
  "wait_fd os file_descriptor events deadline e =
     (case run_state (os_stop_requested os) e of (stop, e) \<Rightarrow>
        if stop then Some (False, e)
        else case run_state (remaining_milliseconds os deadline) e of (remaining, e) \<Rightarrow>
          if remaining \<le> 0 then Some (False, e)
          else case run_state (os_poll os file_descriptor events (min remaining 250)) e of (polled, e) \<Rightarrow>
            (case polled of
               Inr (Some revents) \<Rightarrow>
                 Some (revents AND events \<noteq> 0 \<and> revents AND (POLLERR OR POLLHUP OR POLLNVAL) = 0, e)
             | Inr None \<Rightarrow> wait_fd os file_descriptor events deadline e
             | Inl error_number \<Rightarrow>
                 (if error_number \<noteq> EINTR then Some (False, e) else wait_fd os file_descriptor events deadline e)))"

text \<open>An empty result is the descriptor \<open>-1\<close>.\<close>

definition connect_tcp :: "'e os \<Rightarrow> socket_address \<Rightarrow> int \<Rightarrow> 'e \<Rightarrow> (fd \<times> 'e) option" where
  "connect_tcp os address timeout_milliseconds e =
     (case run_state (start_connect os address None) e of (started, e) \<Rightarrow>
        let v = cs_socket started; give_up = (\<lambda>e. Some (-1, snd (run_state (fd_destroy os v) e)))
        in if \<not> fd_valid v then Some (-1, e)
           else if cs_connected started then Some (v, e)
           else case run_state (os_now os) e of (now, e) \<Rightarrow>
             do {
               (ready, e) \<leftarrow> wait_fd os v POLLOUT (now + timeout_milliseconds * ns_per_millisecond) e;
               if \<not> ready then give_up e
               else case run_state (os_socket_error os v) e of
                      (Inl _, e) \<Rightarrow> give_up e
                    | (Inr socket_error, e) \<Rightarrow> if socket_error \<noteq> 0 then give_up e else Some (v, e)
             })"

section \<open>Waiting ends\<close>

text \<open>
  What the loop relies on: a clock reading is not before the instant of the call, no call turns the
  clock back, and a \<^verbatim>\<open>poll\<close> that found nothing took time.
\<close>

definition keeps_time :: "'e os \<Rightarrow> ('e \<Rightarrow> time_point) \<Rightarrow> bool" where
  "keeps_time os clock \<longleftrightarrow>
     (\<forall>e. case run_state (os_now os) e of (t, e') \<Rightarrow> clock e \<le> t \<and> t \<le> clock e') \<and>
     (\<forall>e. clock e \<le> clock (snd (run_state (os_stop_requested os) e))) \<and>
     (\<forall>v events timeout e. case run_state (os_poll os v events timeout) e of (polled, e') \<Rightarrow>
        if polled \<in> {Inr None, Inl EINTR} then clock e < clock e' else clock e \<le> clock e')"

lemma remaining_positive:
  assumes "keeps_time os clock" and "run_state (remaining_milliseconds os deadline) e = (remaining, e')" and "0 < remaining"
  shows "clock e < deadline \<and> clock e \<le> clock e'"
proof -
  obtain now where n: "run_state (os_now os) e = (now, e')"
    and r: "remaining = (if cxx_quot (deadline - now) ns_per_millisecond \<le> 0 then 0
      else min (cxx_quot (deadline - now) ns_per_millisecond) INT_MAX)"
    using assms(2) by (auto simp: remaining_milliseconds_def Let_def split: prod.splits)
  from assms(1) n have "clock e \<le> now" "now \<le> clock e'" by (auto simp: keeps_time_def split: prod.splits)
  moreover have "now < deadline"
    using r assms(3) by (auto simp: cxx_quot_def ns_per_millisecond_def split: if_splits)
  ultimately show ?thesis by simp
qed

lemma wait_fd_total:
  assumes "keeps_time os clock"
  shows "\<exists>ready e'. wait_fd os v events deadline e = Some (ready, e') \<and> clock e \<le> clock e'"
proof (induction "nat (deadline - clock e)" arbitrary: e rule: less_induct)
  case less
  obtain stop e1 where stop: "run_state (os_stop_requested os) e = (stop, e1)" by (cases "run_state (os_stop_requested os) e")
  with assms have c1: "clock e \<le> clock e1" by (metis keeps_time_def snd_conv)
  obtain rem e2 where rem: "run_state (remaining_milliseconds os deadline) e1 = (rem, e2)"
    by (cases "run_state (remaining_milliseconds os deadline) e1")
  obtain polled e3 where poll: "run_state (os_poll os v events (min rem 250)) e2 = (polled, e3)"
    by (cases "run_state (os_poll os v events (min rem 250)) e2")
  from assms poll have c3: "if polled \<in> {Inr None, Inl EINTR} then clock e2 < clock e3 else clock e2 \<le> clock e3"
    unfolding keeps_time_def by (metis (no_types, lifting) case_prod_conv)
  have c2: "clock e1 \<le> clock e2"
    using assms rem by (auto simp: remaining_milliseconds_def keeps_time_def Let_def split: prod.splits) (metis case_prodD order_trans)
  show ?case
  proof (cases "stop \<or> rem \<le> 0 \<or> polled \<notin> {Inr None, Inl EINTR}")
    case True
    with stop rem poll c1 c2 c3 show ?thesis
      by (subst wait_fd.simps) (auto split: sum.splits option.splits)
  next
    case False
    with remaining_positive [OF assms rem] c3 c1 have "nat (deadline - clock e3) < nat (deadline - clock e)" by auto
    from less.hyps [OF this] obtain ready e' where w: "wait_fd os v events deadline e3 = Some (ready, e')" "clock e3 \<le> clock e'"
      by blast
    have "wait_fd os v events deadline e = wait_fd os v events deadline e3"
      using False stop rem poll by (subst wait_fd.simps) auto
    with w c1 c2 c3 False show ?thesis by auto
  qed
qed

section \<open>No descriptor is lost\<close>

text \<open>An action that neither opens nor closes a descriptor.\<close>

definition neutral :: "('e \<Rightarrow> fd set) \<Rightarrow> ('e, 'a) state \<Rightarrow> bool" where
  "neutral opened m \<longleftrightarrow> (\<forall>e. opened (snd (run_state m e)) = opened e)"

text \<open>
  The descriptors the process has open: \<^verbatim>\<open>socket\<close> and \<^verbatim>\<open>accept4\<close> open a new one, \<^verbatim>\<open>close\<close> closes one,
  and no other call changes them.
\<close>

definition opens :: "('e \<Rightarrow> fd set) \<Rightarrow> ('e, 'a sys) state \<Rightarrow> ('a \<Rightarrow> fd) \<Rightarrow> bool" where
  "opens opened m get_fd \<longleftrightarrow>
     (\<forall>e. case run_state m e of
        (Inl _, e') \<Rightarrow> opened e' = opened e
      | (Inr x, e') \<Rightarrow> 0 \<le> get_fd x \<and> get_fd x \<notin> opened e \<and> opened e' = insert (get_fd x) (opened e))"

definition tracks_descriptors :: "'e os \<Rightarrow> ('e \<Rightarrow> fd set) \<Rightarrow> bool" where
  "tracks_descriptors os opened \<longleftrightarrow>
     (\<forall>family. opens opened (os_socket os family) (\<lambda>v. v)) \<and>
     (\<forall>v. opens opened (os_accept4 os v) fst) \<and> opens opened (os_epoll_create os) (\<lambda>v. v) \<and>
     (\<forall>v e. opened (snd (run_state (os_close os v) e)) = opened e - {v}) \<and>
     neutral opened (os_now os) \<and> neutral opened (os_stop_requested os) \<and>
     (\<forall>v opt x. neutral opened (os_setsockopt os v opt x)) \<and> (\<forall>v a. neutral opened (os_bind os v a)) \<and>
     (\<forall>v n. neutral opened (os_listen os v n)) \<and> (\<forall>v a. neutral opened (os_connect os v a)) \<and>
     (\<forall>v. neutral opened (os_socket_error os v)) \<and> (\<forall>v n t. neutral opened (os_poll os v n t))"

lemma neutral_wp: "neutral opened m \<Longrightarrow> (\<And>x e'. opened e' = opened e \<Longrightarrow> Q x e') \<Longrightarrow> wp m Q e"
  unfolding neutral_def by (rule wpI) (metis snd_conv)

lemma opens_wp:
  assumes "opens opened m get_fd"
    and "\<And>error e'. opened e' = opened e \<Longrightarrow> Q (Inl error) e'"
    and "\<And>x e'. 0 \<le> get_fd x \<Longrightarrow> get_fd x \<notin> opened e \<Longrightarrow> opened e' = insert (get_fd x) (opened e) \<Longrightarrow> Q (Inr x) e'"
  shows "wp m Q e"
proof (rule wpI)
  fix x e' assume "run_state m e = (x, e')"
  with assms(1) have "case x of Inl _ \<Rightarrow> opened e' = opened e
      | Inr x \<Rightarrow> 0 \<le> get_fd x \<and> get_fd x \<notin> opened e \<and> opened e' = insert (get_fd x) (opened e)"
    unfolding opens_def by (metis (no_types, lifting) case_prod_conv)
  with assms(2,3) show "Q x e'" by (cases x) auto
qed

lemma tracksD:
  assumes "tracks_descriptors os opened"
  shows "opens opened (os_socket os family) (\<lambda>v. v)" "opens opened (os_accept4 os v) fst" "neutral opened (os_now os)"
    "neutral opened (os_stop_requested os)" "neutral opened (os_setsockopt os v opt x)" "neutral opened (os_bind os v a)"
    "neutral opened (os_listen os v n)" "neutral opened (os_connect os v a)" "neutral opened (os_socket_error os v)"
    "neutral opened (os_poll os v events t)"
  using assms by (simp_all add: tracks_descriptors_def)

lemmas tracks_wp = neutral_wp [OF tracksD(3)] neutral_wp [OF tracksD(5)] neutral_wp [OF tracksD(6)]
  neutral_wp [OF tracksD(7)] neutral_wp [OF tracksD(8)] neutral_wp [OF tracksD(9)] opens_wp [OF tracksD(1)]
  opens_wp [OF tracksD(2)]

text \<open>Waiting opens and closes nothing.\<close>

lemma neutral_run: "neutral opened m \<Longrightarrow> run_state m e = (x, e') \<Longrightarrow> opened e' = opened e"
  by (metis neutral_def snd_conv)

lemma neutral_remaining: "neutral opened (os_now os) \<Longrightarrow> neutral opened (remaining_milliseconds os deadline)"
  by (auto simp: neutral_def remaining_milliseconds_def Let_def split: prod.splits) (metis snd_conv)+

lemma wait_fd_keeps:
  assumes "wait_fd os v events deadline e = Some r" and "tracks_descriptors os opened"
  shows "opened (snd r) = opened e"
proof (rule wait_fd.raw_induct [where P = "\<lambda>os v events deadline e r. tracks_descriptors os opened \<longrightarrow> opened (snd r) = opened e",
      OF _ assms(1), THEN mp, OF _ assms(2)], intro impI, goal_cases)
  case (1 f os v events deadline e r)
  obtain stop e1 rem e2 polled e3 where
    s: "run_state (os_stop_requested os) e = (stop, e1)" "run_state (remaining_milliseconds os deadline) e1 = (rem, e2)"
      "run_state (os_poll os v events (min rem 250)) e2 = (polled, e3)"
    by (metis surj_pair)
  with 1(3) have o: "opened e1 = opened e" "opened e2 = opened e" "opened e3 = opened e"
    using neutral_run [OF tracksD(4) [OF 1(3)] s(1)] neutral_run [OF neutral_remaining [OF tracksD(3) [OF 1(3)]] s(2)]
      neutral_run [OF tracksD(10) [OF 1(3)] s(3)] by simp_all
  with 1 s show ?case by (auto split: if_splits sum.splits option.splits)
qed

text \<open>Closing an owned descriptor, and what is open after it.\<close>

lemma fd_destroy_wp:
  assumes "tracks_descriptors os opened" and "\<And>e'. opened e' = opened e - {v} \<Longrightarrow> Q () e'" and "fd_valid v"
  shows "wp (fd_destroy os v) Q e"
proof -
  from assms(1) have "opened (snd (run_state (os_close os v) e)) = opened e - {v}" by (simp add: tracks_descriptors_def)
  with assms(2) have "wp (os_close os v) (\<lambda>_. Q ()) e" by (intro wpI) simp
  with assms(3) show ?thesis by (simp add: fd_destroy_def fd_reset_def wp_simps)
qed

lemma abandon_connect_wp:
  assumes "tracks_descriptors os opened" and "fd_valid v" and "\<And>e'. opened e' = opened e - {v} \<Longrightarrow> Q no_connect e'"
  shows "wp (abandon_connect os v) Q e"
  unfolding abandon_connect_def wp_simps by (rule fd_destroy_wp [OF assms(1,3,2)])

lemma finish_start_wp:
  assumes t: "tracks_descriptors os opened" and "fd_valid v"
    and "\<And>b e'. opened e' = opened e \<Longrightarrow> Q \<lparr>cs_socket = v, cs_connected = b\<rparr> e'"
    and "\<And>e'. opened e' = opened e - {v} \<Longrightarrow> Q no_connect e'"
  shows "wp (finish_start os address v) Q e"
  unfolding finish_start_def wp_simps
  by (rule tracks_wp(5) [OF t]) (use assms in \<open>auto split: sum.splits intro!: abandon_connect_wp [OF t]\<close>)

lemma configure_wp:
  assumes t: "tracks_descriptors os opened" and "\<And>e'. opened e' = opened e \<Longrightarrow> Q () e'"
  shows "wp (configure_stream_socket os v) Q e"
  unfolding configure_stream_socket_def wp_simps
  by (rule tracks_wp(2) [OF t], rule tracks_wp(2) [OF t], rule tracks_wp(2) [OF t]) (use assms in simp)

text \<open>What a connect attempt leaves open: its own socket when it returns one, nothing otherwise.\<close>

definition connect_post :: "('e \<Rightarrow> fd set) \<Rightarrow> 'e \<Rightarrow> fd \<Rightarrow> 'e \<Rightarrow> bool" where
  "connect_post opened e v e' \<longleftrightarrow>
     (if fd_valid v then v \<notin> opened e \<and> opened e' = insert v (opened e) else opened e' = opened e)"

lemma connect_postI:
  "0 \<le> v \<Longrightarrow> v \<notin> opened e \<Longrightarrow> opened e' = insert v (opened e) \<Longrightarrow> connect_post opened e v e'"
  "opened e' = opened e \<Longrightarrow> connect_post opened e (-1) e'"
  "v \<notin> opened e \<Longrightarrow> opened e' = insert v (opened e) - {v} \<Longrightarrow> connect_post opened e (-1) e'"
  by (auto simp: connect_post_def fd_valid_def)

lemma bind_source_wp:
  assumes t: "tracks_descriptors os opened" and "\<And>x e'. opened e' = opened e \<Longrightarrow> Q x e'"
  shows "wp (if b then os_setsockopt os v opt n else State_Monad.return (Inr ())) Q e"
  using assms by (auto simp: wp_simps intro: tracks_wp(2))

lemma start_connect_wp:
  assumes t: "tracks_descriptors os opened"
  shows "wp (start_connect os address source) (\<lambda>c. connect_post opened e (cs_socket c)) e"
  unfolding start_connect_def wp_simps
proof (rule tracks_wp(7) [OF t], goal_cases)
  case (1 error e')
  then show ?case by (simp add: wp_simps no_connect_def connect_postI)
next
  case (2 v e')
  then have fin: "opened e'' = opened e' \<Longrightarrow> wp (finish_start os address v) (\<lambda>c. connect_post opened e (cs_socket c)) e''" for e''
    by (intro finish_start_wp [OF t]) (simp_all add: fd_valid_def no_connect_def connect_post_def)
  from 2 have quit: "opened e'' = opened e' \<Longrightarrow> wp (abandon_connect os v) (\<lambda>c. connect_post opened e (cs_socket c)) e''" for e''
    by (intro abandon_connect_wp [OF t]) (simp_all add: fd_valid_def no_connect_def connect_post_def)
  show ?case
    by (auto simp: wp_simps split: option.splits sum.splits intro!: configure_wp [OF t] fin quit bind_source_wp [OF t] tracks_wp(2,3) [OF t])
qed

text \<open>
  Property C37. A connection attempt never leaks a descriptor: with \<^verbatim>\<open>wait_fd\<close> returning on a clock that
  advances, \<^verbatim>\<open>connect_tcp\<close> returns, and afterwards exactly the socket it hands out is open in addition
  to what was open before, or nothing when it hands out none; errors, refusals, time-outs and a stop
  request included.
\<close>

theorem connect_tcp_no_leak:
  assumes "keeps_time os clock" and "tracks_descriptors os opened"
  shows "\<exists>v e'. connect_tcp os address timeout_milliseconds e = Some (v, e') \<and> connect_post opened e v e'"
proof -
  obtain c e1 where c: "run_state (start_connect os address None) e = (c, e1)"
    by (cases "run_state (start_connect os address None) e")
  let ?v = "cs_socket c"
  have p: "connect_post opened e ?v e1" using wp_run [OF start_connect_wp [OF assms(2)] c] .
  obtain now e2 where now: "run_state (os_now os) e1 = (now, e2)" by (cases "run_state (os_now os) e1")
  let ?deadline = "now + timeout_milliseconds * ns_per_millisecond"
  obtain ready e3 where w: "wait_fd os ?v POLLOUT ?deadline e2 = Some (ready, e3)"
    using wait_fd_total [OF assms(1)] by blast
  have o3: "opened e3 = opened e1"
    using wait_fd_keeps [OF w assms(2)] neutral_run [OF tracksD(3) [OF assms(2)] now] by simp
  obtain err e4 where err: "run_state (os_socket_error os ?v) e3 = (err, e4)" by (cases "run_state (os_socket_error os ?v) e3")
  then have o4: "opened e4 = opened e1" using o3 neutral_run [OF tracksD(9) [OF assms(2)]] by blast
  have closed: "connect_post opened e (-1) (snd (run_state (fd_destroy os ?v) e'))" if "opened e' = opened e1" "fd_valid ?v" for e'
  proof -
    have "wp (fd_destroy os ?v) (\<lambda>_. connect_post opened e (-1)) e'"
      using that p by (intro fd_destroy_wp [OF assms(2)] connect_postI(3)) (auto simp: connect_post_def fd_valid_def)
    then show ?thesis by (simp add: wp_def split: prod.splits)
  qed
  show ?thesis
  proof (cases "fd_valid ?v \<and> \<not> cs_connected c")
    case True
    moreover have "connect_post opened e ?v e4" using p o4 by (simp add: connect_post_def)
    ultimately show ?thesis using c now w err closed [OF o3] closed [OF o4]
      by (auto simp: connect_tcp_def Let_def split: sum.splits)
  next
    case False
    moreover have "connect_post opened e (-1) e1" if "\<not> fd_valid ?v" using p that by (simp add: connect_post_def fd_valid_def)
    ultimately show ?thesis using c p by (auto simp: connect_tcp_def Let_def)
  qed
qed

text \<open>
  An operating system on which nothing ever becomes ready: descriptors are numbered upwards, every
  call takes a nanosecond, a connection is always in progress.
\<close>

record idle_state =
  idle_clock :: time_point
  idle_open :: "fd list"

definition tick :: "(idle_state \<Rightarrow> 'a) \<Rightarrow> (idle_state \<Rightarrow> idle_state) \<Rightarrow> (idle_state, 'a) state" where
  "tick r f = State (\<lambda>e. (r e, f (e\<lparr>idle_clock := idle_clock e + 1\<rparr>)))"

abbreviation idle_call :: "'a \<Rightarrow> (idle_state, 'a) state" where
  "idle_call x \<equiv> tick (\<lambda>_. x) id"

definition idle_next :: "idle_state \<Rightarrow> fd" where
  "idle_next e = foldr max (idle_open e) 0 + 1"

definition idle_open_fd :: "idle_state \<Rightarrow> idle_state" where
  "idle_open_fd e = e\<lparr>idle_open := idle_next e # idle_open e\<rparr>"

definition idle_os :: "idle_state os" where
  "idle_os =
     \<lparr>os_now = tick idle_clock id, os_stop_requested = idle_call False, os_wait_until = (\<lambda>_. idle_call ()),
      os_strerror = (\<lambda>_. ''error''),
      os_socket = (\<lambda>_. tick (\<lambda>e. Inr (idle_next e)) idle_open_fd), os_setsockopt = (\<lambda>_ _ _. idle_call (Inr ())),
      os_bind = (\<lambda>_ _. idle_call (Inr ())), os_listen = (\<lambda>_ _. idle_call (Inr ())),
      os_connect = (\<lambda>_ _. idle_call (Inl EINPROGRESS)), os_socket_error = (\<lambda>_. idle_call (Inr 0)),
      os_accept4 = (\<lambda>_. idle_call (Inl EAGAIN)), os_getsockname = (\<lambda>_. idle_call (Inr [])),
      os_close = (\<lambda>v. tick (\<lambda>_. ()) (idle_open_update (filter (\<lambda>x. x \<noteq> v)))),
      os_poll = (\<lambda>_ _ _. idle_call (Inr None)), os_send = (\<lambda>_ _. idle_call (Inl EAGAIN)),
      os_recv = (\<lambda>_ _. idle_call (Inl EAGAIN)), os_epoll_create = tick (\<lambda>e. Inr (idle_next e)) idle_open_fd,
      os_epoll_add = (\<lambda>_ _ _. idle_call (Inr ())),
      os_epoll_mod = (\<lambda>_ _ _. idle_call (Inr ())), os_epoll_del = (\<lambda>_. idle_call (Inr ())),
      os_epoll_wait = (\<lambda>_ _. idle_call (Inr [])), os_ssl_new = (\<lambda>_ _. idle_call None),
      os_ssl_accept = (\<lambda>_. idle_call (Inl (SSL_ERROR_WANT_READ, EAGAIN))),
      os_ssl_read = (\<lambda>_ _. idle_call (Inl (SSL_ERROR_WANT_READ, EAGAIN))),
      os_ssl_write = (\<lambda>_ _. idle_call (Inl (SSL_ERROR_WANT_WRITE, EAGAIN))),
      os_ssl_pending = (\<lambda>_. idle_call 0), os_ssl_free = (\<lambda>_. idle_call ())\<rparr>"

lemma run_tick [simp]: "run_state (tick r f) e = (r e, f (e\<lparr>idle_clock := idle_clock e + 1\<rparr>))"
  by (simp add: tick_def)

lemma idle_next_fresh: "0 \<le> idle_next e \<and> idle_next e \<notin> set (idle_open e)"
proof -
  have "0 \<le> foldr max vs (0 :: int) \<and> (\<forall>v\<in>set vs. v \<le> foldr max vs 0)" for vs
    by (induction vs) (auto simp: le_max_iff_disj)
  from this [of "idle_open e"] show ?thesis by (fastforce simp: idle_next_def)
qed

lemma idle_keeps_time: "keeps_time idle_os idle_clock"
  by (simp add: keeps_time_def idle_os_def)

lemma idle_tracks: "tracks_descriptors idle_os (\<lambda>e. set (idle_open e))"
  using idle_next_fresh by (auto simp: tracks_descriptors_def idle_os_def opens_def neutral_def idle_open_fd_def idle_next_def)

theorem connect_tcp_no_leak_witness:
  "\<exists>v e'. connect_tcp idle_os \<lparr>sa_value = [], sa_length = 0, sa_family = AF_INET\<rparr> 3000 \<lparr>idle_clock = 0, idle_open = [4]\<rparr> = Some (v, e') \<and>
     connect_post (\<lambda>e. set (idle_open e)) \<lparr>idle_clock = 0, idle_open = [4]\<rparr> v e'"
  by (rule connect_tcp_no_leak [OF idle_keeps_time idle_tracks])

end
