(* ===== verification/Reactor_State.thy ===== *)
theory Reactor_State
  imports Service_State Rate_Limiter Timer_Wheel Pending_Buffer Proxy_Protocol Socket_Ops
begin

text \<open>
  State of a reactor worker and its sessions, from the first part of \<^verbatim>\<open>src/src/net/reactor.cpp\<close>: constants,
  the session structure, traffic tokens, event tokens, and the reads and writes on the sockets of a
  session. Handlers are actions over the state of the worker. A \<^verbatim>\<open>Session&\<close> parameter is the session in
  focus: it is taken out of the table when a handler is entered and written back when it returns.
\<close>

section \<open>Constants and enumerations\<close>

definition kListenBacklog :: nat where "kListenBacklog = 65535"
definition kMaximumEvents :: nat where "kMaximumEvents = 1024"
definition kEpollWaitMilliseconds :: int where "kEpollWaitMilliseconds = 250"
definition kIoChunkBytes :: nat where "kIoChunkBytes = 16384"
definition kMaximumBytesPerReadyEvent :: nat where "kMaximumBytesPerReadyEvent = 65536"
definition kMaximumAcceptsPerReadyEvent :: nat where "kMaximumAcceptsPerReadyEvent = 128"
definition kAcceptResourceBackoff :: int where "kAcceptResourceBackoff = 250 * ns_per_millisecond"
definition kEventKindMask :: u64 where "kEventKindMask = 3"
definition kQueueMarkDivisor :: nat where "kQueueMarkDivisor = 2"
definition kRelayStallTimeout :: int where "kRelayStallTimeout = 60 * ns_per_second"
definition kSharedQueuePausePercent :: nat where "kSharedQueuePausePercent = 75"
definition kSharedQueueResumePercent :: nat where "kSharedQueueResumePercent = 50"
definition kPercentWhole :: nat where "kPercentWhole = 100"
definition kMaximumConsecutiveProtocolErrors :: nat where "kMaximumConsecutiveProtocolErrors = 32"

text \<open>The event masks of \<^verbatim>\<open>sys/epoll.h\<close>.\<close>

definition EPOLLIN :: "32 word" where "EPOLLIN = 1"
definition EPOLLOUT :: "32 word" where "EPOLLOUT = 4"
definition EPOLLERR :: "32 word" where "EPOLLERR = 8"
definition EPOLLHUP :: "32 word" where "EPOLLHUP = 16"
definition EPOLLRDHUP :: "32 word" where "EPOLLRDHUP = 0x2000"

lemmas epoll_masks = EPOLLIN_def EPOLLOUT_def EPOLLERR_def EPOLLHUP_def EPOLLRDHUP_def

text \<open>A cast from two bits can also give a value without an enumerator.\<close>

datatype event_kind = ClientEvent | UpstreamEvent | ListenerEvent | UnnamedEvent

datatype session_stage = TlsHandshake | FirstMessage | UpstreamConnect | Relay

datatype io_status = Data | RetryRead | RetryWrite | Closed | Error

datatype tls_operation = NoTlsOperation | TlsOpHandshake | TlsOpRead | TlsOpWrite

datatype io_direction = DirRead | DirWrite

record io_result =
  io_status :: io_status
  io_size :: nat

record listener_state =
  ls_socket :: fd
  ls_tls_enabled :: bool
  ls_registered :: bool
  ls_resume_at :: time_point

section \<open>Sources of upstream connections\<close>

definition compatible_source_count :: "socket_address list \<Rightarrow> nat \<Rightarrow> nat" where
  "compatible_source_count sources family = length (filter (\<lambda>source. sa_family source = family) sources)"

fun pick_source :: "socket_address list \<Rightarrow> nat \<Rightarrow> nat \<Rightarrow> socket_address option" where
  "pick_source [] family selected = None"
| "pick_source (source # sources) family selected =
     (if sa_family source \<noteq> family then pick_source sources family selected
      else if selected = 0 then Some source
      else pick_source sources family (selected - 1))"

definition select_compatible_source :: "socket_address list \<Rightarrow> nat \<Rightarrow> nat \<Rightarrow> socket_address option" where
  "select_compatible_source sources family sequence =
     (let how_many = compatible_source_count sources family
      in if how_many = 0 then None else pick_source sources family (sequence mod how_many))"

section \<open>Sessions\<close>

record session =
  se_id :: nat
  se_client :: fd
  se_upstream :: fd
  se_ssl :: "nat option"
  se_runtime :: runtime_snapshot
  se_backend :: "backend_ref option"
  se_proxy_header :: proxy_v2_header
  se_admission :: "lease option"
  se_line_buffer :: cxx_string
  se_to_upstream :: pending_buffer
  se_to_client :: pending_buffer
  se_stage :: session_stage
  se_deadline :: time_point
  se_upstream_overall_deadline :: time_point
  se_last_activity :: time_point
  se_stall_deadline :: time_point
  se_client_events :: "32 word"
  se_upstream_events :: "32 word"
  se_timeout_generation :: nat
  se_upstream_source_sequence :: nat
  se_current_backend_address :: nat
  se_next_backend_address :: nat
  se_backend_addresses_remaining :: nat
  se_current_address_sources_remaining :: nat
  se_connect_candidates_remaining :: nat
  se_message_tokens :: double
  se_byte_tokens :: double
  se_traffic_updated_at :: time_point
  se_tls_handshake_started_at :: time_point
  se_protocol_state :: protocol_state
  se_backend_counted :: bool
  se_client_read_closed :: bool
  se_upstream_read_closed :: bool
  se_queue_limit_exceeded :: bool
  se_client_read_paused :: bool
  se_upstream_read_paused :: bool
  se_client_queue_stalled :: bool
  se_upstream_queue_stalled :: bool
  se_shared_pressure_paused :: bool
  se_consecutive_protocol_errors :: nat
  se_tls_operation :: tls_operation
  se_tls_direction :: io_direction
  se_client_write_retry_bytes :: nat

definition new_session :: "runtime_snapshot \<Rightarrow> session" where
  "new_session runtime =
     \<lparr>se_id = 0, se_client = -1, se_upstream = -1, se_ssl = None, se_runtime = runtime, se_backend = None,
      se_proxy_header = new_header, se_admission = None, se_line_buffer = empty_string,
      se_to_upstream = pb_new, se_to_client = pb_new, se_stage = FirstMessage, se_deadline = 0,
      se_upstream_overall_deadline = 0, se_last_activity = 0, se_stall_deadline = 0,
      se_client_events = EPOLLIN OR EPOLLRDHUP, se_upstream_events = 0, se_timeout_generation = 0,
      se_upstream_source_sequence = 0, se_current_backend_address = 0, se_next_backend_address = 0,
      se_backend_addresses_remaining = 0, se_current_address_sources_remaining = 0,
      se_connect_candidates_remaining = 0, se_message_tokens = Fin 0, se_byte_tokens = Fin 0,
      se_traffic_updated_at = 0, se_tls_handshake_started_at = 0,
      se_protocol_state = initial_state, se_backend_counted = False, se_client_read_closed = False,
      se_upstream_read_closed = False, se_queue_limit_exceeded = False, se_client_read_paused = False,
      se_upstream_read_paused = False, se_client_queue_stalled = False, se_upstream_queue_stalled = False,
      se_shared_pressure_paused = False, se_consecutive_protocol_errors = 0,
      se_tls_operation = NoTlsOperation, se_tls_direction = DirRead, se_client_write_retry_bytes = 0\<rparr>"

abbreviation se_limits :: "session \<Rightarrow> limits_config" where
  "se_limits session \<equiv> cfg_limits (rs_config (se_runtime session))"

text \<open>The bytes a session accounts for in the shared budget.\<close>

definition se_queued :: "session \<Rightarrow> nat" where
  "se_queued session =
     length (chars (se_line_buffer session)) + pb_size (se_to_upstream session) + pb_size (se_to_client session)"

definition queue_pause_bytes :: "limits_config \<Rightarrow> nat" where
  "queue_pause_bytes limits =
     (let headroom = wrap64 (max_line_bytes limits + kIoChunkBytes)
      in if max_buffer_bytes limits \<le> headroom then max_buffer_bytes limits
         else min (max_buffer_bytes limits div kQueueMarkDivisor) (max_buffer_bytes limits - headroom))"

definition queue_resume_bytes :: "limits_config \<Rightarrow> nat" where
  "queue_resume_bytes limits = queue_pause_bytes limits div kQueueMarkDivisor"

definition consume_session_traffic :: "nat \<Rightarrow> nat \<Rightarrow> time_point \<Rightarrow> session \<Rightarrow> bool \<times> session" where
  "consume_session_traffic bytes messages now session =
     (let limits = se_limits session;
          message_burst = double_of_nat (message_burst_per_connection limits);
          byte_burst = double_of_nat (byte_burst_per_connection limits);
          session =
            (if se_traffic_updated_at session = 0
             then session\<lparr>se_message_tokens := message_burst, se_byte_tokens := byte_burst\<rparr>
             else let elapsed = elapsed_seconds (now - se_traffic_updated_at session)
                  in session\<lparr>
                       se_message_tokens := double_min message_burst
                         (double_add (se_message_tokens session) (double_mul elapsed (messages_per_second_per_connection limits))),
                       se_byte_tokens := double_min byte_burst
                         (double_add (se_byte_tokens session) (double_mul elapsed (bytes_per_second_per_connection limits)))\<rparr>);
          session = session\<lparr>se_traffic_updated_at := now\<rparr>
      in if double_less (se_message_tokens session) (double_of_nat messages) \<or>
            double_less (se_byte_tokens session) (double_of_nat bytes)
         then (False, session)
         else (True, session\<lparr>
                se_message_tokens := double_sub (se_message_tokens session) (double_of_nat messages),
                se_byte_tokens := double_sub (se_byte_tokens session) (double_of_nat bytes)\<rparr>))"

section \<open>Event tokens\<close>

fun event_kind_value :: "event_kind \<Rightarrow> u64" where
  "event_kind_value ClientEvent = 0"
| "event_kind_value UpstreamEvent = 1"
| "event_kind_value ListenerEvent = 2"
| "event_kind_value UnnamedEvent = 3"

definition event_token :: "u64 \<Rightarrow> event_kind \<Rightarrow> u64" where
  "event_token ident kind = push_bit 2 ident OR event_kind_value kind"

definition event_id :: "u64 \<Rightarrow> u64" where
  "event_id token = drop_bit 2 token"

definition event_kind_of :: "u64 \<Rightarrow> event_kind" where
  "event_kind_of token =
     (let v = token AND kEventKindMask
      in if v = 0 then ClientEvent else if v = 1 then UpstreamEvent else if v = 2 then ListenerEvent else UnnamedEvent)"

definition io_direction_ready :: "io_direction \<Rightarrow> 32 word \<Rightarrow> bool" where
  "io_direction_ready direction events =
     (let required = (if direction = DirRead then EPOLLIN else EPOLLOUT) in events AND required \<noteq> 0)"

definition is_accept_resource_error :: "errno \<Rightarrow> bool" where
  "is_accept_resource_error error_number =
     (error_number = EMFILE \<or> error_number = ENFILE \<or> error_number = ENOBUFS \<or> error_number = ENOMEM)"

section \<open>The worker\<close>

text \<open>
  What the worker is built on and cannot change: the operating system, the JSON library, and the order
  in which a hash table of the limiter is walked.
\<close>

record ('e, 'g) deps =
  d_os :: "'e os"
  d_glaze :: "'g glaze"
  d_order :: iteration_order

text \<open>
  \<open>re_fault\<close> records that the model left what C++ defines or ran out of a loop bound; that it never
  happens is proved. \<open>re_worker\<close> is the worker's own element of the shared statistics.
\<close>

record 'e reactor =
  re_env :: 'e
  re_epoll :: fd
  re_state :: service_state
  re_tls :: tls_context_store
  re_limiter :: rate_limiter
  re_worker :: worker_stats
  re_backends :: backend_store
  re_listeners :: "listener_state list"
  re_sessions :: "(nat \<times> session) list"
  re_wheel :: timer_wheel
  re_next_session_id :: nat
  re_route_sequence :: nat
  re_source_sequence :: nat
  re_session :: session
  re_fault :: bool

type_synonym ('e, 'a) handler = "('e reactor, 'a) state"

definition os_do :: "('e, 'a) state \<Rightarrow> ('e, 'a) handler" where
  "os_do m = State (\<lambda>w. case run_state m (re_env w) of (x, e) \<Rightarrow> (x, w\<lparr>re_env := e\<rparr>))"

definition se_get :: "(session \<Rightarrow> 'a) \<Rightarrow> ('e, 'a) handler" where
  "se_get f = gets (\<lambda>w. f (re_session w))"

definition se_set :: "(session \<Rightarrow> session) \<Rightarrow> ('e, unit) handler" where
  "se_set f = modify (\<lambda>w. w\<lparr>re_session := f (re_session w)\<rparr>)"

definition worker_do :: "(worker_stats \<Rightarrow> worker_stats) \<Rightarrow> ('e, unit) handler" where
  "worker_do f = modify (\<lambda>w. w\<lparr>re_worker := f (re_worker w)\<rparr>)"

definition stats_do :: "(stats \<Rightarrow> stats) \<Rightarrow> ('e, unit) handler" where
  "stats_do f = modify (\<lambda>w. w\<lparr>re_state := (re_state w)\<lparr>ss_stats := f (ss_stats (re_state w))\<rparr>\<rparr>)"

definition backend_do :: "backend_ref \<Rightarrow> (backend_state \<Rightarrow> backend_state) \<Rightarrow> ('e, unit) handler" where
  "backend_do ref f = modify (\<lambda>w. w\<lparr>re_backends := (re_backends w)[ref := f (re_backends w ! ref)]\<rparr>)"

definition fault :: "('e, unit) handler" where
  "fault = modify (\<lambda>w. w\<lparr>re_fault := True\<rparr>)"

definition now :: "('e, 'g) deps \<Rightarrow> ('e, time_point) handler" where
  "now d = os_do (os_now (d_os d))"

section \<open>Reading and writing\<close>

text \<open>The bytes a read put into the buffer come back with the result.\<close>

definition read_client :: "('e, 'g) deps \<Rightarrow> nat \<Rightarrow> ('e, io_status \<times> string) handler" where
  "read_client d capacity =
     do {
       ssl \<leftarrow> se_get se_ssl;
       case ssl of
         Some stream \<Rightarrow>
           do {
             result \<leftarrow> os_do (os_ssl_read (d_os d) stream capacity);
             case result of
               Inr bytes \<Rightarrow>
                 (if bytes \<noteq> []
                  then do { se_set (se_tls_operation_update (\<lambda>_. NoTlsOperation)); State_Monad.return (Data, bytes) }
                  else State_Monad.return (Error, []))
             | Inl (error, system_error) \<Rightarrow>
                 (if error = SSL_ERROR_WANT_READ
                  then do { se_set (se_tls_operation_update (\<lambda>_. NoTlsOperation)); State_Monad.return (RetryRead, []) }
                  else if error = SSL_ERROR_WANT_WRITE
                  then do {
                    se_set (\<lambda>s. s\<lparr>se_tls_operation := TlsOpRead, se_tls_direction := DirWrite\<rparr>);
                    State_Monad.return (RetryWrite, [])
                  }
                  else if error = SSL_ERROR_ZERO_RETURN then State_Monad.return (Closed, [])
                  else if error = SSL_ERROR_SYSCALL \<and> system_error = EINTR
                  then do {
                    se_set (\<lambda>s. if se_tls_operation s \<noteq> TlsOpRead
                                then s\<lparr>se_tls_operation := TlsOpRead, se_tls_direction := DirRead\<rparr> else s);
                    direction \<leftarrow> se_get se_tls_direction;
                    State_Monad.return (if direction = DirRead then RetryRead else RetryWrite, [])
                  }
                  else State_Monad.return (Error, []))
           }
       | None \<Rightarrow>
           do {
             client \<leftarrow> se_get se_client;
             result \<leftarrow> os_do (os_recv (d_os d) client capacity);
             case result of
               Inr bytes \<Rightarrow> State_Monad.return (if bytes \<noteq> [] then (Data, bytes) else (Closed, []))
             | Inl error_number \<Rightarrow>
                 State_Monad.return (if error_number \<in> {EAGAIN, EINTR} then (RetryRead, []) else (Error, []))
           }
     }"

text \<open>A TLS write that has to be repeated is repeated with the same length.\<close>

definition client_write_size :: "session \<Rightarrow> nat" where
  "client_write_size s =
     (if 0 < se_client_write_retry_bytes s then se_client_write_retry_bytes s
      else min (pb_size (se_to_client s)) kMaximumBytesPerReadyEvent)"

definition write_client :: "('e, 'g) deps \<Rightarrow> ('e, io_result) handler" where
  "write_client d =
     do {
       s \<leftarrow> se_get id;
       if pb_empty (se_to_client s) then State_Monad.return \<lparr>io_status = Data, io_size = 0\<rparr>
       else case se_ssl s of
         Some stream \<Rightarrow>
           do {
             let write_size = client_write_size s;
             do_if (pb_size (se_to_client s) < write_size) fault;
             result \<leftarrow> os_do (os_ssl_write (d_os d) stream (take write_size (pb_bytes (se_to_client s))));
             case result of
               Inr n \<Rightarrow>
                 (if 0 < n
                  then do {
                    se_set (\<lambda>s. s\<lparr>se_to_client := pb_consume (se_to_client s) n,
                                  se_tls_operation := NoTlsOperation, se_client_write_retry_bytes := 0\<rparr>);
                    State_Monad.return \<lparr>io_status = Data, io_size = n\<rparr>
                  }
                  else State_Monad.return \<lparr>io_status = Error, io_size = 0\<rparr>)
             | Inl (error, system_error) \<Rightarrow>
                 (if error = SSL_ERROR_WANT_READ
                  then do {
                    se_set (\<lambda>s. s\<lparr>se_tls_operation := TlsOpWrite, se_tls_direction := DirRead,
                                  se_client_write_retry_bytes := write_size\<rparr>);
                    State_Monad.return \<lparr>io_status = RetryRead, io_size = 0\<rparr>
                  }
                  else if error = SSL_ERROR_WANT_WRITE
                  then do {
                    se_set (\<lambda>s. s\<lparr>se_tls_operation := TlsOpWrite, se_tls_direction := DirWrite,
                                  se_client_write_retry_bytes := write_size\<rparr>);
                    State_Monad.return \<lparr>io_status = RetryWrite, io_size = 0\<rparr>
                  }
                  else if error = SSL_ERROR_SYSCALL \<and> system_error = EINTR
                  then do {
                    se_set (\<lambda>s. (if se_tls_operation s \<noteq> TlsOpWrite
                                 then s\<lparr>se_tls_operation := TlsOpWrite, se_tls_direction := DirWrite\<rparr> else s)
                                \<lparr>se_client_write_retry_bytes := write_size\<rparr>);
                    direction \<leftarrow> se_get se_tls_direction;
                    State_Monad.return
                      \<lparr>io_status = (if direction = DirRead then RetryRead else RetryWrite), io_size = 0\<rparr>
                  }
                  else State_Monad.return \<lparr>io_status = Error, io_size = 0\<rparr>)
           }
       | None \<Rightarrow>
           do {
             result \<leftarrow> os_do (os_send (d_os d) (se_client s)
               (take (min (pb_size (se_to_client s)) kMaximumBytesPerReadyEvent) (pb_bytes (se_to_client s))));
             case result of
               Inr n \<Rightarrow>
                 (if 0 < n
                  then do {
                    se_set (\<lambda>s. s\<lparr>se_to_client := pb_consume (se_to_client s) n\<rparr>);
                    State_Monad.return \<lparr>io_status = Data, io_size = n\<rparr>
                  }
                  else State_Monad.return \<lparr>io_status = Error, io_size = 0\<rparr>)
             | Inl error_number \<Rightarrow>
                 State_Monad.return
                   \<lparr>io_status = (if error_number \<in> {EAGAIN, EINTR} then RetryWrite else Error), io_size = 0\<rparr>
           }
     }"

definition write_upstream :: "('e, 'g) deps \<Rightarrow> ('e, io_result) handler" where
  "write_upstream d =
     do {
       s \<leftarrow> se_get id;
       if pb_empty (se_to_upstream s) then State_Monad.return \<lparr>io_status = Data, io_size = 0\<rparr>
       else do {
         result \<leftarrow> os_do (os_send (d_os d) (se_upstream s)
           (take (min (pb_size (se_to_upstream s)) kMaximumBytesPerReadyEvent) (pb_bytes (se_to_upstream s))));
         case result of
           Inr n \<Rightarrow>
             (if 0 < n
              then do {
                se_set (\<lambda>s. s\<lparr>se_to_upstream := pb_consume (se_to_upstream s) n\<rparr>);
                State_Monad.return \<lparr>io_status = Data, io_size = n\<rparr>
              }
              else State_Monad.return \<lparr>io_status = Error, io_size = 0\<rparr>)
         | Inl error_number \<Rightarrow>
             State_Monad.return
               \<lparr>io_status = (if error_number \<in> {EAGAIN, EINTR} then RetryWrite else Error), io_size = 0\<rparr>
       }
     }"

end
