(* ===== verification/Reactor_Session.thy ===== *)
theory Reactor_Session
  imports Reactor_State
begin

text \<open>
  The handlers that act on one session, from \<^verbatim>\<open>src/src/net/reactor.cpp\<close>: byte accounting, timeouts, the
  upstream connection, the line protocol of the client, relaying in both directions, back pressure and
  event interests. The result of a handler is whether the session is kept, as in the code. Memory
  exhaustion is not modelled: appending to a string succeeds.
\<close>

section \<open>Byte accounting\<close>

definition reserve_queued_bytes :: "nat \<Rightarrow> ('e, bool) handler" where
  "reserve_queued_bytes bytes =
     do {
       stats \<leftarrow> gets (\<lambda>w. ss_stats (re_state w));
       let (stats, reserved) = try_reserve_queued_bytes stats bytes;
       stats_do (\<lambda>_. stats);
       if reserved then State_Monad.return True
       else do {
         worker_do (\<lambda>ws. ws\<lparr>rejected_queue_limit := fetch_add (rejected_queue_limit ws) 1\<rparr>);
         State_Monad.return False
       }
     }"

definition release_bytes :: "nat \<Rightarrow> ('e, unit) handler" where
  "release_bytes bytes = stats_do (\<lambda>s. release_queued_bytes s bytes)"

text \<open>The buffer argument is the field of the session it names.\<close>

definition append_queued ::
  "((pending_buffer \<Rightarrow> pending_buffer) \<Rightarrow> session \<Rightarrow> session) \<Rightarrow> string \<Rightarrow> ('e, bool) handler" where
  "append_queued buffer bytes =
     do {
       reserved \<leftarrow> reserve_queued_bytes (length bytes);
       if \<not> reserved then State_Monad.return False
       else do { se_set (buffer (\<lambda>b. pb_append b bytes)); State_Monad.return True }
     }"

definition prepend_queued ::
  "((pending_buffer \<Rightarrow> pending_buffer) \<Rightarrow> session \<Rightarrow> session) \<Rightarrow> string \<Rightarrow> ('e, bool) handler" where
  "prepend_queued buffer bytes =
     do {
       reserved \<leftarrow> reserve_queued_bytes (length bytes);
       if \<not> reserved then State_Monad.return False
       else do { se_set (buffer (\<lambda>b. pb_prepend b bytes)); State_Monad.return True }
     }"

definition append_line_bytes :: "string \<Rightarrow> ('e, bool) handler" where
  "append_line_bytes bytes =
     do {
       reserved \<leftarrow> reserve_queued_bytes (length bytes);
       if \<not> reserved then State_Monad.return False
       else do { se_set (se_line_buffer_update (\<lambda>b. str_append b bytes)); State_Monad.return True }
     }"

definition release_active_slot :: "('e, unit) handler" where
  "release_active_slot =
     do {
       stats_do (\<lambda>s. s\<lparr>active_connections := fetch_sub (active_connections s) 1\<rparr>);
       worker_do (\<lambda>ws. ws\<lparr>worker_active_connections := fetch_sub (worker_active_connections ws) 1\<rparr>)
     }"

definition protocol_error :: "validation_error \<Rightarrow> ('e, unit) handler" where
  "protocol_error error = worker_do (\<lambda>ws. record_protocol_error ws error)"

section \<open>Timeouts\<close>

definition timeout_deadline :: "session \<Rightarrow> time_point" where
  "timeout_deadline session =
     (if se_stage session \<noteq> Relay then se_deadline session
      else if se_client_queue_stalled session \<or> se_upstream_queue_stalled session then se_stall_deadline session
      else se_last_activity session + idle_timeout_seconds (se_limits session) * ns_per_second)"

definition schedule_timeout :: "('e, unit) handler" where
  "schedule_timeout =
     do {
       se_set (\<lambda>s. s\<lparr>se_timeout_generation := wrap64 (se_timeout_generation s + 1)\<rparr>);
       s \<leftarrow> se_get id;
       modify (\<lambda>w. w\<lparr>re_wheel := wheel_schedule (re_wheel w) (se_id s) (se_timeout_generation s) (timeout_deadline s)\<rparr>)
     }"

section \<open>The upstream connection\<close>

definition record_upstream_error :: "('e, unit) handler" where
  "record_upstream_error =
     do {
       backend \<leftarrow> se_get se_backend;
       (case backend of
          None \<Rightarrow> State_Monad.return ()
        | Some ref \<Rightarrow> backend_do ref (\<lambda>b. b\<lparr>be_connection_errors := fetch_add (be_connection_errors b) 1\<rparr>));
       worker_do (\<lambda>ws. ws\<lparr>upstream_connect_errors := fetch_add (upstream_connect_errors ws) 1\<rparr>)
     }"

text \<open>\<^verbatim>\<open>session.upstream.reset(replacement)\<close>.\<close>

definition reset_upstream :: "('e, 'g) deps \<Rightarrow> fd \<Rightarrow> ('e, unit) handler" where
  "reset_upstream d replacement =
     do {
       v \<leftarrow> se_get se_upstream;
       replaced \<leftarrow> os_do (fd_reset (d_os d) v replacement);
       se_set (se_upstream_update (\<lambda>_. replaced))
     }"

definition discard_upstream :: "('e, 'g) deps \<Rightarrow> ('e, unit) handler" where
  "discard_upstream d =
     do {
       v \<leftarrow> se_get se_upstream;
       do_if (fd_valid v) (do { _ \<leftarrow> os_do (os_epoll_del (d_os d) v); State_Monad.return () });
       reset_upstream d (-1);
       se_set (\<lambda>s. s\<lparr>se_upstream_events := 0, se_upstream_read_paused := False\<rparr>)
     }"

text \<open>Every write that goes on takes at least one byte out of the queue; the first argument bounds the writes.\<close>

fun flush_loop :: "('e, 'g) deps \<Rightarrow> nat \<Rightarrow> ('e, unit) handler" where
  "flush_loop d 0 =
     do {
       more \<leftarrow> se_get (\<lambda>s. fd_valid (se_upstream s) \<and> \<not> pb_empty (se_to_upstream s));
       do_if more fault
     }"
| "flush_loop d (Suc n) =
     do {
       more \<leftarrow> se_get (\<lambda>s. fd_valid (se_upstream s) \<and> \<not> pb_empty (se_to_upstream s));
       if \<not> more then State_Monad.return ()
       else do {
         result \<leftarrow> write_upstream d;
         if io_status result \<noteq> Data \<or> io_size result = 0 then State_Monad.return ()
         else do { release_bytes (io_size result); flush_loop d n }
       }
     }"

definition flush_upstream_queue :: "('e, 'g) deps \<Rightarrow> ('e, unit) handler" where
  "flush_upstream_queue d = do { n \<leftarrow> se_get (\<lambda>s. pb_size (se_to_upstream s)); flush_loop d n }"

definition schedule_connect_attempt_timeout :: "('e, 'g) deps \<Rightarrow> ('e, unit) handler" where
  "schedule_connect_attempt_timeout d =
     do {
       t \<leftarrow> now d;
       se_set (\<lambda>s.
         let remaining = se_upstream_overall_deadline s - t;
             attempts = int (se_connect_candidates_remaining s + 1);
             slice = cxx_quot remaining attempts
         in s\<lparr>se_deadline := min (t + slice) (se_upstream_overall_deadline s)\<rparr>);
       schedule_timeout
     }"

definition header_text :: "proxy_v2_header \<Rightarrow> string" where
  "header_text h = map (\<lambda>b. char_of (unat b)) (ph_view h)"

text \<open>A handler that dereferences \<^verbatim>\<open>session.backend\<close>.\<close>

definition with_backend :: "'a \<Rightarrow> (backend_ref \<Rightarrow> backend_state \<Rightarrow> ('e, 'a) handler) \<Rightarrow> ('e, 'a) handler" where
  "with_backend unreachable f =
     do {
       backend \<leftarrow> se_get se_backend;
       store \<leftarrow> gets re_backends;
       case backend of
         None \<Rightarrow> do { fault; State_Monad.return unreachable }
       | Some ref \<Rightarrow> f ref (store ! ref)
     }"

definition finish_upstream_connect :: "('e, 'g) deps \<Rightarrow> ('e, bool) handler" where
  "finish_upstream_connect d =
     do {
       upstream \<leftarrow> se_get se_upstream;
       result \<leftarrow> os_do (os_socket_error (d_os d) upstream);
       case result of
         Inl _ \<Rightarrow> State_Monad.return False
       | Inr socket_error \<Rightarrow>
           (if socket_error \<noteq> 0 then State_Monad.return False
            else with_backend False (\<lambda>ref backend.
              do {
                header \<leftarrow> se_get se_proxy_header;
                queued \<leftarrow> (if be_send_proxy_v2 backend then prepend_queued se_to_upstream_update (header_text header)
                           else State_Monad.return True);
                if \<not> queued
                then do { se_set (se_queue_limit_exceeded_update (\<lambda>_. True)); State_Monad.return False }
                else do {
                  se_set (se_stage_update (\<lambda>_. Relay));
                  schedule_timeout;
                  backend_do ref (\<lambda>b. b\<lparr>be_active_connections := fetch_add (be_active_connections b) 1\<rparr>);
                  se_set (se_backend_counted_update (\<lambda>_. True));
                  State_Monad.return True
                }
              }))
     }"

text \<open>The inner loop that moves on to the next address with a usable source.\<close>

function advance_address :: "socket_address list \<Rightarrow> socket_address list \<Rightarrow> session \<Rightarrow> session" where
  "advance_address addresses sources s =
     (if se_current_address_sources_remaining s = 0 \<and> 0 < se_backend_addresses_remaining s
      then let current = se_next_backend_address s;
               s = s\<lparr>se_current_backend_address := current,
                     se_next_backend_address := (current + 1) mod length addresses,
                     se_backend_addresses_remaining := se_backend_addresses_remaining s - 1\<rparr>;
               family = sa_family (addresses ! current);
               s = s\<lparr>se_current_address_sources_remaining :=
                       (if sources = [] then 1 else compatible_source_count sources family)\<rparr>
           in advance_address addresses sources s
      else s)"
  by pat_completeness auto
termination
  by (relation "measure (\<lambda>(_, _, s). se_backend_addresses_remaining s)") (auto simp: Let_def)

declare advance_address.simps [simp del]

text \<open>One attempt of the outer loop, on an address and a source; nothing means that the loop goes on.\<close>

definition connect_attempt :: "('e, 'g) deps \<Rightarrow> socket_address \<Rightarrow> socket_address option \<Rightarrow> ('e, bool option) handler" where
  "connect_attempt d address source =
     do {
       with_backend () (\<lambda>ref _.
         backend_do ref (\<lambda>b. b\<lparr>be_connection_attempts := fetch_add (be_connection_attempts b) 1\<rparr>));
       started \<leftarrow> os_do (start_connect (d_os d) address source);
       if \<not> fd_valid (cs_socket started)
       then do { record_upstream_error; State_Monad.return None }
       else do {
         reset_upstream d (cs_socket started);
         ident \<leftarrow> se_get se_id;
         added \<leftarrow> os_do (os_epoll_add (d_os d) (cs_socket started) (EPOLLOUT OR EPOLLRDHUP)
           (event_token (of_nat ident) UpstreamEvent));
         case added of
           Inl _ \<Rightarrow>
             do {
               record_upstream_error;
               reset_upstream d (-1);
               State_Monad.return None
             }
         | Inr _ \<Rightarrow>
             do {
               se_set (se_upstream_events_update (\<lambda>_. EPOLLOUT OR EPOLLRDHUP));
               schedule_connect_attempt_timeout d;
               if \<not> cs_connected started then State_Monad.return (Some True)
               else do {
                 finished \<leftarrow> finish_upstream_connect d;
                 if finished then State_Monad.return (Some True)
                 else do {
                   exceeded \<leftarrow> se_get se_queue_limit_exceeded;
                   if exceeded then State_Monad.return (Some False)
                   else do {
                     record_upstream_error;
                     discard_upstream d;
                     State_Monad.return None
                   }
                 }
               }
             }
       }
     }"

text \<open>
  The outer loop takes one candidate per round, so that the number of candidates bounds the rounds; it
  is the argument.
\<close>

fun connect_loop :: "('e, 'g) deps \<Rightarrow> nat \<Rightarrow> socket_address list \<Rightarrow> socket_address list \<Rightarrow> ('e, bool) handler" where
  "connect_loop d 0 addresses sources =
     do {
       candidates \<leftarrow> se_get se_connect_candidates_remaining;
       do_if (0 < candidates) fault;
       State_Monad.return False
     }"
| "connect_loop d (Suc n) addresses sources =
     do {
       candidates \<leftarrow> se_get se_connect_candidates_remaining;
       if candidates = 0 then State_Monad.return False
       else do {
         t \<leftarrow> now d;
         overall \<leftarrow> se_get se_upstream_overall_deadline;
         if overall \<le> t then State_Monad.return False
         else do {
           se_set (advance_address addresses sources);
           s \<leftarrow> se_get id;
           if se_current_address_sources_remaining s = 0 then State_Monad.return False
           else do {
             let address = addresses ! se_current_backend_address s;
             let source = (if sources = [] then None
                           else select_compatible_source sources (sa_family address) (se_upstream_source_sequence s));
             do_if (sources \<noteq> []) (se_set (\<lambda>s. s\<lparr>se_upstream_source_sequence := wrap64 (se_upstream_source_sequence s + 1)\<rparr>));
             if sources \<noteq> [] \<and> source = None then State_Monad.return False
             else do {
               se_set (\<lambda>s. s\<lparr>se_current_address_sources_remaining := se_current_address_sources_remaining s - 1,
                             se_connect_candidates_remaining := se_connect_candidates_remaining s - 1\<rparr>);
               attempted \<leftarrow> connect_attempt d address source;
               case attempted of
                 Some kept \<Rightarrow> State_Monad.return kept
               | None \<Rightarrow> connect_loop d n addresses sources
             }
           }
         }
       }
     }"

definition start_next_upstream_connect :: "('e, 'g) deps \<Rightarrow> ('e, bool) handler" where
  "start_next_upstream_connect d =
     with_backend False (\<lambda>ref backend.
       if be_socket_addresses backend = [] then State_Monad.return False
       else do {
         sources \<leftarrow> se_get (\<lambda>s. rt_upstream_source_addresses (rs_routing (se_runtime s)));
         n \<leftarrow> se_get se_connect_candidates_remaining;
         connect_loop d n (be_socket_addresses backend) sources
       })"

definition reject_no_backend :: "('e, bool) handler" where
  "reject_no_backend =
     do {
       worker_do (\<lambda>ws. ws\<lparr>rejected_no_backend := fetch_add (rejected_no_backend ws) 1\<rparr>);
       State_Monad.return False
     }"

definition begin_upstream_connect :: "('e, 'g) deps \<Rightarrow> ('e, bool) handler" where
  "begin_upstream_connect d =
     do {
       routing \<leftarrow> se_get (\<lambda>s. rs_routing (se_runtime s));
       selection \<leftarrow> gets re_route_sequence;
       modify (\<lambda>w. w\<lparr>re_route_sequence := wrap64 (re_route_sequence w + 1)\<rparr>);
       store \<leftarrow> gets re_backends;
       let selected = select_backend store routing selection;
       se_set (se_backend_update (\<lambda>_. selected));
       case selected of
         None \<Rightarrow> reject_no_backend
       | Some ref \<Rightarrow>
           (let addresses = be_socket_addresses (store ! ref); address_count = length addresses
            in if address_count = 0 then reject_no_backend
               else do {
                 se_set (se_stage_update (\<lambda>_. UpstreamConnect));
                 t \<leftarrow> now d;
                 se_set (\<lambda>s. s\<lparr>
                   se_upstream_overall_deadline :=
                     t + upstream_connect_timeout_milliseconds (se_limits s) * ns_per_millisecond,
                   se_next_backend_address := selection mod address_count,
                   se_backend_addresses_remaining := address_count\<rparr>);
                 let sources = rt_upstream_source_addresses routing;
                 (if sources = [] then se_set (\<lambda>s. s\<lparr>se_connect_candidates_remaining := address_count\<rparr>)
                  else do {
                    sequence \<leftarrow> gets re_source_sequence;
                    modify (\<lambda>w. w\<lparr>re_source_sequence := wrap64 (re_source_sequence w + 1)\<rparr>);
                    se_set (\<lambda>s. s\<lparr>se_upstream_source_sequence := sequence,
                      se_connect_candidates_remaining :=
                        sum_list (map (\<lambda>address. compatible_source_count sources (sa_family address)) addresses)\<rparr>)
                  });
                 se_set (\<lambda>s. s\<lparr>se_current_address_sources_remaining := 0\<rparr>);
                 candidates \<leftarrow> se_get se_connect_candidates_remaining;
                 if candidates = 0 then reject_no_backend
                 else start_next_upstream_connect d
               })
     }"

end
