(* ===== verification/Reactor_Relay.thy ===== *)
theory Reactor_Relay
  imports Reactor_Session
begin

text \<open>
  The client side of a session, from \<^verbatim>\<open>src/src/net/reactor.cpp\<close>: splitting the byte stream into validated
  lines, the TLS handshake, relaying, back pressure and event interests.
\<close>

section \<open>Lines\<close>

definition commit_consumed :: "nat \<Rightarrow> ('e, bool) handler" where
  "commit_consumed consumed =
     (if consumed = 0 then State_Monad.return True
      else do {
        s \<leftarrow> se_get id;
        let maximum_buffer = max_buffer_bytes (se_limits s);
        if maximum_buffer < consumed \<or> maximum_buffer - consumed < pb_size (se_to_upstream s)
        then do { protocol_error InvalidShape; State_Monad.return False }
        else do {
          se_set (\<lambda>s. s\<lparr>se_to_upstream := pb_append (se_to_upstream s) (take consumed (chars (se_line_buffer s))),
                        se_line_buffer := release_oversized_string (str_erase_front (se_line_buffer s) consumed)\<rparr>);
          State_Monad.return True
        }
      })"

definition discard_line_bytes :: "nat \<Rightarrow> ('e, unit) handler" where
  "discard_line_bytes bytes =
     do {
       se_set (se_line_buffer_update (\<lambda>b. str_erase_front b bytes));
       release_bytes bytes;
       se_set (se_line_buffer_update release_oversized_string)
     }"

definition newline :: char where
  "newline = CHR 0x0A"

text \<open>
  The loop over the complete lines in the buffer. It returns nothing when the session is to be closed, and otherwise
  the number of accepted bytes at the front of the buffer that are not yet committed. Every round
  deals with one line end, so that the length of the buffer bounds the rounds; it is the argument.
\<close>

fun line_loop :: "('e, 'g) deps \<Rightarrow> nat \<Rightarrow> nat \<Rightarrow> ('e, nat option) handler" where
  "line_loop d 0 consumed =
     do {
       buffer \<leftarrow> se_get se_line_buffer;
       do_if (str_find newline (drop consumed (chars buffer)) \<noteq> None) fault;
       State_Monad.return (Some consumed)
     }"
| "line_loop d (Suc n) consumed =
     do {
       s \<leftarrow> se_get id;
       case str_find newline (drop consumed (chars (se_line_buffer s))) of
         None \<Rightarrow> State_Monad.return (Some consumed)
       | Some line_size \<Rightarrow>
           (if max_line_bytes (se_limits s) < line_size
            then do {
              protocol_error InvalidShape;
              _ \<leftarrow> commit_consumed consumed;
              State_Monad.return None
            }
            else
              let line = take line_size (drop consumed (chars (se_line_buffer s)));
                  validation = validate_request (d_glaze d) line (se_protocol_state s) (cfg_protocol (rs_config (se_runtime s)))
              in if \<not> accepted validation
                 then do {
                   protocol_error (vr_error validation);
                   tolerated \<leftarrow>
                     (if \<not> received_message (se_protocol_state s) then State_Monad.return False
                      else do {
                        se_set (\<lambda>s. s\<lparr>se_consecutive_protocol_errors := (se_consecutive_protocol_errors s + 1) mod 2 ^ 32\<rparr>);
                        se_get (\<lambda>s. se_consecutive_protocol_errors s \<le> kMaximumConsecutiveProtocolErrors)
                      });
                   committed \<leftarrow> commit_consumed consumed;
                   if \<not> tolerated \<or> \<not> committed then State_Monad.return None
                   else do {
                     discard_line_bytes (line_size + 1);
                     line_loop d n 0
                   }
                 }
                 else do {
                   se_set (\<lambda>s. s\<lparr>se_consecutive_protocol_errors := 0,
                     se_protocol_state := record_request (se_protocol_state s) (vr_method validation)\<rparr>);
                   let consumed = consumed + line_size + 1;
                   connected \<leftarrow> (if \<not> received_message (se_protocol_state s) then begin_upstream_connect d
                                 else State_Monad.return True);
                   if \<not> connected then do { _ \<leftarrow> commit_consumed consumed; State_Monad.return None }
                   else line_loop d n consumed
                 })
     }"

definition process_client_bytes :: "('e, 'g) deps \<Rightarrow> string \<Rightarrow> ('e, bool) handler" where
  "process_client_bytes d bytes =
     do {
       appended \<leftarrow> append_line_bytes bytes;
       if \<not> appended then State_Monad.return False
       else do {
         n \<leftarrow> se_get (\<lambda>s. length (chars (se_line_buffer s)));
         looped \<leftarrow> line_loop d n 0;
         case looped of
           None \<Rightarrow> State_Monad.return False
         | Some consumed \<Rightarrow>
             do {
               committed \<leftarrow> commit_consumed consumed;
               if \<not> committed then State_Monad.return False
               else do {
                 s \<leftarrow> se_get id;
                 if max_line_bytes (se_limits s) < length (chars (se_line_buffer s)) \<or>
                    max_buffer_bytes (se_limits s) < pb_size (se_to_upstream s)
                 then do { protocol_error InvalidShape; State_Monad.return False }
                 else State_Monad.return True
               }
             }
       }
     }"

section \<open>The TLS handshake\<close>

definition drive_tls_handshake :: "('e, 'g) deps \<Rightarrow> ('e, bool) handler" where
  "drive_tls_handshake d =
     do {
       ssl \<leftarrow> se_get se_ssl;
       case ssl of
         None \<Rightarrow> do { fault; State_Monad.return False }
       | Some stream \<Rightarrow>
           do {
             result \<leftarrow> os_do (os_ssl_accept (d_os d) stream);
             case result of
               Inr _ \<Rightarrow>
                 do {
                   t \<leftarrow> now d;
                   se_set (\<lambda>s. s\<lparr>se_stage := FirstMessage, se_tls_operation := NoTlsOperation,
                     se_deadline := t + first_message_timeout_seconds (se_limits s) * ns_per_second\<rparr>);
                   started \<leftarrow> se_get se_tls_handshake_started_at;
                   worker_do (\<lambda>ws. ws\<lparr>
                     tls_handshake_successes := fetch_add (tls_handshake_successes ws) 1,
                     tls_handshake_nanoseconds :=
                       fetch_add (tls_handshake_nanoseconds ws) (nat ((t - started) mod 2 ^ 64))\<rparr>);
                   schedule_timeout;
                   State_Monad.return True
                 }
             | Inl (error, system_error) \<Rightarrow>
                 (if error = SSL_ERROR_WANT_READ
                  then do {
                    se_set (\<lambda>s. s\<lparr>se_tls_operation := TlsOpHandshake, se_tls_direction := DirRead\<rparr>);
                    State_Monad.return True
                  }
                  else if error = SSL_ERROR_WANT_WRITE
                  then do {
                    se_set (\<lambda>s. s\<lparr>se_tls_operation := TlsOpHandshake, se_tls_direction := DirWrite\<rparr>);
                    State_Monad.return True
                  }
                  else if error = SSL_ERROR_SYSCALL \<and> system_error = EINTR
                  then do {
                    se_set (\<lambda>s. if se_tls_operation s \<noteq> TlsOpHandshake
                                then s\<lparr>se_tls_operation := TlsOpHandshake, se_tls_direction := DirRead\<rparr> else s);
                    State_Monad.return True
                  }
                  else do {
                    worker_do (\<lambda>ws. ws\<lparr>rejected_tls := fetch_add (rejected_tls ws) 1\<rparr>);
                    State_Monad.return False
                  })
           }
     }"

section \<open>Relaying\<close>

text \<open>Release what a write sent and note the activity.\<close>

definition after_write :: "('e, 'g) deps \<Rightarrow> io_result \<Rightarrow> ('e, bool) handler" where
  "after_write d result =
     (if io_status result = Error \<or> io_status result = Closed then State_Monad.return False
      else do {
        do_if (io_status result = Data \<and> 0 < io_size result)
          (do {
             release_bytes (io_size result);
             t \<leftarrow> now d;
             se_set (se_last_activity_update (\<lambda>_. t))
           });
        State_Monad.return True
      })"

definition flush_client :: "('e, 'g) deps \<Rightarrow> ('e, bool) handler" where
  "flush_client d = do { result \<leftarrow> write_client d; after_write d result }"

definition push_upstream :: "('e, 'g) deps \<Rightarrow> ('e, bool) handler" where
  "push_upstream d = do { result \<leftarrow> write_upstream d; after_write d result }"

definition consume_client_traffic :: "('e, 'g) deps \<Rightarrow> nat \<Rightarrow> nat \<Rightarrow> time_point \<Rightarrow> ('e, bool) handler" where
  "consume_client_traffic d bytes messages t =
     do {
       admission \<leftarrow> se_get se_admission;
       limits \<leftarrow> se_get se_limits;
       limiter \<leftarrow> gets re_limiter;
       case consume_traffic admission bytes messages limits t limiter of
         None \<Rightarrow> do { fault; State_Monad.return False }
       | Some (limiter, allowed) \<Rightarrow>
           do { modify (\<lambda>w. w\<lparr>re_limiter := limiter\<rparr>); State_Monad.return allowed }
     }"

definition within_traffic_limits :: "('e, 'g) deps \<Rightarrow> nat \<Rightarrow> nat \<Rightarrow> nat \<Rightarrow> time_point \<Rightarrow> ('e, bool) handler" where
  "within_traffic_limits d bytes messages messages_this_event t =
     do {
       maximum \<leftarrow> se_get (\<lambda>s. max_messages_per_ready_event (se_limits s));
       if maximum < messages \<or> maximum - messages < messages_this_event then State_Monad.return False
       else do {
         (allowed, session) \<leftarrow> se_get (consume_session_traffic bytes messages t);
         se_set (\<lambda>_. session);
         if \<not> allowed then State_Monad.return False else consume_client_traffic d bytes messages t
       }
     }"

text \<open>A read that returns data returns at least one byte.\<close>

lemma read_client_nonempty: "(Data, bytes) \<in> set_state (read_client d capacity) \<Longrightarrow> bytes \<noteq> []"
proof -
  assume "(Data, bytes) \<in> set_state (read_client d capacity)"
  then obtain w w' where r: "run_state (read_client d capacity) w = ((Data, bytes), w')" by (auto simp: set_state_iff)
  show ?thesis
    using r by (auto simp: read_client_def os_do_def se_get_def se_set_def split: option.splits prod.splits sum.splits if_splits)
qed

text \<open>
  The loop of \<^verbatim>\<open>read_from_client\<close>, with the bytes and messages of this event; the second result is the exhausted
  read budget.
\<close>

function read_loop :: "('e, 'g) deps \<Rightarrow> nat \<Rightarrow> nat \<Rightarrow> ('e, bool \<times> bool) handler" where
  "read_loop d bytes_this_event messages_this_event =
     do {
       (status, bytes) \<leftarrow> read_client d kIoChunkBytes;
       if status = RetryRead \<or> status = RetryWrite then State_Monad.return (True, False)
       else if status = Closed
       then do {
         se_set (\<lambda>s. s\<lparr>se_client_read_closed := True, se_tls_operation := NoTlsOperation\<rparr>);
         unfinished \<leftarrow> se_get (\<lambda>s. chars (se_line_buffer s) \<noteq> []);
         if unfinished then do { protocol_error InvalidShape; State_Monad.return (False, False) }
         else State_Monad.return (True, False)
       }
       else if status \<noteq> Data then State_Monad.return (False, False)
       else do {
         worker_do (\<lambda>ws. ws\<lparr>client_bytes := fetch_add (client_bytes ws) (length bytes)\<rparr>);
         t \<leftarrow> now d;
         se_set (se_last_activity_update (\<lambda>_. t));
         let messages = length (filter (\<lambda>c. c = newline) bytes);
         allowed \<leftarrow> within_traffic_limits d (length bytes) messages messages_this_event t;
         if \<not> allowed
         then do {
           worker_do (\<lambda>ws. ws\<lparr>rejected_traffic_rate := fetch_add (rejected_traffic_rate ws) 1\<rparr>);
           State_Monad.return (False, False)
         }
         else do {
           processed \<leftarrow> process_client_bytes d bytes;
           if \<not> processed then State_Monad.return (False, False)
           else do {
             high \<leftarrow> se_get (\<lambda>s. queue_pause_bytes (se_limits s) < pb_size (se_to_upstream s));
             if high then State_Monad.return (True, False)
             else if kMaximumBytesPerReadyEvent \<le> bytes_this_event + length bytes then State_Monad.return (True, True)
             else read_loop d (bytes_this_event + length bytes) (messages_this_event + messages)
           }
         }
       }
     }"
  by pat_completeness auto
termination
proof (relation "measure (\<lambda>(_, bytes_this_event, _). kMaximumBytesPerReadyEvent - bytes_this_event)", goal_cases)
  case 1
  then show ?case by simp
next
  case 2
  then show ?case by (auto dest!: read_client_nonempty intro!: diff_less_mono2)
qed

declare read_loop.simps [simp del]

definition read_from_client :: "('e, 'g) deps \<Rightarrow> ('e, bool \<times> bool) handler" where
  "read_from_client d = read_loop d 0 0"

section \<open>Events\<close>

text \<open>The part of \<^verbatim>\<open>client_ready\<close> after the read: relay upstream, relay to the client, and decide.\<close>

definition client_relay :: "('e, 'g) deps \<Rightarrow> 32 word \<Rightarrow> bool \<Rightarrow> ('e, bool) handler" where
  "client_relay d events read_budget_exhausted =
     do {
       waiting \<leftarrow> se_get (\<lambda>s. se_stage s = Relay \<and> \<not> pb_empty (se_to_upstream s));
       pushed \<leftarrow> (if waiting then push_upstream d else State_Monad.return True);
       if \<not> pushed then State_Monad.return False
       else do {
         writable \<leftarrow> se_get (\<lambda>s. events AND EPOLLOUT \<noteq> 0 \<and> se_tls_operation s = NoTlsOperation \<and> \<not> pb_empty (se_to_client s));
         flushed \<leftarrow> (if writable then flush_client d else State_Monad.return True);
         if \<not> flushed then State_Monad.return False
         else se_get (\<lambda>s.
           \<not> (se_upstream_read_closed s \<and> pb_empty (se_to_client s)) \<and>
           \<not> (events AND EPOLLERR \<noteq> 0 \<and> \<not> read_budget_exhausted) \<and>
           \<not> (events AND EPOLLHUP \<noteq> 0 \<and> (se_client_read_closed s \<or> se_client_read_paused s)) \<and>
           \<not> (se_client_read_closed s \<and> se_stage s = FirstMessage))
       }
     }"

definition client_ready :: "('e, 'g) deps \<Rightarrow> 32 word \<Rightarrow> ('e, bool) handler" where
  "client_ready d events =
     do {
       s \<leftarrow> se_get id;
       if se_stage s = TlsHandshake then drive_tls_handshake d
       else
         let no_error = (events AND EPOLLERR = 0 \<and> events AND EPOLLHUP = 0)
         in if se_tls_operation s = TlsOpWrite
            then if \<not> io_direction_ready (se_tls_direction s) events then State_Monad.return no_error
                 else do {
                   flushed \<leftarrow> flush_client d;
                   if \<not> flushed then State_Monad.return False
                   else se_get (\<lambda>s. \<not> (se_upstream_read_closed s \<and> pb_empty (se_to_client s)) \<and> no_error)
                 }
            else if se_tls_operation s = TlsOpRead \<and> \<not> io_direction_ready (se_tls_direction s) events
            then State_Monad.return no_error
            else do {
              (kept, read_budget_exhausted) \<leftarrow>
                (if se_tls_operation s = TlsOpRead \<or>
                    se_tls_operation s = NoTlsOperation \<and> \<not> se_client_read_closed s \<and> \<not> se_client_read_paused s \<and>
                    events AND (EPOLLIN OR EPOLLHUP OR EPOLLRDHUP) \<noteq> 0
                 then read_from_client d else State_Monad.return (True, False));
              if \<not> kept then State_Monad.return False else client_relay d events read_budget_exhausted
            }
     }"

text \<open>
  The read loop of \<^verbatim>\<open>upstream_ready\<close>: nothing when the session is to be closed, otherwise the bytes read in
  this event.
\<close>

function upstream_loop :: "('e, 'g) deps \<Rightarrow> nat \<Rightarrow> ('e, nat option) handler" where
  "upstream_loop d bytes_this_event =
     do {
       upstream \<leftarrow> se_get se_upstream;
       received \<leftarrow> os_do (os_recv (d_os d) upstream kIoChunkBytes);
       case received of
         Inl error_number \<Rightarrow>
           State_Monad.return (if error_number \<in> {EAGAIN, EINTR} then Some bytes_this_event else None)
       | Inr bytes \<Rightarrow>
           (if bytes = []
            then do { se_set (se_upstream_read_closed_update (\<lambda>_. True)); State_Monad.return (Some bytes_this_event) }
            else do {
              worker_do (\<lambda>ws. ws\<lparr>upstream_bytes := fetch_add (upstream_bytes ws) (length bytes)\<rparr>);
              queued \<leftarrow> append_queued se_to_client_update bytes;
              if \<not> queued then State_Monad.return None
              else do {
                s \<leftarrow> se_get id;
                if max_buffer_bytes (se_limits s) < pb_size (se_to_client s) then State_Monad.return None
                else if queue_pause_bytes (se_limits s) < pb_size (se_to_client s) \<or>
                        kMaximumBytesPerReadyEvent \<le> bytes_this_event + length bytes
                then State_Monad.return (Some (bytes_this_event + length bytes))
                else upstream_loop d (bytes_this_event + length bytes)
              }
            })
     }"
  by pat_completeness auto
termination
  by (relation "measure (\<lambda>(_, bytes_this_event). kMaximumBytesPerReadyEvent - bytes_this_event)")
    (auto intro!: diff_less_mono2)

declare upstream_loop.simps [simp del]

text \<open>The part of \<^verbatim>\<open>upstream_ready\<close> after the read.\<close>

definition upstream_relay :: "('e, 'g) deps \<Rightarrow> 32 word \<Rightarrow> nat \<Rightarrow> ('e, bool) handler" where
  "upstream_relay d events bytes_this_event =
     do {
       writable \<leftarrow> se_get (\<lambda>s. se_tls_operation s = NoTlsOperation \<and> \<not> pb_empty (se_to_client s));
       flushed \<leftarrow> (if writable then flush_client d else State_Monad.return True);
       if \<not> flushed then State_Monad.return False
       else do {
         waiting \<leftarrow> se_get (\<lambda>s. events AND EPOLLOUT \<noteq> 0 \<and> \<not> pb_empty (se_to_upstream s));
         pushed \<leftarrow> (if waiting then push_upstream d else State_Monad.return True);
         if \<not> pushed then State_Monad.return False
         else if events AND EPOLLERR \<noteq> 0 \<and> bytes_this_event < kMaximumBytesPerReadyEvent then State_Monad.return False
         else do {
           se_set (\<lambda>s. if se_upstream_read_paused s \<and> events AND EPOLLHUP \<noteq> 0
                       then s\<lparr>se_upstream_read_closed := True\<rparr> else s);
           ended \<leftarrow> se_get se_upstream_read_closed;
           if \<not> ended then State_Monad.return True
           else do {
             flush_upstream_queue d;
             discard_upstream d;
             se_get (\<lambda>s. \<not> pb_empty (se_to_client s))
           }
         }
       }
     }"

definition upstream_traffic :: "('e, 'g) deps \<Rightarrow> 32 word \<Rightarrow> ('e, bool) handler" where
  "upstream_traffic d events =
     do {
       paused \<leftarrow> se_get se_upstream_read_paused;
       looped \<leftarrow> (if \<not> paused \<and> events AND (EPOLLIN OR EPOLLHUP OR EPOLLRDHUP) \<noteq> 0
                  then do {
                    looped \<leftarrow> upstream_loop d 0;
                    do_if (looped \<noteq> None \<and> looped \<noteq> Some 0)
                      (do { t \<leftarrow> now d; se_set (se_last_activity_update (\<lambda>_. t)) });
                    State_Monad.return looped
                  }
                  else State_Monad.return (Some 0));
       case looped of
         None \<Rightarrow> State_Monad.return False
       | Some bytes_this_event \<Rightarrow> upstream_relay d events bytes_this_event
     }"

definition upstream_ready :: "('e, 'g) deps \<Rightarrow> 32 word \<Rightarrow> ('e, bool) handler" where
  "upstream_ready d events =
     do {
       stage \<leftarrow> se_get se_stage;
       finished \<leftarrow> (if stage = UpstreamConnect then finish_upstream_connect d else State_Monad.return True);
       if finished then upstream_traffic d events
       else do {
         exceeded \<leftarrow> se_get se_queue_limit_exceeded;
         if exceeded then State_Monad.return False
         else do {
           record_upstream_error;
           discard_upstream d;
           t \<leftarrow> now d;
           overall \<leftarrow> se_get se_upstream_overall_deadline;
           if t < overall then start_next_upstream_connect d else State_Monad.return False
         }
       }
     }"

section \<open>Back pressure\<close>

text \<open>The marks and the decisions of \<^verbatim>\<open>refresh_read_pause\<close> for one session.\<close>

definition shared_pause_mark :: "nat \<Rightarrow> nat" where
  "shared_pause_mark budget = budget div kPercentWhole * kSharedQueuePausePercent"

definition shared_resume_mark :: "nat \<Rightarrow> nat" where
  "shared_resume_mark budget = budget div kPercentWhole * kSharedQueueResumePercent"

definition under_shared_pressure :: "nat \<Rightarrow> nat \<Rightarrow> session \<Rightarrow> bool" where
  "under_shared_pressure queued budget s \<longleftrightarrow>
     (if se_shared_pressure_paused s then shared_resume_mark budget else shared_pause_mark budget) < queued"

definition queue_high :: "limits_config \<Rightarrow> bool \<Rightarrow> nat \<Rightarrow> bool" where
  "queue_high limits stalled waiting =
     (if stalled then queue_resume_bytes limits < waiting else queue_pause_bytes limits < waiting)"

definition refresh_read_pause :: "('e, 'g) deps \<Rightarrow> ('e, unit) handler" where
  "refresh_read_pause d =
     do {
       s \<leftarrow> se_get id;
       stats \<leftarrow> gets (\<lambda>w. ss_stats (re_state w));
       let shared_pressure = under_shared_pressure (queued_bytes stats) (queued_bytes_limit stats) s;
       se_set (se_shared_pressure_paused_update (\<lambda>_. shared_pressure));
       tls_buffer_drained \<leftarrow>
         (case se_ssl s of
            None \<Rightarrow> State_Monad.return True
          | Some stream \<Rightarrow> do { pending \<leftarrow> os_do (os_ssl_pending (d_os d) stream); State_Monad.return (pending = 0) });
       let client_queue_high = queue_high (se_limits s) (se_client_queue_stalled s) (pb_size (se_to_upstream s));
       let upstream_queue_high = queue_high (se_limits s) (se_upstream_queue_stalled s) (pb_size (se_to_client s));
       let client_paused = (tls_buffer_drained \<and>
             (client_queue_high \<or> (shared_pressure \<and> \<not> pb_empty (se_to_upstream s))));
       let upstream_paused = (upstream_queue_high \<or> (shared_pressure \<and> \<not> pb_empty (se_to_client s)));
       let was_stalled = (se_client_queue_stalled s \<or> se_upstream_queue_stalled s);
       do_if (client_queue_high \<and> \<not> se_client_queue_stalled s)
         (worker_do (\<lambda>ws. ws\<lparr>client_reads_paused := fetch_add (client_reads_paused ws) 1\<rparr>));
       do_if (upstream_queue_high \<and> \<not> se_upstream_queue_stalled s)
         (worker_do (\<lambda>ws. ws\<lparr>upstream_reads_paused := fetch_add (upstream_reads_paused ws) 1\<rparr>));
       do_if ((client_paused \<or> upstream_paused) \<and> \<not> (se_client_read_paused s \<or> se_upstream_read_paused s) \<and>
              \<not> client_queue_high \<and> \<not> upstream_queue_high)
         (worker_do (\<lambda>ws. ws\<lparr>shared_pressure_pauses := fetch_add (shared_pressure_pauses ws) 1\<rparr>));
       se_set (\<lambda>s. s\<lparr>se_client_queue_stalled := client_queue_high, se_upstream_queue_stalled := upstream_queue_high,
                     se_client_read_paused := client_paused, se_upstream_read_paused := upstream_paused\<rparr>);
       let is_stalled = (client_queue_high \<or> upstream_queue_high);
       do_if (is_stalled \<noteq> was_stalled)
         (do {
            do_if is_stalled
              (do { t \<leftarrow> now d; se_set (se_stall_deadline_update (\<lambda>_. t + kRelayStallTimeout)) });
            stage \<leftarrow> se_get se_stage;
            do_if (stage = Relay) schedule_timeout
          })
     }"

section \<open>Event interests\<close>

definition client_interest :: "session \<Rightarrow> 32 word" where
  "client_interest s =
     (let suppress_client_reads = (se_client_read_closed s \<or>
            (se_client_read_paused s \<and> se_tls_operation s = NoTlsOperation));
          events = (if suppress_client_reads then 0 else EPOLLRDHUP)
      in if \<not> se_client_read_closed s \<and> se_tls_operation s \<noteq> NoTlsOperation
         then events OR (if se_tls_direction s = DirRead then EPOLLIN else EPOLLOUT)
         else let events = (if \<not> suppress_client_reads then events OR EPOLLIN else events)
              in if \<not> pb_empty (se_to_client s) then events OR EPOLLOUT else events)"

definition upstream_interest :: "session \<Rightarrow> 32 word" where
  "upstream_interest s =
     (let events = (if se_upstream_read_paused s then 0 else EPOLLRDHUP)
      in if se_stage s = UpstreamConnect then events OR EPOLLOUT
         else let events = (if \<not> se_upstream_read_paused s then events OR EPOLLIN else events)
              in if \<not> pb_empty (se_to_upstream s) then events OR EPOLLOUT else events)"

definition update_interests :: "('e, 'g) deps \<Rightarrow> ('e, bool) handler" where
  "update_interests d =
     do {
       refresh_read_pause d;
       s \<leftarrow> se_get id;
       client_ok \<leftarrow>
         (if client_interest s \<noteq> se_client_events s
          then do {
            modified \<leftarrow> os_do (os_epoll_mod (d_os d) (se_client s) (client_interest s) (event_token (of_nat (se_id s)) ClientEvent));
            case modified of
              Inl _ \<Rightarrow> State_Monad.return False
            | Inr _ \<Rightarrow> do { se_set (se_client_events_update (\<lambda>_. client_interest s)); State_Monad.return True }
          }
          else State_Monad.return True);
       if \<not> client_ok then State_Monad.return False
       else if fd_valid (se_upstream s) \<and> upstream_interest s \<noteq> se_upstream_events s
       then do {
         modified \<leftarrow> os_do (os_epoll_mod (d_os d) (se_upstream s) (upstream_interest s) (event_token (of_nat (se_id s)) UpstreamEvent));
         case modified of
           Inl _ \<Rightarrow> State_Monad.return False
         | Inr _ \<Rightarrow> do { se_set (se_upstream_events_update (\<lambda>_. upstream_interest s)); State_Monad.return True }
       }
       else State_Monad.return True
     }"

end
