(* ===== verification/Reactor_Loop.thy ===== *)
theory Reactor_Loop
  imports Reactor_Relay
begin

text \<open>
  The reactor itself, from \<^verbatim>\<open>src/src/net/reactor.cpp\<close>: the table of sessions, accepting, dispatching events,
  expiring timeouts, closing and shutting down. An exception that leaves a handler is a left result.
\<close>

section \<open>Sessions in the table\<close>

definition put_session :: "nat \<Rightarrow> session \<Rightarrow> (nat \<times> session) list \<Rightarrow> (nat \<times> session) list" where
  "put_session ident s = map (\<lambda>(k, v). (k, if k = ident then s else v))"

text \<open>Run a handler on the session an iterator refers to.\<close>

definition on_session :: "nat \<Rightarrow> session \<Rightarrow> ('e, 'a) handler \<Rightarrow> ('e, 'a) handler" where
  "on_session ident s action =
     do {
       se_set (\<lambda>_. s);
       x \<leftarrow> action;
       modify (\<lambda>w. w\<lparr>re_sessions := put_session ident (re_session w) (re_sessions w)\<rparr>);
       State_Monad.return x
     }"

definition find_session :: "nat \<Rightarrow> ('e, session option) handler" where
  "find_session ident = gets (\<lambda>w. map_of (re_sessions w) ident)"

section \<open>Closing\<close>

definition drop_lease :: "('e, unit) handler" where
  "drop_lease =
     do {
       admission \<leftarrow> se_get se_admission;
       limiter \<leftarrow> gets re_limiter;
       case lease_reset admission limiter of
         None \<Rightarrow> fault
       | Some (limiter, admission) \<Rightarrow>
           do {
             modify (\<lambda>w. w\<lparr>re_limiter := limiter\<rparr>);
             se_set (se_admission_update (\<lambda>_. admission))
           }
     }"

definition release_admission :: "('e, unit) handler" where
  "release_admission = do { drop_lease; release_active_slot }"

text \<open>The destructor of a session: its TLS stream and both sockets.\<close>

definition destroy_session :: "('e, 'g) deps \<Rightarrow> ('e, unit) handler" where
  "destroy_session d =
     do {
       s \<leftarrow> se_get id;
       (case se_ssl s of None \<Rightarrow> State_Monad.return () | Some stream \<Rightarrow> os_do (os_ssl_free (d_os d) stream));
       os_do (fd_destroy (d_os d) (se_upstream s));
       os_do (fd_destroy (d_os d) (se_client s))
     }"

text \<open>Give back what the session in focus holds and forget it.\<close>

definition release_session :: "('e, 'g) deps \<Rightarrow> nat \<Rightarrow> session \<Rightarrow> ('e, unit) handler" where
  "release_session d ident s =
     do {
       do_if (se_backend_counted s) (with_backend () (\<lambda>ref _.
         backend_do ref (\<lambda>b. b\<lparr>be_active_connections := fetch_sub (be_active_connections b) 1\<rparr>)));
       modify (\<lambda>w. w\<lparr>re_wheel := wheel_cancel (re_wheel w) ident\<rparr>);
       release_bytes (se_queued s);
       release_admission;
       worker_do (\<lambda>ws. ws\<lparr>closed_connections := fetch_add (closed_connections ws) 1\<rparr>);
       modify (\<lambda>w. w\<lparr>re_sessions := filter (\<lambda>(k, _). k \<noteq> ident) (re_sessions w)\<rparr>);
       destroy_session d
     }"

definition close_focused :: "('e, 'g) deps \<Rightarrow> nat \<Rightarrow> ('e, unit) handler" where
  "close_focused d ident =
     do {
       stage \<leftarrow> se_get se_stage;
       do_if (stage = Relay) (flush_upstream_queue d);
       s \<leftarrow> se_get id;
       _ \<leftarrow> os_do (os_epoll_del (d_os d) (se_client s));
       do_if (fd_valid (se_upstream s)) (do { _ \<leftarrow> os_do (os_epoll_del (d_os d) (se_upstream s)); State_Monad.return () });
       release_session d ident s
     }"

definition close_session :: "('e, 'g) deps \<Rightarrow> nat \<Rightarrow> ('e, unit) handler" where
  "close_session d ident =
     do {
       found \<leftarrow> find_session ident;
       case found of
         None \<Rightarrow> State_Monad.return ()
       | Some s \<Rightarrow> do { se_set (\<lambda>_. s); close_focused d ident }
     }"

section \<open>Listeners\<close>

definition listener_do :: "nat \<Rightarrow> (listener_state \<Rightarrow> listener_state) \<Rightarrow> ('e, unit) handler" where
  "listener_do i f = modify (\<lambda>w. w\<lparr>re_listeners := (re_listeners w)[i := f (re_listeners w ! i)]\<rparr>)"

fun wait_timeout_loop :: "time_point \<Rightarrow> int \<Rightarrow> listener_state list \<Rightarrow> int" where
  "wait_timeout_loop t timeout [] = timeout"
| "wait_timeout_loop t timeout (listener # listeners) =
     (if ls_registered listener then wait_timeout_loop t timeout listeners
      else if ls_resume_at listener \<le> t then 0
      else wait_timeout_loop t (min timeout (- ((t - ls_resume_at listener) div ns_per_millisecond))) listeners)"

definition epoll_wait_timeout :: "time_point \<Rightarrow> listener_state list \<Rightarrow> int" where
  "epoll_wait_timeout t listeners = wait_timeout_loop t kEpollWaitMilliseconds listeners"

definition io_error :: "('e, 'g) deps \<Rightarrow> string \<Rightarrow> errno \<Rightarrow> ('e, unit result) handler" where
  "io_error d call error_number = State_Monad.return (Inl (IoError (call @ '': '' @ os_strerror (d_os d) error_number)))"

definition pause_listener :: "('e, 'g) deps \<Rightarrow> nat \<Rightarrow> ('e, unit result) handler" where
  "pause_listener d listener_index =
     do {
       listener \<leftarrow> gets (\<lambda>w. re_listeners w ! listener_index);
       removed \<leftarrow> (if ls_registered listener then os_do (os_epoll_del (d_os d) (ls_socket listener))
                   else State_Monad.return (Inr ()));
       let finish = (do {
             t \<leftarrow> now d;
             listener_do listener_index (\<lambda>l. l\<lparr>ls_registered := False, ls_resume_at := t + kAcceptResourceBackoff\<rparr>);
             State_Monad.return (Inr ())
           });
       case removed of
         Inr _ \<Rightarrow> finish
       | Inl error_number \<Rightarrow>
           (if error_number \<noteq> ENOENT then io_error d ''epoll_ctl(DEL listener)'' error_number else finish)
     }"

text \<open>The loop of \<^verbatim>\<open>rearm_listeners\<close> from an index on; the argument counts the listeners that remain.\<close>

fun rearm_from :: "('e, 'g) deps \<Rightarrow> time_point \<Rightarrow> nat \<Rightarrow> nat \<Rightarrow> ('e, unit result) handler" where
  "rearm_from d t listener_index 0 = State_Monad.return (Inr ())"
| "rearm_from d t listener_index (Suc n) =
     do {
       listener \<leftarrow> gets (\<lambda>w. re_listeners w ! listener_index);
       if ls_registered listener \<or> t < ls_resume_at listener then rearm_from d t (Suc listener_index) n
       else do {
         added \<leftarrow> os_do (os_epoll_add (d_os d) (ls_socket listener) EPOLLIN
           (event_token (of_nat listener_index) ListenerEvent));
         case added of
           Inr _ \<Rightarrow>
             do {
               listener_do listener_index (\<lambda>l. l\<lparr>ls_registered := True\<rparr>);
               rearm_from d t (Suc listener_index) n
             }
         | Inl error_number \<Rightarrow>
             (if is_accept_resource_error error_number
              then do {
                listener_do listener_index (\<lambda>l. l\<lparr>ls_resume_at := t + kAcceptResourceBackoff\<rparr>);
                rearm_from d t (Suc listener_index) n
              }
              else io_error d ''epoll_ctl(ADD listener)'' error_number)
       }
     }"

definition rearm_listeners :: "('e, 'g) deps \<Rightarrow> time_point \<Rightarrow> ('e, unit result) handler" where
  "rearm_listeners d t = do { n \<leftarrow> gets (\<lambda>w. length (re_listeners w)); rearm_from d t 0 n }"

section \<open>Accepting\<close>

definition count_rejection :: "admission_result \<Rightarrow> worker_stats \<Rightarrow> worker_stats" where
  "count_rejection result ws =
     (case result of
        ConcurrentLimit \<Rightarrow> ws\<lparr>rejected_ip_limit := fetch_add (rejected_ip_limit ws) 1\<rparr>
      | GlobalRateLimit \<Rightarrow> ws\<lparr>rejected_global_rate := fetch_add (rejected_global_rate ws) 1\<rparr>
      | SourceCapacity \<Rightarrow> ws\<lparr>rejected_source_capacity := fetch_add (rejected_source_capacity ws) 1\<rparr>
      | _ \<Rightarrow> ws\<lparr>rejected_rate_limit := fetch_add (rejected_rate_limit ws) 1\<rparr>)"

text \<open>Drop a client that is not admitted: give the slot back and close its socket.\<close>

definition turn_away :: "('e, 'g) deps \<Rightarrow> fd \<Rightarrow> ('e, unit result) handler" where
  "turn_away d client = do { release_active_slot; os_do (fd_destroy (d_os d) client); State_Monad.return (Inr ()) }"

text \<open>Give up a session that was not stored.\<close>

definition abandon_session :: "('e, 'g) deps \<Rightarrow> ('e, unit result) handler" where
  "abandon_session d = do { release_admission; destroy_session d; State_Monad.return (Inr ()) }"

text \<open>Put the session in focus into the table, schedule its timeout and start its handshake.\<close>

definition insert_session :: "('e, 'g) deps \<Rightarrow> session \<Rightarrow> ('e, unit result) handler" where
  "insert_session d s =
     do {
       modify (\<lambda>w. w\<lparr>re_sessions := re_sessions w @ [(se_id s, s)]\<rparr>);
       on_session (se_id s) s schedule_timeout;
       worker_do (\<lambda>ws. ws\<lparr>accepted_connections := fetch_add (accepted_connections ws) 1\<rparr>);
       stored \<leftarrow> find_session (se_id s);
       (case stored of
          Some stored \<Rightarrow>
            do_if (se_stage stored = TlsHandshake)
              (do {
                 kept \<leftarrow> on_session (se_id s) stored
                   (do { driven \<leftarrow> drive_tls_handshake d;
                         if driven then update_interests d else State_Monad.return False });
                 do_if (\<not> kept) (close_session d (se_id s))
               })
        | None \<Rightarrow> fault);
       State_Monad.return (Inr ())
     }"

definition duplicate_session :: error where
  "duplicate_session = IoError ''duplicate reactor session identifier''"

text \<open>The session in focus is complete: register it and store it.\<close>

definition store_session :: "('e, 'g) deps \<Rightarrow> ('e, unit result) handler" where
  "store_session d =
     do {
       s \<leftarrow> se_get id;
       added \<leftarrow> os_do (os_epoll_add (d_os d) (se_client s) (EPOLLIN OR EPOLLRDHUP)
         (event_token (of_nat (se_id s)) ClientEvent));
       case added of
         Inl _ \<Rightarrow> abandon_session d
       | Inr _ \<Rightarrow>
           do {
             existing \<leftarrow> find_session (se_id s);
             if existing \<noteq> None
             then do { drop_lease; destroy_session d; State_Monad.return (Inl duplicate_session) }
             else insert_session d s
           }
     }"

text \<open>The client was admitted: build its session.\<close>

definition open_session :: "('e, 'g) deps \<Rightarrow> nat \<Rightarrow> runtime_snapshot \<Rightarrow> fd \<Rightarrow> sockaddr_storage \<Rightarrow> sockaddr_storage \<Rightarrow>
    lease option \<Rightarrow> ('e, unit result) handler" where
  "open_session d listener_index runtime client peer_address local_address lease =
     do {
       ident \<leftarrow> gets re_next_session_id;
       modify (\<lambda>w. w\<lparr>re_next_session_id := wrap64 (re_next_session_id w + 1)\<rparr>);
       let header = make_proxy_v2_header peer_address local_address;
       do_if (header = None) fault;
       t \<leftarrow> now d;
       se_set (\<lambda>_. (new_session runtime)\<lparr>se_id := ident, se_client := client,
         se_proxy_header := (case header of None \<Rightarrow> new_header | Some h \<Rightarrow> h), se_admission := lease, se_last_activity := t\<rparr>);
       limits \<leftarrow> se_get se_limits;
       tls_enabled \<leftarrow> gets (\<lambda>w. ls_tls_enabled (re_listeners w ! listener_index));
       if \<not> tls_enabled
       then do {
         se_set (\<lambda>s. s\<lparr>se_stage := FirstMessage,
           se_deadline := se_last_activity s + first_message_timeout_seconds limits * ns_per_second\<rparr>);
         store_session d
       }
       else do {
         worker_do (\<lambda>ws. ws\<lparr>tls_handshake_attempts := fetch_add (tls_handshake_attempts ws) 1\<rparr>);
         se_set (\<lambda>s. s\<lparr>se_tls_handshake_started_at := se_last_activity s\<rparr>);
         contexts \<leftarrow> gets re_tls;
         ssl \<leftarrow> (case context_for contexts listener_index of
                  None \<Rightarrow> State_Monad.return None
                | Some tls_context \<Rightarrow> os_do (os_ssl_new (d_os d) tls_context client));
         case ssl of
           None \<Rightarrow>
             do {
               worker_do (\<lambda>ws. ws\<lparr>rejected_tls := fetch_add (rejected_tls ws) 1\<rparr>);
               abandon_session d
             }
         | Some stream \<Rightarrow>
             do {
               se_set (\<lambda>s. s\<lparr>se_ssl := Some stream, se_stage := TlsHandshake,
                 se_deadline := se_last_activity s + tls_handshake_timeout_seconds limits * ns_per_second\<rparr>);
               store_session d
             }
       }
     }"

definition admit_client :: "('e, 'g) deps \<Rightarrow> nat \<Rightarrow> runtime_snapshot \<Rightarrow> fd \<Rightarrow> sockaddr_storage \<Rightarrow> ('e, unit result) handler" where
  "admit_client d listener_index runtime client peer_address =
     do {
       let limits = cfg_limits (rs_config runtime);
       os_do (configure_stream_socket (d_os d) client);
       prior_active \<leftarrow> gets (\<lambda>w. active_connections (ss_stats (re_state w)));
       stats_do (\<lambda>s. s\<lparr>active_connections := fetch_add (active_connections s) 1\<rparr>);
       if max_connections limits \<le> prior_active
       then do {
         stats_do (\<lambda>s. s\<lparr>active_connections := fetch_sub (active_connections s) 1\<rparr>);
         worker_do (\<lambda>ws. ws\<lparr>rejected_global_limit := fetch_add (rejected_global_limit ws) 1\<rparr>);
         os_do (fd_destroy (d_os d) client);
         State_Monad.return (Inr ())
       }
       else do {
         worker_do (\<lambda>ws. ws\<lparr>worker_active_connections := fetch_add (worker_active_connections ws) 1\<rparr>);
         named \<leftarrow> os_do (os_getsockname (d_os d) client);
         case named of
           Inl _ \<Rightarrow> turn_away d client
         | Inr local_address \<Rightarrow>
             do {
               t \<leftarrow> now d;
               limiter \<leftarrow> gets re_limiter;
               let (limiter, admission) =
                 acquire (d_order d) False (client_rate_limit_key peer_address (nat (ipv6_prefix_bits limits))) limits t limiter;
               modify (\<lambda>w. w\<lparr>re_limiter := limiter\<rparr>);
               stats_do (\<lambda>s. s\<lparr>tracked_clients := tracked limiter\<rparr>);
               case admission of
                 None \<Rightarrow> do { fault; State_Monad.return (Inr ()) }
               | Some (result, lease) \<Rightarrow>
                   (if result \<noteq> Accepted
                    then do { worker_do (count_rejection result); turn_away d client }
                    else open_session d listener_index runtime client peer_address local_address lease)
             }
       }
     }"

text \<open>The loop of \<^verbatim>\<open>accept_ready\<close>; the argument counts the attempts that remain.\<close>

fun accept_loop :: "('e, 'g) deps \<Rightarrow> nat \<Rightarrow> runtime_snapshot \<Rightarrow> nat \<Rightarrow> ('e, unit result) handler" where
  "accept_loop d listener_index runtime 0 = State_Monad.return (Inr ())"
| "accept_loop d listener_index runtime (Suc n) =
     do {
       listener \<leftarrow> gets (\<lambda>w. re_listeners w ! listener_index);
       accepted \<leftarrow> os_do (os_accept4 (d_os d) (ls_socket listener));
       case accepted of
         Inl error_number \<Rightarrow>
           (if error_number = EINTR then accept_loop d listener_index runtime n
            else if is_accept_resource_error error_number then pause_listener d listener_index
            else State_Monad.return (Inr ()))
       | Inr (client, peer_address) \<Rightarrow>
           do {
             admitted \<leftarrow> admit_client d listener_index runtime client peer_address;
             case admitted of
               Inl error \<Rightarrow> State_Monad.return (Inl error)
             | Inr _ \<Rightarrow> accept_loop d listener_index runtime n
           }
     }"

definition accept_ready :: "('e, 'g) deps \<Rightarrow> nat \<Rightarrow> ('e, unit result) handler" where
  "accept_ready d listener_index =
     do {
       listeners \<leftarrow> gets re_listeners;
       if length listeners \<le> listener_index \<or> \<not> ls_registered (listeners ! listener_index)
       then State_Monad.return (Inr ())
       else do {
         runtime \<leftarrow> gets (\<lambda>w. ss_runtime (re_state w));
         accept_loop d listener_index runtime kMaximumAcceptsPerReadyEvent
       }
     }"

section \<open>Dispatching\<close>

definition dispatch_event :: "('e, 'g) deps \<Rightarrow> u64 \<Rightarrow> 32 word \<Rightarrow> ('e, unit result) handler" where
  "dispatch_event d token events =
     (let kind = event_kind_of token; ident = unat (event_id token)
      in if kind = ListenerEvent then accept_ready d ident
         else do {
           found \<leftarrow> find_session ident;
           case found of
             None \<Rightarrow> State_Monad.return (Inr ())
           | Some s \<Rightarrow>
               do {
                 kept \<leftarrow> on_session ident s
                   (do {
                      kept \<leftarrow> (if kind = ClientEvent then client_ready d events else upstream_ready d events);
                      if kept then update_interests d else State_Monad.return False
                    });
                 do_if (\<not> kept) (close_session d ident);
                 State_Monad.return (Inr ())
               }
         })"

fun dispatch_batch :: "('e, 'g) deps \<Rightarrow> (u64 \<times> 32 word) list \<Rightarrow> ('e, unit result) handler" where
  "dispatch_batch d [] = State_Monad.return (Inr ())"
| "dispatch_batch d ((token, events) # ready) =
     do {
       dispatched \<leftarrow> dispatch_event d token events;
       case dispatched of
         Inl error \<Rightarrow> State_Monad.return (Inl error)
       | Inr _ \<Rightarrow> dispatch_batch d ready
     }"

definition expire_session :: "('e, 'g) deps \<Rightarrow> time_point \<Rightarrow> timer_expiry \<Rightarrow> ('e, unit) handler" where
  "expire_session d t expiry =
     do {
       found \<leftarrow> find_session (te_session expiry);
       case found of
         None \<Rightarrow> State_Monad.return ()
       | Some s \<Rightarrow>
           (if se_timeout_generation s \<noteq> te_generation expiry then State_Monad.return ()
            else if t < timeout_deadline s
            then modify (\<lambda>w. w\<lparr>re_wheel :=
                   wheel_schedule (re_wheel w) (te_session expiry) (te_generation expiry) (timeout_deadline s)\<rparr>)
            else if se_stage s = UpstreamConnect
            then do {
              kept \<leftarrow> on_session (te_session expiry) s
                (do {
                   record_upstream_error;
                   discard_upstream d;
                   overall \<leftarrow> se_get se_upstream_overall_deadline;
                   if overall \<le> t then State_Monad.return False else start_next_upstream_connect d
                 });
              do_if (\<not> kept) (close_session d (te_session expiry))
            }
            else do {
              do_if (se_stage s = TlsHandshake) (worker_do (\<lambda>ws. ws\<lparr>rejected_tls := fetch_add (rejected_tls ws) 1\<rparr>));
              close_session d (te_session expiry)
            })
     }"

fun expire_each :: "('e, 'g) deps \<Rightarrow> time_point \<Rightarrow> timer_expiry list \<Rightarrow> ('e, unit) handler" where
  "expire_each d t [] = State_Monad.return ()"
| "expire_each d t (expiry # expiries) = do { expire_session d t expiry; expire_each d t expiries }"

definition expire_timeouts :: "('e, 'g) deps \<Rightarrow> time_point \<Rightarrow> ('e, unit) handler" where
  "expire_timeouts d t =
     do {
       wheel \<leftarrow> gets re_wheel;
       let (wheel, expired) = wheel_advance wheel t;
       modify (\<lambda>w. w\<lparr>re_wheel := wheel\<rparr>);
       expire_each d t expired
     }"

text \<open>One round of \<^verbatim>\<open>dispatch_events\<close>.\<close>

definition dispatch_round :: "('e, 'g) deps \<Rightarrow> ('e, unit result) handler" where
  "dispatch_round d =
     do {
       wait_started_at \<leftarrow> now d;
       rearmed \<leftarrow> rearm_listeners d wait_started_at;
       case rearmed of
         Inl error \<Rightarrow> State_Monad.return (Inl error)
       | Inr _ \<Rightarrow>
           do {
             timeout \<leftarrow> gets (\<lambda>w. epoll_wait_timeout wait_started_at (re_listeners w));
             waited \<leftarrow> os_do (os_epoll_wait (d_os d) kMaximumEvents timeout);
             case waited of
               Inl error_number \<Rightarrow>
                 (if error_number \<noteq> EINTR then io_error d ''epoll_wait'' error_number
                  else do { _ \<leftarrow> now d; t \<leftarrow> now d; expire_timeouts d t; State_Monad.return (Inr ()) })
             | Inr ready \<Rightarrow>
                 do {
                   batch_started_at \<leftarrow> now d;
                   dispatched \<leftarrow> dispatch_batch d ready;
                   case dispatched of
                     Inl error \<Rightarrow> State_Monad.return (Inl error)
                   | Inr _ \<Rightarrow>
                       do {
                         do_if (ready \<noteq> [])
                           (do { t \<leftarrow> now d;
                                 worker_do (\<lambda>ws. record_event_batch ws (length ready) (t - batch_started_at)) });
                         t \<leftarrow> now d;
                         expire_timeouts d t;
                         State_Monad.return (Inr ())
                       }
                 }
           }
     }"

section \<open>Shutting down\<close>

fun close_listeners :: "('e, 'g) deps \<Rightarrow> nat \<Rightarrow> nat \<Rightarrow> ('e, unit) handler" where
  "close_listeners d listener_index 0 = State_Monad.return ()"
| "close_listeners d listener_index (Suc n) =
     do {
       listener \<leftarrow> gets (\<lambda>w. re_listeners w ! listener_index);
       do_if (fd_valid (ls_socket listener))
         (do {
            do_if (ls_registered listener) (do { _ \<leftarrow> os_do (os_epoll_del (d_os d) (ls_socket listener)); State_Monad.return () });
            v \<leftarrow> os_do (fd_reset (d_os d) (ls_socket listener) (-1));
            listener_do listener_index (\<lambda>l. l\<lparr>ls_registered := False, ls_socket := v\<rparr>)
          });
       close_listeners d (Suc listener_index) n
     }"

text \<open>Every round closes one session; their number is the argument.\<close>

fun close_sessions :: "('e, 'g) deps \<Rightarrow> nat \<Rightarrow> ('e, unit) handler" where
  "close_sessions d 0 = do { more \<leftarrow> gets (\<lambda>w. re_sessions w \<noteq> []); do_if more fault }"
| "close_sessions d (Suc n) =
     do {
       sessions \<leftarrow> gets re_sessions;
       if sessions = [] then State_Monad.return ()
       else do { close_session d (fst (hd sessions)); close_sessions d n }
     }"

definition shutdown :: "('e, 'g) deps \<Rightarrow> ('e, unit) handler" where
  "shutdown d =
     do {
       listeners \<leftarrow> gets (\<lambda>w. length (re_listeners w));
       close_listeners d 0 listeners;
       n \<leftarrow> gets (\<lambda>w. length (re_sessions w));
       close_sessions d n
     }"

section \<open>Running\<close>

text \<open>The loop runs until a stop request or an exception; not returning is \<open>None\<close>.\<close>

partial_function (option) dispatch_events :: "('e, 'g) deps \<Rightarrow> 'e reactor \<Rightarrow> (unit result \<times> 'e reactor) option" where
  "dispatch_events d w =
     (case run_state (os_do (os_stop_requested (d_os d))) w of (stop, w) \<Rightarrow>
        if stop then Some (Inr (), w)
        else case run_state (dispatch_round d) w of (dispatched, w) \<Rightarrow>
          (case dispatched of
             Inl error \<Rightarrow> Some (Inl error, w)
           | Inr _ \<Rightarrow> dispatch_events d w))"

definition reactor_run :: "('e, 'g) deps \<Rightarrow> 'e reactor \<Rightarrow> (unit result \<times> 'e reactor) option" where
  "reactor_run d w =
     do {
       (dispatched, w) \<leftarrow> dispatch_events d w;
       Some (dispatched, snd (run_state (shutdown d) w))
     }"

section \<open>Construction\<close>

text \<open>An exception in the constructor closes the listeners made so far, and the caller of the loop the \<^verbatim>\<open>epoll\<close> descriptor.\<close>

fun destroy_all :: "'e os \<Rightarrow> fd list \<Rightarrow> ('e, unit) state" where
  "destroy_all os [] = State_Monad.return ()"
| "destroy_all os (v # vs) = do { fd_destroy os v; destroy_all os vs }"

fun create_listeners :: "'e os \<Rightarrow> tls_context_store \<Rightarrow> listener_state list \<Rightarrow> socket_address list \<Rightarrow>
    ('e, listener_state list result) state" where
  "create_listeners os contexts made [] = State_Monad.return (Inr made)"
| "create_listeners os contexts made (address # addresses) =
     do {
       created \<leftarrow> create_listener os address kListenBacklog True;
       case created of
         Inl error \<Rightarrow> do { destroy_all os (map ls_socket made); State_Monad.return (Inl error) }
       | Inr v \<Rightarrow>
           (let runtime = \<lparr>ls_socket = v, ls_tls_enabled = context_for contexts (length made) \<noteq> None,
                           ls_registered = True, ls_resume_at = 0\<rparr>
            in do {
              added \<leftarrow> os_epoll_add os v EPOLLIN (event_token (of_nat (length made)) ListenerEvent);
              case added of
                Inl error_number \<Rightarrow>
                  do {
                    fd_destroy os v;
                    destroy_all os (map ls_socket made);
                    State_Monad.return (Inl (IoError (''epoll_ctl(ADD): '' @ os_strerror os error_number)))
                  }
              | Inr _ \<Rightarrow> create_listeners os contexts (made @ [runtime]) addresses
            })
     }"

definition new_reactor :: "('e, 'g) deps \<Rightarrow> socket_address list \<Rightarrow> tls_context_store \<Rightarrow> service_state \<Rightarrow> rate_limiter \<Rightarrow>
    worker_stats \<Rightarrow> backend_store \<Rightarrow> 'e \<Rightarrow> 'e reactor result \<times> 'e" where
  "new_reactor d listeners contexts state limiter worker backends e =
     run_state (do {
       created \<leftarrow> os_epoll_create (d_os d);
       t \<leftarrow> os_now (d_os d);
       case created of
         Inl error_number \<Rightarrow> State_Monad.return (Inl (IoError (''epoll_create1: '' @ os_strerror (d_os d) error_number)))
       | Inr epoll \<Rightarrow>
           do {
             made \<leftarrow> create_listeners (d_os d) contexts [] listeners;
             e \<leftarrow> State_Monad.get;
             case made of
               Inl error \<Rightarrow> do { fd_destroy (d_os d) epoll; State_Monad.return (Inl error) }
             | Inr made \<Rightarrow>
                 State_Monad.return (Inr
                   \<lparr>re_env = e, re_epoll = epoll, re_state = state, re_tls = contexts, re_limiter = limiter,
                    re_worker = worker, re_backends = backends, re_listeners = made, re_sessions = [],
                    re_wheel = wheel_new t, re_next_session_id = 1, re_route_sequence = 0, re_source_sequence = 0,
                    re_session = new_session (ss_runtime state), re_fault = False\<rparr>)
           }
     }) e"

end
