(* ===== verification/Session_Invariant.thy ===== *)
theory Session_Invariant
  imports Reactor_Loop
begin

text \<open>
  The invariant of the session in focus and of everything it shares with the rest of the process: the
  byte budget, the load of its backend, its admission lease, its timer. Every handler of a session keeps it,
  and no handler leaves what C++ defines.
\<close>

section \<open>The invariant\<close>

text \<open>A routing table that refers only to backends that exist.\<close>

definition table_in :: "nat \<Rightarrow> routing_table \<Rightarrow> bool" where
  "table_in n table \<longleftrightarrow> (\<forall>ref\<in>set (concat (map ps_backends (rt_pools table))). ref < n)"

text \<open>
  A session by itself: its queues are well formed, a TLS write is repeated with bytes that are still
  there, a session that is past its first message has a backend, only a relaying one is counted, and
  one in its handshake has a TLS stream.
\<close>

definition session_ok :: "nat \<Rightarrow> session \<Rightarrow> bool" where
  "session_ok n s \<longleftrightarrow>
     pb_inv (se_to_upstream s) \<and> pb_inv (se_to_client s) \<and>
     se_client_write_retry_bytes s \<le> pb_size (se_to_client s) \<and>
     (se_ssl s = None \<longrightarrow> se_client_write_retry_bytes s = 0) \<and>
     (\<forall>ref. se_backend s = Some ref \<longrightarrow> ref < n) \<and>
     (se_backend_counted s \<longrightarrow> se_stage s = Relay) \<and>
     (se_stage s \<in> {UpstreamConnect, Relay} \<longrightarrow> se_backend s \<noteq> None \<and> received_message (se_protocol_state s)) \<and>
     (se_stage s = TlsHandshake \<longrightarrow> se_ssl s \<noteq> None) \<and>
     table_in n (rs_routing (se_runtime s))"

text \<open>What the rest of the process holds while a handler runs on one session.\<close>

record frame =
  fr_bytes :: nat
  fr_load :: "backend_ref \<Rightarrow> nat"
  fr_leases :: "lease multiset"
  fr_timers :: "nat \<rightharpoonup> nat \<times> nat"
  fr_tick :: nat
  fr_ident :: nat
  fr_stores :: nat
  fr_sessions :: "(nat \<times> session) list"
  fr_listeners :: "listener_state list"
  fr_active :: nat
  fr_worker_active :: nat
  fr_next_id :: nat
  fr_runtime :: runtime_snapshot
  fr_untimed :: bool

definition own_load :: "session \<Rightarrow> backend_ref \<Rightarrow> nat" where
  "own_load s ref = (if se_backend_counted s \<and> se_backend s = Some ref then 1 else 0)"

definition loads_ok :: "backend_store \<Rightarrow> nat \<Rightarrow> (backend_ref \<Rightarrow> nat) \<Rightarrow> bool" where
  "loads_ok store n load \<longleftrightarrow> length store = n \<and> (\<forall>ref<n. be_active_connections (store ! ref) = wrap64 (load ref))"

text \<open>
  The timer of the session is there; while its expiry is being handled, or before the first one is scheduled, it may be missing.
\<close>

definition timer_ok :: "frame \<Rightarrow> session \<Rightarrow> (nat \<rightharpoonup> nat \<times> nat) \<Rightarrow> bool" where
  "timer_ok fr s timers \<longleftrightarrow>
     (\<exists>due. timers = (fr_timers fr)(fr_ident fr \<mapsto> (se_timeout_generation s, due))) \<or>
     fr_untimed fr \<and> timers = (fr_timers fr)(fr_ident fr := None)"

lemma timer_ok_bytes [simp]: "timer_ok (fr\<lparr>fr_bytes := n\<rparr>) s timers = timer_ok fr s timers"
  by (simp add: timer_ok_def)

definition shared_ok :: "frame \<Rightarrow> session \<Rightarrow> 'e reactor \<Rightarrow> bool" where
  "shared_ok fr s w \<longleftrightarrow>
     \<not> re_fault w \<and> se_id s = fr_ident fr \<and>
     queued_bytes (ss_stats (re_state w)) = wrap64 (fr_bytes fr + se_queued s) \<and>
     queued_bytes_limit (ss_stats (re_state w)) < 2 ^ 64 \<and>
     loads_ok (re_backends w) (fr_stores fr) (\<lambda>ref. fr_load fr ref + own_load s ref) \<and>
     (\<exists>x. se_admission s = Some x \<and> limiter_ok (add_mset x (fr_leases fr)) (re_limiter w)) \<and>
     wheel_inv (re_wheel w) \<and> tw_current (re_wheel w) = fr_tick fr \<and> Suc (fr_tick fr) < 2 ^ 64 \<and>
     timer_ok fr s (deadlines (re_wheel w))"

definition unmoved :: "frame \<Rightarrow> 'e reactor \<Rightarrow> bool" where
  "unmoved fr w \<longleftrightarrow>
     re_sessions w = fr_sessions fr \<and> re_listeners w = fr_listeners fr \<and>
     active_connections (ss_stats (re_state w)) = fr_active fr \<and>
     worker_active_connections (re_worker w) = fr_worker_active fr \<and> re_next_session_id w = fr_next_id fr \<and>
     ss_runtime (re_state w) = fr_runtime fr"

text \<open>
  The set restricts the stage of the session and the connection candidates it has left.
\<close>

definition focus :: "frame \<Rightarrow> (session_stage \<times> nat) set \<Rightarrow> 'e reactor \<Rightarrow> bool" where
  "focus fr A w \<longleftrightarrow> shared_ok fr (re_session w) w \<and> unmoved fr w \<and> session_ok (fr_stores fr) (re_session w) \<and>
     (se_stage (re_session w), se_connect_candidates_remaining (re_session w)) \<in> A"

section \<open>Building blocks\<close>

lemmas act_defs = os_do_def se_get_def se_set_def worker_do_def stats_do_def backend_do_def fault_def

lemma wp_os_do [wp_simps]: "wp (os_do m) Q = (\<lambda>w. wp m (\<lambda>x e. Q x (w\<lparr>re_env := e\<rparr>)) (re_env w))"
  by (simp add: wp_def os_do_def fun_eq_iff split: prod.splits)

lemma wp_se_get [wp_simps]: "wp (se_get f) Q = (\<lambda>w. Q (f (re_session w)) w)"
  by (simp add: se_get_def wp_simps)

lemma wp_se_set [wp_simps]: "wp (se_set f) Q = (\<lambda>w. Q () (w\<lparr>re_session := f (re_session w)\<rparr>))"
  by (simp add: se_set_def wp_simps)

lemma wp_worker_do [wp_simps]: "wp (worker_do f) Q = (\<lambda>w. Q () (w\<lparr>re_worker := f (re_worker w)\<rparr>))"
  by (simp add: worker_do_def wp_simps)

lemma wp_stats_do [wp_simps]:
  "wp (stats_do f) Q = (\<lambda>w. Q () (w\<lparr>re_state := (re_state w)\<lparr>ss_stats := f (ss_stats (re_state w))\<rparr>\<rparr>))"
  by (simp add: stats_do_def wp_simps)

lemma wp_backend_do [wp_simps]:
  "wp (backend_do ref f) Q = (\<lambda>w. Q () (w\<lparr>re_backends := (re_backends w)[ref := f (re_backends w ! ref)]\<rparr>))"
  by (simp add: backend_do_def wp_simps)

lemma wp_fault [wp_simps]: "wp fault Q = (\<lambda>w. Q () (w\<lparr>re_fault := True\<rparr>))"
  by (simp add: fault_def wp_simps)

lemma wp_with_backend [wp_simps]:
  "wp (with_backend x f) Q = (\<lambda>w.
     case se_backend (re_session w) of
        None \<Rightarrow> Q x (w\<lparr>re_fault := True\<rparr>)
      | Some ref \<Rightarrow> wp (f ref (re_backends w ! ref)) Q w)"
  by (simp add: with_backend_def wp_simps fun_eq_iff split: option.splits)

text \<open>The parts of a session the invariant reads.\<close>

definition same_core :: "session \<Rightarrow> session \<Rightarrow> bool" where
  "same_core s t \<longleftrightarrow>
     se_id t = se_id s \<and> se_line_buffer t = se_line_buffer s \<and> se_to_upstream t = se_to_upstream s \<and>
     se_to_client t = se_to_client s \<and> se_backend t = se_backend s \<and> se_backend_counted t = se_backend_counted s \<and>
     se_admission t = se_admission s \<and> se_timeout_generation t = se_timeout_generation s \<and> se_stage t = se_stage s \<and>
     se_ssl t = se_ssl s \<and> se_runtime t = se_runtime s \<and> se_protocol_state t = se_protocol_state s \<and>
     se_client_write_retry_bytes t = se_client_write_retry_bytes s \<and>
     se_connect_candidates_remaining t = se_connect_candidates_remaining s"

lemma focus_same_core: "focus fr A w \<Longrightarrow> same_core (re_session w) t \<Longrightarrow> focus fr A (w\<lparr>re_session := t\<rparr>)"
  by (simp add: focus_def shared_ok_def unmoved_def session_ok_def same_core_def se_queued_def own_load_def timer_ok_def)

lemma focus_env: "focus fr A (w\<lparr>re_env := e\<rparr>) = focus fr A w"
  by (simp add: focus_def shared_ok_def unmoved_def)

lemma focus_worker:
  "worker_active_connections ws = worker_active_connections (re_worker w) \<Longrightarrow> focus fr A (w\<lparr>re_worker := ws\<rparr>) = focus fr A w"
  by (simp add: focus_def shared_ok_def unmoved_def)

lemma focus_sequences:
  "focus fr A (w\<lparr>re_route_sequence := n\<rparr>) = focus fr A w" "focus fr A (w\<lparr>re_source_sequence := n\<rparr>) = focus fr A w"
  by (simp_all add: focus_def shared_ok_def unmoved_def)

lemma focus_backend:
  assumes "focus fr A w" and "\<And>b. be_active_connections (f b) = be_active_connections b"
  shows "focus fr A (w\<lparr>re_backends := (re_backends w)[ref := f (re_backends w ! ref)]\<rparr>)"
proof -
  have "be_active_connections ((re_backends w)[ref := f (re_backends w ! ref)] ! r) = be_active_connections (re_backends w ! r)" for r
    using assms(2) by (cases "ref < length (re_backends w)") (simp_all add: nth_list_update list_update_beyond)
  with assms(1) show ?thesis by (simp add: focus_def shared_ok_def unmoved_def loads_ok_def)
qed

lemma keeps_os_do [keeps_intros]: "keeps (focus fr A) (os_do m)"
  by (auto simp: keeps_def wp_simps focus_env intro: wp_any)

lemma keeps_se_get [keeps_intros]: "keeps I (se_get f)"
  by (simp add: keeps_def wp_simps)

lemma keeps_se_set: "(\<And>s. same_core s (f s)) \<Longrightarrow> keeps (focus fr A) (se_set f)"
  by (simp add: keeps_def wp_simps focus_same_core)

lemma keeps_worker_do:
  "(\<And>ws. worker_active_connections (f ws) = worker_active_connections ws) \<Longrightarrow> keeps (focus fr A) (worker_do f)"
  by (simp add: keeps_def wp_simps focus_worker)

lemma keeps_backend_do:
  "(\<And>b. be_active_connections (f b) = be_active_connections b) \<Longrightarrow> keeps (focus fr A) (backend_do ref f)"
  by (simp add: keeps_def wp_simps focus_backend)

lemma keeps_now [keeps_intros]: "keeps (focus fr A) (now d)"
  by (simp add: now_def keeps_os_do)

lemma keeps_protocol_error [keeps_intros]: "keeps (focus fr A) (protocol_error e)"
  unfolding protocol_error_def by (rule keeps_worker_do) (simp add: record_protocol_error_def Let_def)

text \<open>For steps that keep the invariant on the way to a stronger conclusion.\<close>

lemma wp_keeps: "keeps I m \<Longrightarrow> I w \<Longrightarrow> (\<And>x w'. I w' \<Longrightarrow> Q x w') \<Longrightarrow> wp m Q w"
  by (auto simp: keeps_def intro: wp_mono)

section \<open>Bytes\<close>

lemma wrap64_reserve:
  assumes "try_reserve_queued_bytes st n = (st', b)" and "queued_bytes st = wrap64 x" and "queued_bytes_limit st < 2 ^ 64"
  shows "queued_bytes st' = (if b then wrap64 (x + n) else wrap64 x) \<and> queued_bytes_limit st' = queued_bytes_limit st \<and>
    active_connections st' = active_connections st"
  using assms by (auto simp: try_reserve_queued_bytes_def Let_def wrap64_def mod_add_left_eq split: if_splits)

lemma mod_sub:
  fixes x n m :: nat
  assumes "n \<le> x" and "0 < m"
  shows "(x mod m + m - n mod m) mod m = (x - n) mod m"
proof -
  have n: "n = n div m * m + n mod m" "n mod m \<le> m" using assms(2) by (simp_all add: less_imp_le)
  then have "x + (m - n mod m) = (x - n) + (n div m * m + m)" using assms(1) by linarith
  then have "x + (m - n mod m) = (x - n) + (n div m + 1) * m" by simp
  then have "(x + (m - n mod m)) mod m = (x - n) mod m" by (simp only: mod_mult_self1)
  moreover have "x mod m + m - n mod m = x mod m + (m - n mod m)" using n(2) by simp
  ultimately show ?thesis by (metis mod_add_left_eq)
qed

lemma wrap64_release: "n \<le> x \<Longrightarrow> fetch_sub (wrap64 x) n = wrap64 (x - n)"
  by (simp add: fetch_sub_def wrap64_def mod_sub del: power_numeral numeral_power_eq_of_nat_cancel_iff)

lemma wrap64_add: "fetch_add (wrap64 x) n = wrap64 (x + n)"
  by (simp add: fetch_add_def wrap64_def mod_add_left_eq)

text \<open>Everything but the buffers; and that the buffers are well formed.\<close>

definition same_identity :: "session \<Rightarrow> session \<Rightarrow> bool" where
  "same_identity s t \<longleftrightarrow>
     se_id t = se_id s \<and> se_backend t = se_backend s \<and> se_backend_counted t = se_backend_counted s \<and>
     se_admission t = se_admission s \<and> se_timeout_generation t = se_timeout_generation s \<and> se_stage t = se_stage s \<and>
     se_ssl t = se_ssl s \<and> se_runtime t = se_runtime s \<and> se_protocol_state t = se_protocol_state s \<and>
     se_connect_candidates_remaining t = se_connect_candidates_remaining s"

definition buffers_ok :: "session \<Rightarrow> bool" where
  "buffers_ok s \<longleftrightarrow> pb_inv (se_to_upstream s) \<and> pb_inv (se_to_client s) \<and>
     se_client_write_retry_bytes s \<le> pb_size (se_to_client s) \<and>
     (se_ssl s = None \<longrightarrow> se_client_write_retry_bytes s = 0)"

abbreviation hold :: "frame \<Rightarrow> nat \<Rightarrow> frame" where
  "hold fr n \<equiv> fr\<lparr>fr_bytes := fr_bytes fr + n\<rparr>"

lemma focus_buffers: "focus fr A w \<Longrightarrow> buffers_ok (re_session w)"
  by (simp add: focus_def session_ok_def buffers_ok_def)

text \<open>Bytes that move between the session and what is held for it.\<close>

lemma focus_move:
  assumes "focus (hold fr m) A w" and "same_identity (re_session w) t" and "buffers_ok t"
    and "m + se_queued (re_session w) = m' + se_queued t"
  shows "focus (hold fr m') A (w\<lparr>re_session := t\<rparr>)"
  using assms
  by (auto simp: focus_def shared_ok_def unmoved_def session_ok_def same_identity_def buffers_ok_def own_load_def timer_ok_def add.assoc)

lemma focus_hold_0 [simp]: "focus (hold fr 0) A = focus fr A"
  by simp

lemma focus_stats:
  assumes "focus (hold fr m) A w" and "queued_bytes st = wrap64 (fr_bytes fr + m' + se_queued (re_session w))"
    and "queued_bytes_limit st = queued_bytes_limit (ss_stats (re_state w))"
    and "active_connections st = active_connections (ss_stats (re_state w))"
  shows "focus (hold fr m') A (w\<lparr>re_state := (re_state w)\<lparr>ss_stats := st\<rparr>\<rparr>)"
  using assms by (simp add: focus_def shared_ok_def unmoved_def)

lemma reserve_wp:
  assumes "focus (hold fr m) A w"
  shows "wp (reserve_queued_bytes n) (\<lambda>b. focus (hold fr (m + (if b then n else 0))) A) w"
proof -
  let ?st = "ss_stats (re_state w)"
  obtain st b where r: "try_reserve_queued_bytes ?st n = (st, b)" by (cases "try_reserve_queued_bytes ?st n")
  have q: "queued_bytes ?st = wrap64 (fr_bytes fr + m + se_queued (re_session w))" "queued_bytes_limit ?st < 2 ^ 64"
    using assms by (simp_all add: focus_def shared_ok_def)
  from wrap64_reserve [OF r q] have
    "focus (hold fr (m + (if b then n else 0))) A (w\<lparr>re_state := (re_state w)\<lparr>ss_stats := st\<rparr>\<rparr>)"
    by (intro focus_stats [OF assms]) (cases b, simp_all add: ac_simps)
  then show ?thesis using r by (cases b) (simp_all add: reserve_queued_bytes_def wp_simps focus_worker Let_def)
qed

lemma release_wp:
  assumes "focus (hold fr (m + n)) A w"
  shows "wp (release_bytes n) (\<lambda>_. focus (hold fr m) A) w"
proof -
  have "queued_bytes (ss_stats (re_state w)) = wrap64 (fr_bytes fr + m + se_queued (re_session w) + n)"
    using assms by (simp add: focus_def shared_ok_def ac_simps)
  then have "focus (hold fr m) A (w\<lparr>re_state := (re_state w)\<lparr>ss_stats := release_queued_bytes (ss_stats (re_state w)) n\<rparr>\<rparr>)"
    by (intro focus_stats [OF assms]) (simp_all add: release_queued_bytes_def wrap64_release)
  then show ?thesis by (simp add: release_bytes_def wp_simps)
qed

text \<open>A reservation followed by the update of a buffer that takes the bytes.\<close>

lemma reserve_then_wp:
  assumes "focus fr A w"
    and "\<And>s. buffers_ok s \<Longrightarrow> same_identity s (f s) \<and> buffers_ok (f s) \<and> se_queued (f s) = se_queued s + n"
  shows "wp (State_Monad.bind (reserve_queued_bytes n) (\<lambda>reserved. if \<not> reserved then State_Monad.return False
    else State_Monad.bind (se_set f) (\<lambda>_. State_Monad.return True))) (\<lambda>_. focus fr A) w"
  unfolding wp_simps
proof (rule wp_mono)
  show "wp (reserve_queued_bytes n) (\<lambda>b. focus (hold fr (if b then n else 0)) A) w"
    using reserve_wp [of fr 0 A w n] assms(1) by simp
  fix b w' assume w': "focus (hold fr (if b then n else 0)) A w'"
  show "if \<not> b then focus fr A w' else focus fr A (w'\<lparr>re_session := f (re_session w')\<rparr>)"
    using w' assms(2) [of "re_session w'"] focus_buffers [OF w'] focus_move [of fr n A w' "f (re_session w')" 0]
    by (cases b) auto
qed

lemma pb_size_append: "pb_inv b \<Longrightarrow> pb_size (pb_append b bs) = pb_size b + length bs"
  by (simp add: pending.size_bytes pending.bytes_append pending.inv_append)

lemma pb_size_prepend: "pb_inv b \<Longrightarrow> pb_size (pb_prepend b bs) = length bs + pb_size b"
  by (simp add: pending.size_bytes pending.bytes_prepend pending.inv_prepend)

lemma pb_size_consume: "pb_inv b \<Longrightarrow> pb_size (pb_consume b n) = pb_size b - n"
  by (simp add: pending.size_bytes pending.bytes_consume pending.inv_consume)

lemmas buffer_simps = pb_size_append pb_size_prepend pb_size_consume pending.inv_append pending.inv_prepend pending.inv_consume

lemma append_client_keeps [keeps_intros]: "keeps (focus fr A) (append_queued se_to_client_update bytes)"
  unfolding append_queued_def
  by (intro keepsI reserve_then_wp) (auto simp: same_identity_def buffers_ok_def se_queued_def buffer_simps)

lemma prepend_upstream_keeps [keeps_intros]: "keeps (focus fr A) (prepend_queued se_to_upstream_update bytes)"
  unfolding prepend_queued_def
  by (intro keepsI reserve_then_wp) (auto simp: same_identity_def buffers_ok_def se_queued_def buffer_simps)

lemma append_line_keeps [keeps_intros]: "keeps (focus fr A) (append_line_bytes bytes)"
  unfolding append_line_bytes_def
  by (intro keepsI reserve_then_wp) (auto simp: same_identity_def buffers_ok_def se_queued_def str_append_def)

section \<open>Writes\<close>

text \<open>What the code relies on: a write reports at most as many bytes as it was given.\<close>

definition honest_writes :: "'e os \<Rightarrow> bool" where
  "honest_writes os \<longleftrightarrow>
     (\<forall>v bytes e n e'. run_state (os_send os v bytes) e = (Inr n, e') \<longrightarrow> n \<le> length bytes) \<and>
     (\<forall>stream bytes e n e'. run_state (os_ssl_write os stream bytes) e = (Inr n, e') \<longrightarrow> n \<le> length bytes)"

lemma send_wp:
  assumes "honest_writes os" and "\<And>error e'. Q (Inl error) e'" and "\<And>n e'. n \<le> length bytes \<Longrightarrow> Q (Inr n) e'"
  shows "wp (os_send os v bytes) Q e"
proof (rule wpI)
  fix x e' assume "run_state (os_send os v bytes) e = (x, e')"
  with assms show "Q x e'" unfolding honest_writes_def by (cases x) blast+
qed

lemma ssl_write_wp:
  assumes "honest_writes os" and "\<And>error e'. Q (Inl error) e'" and "\<And>n e'. n \<le> length bytes \<Longrightarrow> Q (Inr n) e'"
  shows "wp (os_ssl_write os stream bytes) Q e"
proof (rule wpI)
  fix x e' assume "run_state (os_ssl_write os stream bytes) e = (x, e')"
  with assms show "Q x e'" unfolding honest_writes_def by (cases x) blast+
qed

lemma pb_bytes_length: "pb_inv b \<Longrightarrow> length (pb_bytes b) = pb_size b"
  by (simp add: pending.size_bytes)

text \<open>The bytes a write took are held until they are released.\<close>

definition wrote :: "frame \<Rightarrow> (session_stage \<times> nat) set \<Rightarrow> io_result \<Rightarrow> 'e reactor \<Rightarrow> bool" where
  "wrote fr A r w \<longleftrightarrow> focus (hold fr (io_size r)) A w \<and> (0 < io_size r \<longrightarrow> io_status r = Data)"

lemma wrote_0: "focus fr A w \<Longrightarrow> wrote fr A \<lparr>io_status = st, io_size = 0\<rparr> w"
  by (simp add: wrote_def)

lemma consumed_upstream:
  assumes "focus fr A w" and "n \<le> pb_size (se_to_upstream (re_session w))"
  shows "wrote fr A \<lparr>io_status = Data, io_size = n\<rparr>
    (w\<lparr>re_session := (re_session w)\<lparr>se_to_upstream := pb_consume (se_to_upstream (re_session w)) n\<rparr>\<rparr>)"
  using assms focus_buffers [OF assms(1)]
  by (auto simp: wrote_def same_identity_def buffers_ok_def se_queued_def buffer_simps intro!: focus_move [where m = 0])

lemma write_upstream_wp:
  assumes "focus fr A w" and h: "honest_writes (d_os d)"
  shows "wp (write_upstream d) (\<lambda>r w'. wrote fr A r w' \<and>
    pb_size (se_to_upstream (re_session w')) = pb_size (se_to_upstream (re_session w)) - io_size r) w"
proof (cases "pb_empty (se_to_upstream (re_session w))")
  case True
  then show ?thesis using assms(1) by (simp add: write_upstream_def wp_simps wrote_0)
next
  case False
  have inv: "pb_inv (se_to_upstream (re_session w))" using focus_buffers [OF assms(1)] by (simp add: buffers_ok_def)
  have took: "wrote fr A \<lparr>io_status = Data, io_size = n\<rparr> (w\<lparr>re_env := e,
      re_session := (re_session w)\<lparr>se_to_upstream := pb_consume (se_to_upstream (re_session w)) n\<rparr>\<rparr>)"
    if "n \<le> pb_size (se_to_upstream (re_session w))" for n e
    using consumed_upstream [of fr A "w\<lparr>re_env := e\<rparr>" n] assms(1) that by (simp add: focus_env)
  have none: "wrote fr A \<lparr>io_status = st, io_size = 0\<rparr> (w\<lparr>re_env := e\<rparr>)" for st e
    using assms(1) by (simp add: wrote_0 focus_env)
  from False show ?thesis
    by (simp add: write_upstream_def wp_simps, intro send_wp [OF h])
      (auto simp: wp_simps took none inv pb_bytes_length buffer_simps)
qed

text \<open>Changes of the TLS bookkeeping alone.\<close>

lemma focus_tls_retry:
  assumes "focus fr A w" and "same_core (re_session w) (t\<lparr>se_client_write_retry_bytes := se_client_write_retry_bytes (re_session w)\<rparr>)"
    and "se_client_write_retry_bytes t \<le> pb_size (se_to_client (re_session w))" and "se_ssl t \<noteq> None"
  shows "focus fr A (w\<lparr>re_session := t\<rparr>)"
  using assms by (auto simp: focus_def shared_ok_def unmoved_def session_ok_def same_core_def se_queued_def own_load_def timer_ok_def)

lemma write_client_wp:
  assumes f: "focus fr A w" and h: "honest_writes (d_os d)"
  shows "wp (write_client d) (wrote fr A) w"
proof (cases "pb_empty (se_to_client (re_session w))")
  case True
  then show ?thesis using f by (simp add: write_client_def wp_simps wrote_0)
next
  case False
  let ?s = "re_session w"
  have ok: "pb_inv (se_to_client ?s)" "pb_inv (se_to_upstream ?s)" "se_client_write_retry_bytes ?s \<le> pb_size (se_to_client ?s)"
    using focus_buffers [OF f] by (simp_all add: buffers_ok_def)
  have n: "client_write_size ?s \<le> pb_size (se_to_client ?s)" using ok(3) by (simp add: client_write_size_def)
  have none: "wrote fr A \<lparr>io_status = st, io_size = 0\<rparr> (w\<lparr>re_env := e\<rparr>)" for st e
    using f by (simp add: wrote_0 focus_env)
  have took: "wrote fr A \<lparr>io_status = Data, io_size = n\<rparr> (w\<lparr>re_env := e, re_session := t\<rparr>)"
    if "n \<le> pb_size (se_to_client ?s)" "same_identity ?s t" "se_to_client t = pb_consume (se_to_client ?s) n"
      "se_to_upstream t = se_to_upstream ?s" "se_line_buffer t = se_line_buffer ?s" "se_client_write_retry_bytes t = 0" for n e t
    using f that ok focus_move [of fr 0 A "w\<lparr>re_env := e\<rparr>" t n]
    by (simp add: wrote_def focus_env buffers_ok_def se_queued_def buffer_simps)
  have retry: "wrote fr A \<lparr>io_status = st, io_size = 0\<rparr> (w\<lparr>re_env := e, re_session := t\<rparr>)"
    if "same_core ?s (t\<lparr>se_client_write_retry_bytes := se_client_write_retry_bytes ?s\<rparr>)"
      "se_client_write_retry_bytes t \<le> pb_size (se_to_client ?s)" "se_ssl t \<noteq> None" for st e t
    using focus_tls_retry [of fr A "w\<lparr>re_env := e\<rparr>" t] that f by (simp add: wrote_0 focus_env)
  show ?thesis
  proof (cases "se_ssl ?s")
    case None
    with False focus_buffers [OF f] show ?thesis
      by (simp add: write_client_def wp_simps, intro send_wp [OF h])
        (auto simp: wp_simps none ok pb_bytes_length same_identity_def buffers_ok_def intro!: took)
  next
    case (Some stream)
    with False n show ?thesis
      by (simp add: write_client_def wp_simps Let_def, intro ssl_write_wp [OF h])
        (auto simp: wp_simps none ok pb_bytes_length same_identity_def same_core_def intro!: took retry)
  qed
qed

lemma after_write_wp:
  assumes "wrote fr A r w" shows "wp (after_write d r) (\<lambda>_. focus fr A) w"
proof (cases "0 < io_size r")
  case True
  then have r: "focus (hold fr (0 + io_size r)) A w" "io_status r = Data" using assms by (simp_all add: wrote_def)
  have "wp (release_bytes (io_size r)) (\<lambda>_ w. wp (now d) (\<lambda>t w. focus fr A (w\<lparr>re_session := (re_session w)\<lparr>se_last_activity := t\<rparr>\<rparr>)) w) w"
    by (rule wp_mono [OF release_wp [OF r(1)]], rule wp_keeps [OF keeps_now])
      (auto intro: focus_same_core simp: same_core_def)
  with True r(2) show ?thesis by (simp add: after_write_def wp_simps)
next
  case False
  then show ?thesis using assms by (simp add: wrote_def after_write_def wp_simps)
qed

lemma flush_client_keeps [keeps_intros]: "honest_writes (d_os d) \<Longrightarrow> keeps (focus fr A) (flush_client d)"
  unfolding flush_client_def keeps_def wp_simps by (auto intro: wp_mono [OF write_client_wp] after_write_wp)

lemma push_upstream_keeps [keeps_intros]: "honest_writes (d_os d) \<Longrightarrow> keeps (focus fr A) (push_upstream d)"
  unfolding push_upstream_def keeps_def wp_simps by (auto intro: wp_mono [OF write_upstream_wp] after_write_wp)

lemma flush_loop_wp:
  assumes "focus fr A w" and "pb_size (se_to_upstream (re_session w)) \<le> n" and h: "honest_writes (d_os d)"
  shows "wp (flush_loop d n) (\<lambda>_. focus fr A) w"
  using assms(1,2)
proof (induction n arbitrary: w)
  case 0
  then have "pb_empty (se_to_upstream (re_session w))"
    using focus_buffers [OF 0(1)] by (simp add: buffers_ok_def pending.empty_bytes pending.size_bytes)
  with 0 show ?case by (simp add: wp_simps)
next
  case (Suc n)
  have step: "wp (release_bytes (io_size r)) (\<lambda>_. wp (flush_loop d n) (\<lambda>_. focus fr A)) w'"
    if r: "wrote fr A r w'" "pb_size (se_to_upstream (re_session w')) = pb_size (se_to_upstream (re_session w)) - io_size r"
      "0 < io_size r" for r w'
  proof -
    have f: "focus (hold fr (0 + io_size r)) A w'" "pb_size (se_to_upstream (re_session w')) \<le> n"
      using r Suc.prems(2) by (simp_all add: wrote_def)
    have rel: "wp (release_bytes (io_size r)) (\<lambda>_ w''. focus fr A w'' \<and> re_session w'' = re_session w') w'"
      using wp_conj [OF release_wp [OF f(1)], of "\<lambda>_ w''. re_session w'' = re_session w'"]
      by (simp add: release_bytes_def wp_simps)
    show ?thesis by (rule wp_mono [OF rel]) (use f(2) Suc.IH in auto)
  qed
  have over: "wrote fr A r w' \<Longrightarrow> io_status r = Data \<longrightarrow> io_size r = 0 \<Longrightarrow> focus fr A w'" for r w'
    by (cases "io_size r = 0") (auto simp: wrote_def)
  show ?case
    unfolding flush_loop.simps wp_simps
    by (auto intro!: wp_mono [OF write_upstream_wp [OF Suc.prems(1) h]] Suc.prems(1) step over)
qed

lemma flush_upstream_queue_keeps [keeps_intros]: "honest_writes (d_os d) \<Longrightarrow> keeps (focus fr A) (flush_upstream_queue d)"
  by (simp add: keeps_def flush_upstream_queue_def wp_simps flush_loop_wp)

section \<open>Timers\<close>

abbreviation timed :: "frame \<Rightarrow> frame" where
  "timed fr \<equiv> fr\<lparr>fr_untimed := False\<rparr>"

lemma focus_timed: "focus (timed fr) A w \<Longrightarrow> focus fr A w"
  by (auto simp: focus_def shared_ok_def unmoved_def timer_ok_def)

definition timed_if :: "bool \<Rightarrow> frame \<Rightarrow> frame" where
  "timed_if b fr = (if b then timed fr else fr)"

lemma timed_if_simps [simp]: "timed_if True fr = timed fr" "timed_if False fr = fr"
  by (simp_all add: timed_if_def)

lemma focus_timed_if: "focus (timed_if b fr) A w \<Longrightarrow> focus fr A w"
  by (cases b) (auto intro: focus_timed)

lemma timed_id: "\<not> fr_untimed fr \<Longrightarrow> timed fr = fr"
  by simp

lemma schedule_timeout_wp:
  assumes f: "focus fr A w"
  shows "wp schedule_timeout (\<lambda>_. focus (timed fr) A) w"
proof -
  let ?s = "(re_session w)\<lparr>se_timeout_generation := wrap64 (se_timeout_generation (re_session w) + 1)\<rparr>"
  let ?v = "wheel_schedule (re_wheel w) (fr_ident fr) (se_timeout_generation ?s) (timeout_deadline ?s)"
  from f have w: "wheel_inv (re_wheel w)" "Suc (tw_current (re_wheel w)) < 2 ^ 64" "se_id (re_session w) = fr_ident fr"
      "timer_ok fr (re_session w) (deadlines (re_wheel w))"
    by (auto simp: focus_def shared_ok_def)
  from w(4) have "(deadlines (re_wheel w))(fr_ident fr \<mapsto> x) = (fr_timers fr)(fr_ident fr \<mapsto> x)" for x
    by (auto simp: timer_ok_def)
  with wheel_schedule_spec [OF w(1,2), of "fr_ident fr" "se_timeout_generation ?s" "timeout_deadline ?s"]
  have "wheel_inv ?v" "timer_ok (timed fr) ?s (deadlines ?v)" by (auto simp: timer_ok_def)
  then have "focus (timed fr) A (w\<lparr>re_session := ?s, re_wheel := ?v\<rparr>)"
    using f by (simp add: focus_def shared_ok_def unmoved_def session_ok_def se_queued_def own_load_def timer_ok_def)
  with w(3) show ?thesis by (simp add: schedule_timeout_def wp_simps)
qed

lemma schedule_timeout_keeps [keeps_intros]: "keeps (focus fr A) schedule_timeout"
  by (rule keepsI, rule wp_mono [OF schedule_timeout_wp]) (auto intro: focus_timed)

section \<open>The upstream connection\<close>

lemma keeps_record_upstream_error [keeps_intros]: "keeps (focus fr A) record_upstream_error"
  unfolding record_upstream_error_def by (intro keeps_intros keeps_worker_do keeps_backend_do) simp_all

lemma keeps_reset_upstream [keeps_intros]: "keeps (focus fr A) (reset_upstream d v)"
  unfolding reset_upstream_def by (intro keeps_intros keeps_se_set) (simp add: same_core_def)

lemma keeps_discard_upstream [keeps_intros]: "keeps (focus fr A) (discard_upstream d)"
  unfolding discard_upstream_def by (intro keeps_intros keeps_se_set) (simp add: same_core_def)

lemma keeps_connect_timeout [keeps_intros]: "keeps (focus fr A) (schedule_connect_attempt_timeout d)"
  unfolding schedule_connect_attempt_timeout_def
  by (intro keeps_intros keeps_se_set) (simp add: same_core_def Let_def)

lemma connect_timeout_wp:
  assumes "focus fr A w" shows "wp (schedule_connect_attempt_timeout d) (\<lambda>_. focus (timed fr) A) w"
  unfolding schedule_connect_attempt_timeout_def wp_simps
  by (rule wp_keeps [OF keeps_now assms], rule schedule_timeout_wp, rule focus_same_core) (simp_all add: same_core_def Let_def)

lemma focus_stage: "focus fr A w \<Longrightarrow> A \<subseteq> B \<Longrightarrow> focus fr B w"
  by (auto simp: focus_def)

text \<open>While a connection is being made the session is not counted at its backend.\<close>

lemma focus_connecting:
  assumes "focus fr ({UpstreamConnect} \<times> N) w"
  obtains ref where "se_backend (re_session w) = Some ref" "ref < fr_stores fr" "\<not> se_backend_counted (re_session w)"
    "se_stage (re_session w) = UpstreamConnect"
  using assms by (auto simp: focus_def session_ok_def)

lemma focus_to_relay:
  assumes "focus fr ({UpstreamConnect} \<times> N) w"
  shows "focus fr ({Relay} \<times> N) (w\<lparr>re_session := (re_session w)\<lparr>se_stage := Relay\<rparr>\<rparr>)"
  using assms by (auto simp: focus_def shared_ok_def unmoved_def session_ok_def se_queued_def own_load_def timer_ok_def)

lemma focus_count:
  assumes "focus fr ({Relay} \<times> N) w" and "se_backend (re_session w) = Some ref" and "\<not> se_backend_counted (re_session w)"
  shows "focus fr ({Relay} \<times> N) (w\<lparr>re_backends := (re_backends w)[ref := (re_backends w ! ref)
      \<lparr>be_active_connections := fetch_add (be_active_connections (re_backends w ! ref)) 1\<rparr>],
    re_session := (re_session w)\<lparr>se_backend_counted := True\<rparr>\<rparr>)"
proof -
  have ref: "ref < fr_stores fr" "loads_ok (re_backends w) (fr_stores fr) (\<lambda>r. fr_load fr r + own_load (re_session w) r)"
    using assms by (auto simp: focus_def session_ok_def shared_ok_def)
  then have "loads_ok ((re_backends w)[ref := (re_backends w ! ref)\<lparr>be_active_connections :=
      fetch_add (be_active_connections (re_backends w ! ref)) 1\<rparr>]) (fr_stores fr)
      (\<lambda>r. fr_load fr r + own_load ((re_session w)\<lparr>se_backend_counted := True\<rparr>) r)"
    using assms(2,3) by (auto simp: loads_ok_def own_load_def nth_list_update wrap64_add)
  with assms show ?thesis by (auto simp: focus_def shared_ok_def unmoved_def session_ok_def se_queued_def timer_ok_def)
qed

lemma finish_upstream_connect_wp:
  assumes f: "focus fr ({UpstreamConnect} \<times> N) w"
  shows "wp (finish_upstream_connect d) (\<lambda>r. focus fr ({if r then Relay else UpstreamConnect} \<times> N)) w"
proof -
  have fin: "wp schedule_timeout (\<lambda>_ w. focus fr ({Relay} \<times> N) (w\<lparr>re_backends := (re_backends w)[ref := (re_backends w ! ref)
      \<lparr>be_active_connections := fetch_add (be_active_connections (re_backends w ! ref)) 1\<rparr>],
      re_session := (re_session w)\<lparr>se_backend_counted := True\<rparr>\<rparr>))
      (w'\<lparr>re_session := (re_session w')\<lparr>se_stage := Relay\<rparr>\<rparr>)"
    if "focus fr ({UpstreamConnect} \<times> N) w'" "se_backend (re_session w') = Some ref" for w' ref
  proof -
    let ?w = "w'\<lparr>re_session := (re_session w')\<lparr>se_stage := Relay\<rparr>\<rparr>"
    have "\<not> se_backend_counted (re_session w')" using that(1) by (rule focus_connecting)
    then have "wp schedule_timeout (\<lambda>_ w. focus fr ({Relay} \<times> N) w \<and> se_backend (re_session w) = Some ref \<and>
        \<not> se_backend_counted (re_session w)) ?w"
      using keepsD [OF schedule_timeout_keeps, OF focus_to_relay [OF that(1)]] that(2)
      by (simp add: schedule_timeout_def wp_simps)
    then show ?thesis by (rule wp_mono) (use focus_count in blast)
  qed
  from f obtain ref where ref: "se_backend (re_session w) = Some ref" by (rule focus_connecting)
  have queue: "wp (prepend_queued se_to_upstream_update bytes) (\<lambda>_ w. focus fr ({UpstreamConnect} \<times> N) w \<and>
      se_backend (re_session w) = Some ref) (w\<lparr>re_env := e\<rparr>)" for bytes e
    by (rule wp_conj, rule keepsD [OF prepend_upstream_keeps])
      (use f ref in \<open>simp_all add: focus_env prepend_queued_def reserve_queued_bytes_def wp_simps split: prod.splits\<close>)
  have stop: "focus fr ({UpstreamConnect} \<times> N) w' \<Longrightarrow>
      focus fr ({UpstreamConnect} \<times> N) (w'\<lparr>re_session := (re_session w')\<lparr>se_queue_limit_exceeded := True\<rparr>\<rparr>)" for w'
    by (rule focus_same_core) (simp_all add: same_core_def)
  show ?thesis
    unfolding finish_upstream_connect_def wp_simps
    by (rule wp_any) (use f ref fin [of "w\<lparr>re_env := e\<rparr>" for e] in
      \<open>auto simp: focus_env wp_simps split: sum.splits intro!: wp_mono [OF queue] fin [unfolded One_nat_def] stop\<close>)
qed

text \<open>Moving to the next address changes neither the candidates nor anything shared.\<close>

lemma same_core_refl: "same_core s s"
  by (simp add: same_core_def)

lemma same_core_trans: "same_core s t \<Longrightarrow> same_core t u \<Longrightarrow> same_core s u"
  by (simp add: same_core_def)

lemma advance_address_core: "same_core s (advance_address addresses sources s)"
proof (induction addresses sources s rule: advance_address.induct)
  case (1 addresses sources s)
  show ?case
  proof (cases "se_current_address_sources_remaining s = 0 \<and> 0 < se_backend_addresses_remaining s")
    case True
    then have step: "advance_address addresses sources s = advance_address addresses sources
        (s\<lparr>se_current_backend_address := se_next_backend_address s,
           se_next_backend_address := (se_next_backend_address s + 1) mod length addresses,
           se_backend_addresses_remaining := se_backend_addresses_remaining s - 1,
           se_current_address_sources_remaining := (if sources = [] then 1
             else compatible_source_count sources (sa_family (addresses ! se_next_backend_address s)))\<rparr>)" (is "_ = advance_address _ _ ?t")
      by (subst advance_address.simps) (simp add: Let_def)
    have "same_core ?t (advance_address addresses sources ?t)" using 1 [OF True refl refl refl refl] .
    then show ?thesis unfolding step by (rule same_core_trans [rotated]) (simp add: same_core_def)
  next
    case False
    then show ?thesis by (subst advance_address.simps) (auto simp: same_core_refl)
  qed
qed

lemma focus_candidate:
  assumes "focus fr ({UpstreamConnect} \<times> {..Suc n}) w"
  shows "focus fr ({UpstreamConnect} \<times> {..n}) (w\<lparr>re_session := (re_session w)
    \<lparr>se_current_address_sources_remaining := m, se_connect_candidates_remaining := se_connect_candidates_remaining (re_session w) - 1\<rparr>\<rparr>)"
  using assms by (auto simp: focus_def shared_ok_def unmoved_def session_ok_def se_queued_def own_load_def timer_ok_def)

lemma keeps_count_attempt:
  "keeps (focus fr ({UpstreamConnect} \<times> N)) (with_backend () (\<lambda>ref _.
     backend_do ref (\<lambda>b. b\<lparr>be_connection_attempts := fetch_add (be_connection_attempts b) 1\<rparr>)))"
proof (rule keepsI)
  fix w :: "'a reactor" assume f: "focus fr ({UpstreamConnect} \<times> N) w"
  then obtain ref where ref: "se_backend (re_session w) = Some ref" by (rule focus_connecting)
  have "focus fr ({UpstreamConnect} \<times> N) (w\<lparr>re_backends := (re_backends w)[ref := (\<lambda>b. b\<lparr>be_connection_attempts :=
      fetch_add (be_connection_attempts b) 1\<rparr>) (re_backends w ! ref)]\<rparr>)"
    by (rule focus_backend [OF f]) simp
  with ref show "wp (with_backend () (\<lambda>ref _. backend_do ref (\<lambda>b. b\<lparr>be_connection_attempts :=
      fetch_add (be_connection_attempts b) 1\<rparr>))) (\<lambda>_. focus fr ({UpstreamConnect} \<times> N)) w"
    by (simp add: wp_simps)
qed

lemma keeps_upstream_events: "keeps (focus fr A) (se_set (se_upstream_events_update f))"
  by (rule keeps_se_set) (simp add: same_core_def)

text \<open>What is left of an attempt when the connection was made at once.\<close>

lemma connected_at_once_wp:
  assumes f: "focus (timed fr) ({UpstreamConnect} \<times> N) w"
  shows "wp (finish_upstream_connect d)
    (\<lambda>finished w. if finished then focus (timed fr) ({UpstreamConnect, Relay} \<times> N) w
       else if se_queue_limit_exceeded (re_session w) then focus fr ({UpstreamConnect, Relay} \<times> N) w
       else wp record_upstream_error (\<lambda>_. wp (discard_upstream d) (\<lambda>_. focus fr ({UpstreamConnect} \<times> N))) w) w"
proof (rule wp_mono [OF finish_upstream_connect_wp [OF f]])
  fix r and w :: "'a reactor" assume w: "focus (timed fr) ({if r then Relay else UpstreamConnect} \<times> N) w"
  then have w': "focus (timed fr) ({UpstreamConnect, Relay} \<times> N) w" by (auto simp: focus_def)
  moreover have "wp record_upstream_error (\<lambda>_. wp (discard_upstream d) (\<lambda>_. focus fr ({UpstreamConnect} \<times> N))) w" if "\<not> r"
    by (rule wp_keeps [OF keeps_record_upstream_error [of fr "{UpstreamConnect} \<times> N"]],
      use w that in \<open>simp add: focus_timed\<close>, rule wp_keeps [OF keeps_discard_upstream])
  ultimately show "if r then focus (timed fr) ({UpstreamConnect, Relay} \<times> N) w
       else if se_queue_limit_exceeded (re_session w) then focus fr ({UpstreamConnect, Relay} \<times> N) w
       else wp record_upstream_error (\<lambda>_. wp (discard_upstream d) (\<lambda>_. focus fr ({UpstreamConnect} \<times> N))) w"
    using focus_timed [OF w'] by simp
qed

text \<open>An attempt that is under way has its timer.\<close>

lemma connect_attempt_wp:
  assumes f: "focus fr ({UpstreamConnect} \<times> N) w"
  shows "wp (connect_attempt d address source)
    (\<lambda>r w. if r = None then focus fr ({UpstreamConnect} \<times> N) w
       else focus (timed_if (r = Some True) fr) ({UpstreamConnect, Relay} \<times> N) w) w"
proof -
  have weak: "focus (timed fr) ({UpstreamConnect} \<times> N) w \<Longrightarrow> focus (timed fr) ({UpstreamConnect, Relay} \<times> N) w" for w :: "'a reactor"
    by (auto simp: focus_def)
  note steps = wp_keeps [OF keeps_record_upstream_error] wp_keeps [OF keeps_reset_upstream] wp_keeps [OF keeps_upstream_events]
  show ?thesis
    unfolding connect_attempt_def wp_bind
    apply (rule wp_keeps [OF keeps_count_attempt f])
    apply (rule wp_keeps [OF keeps_os_do], assumption)
    apply (simp only: wp_if wp_bind wp_case_sum wp_return if_True if_False simp_thms option.distinct option.inject wp_se_get id_apply timed_if_simps)
    subgoal for _ _ started w
      apply (cases "fd_valid (cs_socket started)")
       apply (simp_all only: simp_thms if_True if_False)
       apply (rule steps(2), assumption)
       apply (rule wp_keeps [OF keeps_os_do], assumption)
      subgoal for _ w' added w''
        apply (cases added)
         apply (simp_all only: sum.case)
         apply (rule steps(1), assumption)
         apply (rule steps(2), assumption, assumption)
        apply (rule steps(3), assumption)
        apply (rule wp_mono [OF connect_timeout_wp], assumption)
        apply (cases "cs_connected started")
         apply (simp_all only: simp_thms if_True if_False)
         apply (erule connected_at_once_wp)
        apply (erule weak)
        done
      apply (rule steps(1), assumption, assumption)
      done
    done
qed

lemma connect_loop_wp:
  "focus fr ({UpstreamConnect} \<times> {..n}) w \<Longrightarrow>
     wp (connect_loop d n addresses sources)
       (\<lambda>kept. focus (timed_if kept fr) ({UpstreamConnect, Relay} \<times> UNIV)) w"
proof (induction n arbitrary: w sources)
  case 0
  then show ?case by (auto simp: wp_simps focus_def)
next
  case (Suc n)
  let ?K = "focus fr ({UpstreamConnect, Relay} \<times> UNIV) :: 'a reactor \<Rightarrow> bool"
  let ?R = "\<lambda>kept. focus (timed_if kept fr) ({UpstreamConnect, Relay} \<times> UNIV) :: 'a reactor \<Rightarrow> bool"
  have weak: "focus fr (B \<times> N) w \<Longrightarrow> B \<subseteq> {UpstreamConnect, Relay} \<Longrightarrow> focus fr ({UpstreamConnect, Relay} \<times> UNIV) w"
    for fr B N and w :: "'a reactor"
    by (auto simp: focus_def)
  have attempt: "wp (connect_attempt d address source) (\<lambda>r w. case r of None \<Rightarrow> wp (connect_loop d n addresses sources) ?R w
      | Some kept \<Rightarrow> ?R kept w) w" if "focus fr ({UpstreamConnect} \<times> {..n}) w" for address source sources and w :: "'a reactor"
    by (rule wp_mono [OF connect_attempt_wp [OF that]])
      (auto simp del: split_paired_All split: if_splits option.splits intro: Suc.IH weak)
  have advanced: "focus fr ({UpstreamConnect} \<times> {..Suc n}) (w\<lparr>re_session := advance_address addresses sources (re_session w)\<rparr>)"
    if "focus fr ({UpstreamConnect} \<times> {..Suc n}) w" for sources and w :: "'a reactor"
    using that advance_address_core by (rule focus_same_core)
  have sourced: "focus fr ({UpstreamConnect} \<times> {..Suc n}) (w\<lparr>re_session := (re_session w)\<lparr>se_upstream_source_sequence := q\<rparr>\<rparr>)"
    if "focus fr ({UpstreamConnect} \<times> {..Suc n}) w" for q and w :: "'a reactor"
    using that by (rule focus_same_core) (simp add: same_core_def)
  have rest: "?K w" if "focus fr ({UpstreamConnect} \<times> {..Suc n}) w" for w :: "'a reactor" using that by (rule weak) simp
  note facts = advanced attempt [OF focus_candidate [OF advanced], simplified] rest [OF advanced] rest [OF sourced [OF advanced], simplified]
    attempt [OF focus_candidate [OF sourced [OF advanced]], simplified]
  show ?case
    unfolding connect_loop.simps wp_simps
    using Suc.prems
    apply (simp add: rest)
    apply (intro impI wp_keeps [OF keeps_now Suc.prems])
    apply (simp add: rest facts)
    done
qed

lemma start_next_upstream_connect_wp:
  assumes f: "focus fr ({UpstreamConnect} \<times> UNIV) w"
  shows "wp (start_next_upstream_connect d)
    (\<lambda>kept. focus (timed_if kept fr) ({UpstreamConnect, Relay} \<times> UNIV)) w"
proof -
  from f obtain ref where ref: "se_backend (re_session w) = Some ref" by (rule focus_connecting)
  have n: "focus fr ({UpstreamConnect} \<times> {..se_connect_candidates_remaining (re_session w)}) w"
    using f by (auto simp: focus_def)
  have "focus fr ({UpstreamConnect, Relay} \<times> UNIV) w" using f by (auto simp: focus_def)
  with ref show ?thesis by (simp add: start_next_upstream_connect_def wp_simps connect_loop_wp [OF n])
qed

lemma start_next_any_wp:
  assumes "focus fr ({UpstreamConnect} \<times> UNIV) w"
  shows "wp (start_next_upstream_connect d) (\<lambda>_. focus fr UNIV) w"
  by (rule wp_mono [OF start_next_upstream_connect_wp [OF assms]])
    (drule focus_timed_if, simp add: focus_def)

subsection \<open>Choosing a backend\<close>

lemma choose_loop_in: "choose_loop store best refs = Some ref \<Longrightarrow> (\<exists>load. best = Some (ref, load)) \<or> ref \<in> set refs"
  by (induction refs arbitrary: best) (auto simp: Let_def split: if_splits option.splits prod.splits)

lemma choose_from_pool_in: "choose_from_pool store pool sequence = Some ref \<Longrightarrow> ref \<in> set (ps_backends pool)"
  by (auto simp: choose_from_pool_def rotated_def split: if_splits dest!: choose_loop_in)

lemma failover_loop_in:
  "failover_loop store active_index sequence i pools = Some ref \<Longrightarrow> ref \<in> set (concat (map ps_backends pools))"
  by (induction store active_index sequence i pools rule: failover_loop.induct)
    (auto split: if_splits option.splits dest: choose_from_pool_in)

lemma select_backend_in:
  assumes "table_in n table" and "select_backend store table sequence = Some ref"
  shows "ref < n"
proof -
  have "ref \<in> set (concat (map ps_backends (rt_pools table)))"
    using assms(2) by (auto simp: select_backend_def Let_def split: if_splits option.splits
      dest!: choose_from_pool_in failover_loop_in intro: nth_mem)
  with assms(1) show ?thesis unfolding table_in_def by blast
qed

lemma focus_selected:
  assumes "focus fr ((- {UpstreamConnect, Relay}) \<times> UNIV) w" and "\<And>ref. selected = Some ref \<Longrightarrow> ref < fr_stores fr"
  shows "focus fr ((- {UpstreamConnect, Relay}) \<times> UNIV) (w\<lparr>re_session := (re_session w)\<lparr>se_backend := selected\<rparr>\<rparr>)"
  using assms by (auto simp: focus_def shared_ok_def unmoved_def session_ok_def se_queued_def own_load_def timer_ok_def)

lemma focus_to_connect:
  assumes "focus fr ((- {UpstreamConnect, Relay}) \<times> UNIV) w" and "se_backend (re_session w) \<noteq> None"
    and "received_message (se_protocol_state (re_session w))"
  shows "focus fr ({UpstreamConnect} \<times> UNIV) (w\<lparr>re_session := (re_session w)\<lparr>se_stage := UpstreamConnect\<rparr>\<rparr>)"
  using assms by (auto simp: focus_def shared_ok_def unmoved_def session_ok_def se_queued_def own_load_def timer_ok_def)

lemma focus_candidates:
  assumes "focus fr (S \<times> UNIV) w"
    and "same_core (re_session w) (t\<lparr>se_connect_candidates_remaining := se_connect_candidates_remaining (re_session w)\<rparr>)"
  shows "focus fr (S \<times> UNIV) (w\<lparr>re_session := t\<rparr>)"
  using assms by (simp add: focus_def shared_ok_def unmoved_def session_ok_def same_core_def se_queued_def own_load_def timer_ok_def)

lemma keeps_sequences [keeps_intros]:
  "keeps (focus fr A) (modify (\<lambda>w. w\<lparr>re_route_sequence := f w\<rparr>))"
  "keeps (focus fr A) (modify (\<lambda>w. w\<lparr>re_source_sequence := f w\<rparr>))"
  by (simp_all add: keeps_def wp_simps focus_sequences)

lemma keeps_reject_no_backend [keeps_intros]: "keeps (focus fr A) reject_no_backend"
  unfolding reject_no_backend_def by (intro keeps_intros keeps_worker_do) simp

lemma begin_upstream_connect_wp:
  assumes f: "focus fr ((- {UpstreamConnect, Relay}) \<times> UNIV) w" and r: "received_message (se_protocol_state (re_session w))"
  shows "wp (begin_upstream_connect d) (\<lambda>_. focus fr UNIV) w"
proof -
  let ?C = "focus fr ({UpstreamConnect} \<times> UNIV) :: 'a reactor \<Rightarrow> bool"
  let ?selected = "select_backend (re_backends w) (rs_routing (se_runtime (re_session w))) (re_route_sequence w)"
  let ?w = "w\<lparr>re_route_sequence := wrap64 (re_route_sequence w + 1), re_session := (re_session w)\<lparr>se_backend := ?selected\<rparr>\<rparr>"
  have any: "focus fr A w \<Longrightarrow> focus fr UNIV w" for A and w :: "'a reactor" by (simp add: focus_def)
  have reject: "focus fr A w \<Longrightarrow> wp reject_no_backend (\<lambda>_. focus fr UNIV) w" for A and w :: "'a reactor"
    by (rule wp_keeps [OF keeps_reject_no_backend]) (auto intro: any)
  note start = start_next_any_wp [of fr _ d]
  have moved: "?C (w\<lparr>re_session := t\<rparr>)" "?C (w\<lparr>re_source_sequence := q, re_session := t\<rparr>)"
    if "?C w" "same_core (re_session w) (t\<lparr>se_connect_candidates_remaining := se_connect_candidates_remaining (re_session w)\<rparr>)"
    for t q and w :: "'a reactor"
    using that focus_candidates [of fr "{UpstreamConnect}" w t]
      focus_candidates [of fr "{UpstreamConnect}" "w\<lparr>re_source_sequence := q\<rparr>" t] by (simp_all add: focus_sequences)
  have "table_in (fr_stores fr) (rs_routing (se_runtime (re_session w)))" using f by (simp add: focus_def session_ok_def)
  from select_backend_in [OF this] have s: "focus fr ((- {UpstreamConnect, Relay}) \<times> UNIV) ?w"
    using focus_selected [of fr "w\<lparr>re_route_sequence := wrap64 (re_route_sequence w + 1)\<rparr>" ?selected] f
    by (simp add: focus_sequences)
  show ?thesis
  proof (cases ?selected)
    case None
    then show ?thesis using reject [OF s] by (simp add: begin_upstream_connect_def wp_simps)
  next
    case (Some ref)
    then have c: "?C (?w\<lparr>re_session := (re_session ?w)\<lparr>se_stage := UpstreamConnect\<rparr>\<rparr>)"
      using focus_to_connect [OF s] r by simp
    then have c: "?C (w\<lparr>re_route_sequence := wrap64 (re_route_sequence w + 1),
        re_session := (re_session w)\<lparr>se_backend := Some ref, se_stage := UpstreamConnect\<rparr>\<rparr>)"
      by (simp add: Some)
    show ?thesis
      using Some reject [OF s]
      by (simp add: begin_upstream_connect_def wp_simps Let_def, intro conjI impI wp_keeps [OF keeps_now c [simplified]])
        (auto intro!: reject start moved simp: same_core_def)
  qed
qed

end
