(* ===== verification/Relay_Invariant.thy ===== *)
theory Relay_Invariant
  imports Session_Invariant
begin

text \<open>
  The handlers of the client's lines, of relaying, of back pressure and of event interests keep the invariant of
  the session in focus, and the bounds of their loops are enough.
\<close>

section \<open>What the upstream side leaves alone\<close>

text \<open>The part of a session that belongs to the client's lines.\<close>

definition client_view :: "session \<Rightarrow> cxx_string \<times> protocol_state \<times> runtime_snapshot \<times> nat" where
  "client_view s = (se_line_buffer s, se_protocol_state s, se_runtime s, se_consecutive_protocol_errors s)"

definition viewed :: "(cxx_string \<times> protocol_state \<times> runtime_snapshot \<times> nat) \<Rightarrow> 'e reactor \<Rightarrow> bool" where
  "viewed v w \<longleftrightarrow> client_view (re_session w) = v"

lemma viewed_set: "(\<And>s. client_view (f s) = client_view s) \<Longrightarrow> keeps (viewed v) (se_set f)"
  by (simp add: keeps_def wp_simps viewed_def)

lemma viewed_acts [keeps_intros]:
  "keeps (viewed v) (os_do m)" "keeps (viewed v) (worker_do f)" "keeps (viewed v) (stats_do g)"
  "keeps (viewed v) (backend_do ref h)" "keeps (viewed v) fault" "keeps (viewed v) (now d)"
  by (auto simp: keeps_def wp_simps viewed_def now_def intro: wp_any)

lemma viewed_with_backend [keeps_intros]: "(\<And>ref b. keeps (viewed v) (f ref b)) \<Longrightarrow> keeps (viewed v) (with_backend x f)"
  by (auto simp: keeps_def wp_simps viewed_def split: option.splits)

lemma viewed_modify [keeps_intros]:
  "keeps (viewed v) (modify (\<lambda>w. w\<lparr>re_wheel := a w\<rparr>))" "keeps (viewed v) (modify (\<lambda>w. w\<lparr>re_route_sequence := b w\<rparr>))"
  "keeps (viewed v) (modify (\<lambda>w. w\<lparr>re_source_sequence := c w\<rparr>))"
  by (simp_all add: keeps_def wp_simps viewed_def)


lemma viewed_reserve [keeps_intros]: "keeps (viewed v) (reserve_queued_bytes n)"
  unfolding reserve_queued_bytes_def by (intro keeps_intros viewed_set)

lemma viewed_prepend [keeps_intros]: "keeps (viewed v) (prepend_queued se_to_upstream_update bytes)"
  unfolding prepend_queued_def by (intro keeps_intros viewed_set) (simp add: client_view_def)

lemma viewed_schedule [keeps_intros]: "keeps (viewed v) schedule_timeout"
  unfolding schedule_timeout_def by (intro keeps_intros viewed_set) (simp add: client_view_def)

lemma viewed_record_upstream_error [keeps_intros]: "keeps (viewed v) record_upstream_error"
  unfolding record_upstream_error_def by (intro keeps_intros viewed_set)

lemma viewed_reset_upstream [keeps_intros]: "keeps (viewed v) (reset_upstream d x)"
  unfolding reset_upstream_def by (intro keeps_intros viewed_set) (simp add: client_view_def)

lemma viewed_discard_upstream [keeps_intros]: "keeps (viewed v) (discard_upstream d)"
  unfolding discard_upstream_def by (intro keeps_intros viewed_set) (simp add: client_view_def)

lemma viewed_connect_timeout [keeps_intros]: "keeps (viewed v) (schedule_connect_attempt_timeout d)"
  unfolding schedule_connect_attempt_timeout_def by (intro keeps_intros viewed_set) (simp add: client_view_def Let_def)

lemma viewed_finish [keeps_intros]: "keeps (viewed v) (finish_upstream_connect d)"
  unfolding finish_upstream_connect_def by (intro keeps_intros viewed_set) (simp_all add: client_view_def)

lemma viewed_attempt [keeps_intros]: "keeps (viewed v) (connect_attempt d address source)"
  unfolding connect_attempt_def by (intro keeps_intros viewed_set) (simp_all add: client_view_def)

lemma client_view_advance: "client_view (advance_address addresses sources s) = client_view s"
proof -
  have "se_consecutive_protocol_errors (advance_address addresses sources s) = se_consecutive_protocol_errors s"
    by (induction addresses sources s rule: advance_address.induct)
      (subst advance_address.simps, simp add: Let_def)
  with advance_address_core [of s addresses sources] show ?thesis by (simp add: client_view_def same_core_def)
qed

lemma viewed_connect_loop [keeps_intros]: "keeps (viewed v) (connect_loop d n addresses sources)"
proof (induction n)
  case 0
  show ?case by (simp, intro keeps_intros viewed_set)
next
  case (Suc n)
  then show ?case by (simp del: One_nat_def, intro keeps_intros viewed_set) (rule client_view_advance | simp add: client_view_def)+
qed

lemma viewed_start_next [keeps_intros]: "keeps (viewed v) (start_next_upstream_connect d)"
  unfolding start_next_upstream_connect_def by (intro keeps_intros viewed_set)

lemma viewed_begin [keeps_intros]: "keeps (viewed v) (begin_upstream_connect d)"
  unfolding begin_upstream_connect_def reject_no_backend_def Let_def by (intro keeps_intros viewed_set) (simp_all add: client_view_def)

section \<open>Lines\<close>

abbreviation line_of :: "session \<Rightarrow> string" where
  "line_of s \<equiv> chars (se_line_buffer s)"

lemma chars_release_oversized [simp]: "chars (release_oversized_string b) = chars b"
  by (simp add: release_oversized_string_def str_copy_def)

lemma focus_any: "focus fr A w \<Longrightarrow> focus fr UNIV w"
  by (simp add: focus_def)

lemma commit_consumed_wp:
  assumes f: "focus fr UNIV w" and n: "n \<le> length (line_of (re_session w))"
  shows "wp (commit_consumed n) (\<lambda>committed w'. focus fr UNIV w' \<and>
    (committed \<longrightarrow> line_of (re_session w') = drop n (line_of (re_session w)))) w"
proof -
  let ?s = "re_session w"
  let ?t = "?s\<lparr>se_to_upstream := pb_append (se_to_upstream ?s) (take n (line_of ?s)),
    se_line_buffer := release_oversized_string (str_erase_front (se_line_buffer ?s) n)\<rparr>"
  have "focus fr UNIV (w\<lparr>re_session := ?t\<rparr>)"
    using focus_move [of fr 0 UNIV w ?t 0] f n focus_buffers [OF f]
    by (simp add: same_identity_def buffers_ok_def se_queued_def buffer_simps)
  then show ?thesis
    using f by (auto simp: commit_consumed_def wp_simps Let_def intro!: wp_keeps [OF keeps_protocol_error])
qed

lemma discard_line_wp:
  assumes f: "focus fr UNIV w" and n: "n \<le> length (line_of (re_session w))"
  shows "wp (discard_line_bytes n) (\<lambda>_ w'. focus fr UNIV w' \<and> line_of (re_session w') = drop n (line_of (re_session w))) w"
proof -
  let ?s = "se_line_buffer_update (\<lambda>b. str_erase_front b n) (re_session w)"
  have "focus (hold fr (0 + n)) UNIV (w\<lparr>re_session := ?s\<rparr>)"
    using focus_move [of fr 0 UNIV w ?s n] f n focus_buffers [OF f]
    by (simp add: same_identity_def buffers_ok_def se_queued_def)
  from wp_conj [OF release_wp [OF this], of "\<lambda>_ w'. re_session w' = ?s"]
  have rel: "wp (release_bytes n) (\<lambda>_ w'. focus fr UNIV w' \<and> re_session w' = ?s) (w\<lparr>re_session := ?s\<rparr>)"
    by (simp add: release_bytes_def wp_simps)
  have fin: "focus fr UNIV (w'\<lparr>re_session := se_line_buffer_update release_oversized_string (re_session w')\<rparr>)"
    if "focus fr UNIV w'" for w'
    using focus_move [of fr 0 UNIV w' "se_line_buffer_update release_oversized_string (re_session w')" 0]
      that focus_buffers [OF that] by (simp add: same_identity_def buffers_ok_def se_queued_def)
  show ?thesis
    unfolding discard_line_bytes_def wp_simps by (rule wp_mono [OF rel], elim conjE, intro conjI fin) simp_all
qed

text \<open>Lines that are complete.\<close>

abbreviation newlines :: "string \<Rightarrow> nat" where
  "newlines bytes \<equiv> length (filter (\<lambda>c. c = newline) bytes)"

lemma newlines_after:
  assumes "str_find newline bytes = Some i"
  shows "Suc i \<le> length bytes" "Suc (newlines (drop (Suc i) bytes)) = newlines bytes"
proof -
  from assms have i: "i < length bytes" "bytes ! i = newline" "newline \<notin> set (take i bytes)" by (simp_all add: str_find_Some)
  then show "Suc i \<le> length bytes" by simp
  have none: "filter (\<lambda>c. c = newline) (take i bytes) = []" using i(3) by (auto simp: filter_empty_conv)
  have "newlines bytes = newlines (take i bytes @ bytes ! i # drop (Suc i) bytes)" using id_take_nth_drop [OF i(1)] by simp
  also have "\<dots> = Suc (newlines (drop (Suc i) bytes))" using i(2) none by simp
  finally show "Suc (newlines (drop (Suc i) bytes)) = newlines bytes" by simp
qed

lemma focus_recorded:
  assumes "focus fr UNIV w"
  shows "focus fr UNIV (w\<lparr>re_session := (re_session w)\<lparr>se_consecutive_protocol_errors := 0,
    se_protocol_state := record_request (se_protocol_state (re_session w)) m\<rparr>\<rparr>)"
  using assms by (auto simp: focus_def shared_ok_def unmoved_def session_ok_def se_queued_def own_load_def timer_ok_def)

text \<open>The first message of a session, once recorded, starts the upstream connection.\<close>

lemma first_message_wp:
  assumes "focus fr UNIV w" and "\<not> received_message (se_protocol_state (re_session w))"
  shows "wp (begin_upstream_connect d) (\<lambda>_ w'. focus fr UNIV w' \<and> line_of (re_session w') = line_of (re_session w))
    (w\<lparr>re_session := (re_session w)\<lparr>se_consecutive_protocol_errors := 0,
       se_protocol_state := record_request (se_protocol_state (re_session w)) m\<rparr>\<rparr>)" (is "wp _ _ ?w")
proof -
  have "focus fr ((- {UpstreamConnect, Relay}) \<times> UNIV) ?w"
    using assms focus_recorded [OF assms(1), of m] by (auto simp: focus_def session_ok_def)
  then have "wp (begin_upstream_connect d) (\<lambda>_. focus fr UNIV) ?w" by (rule begin_upstream_connect_wp) simp
  moreover have "wp (begin_upstream_connect d) (\<lambda>_. viewed (client_view (re_session ?w))) ?w"
    by (rule keepsD [OF viewed_begin]) (simp add: viewed_def)
  ultimately show ?thesis by (rule wp_mono [OF wp_conj]) (auto simp: viewed_def client_view_def)
qed

definition line_post :: "frame \<Rightarrow> nat option \<Rightarrow> 'e reactor \<Rightarrow> bool" where
  "line_post fr r w \<longleftrightarrow> focus fr UNIV w \<and> (\<forall>n. r = Some n \<longrightarrow> n \<le> length (line_of (re_session w)))"

lemma protocol_error_wp:
  assumes "focus fr A w"
  shows "wp (protocol_error e) (\<lambda>_ w'. focus fr A w' \<and> re_session w' = re_session w) w"
  by (rule wp_conj, rule keepsD [OF keeps_protocol_error assms]) (simp add: protocol_error_def wp_simps)

lemma line_loop_wp:
  assumes "focus fr UNIV w" and "consumed \<le> length (line_of (re_session w))"
    and "newlines (drop consumed (line_of (re_session w))) \<le> n"
  shows "wp (line_loop d n consumed) (line_post fr) w"
  using assms
proof (induction n arbitrary: w consumed)
  case 0
  then have "str_find newline (drop consumed (line_of (re_session w))) = None" by (auto simp: filter_empty_conv)
  with 0 show ?case by (simp add: wp_simps line_post_def)
next
  case (Suc n)
  let ?rest = "drop consumed (line_of (re_session w))"
  have stop: "wp (commit_consumed m) (\<lambda>_. line_post fr None) w'"
    if "focus fr UNIV w'" "m \<le> length (line_of (re_session w'))" for w' :: "'a reactor" and m
    by (rule wp_mono [OF commit_consumed_wp [OF that]]) (simp add: line_post_def)
  show ?case
  proof (cases "str_find newline ?rest")
    case None
    with Suc.prems show ?thesis by (simp add: wp_simps line_post_def del: str_find_None)
  next
    case (Some i)
    note i = newlines_after [OF Some]
    have size: "consumed + i + 1 \<le> length (line_of (re_session w))" using i(1) Suc.prems(2) by simp
    have skip: "wp (commit_consumed consumed) (\<lambda>committed w. if \<not> tolerated \<or> \<not> committed then line_post fr None w
        else wp (discard_line_bytes (i + 1)) (\<lambda>_. wp (line_loop d n 0) (line_post fr)) w) w'"
      if w': "focus fr UNIV w'" "line_of (re_session w') = line_of (re_session w)" for tolerated and w' :: "'a reactor"
    proof (rule wp_mono [OF commit_consumed_wp])
      fix committed and w'' :: "'a reactor"
      assume c: "focus fr UNIV w'' \<and> (committed \<longrightarrow> line_of (re_session w'') = drop consumed (line_of (re_session w')))"
      have "wp (discard_line_bytes (i + 1)) (\<lambda>_. wp (line_loop d n 0) (line_post fr)) w''" if "committed"
        using that c w'(2) i Suc.prems(3) by (intro wp_mono [OF discard_line_wp] Suc.IH) auto
      with c show "if \<not> tolerated \<or> \<not> committed then line_post fr None w''
        else wp (discard_line_bytes (i + 1)) (\<lambda>_. wp (line_loop d n 0) (line_post fr)) w''" by (simp add: line_post_def)
    qed (use w' Suc.prems(2) in auto)
    have errors: "focus fr UNIV (w'\<lparr>re_session := (re_session w')\<lparr>se_consecutive_protocol_errors := k\<rparr>\<rparr>)"
      if "focus fr UNIV w'" for k and w' :: "'a reactor"
      using that by (rule focus_same_core) (simp add: same_core_def)
    have go: "wp (line_loop d n (consumed + i + 1)) (line_post fr) w'"
      if "focus fr UNIV w'" "line_of (re_session w') = line_of (re_session w)" for w' :: "'a reactor"
      using that size i Suc.prems(3) by (intro Suc.IH) (simp_all add: add.commute)
    show ?thesis
      unfolding line_loop.simps wp_simps
      unfolding id_apply Some option.case Let_def
    proof ((intro ifI wp_mono [OF protocol_error_wp [OF Suc.prems(1)]]; (elim conjE)?), goal_cases)
      case 1
      then show ?case using Suc.prems(2) by (intro stop) simp_all
    next
      case 2
      then show ?case by (intro skip) simp_all
    next
      case 3
      then show ?case by (intro skip errors) simp_all
    next
      case 4
      show ?case
        by (rule wp_mono [OF first_message_wp [OF Suc.prems(1) 4(3)]], elim conjE, intro ifI stop go) (use size in simp_all)
    next
      case 6
      show ?case by (intro go focus_recorded Suc.prems(1)) simp
    qed simp
  qed
qed

lemma process_client_bytes_keeps [keeps_intros]: "keeps (focus fr UNIV) (process_client_bytes d bytes)"
proof (rule keepsI)
  fix w :: "'a reactor" assume f: "focus fr UNIV w"
  have loop: "wp (line_loop d (length (line_of (re_session w))) 0) (line_post fr) w" if "focus fr UNIV w" for w :: "'a reactor"
    using that by (rule line_loop_wp) (simp_all add: length_filter_le)
  have fin: "wp (commit_consumed n) (\<lambda>committed w.
      if \<not> committed then focus fr UNIV w
      else if max_line_bytes (se_limits (re_session w)) < length (line_of (re_session w)) \<or>
        max_buffer_bytes (se_limits (re_session w)) < pb_size (se_to_upstream (re_session w))
      then wp (protocol_error InvalidShape) (\<lambda>_. focus fr UNIV) w else focus fr UNIV w) w"
    if "line_post fr (Some n) w" for n and w :: "'a reactor"
    using that unfolding line_post_def
    by (intro wp_mono [OF commit_consumed_wp]) (auto intro!: wp_keeps [OF keeps_protocol_error])
  show "wp (process_client_bytes d bytes) (\<lambda>_. focus fr UNIV) w"
    unfolding process_client_bytes_def wp_simps id_apply
  proof (rule wp_keeps [OF append_line_keeps f], intro ifI wp_mono [OF loop], goal_cases)
    case (3 _ _ r)
    then show ?case by (cases r; simp only: option.case) (simp add: line_post_def, erule fin)
  qed
qed

section \<open>Reading\<close>

lemma read_client_keeps [keeps_intros]: "keeps (focus fr A) (read_client d n)"
  unfolding read_client_def by (intro keeps_intros keeps_se_set) (auto simp: same_core_def)

lemma focus_limiter:
  assumes "focus fr A w"
  shows "\<exists>l b. consume_traffic (se_admission (re_session w)) bytes messages limits t (re_limiter w) = Some (l, b) \<and>
    focus fr A (w\<lparr>re_limiter := l\<rparr>)"
proof -
  from assms obtain x where x: "se_admission (re_session w) = Some x" "limiter_ok (add_mset x (fr_leases fr)) (re_limiter w)"
    by (auto simp: focus_def shared_ok_def)
  from consume_traffic_ok [OF x(2), of x bytes messages limits t] obtain l b where
    "consume_traffic (Some x) bytes messages limits t (re_limiter w) = Some (l, b)" "limiter_ok (add_mset x (fr_leases fr)) l"
    by auto
  with x(1) assms show ?thesis by (auto simp: focus_def shared_ok_def unmoved_def)
qed

lemma consume_client_traffic_keeps [keeps_intros]: "keeps (focus fr A) (consume_client_traffic d bytes messages t)"
proof (rule keepsI)
  fix w :: "'a reactor" assume "focus fr A w"
  from focus_limiter [OF this, of bytes messages "se_limits (re_session w)" t]
  show "wp (consume_client_traffic d bytes messages t) (\<lambda>_. focus fr A) w"
    by (auto simp: consume_client_traffic_def wp_simps)
qed

lemma consume_session_traffic_core: "same_core s (snd (consume_session_traffic bytes messages t s))"
  by (simp add: consume_session_traffic_def same_core_def Let_def)

lemma within_traffic_limits_keeps [keeps_intros]: "keeps (focus fr A) (within_traffic_limits d bytes messages so_far t)"
proof (rule keepsI)
  fix w :: "'a reactor" assume f: "focus fr A w"
  have "focus fr A (w\<lparr>re_session := snd (consume_session_traffic bytes messages t (re_session w))\<rparr>)"
    using f consume_session_traffic_core by (rule focus_same_core)
  with f show "wp (within_traffic_limits d bytes messages so_far t) (\<lambda>_. focus fr A) w"
    by (auto simp: within_traffic_limits_def wp_simps Let_def split: prod.splits
      intro!: keepsD [OF consume_client_traffic_keeps])
qed

lemma keeps_bind_set:
  assumes "keeps I m" and "\<And>x. x \<in> set_state m \<Longrightarrow> keeps I (f x)"
  shows "keeps I (State_Monad.bind m f)"
proof (rule keepsI)
  fix w assume w: "I w"
  obtain x w' where r: "run_state m w = (x, w')" by (metis surj_pair)
  then have "x \<in> set_state m" by (auto simp: set_state_iff)
  then have "wp (f x) (\<lambda>_. I) w'" by (rule keepsD [OF assms(2) keeps_run [OF assms(1) r w]])
  with r show "wp (State_Monad.bind m f) (\<lambda>_. I) w" by (simp add: wp_def)
qed

lemma read_loop_keeps: "keeps (focus fr UNIV) (read_loop d bytes messages)"
proof (induction "kMaximumBytesPerReadyEvent - bytes" arbitrary: bytes messages rule: less_induct)
  case less
  have again: "keeps (focus fr UNIV) (read_loop d (bytes + length more) m)"
    if "more \<noteq> []" "\<not> kMaximumBytesPerReadyEvent \<le> bytes + length more" for more m
    using that by (intro less) (auto intro!: diff_less_mono2)
  show ?case
    by (subst read_loop.simps, rule keeps_bind_set, rule read_client_keeps)
      (auto intro!: keeps_intros keeps_se_set keeps_worker_do again dest: read_client_nonempty simp: same_core_def)
qed

lemma read_from_client_keeps [keeps_intros]: "keeps (focus fr UNIV) (read_from_client d)"
  unfolding read_from_client_def by (rule read_loop_keeps)

section \<open>The TLS handshake\<close>

lemma drive_tls_handshake_wp:
  assumes f: "focus fr ({TlsHandshake} \<times> UNIV) w"
  shows "wp (drive_tls_handshake d) (\<lambda>_. focus fr UNIV) w"
proof -
  have any: "focus fr ({TlsHandshake} \<times> UNIV) w' \<Longrightarrow> focus fr UNIV w'" for w' :: "'a reactor" by (rule focus_any)
  have ok: "focus fr UNIV (w'\<lparr>re_session := (re_session w')\<lparr>se_stage := FirstMessage, se_tls_operation := op, se_deadline := t\<rparr>, re_worker := ws\<rparr>)"
    if "focus fr ({TlsHandshake} \<times> UNIV) w'" "worker_active_connections ws = worker_active_connections (re_worker w')"
    for w' :: "'a reactor" and op t ws
    using that by (auto simp: focus_def shared_ok_def unmoved_def session_ok_def se_queued_def own_load_def timer_ok_def)
  from f obtain stream where "se_ssl (re_session w) = Some stream" by (auto simp: focus_def session_ok_def)
  moreover have succeeded: "wp (now d) (\<lambda>t w. wp schedule_timeout (\<lambda>_. focus fr UNIV)
      (w\<lparr>re_session := (re_session w)\<lparr>se_stage := FirstMessage, se_tls_operation := op, se_deadline := g t w\<rparr>,
         re_worker := h t w\<rparr>)) w'"
    if "focus fr ({TlsHandshake} \<times> UNIV) w'" "\<And>t w. worker_active_connections (h t w) = worker_active_connections (re_worker w)"
    for w' :: "'a reactor" and op g h
    using that(2) by (intro wp_keeps [OF keeps_now that(1)] keepsD [OF schedule_timeout_keeps] ok) simp_all
  moreover have "focus fr ({TlsHandshake} \<times> UNIV) (w\<lparr>re_env := e\<rparr>)" for e using f by (simp add: focus_env)
  moreover have "focus fr UNIV (w\<lparr>re_env := e, re_session := t\<rparr>)" if "same_core (re_session w) t" for e t
    using focus_same_core [OF any [of "w\<lparr>re_env := e\<rparr>"], of t] f that by (simp add: focus_env)
  moreover have "focus fr UNIV (w\<lparr>re_env := e, re_worker := ws\<rparr>)"
    if "worker_active_connections ws = worker_active_connections (re_worker w)" for e ws
    using focus_worker [of ws "w\<lparr>re_env := e\<rparr>"] any [OF f] that by (simp add: focus_env)
  ultimately show ?thesis
    unfolding drive_tls_handshake_def wp_simps
    by (simp, intro wp_any) (simp add: same_core_def wp_simps any [OF f] focus_env split: sum.splits prod.splits)
qed

section \<open>Events of the client\<close>

lemma client_relay_keeps [keeps_intros]: "honest_writes (d_os d) \<Longrightarrow> keeps (focus fr A) (client_relay d events budget)"
  unfolding client_relay_def by (intro keeps_intros)

lemma client_ready_keeps:
  assumes h: "honest_writes (d_os d)"
  shows "keeps (focus fr UNIV) (client_ready d events)"
proof (rule keepsI)
  fix w :: "'a reactor" assume f: "focus fr UNIV w"
  show "wp (client_ready d events) (\<lambda>_. focus fr UNIV) w"
  proof (cases "se_stage (re_session w) = TlsHandshake")
    case True
    then have "focus fr ({TlsHandshake} \<times> UNIV) w" using f by (simp add: focus_def)
    with True show ?thesis by (simp add: client_ready_def wp_simps drive_tls_handshake_wp)
  next
    case False
    show ?thesis
      unfolding client_ready_def wp_bind wp_se_get id_apply
      by (simp only: False if_False, rule keepsD [where I = "focus fr UNIV", OF _ f], intro keeps_intros h)
  qed
qed

section \<open>Events of the backend\<close>

lemma upstream_loop_keeps [keeps_intros]: "keeps (focus fr A) (upstream_loop d bytes)"
proof (induction "kMaximumBytesPerReadyEvent - bytes" arbitrary: bytes rule: less_induct)
  case less
  have again: "keeps (focus fr A) (upstream_loop d (bytes + length more))"
    if "more \<noteq> []" "\<not> (queue \<or> kMaximumBytesPerReadyEvent \<le> bytes + length more)" for more queue
    using that by (intro less) (auto intro!: diff_less_mono2)
  show ?case
    by (subst upstream_loop.simps) (intro keeps_intros keeps_se_set keeps_worker_do again; simp add: same_core_def)
qed

lemma upstream_relay_keeps [keeps_intros]: "honest_writes (d_os d) \<Longrightarrow> keeps (focus fr A) (upstream_relay d events bytes)"
  unfolding upstream_relay_def by (intro keeps_intros keeps_se_set) (auto simp: same_core_def)

lemma upstream_traffic_keeps [keeps_intros]: "honest_writes (d_os d) \<Longrightarrow> keeps (focus fr A) (upstream_traffic d events)"
  unfolding upstream_traffic_def by (intro keeps_intros keeps_se_set) (simp add: same_core_def)

text \<open>A connection attempt that did not succeed is followed by the next candidate.\<close>

lemma next_candidate_wp:
  assumes "focus fr ({UpstreamConnect} \<times> UNIV) w"
  shows "wp record_upstream_error (\<lambda>_. wp (discard_upstream d) (\<lambda>_. wp (now d)
    (\<lambda>t w. if t < se_upstream_overall_deadline (re_session w)
       then wp (start_next_upstream_connect d) (\<lambda>_. focus fr UNIV) w else focus fr UNIV w))) w"
  by (rule wp_keeps [OF keeps_record_upstream_error assms], erule wp_keeps [OF keeps_discard_upstream],
      erule wp_keeps [OF keeps_now], intro ifI start_next_any_wp)
    (auto intro: focus_any)

lemma upstream_ready_keeps:
  assumes h: "honest_writes (d_os d)"
  shows "keeps (focus fr UNIV) (upstream_ready d events)"
proof (rule keepsI)
  fix w :: "'a reactor" assume f: "focus fr UNIV w"
  have traffic: "wp (upstream_traffic d events) (\<lambda>_. focus fr UNIV) w" if "focus fr A w" for A and w :: "'a reactor"
    using keepsD [OF upstream_traffic_keeps [OF h] focus_any [OF that]] .
  show "wp (upstream_ready d events) (\<lambda>_. focus fr UNIV) w"
  proof (cases "se_stage (re_session w) = UpstreamConnect")
    case True
    then have c: "focus fr ({UpstreamConnect} \<times> UNIV) w" using f by (simp add: focus_def)
    from True show ?thesis
      unfolding upstream_ready_def wp_simps
      by (simp only: simp_thms if_True)
        (rule wp_mono [OF finish_upstream_connect_wp [OF c]], intro ifI traffic next_candidate_wp; simp add: focus_any)
  next
    case False
    then show ?thesis using traffic [OF f] by (simp add: upstream_ready_def wp_simps)
  qed
qed

section \<open>Back pressure and interests\<close>

lemma refresh_read_pause_keeps [keeps_intros]: "keeps (focus fr A) (refresh_read_pause d)"
  unfolding refresh_read_pause_def
  by (intro keeps_intros keeps_se_set keeps_worker_do; simp add: same_core_def)

lemma update_interests_keeps [keeps_intros]: "keeps (focus fr A) (update_interests d)"
  unfolding update_interests_def by (intro keeps_intros keeps_se_set; simp add: same_core_def)

end
