(* ===== verification/Reactor_Invariant.thy ===== *)
theory Reactor_Invariant
  imports Relay_Invariant
begin

text \<open>
  The invariant of a reactor worker: every byte, connection slot, backend load, admission lease and timer that is
  accounted for belongs to exactly one session of its table or to the rest of the process.
\<close>

section \<open>What the sessions of a table hold\<close>

definition holdings :: "(session \<Rightarrow> nat) \<Rightarrow> (nat \<times> session) list \<Rightarrow> nat" where
  "holdings f xs = sum_list (map (f \<circ> snd) xs)"

definition leases :: "(nat \<times> session) list \<Rightarrow> lease multiset" where
  "leases xs = mset (map (the \<circ> se_admission \<circ> snd) xs)"

definition without :: "nat \<Rightarrow> (nat \<times> session) list \<Rightarrow> (nat \<times> session) list" where
  "without k xs = filter (\<lambda>(j, _). j \<noteq> k) xs"

lemma without_absent: "k \<notin> fst ` set xs \<Longrightarrow> without k xs = xs"
  by (auto simp: without_def filter_id_conv rev_image_eqI)

lemma without_put: "without k (put_session k t xs) = without k xs"
  by (induction xs) (auto simp: without_def put_session_def)

lemma put_session_simps [simp]:
  "map fst (put_session k t xs) = map fst xs" "length (put_session k t xs) = length xs"
  "map_of (put_session k t xs) j = (if j = k \<and> map_of xs k \<noteq> None then Some t else map_of xs j)"
  by (induction xs) (auto simp: put_session_def)

lemma map_of_without [simp]: "map_of (without k xs) j = (if j = k then None else map_of xs j)"
  by (induction xs) (auto simp: without_def)

lemma split_table:
  assumes "distinct (map fst xs)" and "map_of xs k = Some s"
  shows "mset xs = add_mset (k, s) (mset (without k xs))"
  using assms
proof (induction xs)
  case (Cons x xs)
  show ?case
  proof (cases "fst x = k")
    case True
    then have "without k (x # xs) = xs" using Cons.prems(1) without_absent [of k xs] by (auto simp: without_def)
    with True Cons.prems(2) show ?thesis by (cases x) simp
  next
    case False
    then show ?thesis using Cons by (cases x) (auto simp: without_def)
  qed
qed simp

lemma holdings_mset: "holdings f xs = sum_mset (image_mset (f \<circ> snd) (mset xs))"
  by (simp add: holdings_def sum_mset_sum_list [symmetric])

lemma leases_mset: "leases xs = image_mset (the \<circ> se_admission \<circ> snd) (mset xs)"
  by (simp add: leases_def)

lemma split_holdings:
  assumes "distinct (map fst xs)" and "map_of xs k = Some s"
  shows "holdings f xs = holdings f (without k xs) + f s" "leases xs = add_mset (the (se_admission s)) (leases (without k xs))"
    "length xs = Suc (length (without k xs))" "set xs = insert (k, s) (set (without k xs))"
proof -
  note m = split_table [OF assms]
  show "holdings f xs = holdings f (without k xs) + f s" "leases xs = add_mset (the (se_admission s)) (leases (without k xs))"
    by (simp_all add: holdings_mset leases_mset m)
  show "length xs = Suc (length (without k xs))" using arg_cong [OF m, of size] by simp
  show "set xs = insert (k, s) (set (without k xs))" using arg_cong [OF m, of set_mset] by simp
qed

lemma distinct_without: "distinct (map fst xs) \<Longrightarrow> distinct (map fst (without k xs))"
  unfolding without_def by (rule distinct_map_filter)

section \<open>The invariant\<close>

text \<open>What the rest of the process holds: the other workers, and a connection that is not in the table yet.\<close>

record others =
  ot_bytes :: nat
  ot_load :: "backend_ref \<Rightarrow> nat"
  ot_leases :: "lease multiset"
  ot_slots :: nat
  ot_worker_slots :: nat
  ot_stores :: nat

text \<open>Each session has its timer, but for the sessions of the given set.\<close>

definition timers_ok :: "nat set \<Rightarrow> (nat \<times> session) list \<Rightarrow> (nat \<rightharpoonup> nat \<times> nat) \<Rightarrow> bool" where
  "timers_ok X xs timers \<longleftrightarrow>
     (\<forall>k. map_option fst (timers k) = (if k \<in> X then None else map_option se_timeout_generation (map_of xs k)))"

definition session_in :: "nat \<Rightarrow> nat \<times> session \<Rightarrow> bool" where
  "session_in n x \<longleftrightarrow> se_id (snd x) = fst x \<and> session_ok n (snd x) \<and> se_admission (snd x) \<noteq> None"

definition reactor_ok :: "others \<Rightarrow> nat set \<Rightarrow> 'e reactor \<Rightarrow> bool" where
  "reactor_ok ot X w \<longleftrightarrow>
     \<not> re_fault w \<and> distinct (map fst (re_sessions w)) \<and> (\<forall>x\<in>set (re_sessions w). session_in (ot_stores ot) x) \<and>
     queued_bytes (ss_stats (re_state w)) = wrap64 (ot_bytes ot + holdings se_queued (re_sessions w)) \<and>
     queued_bytes_limit (ss_stats (re_state w)) < 2 ^ 64 \<and>
     loads_ok (re_backends w) (ot_stores ot) (\<lambda>ref. ot_load ot ref + holdings (\<lambda>s. own_load s ref) (re_sessions w)) \<and>
     limiter_ok (ot_leases ot + leases (re_sessions w)) (re_limiter w) \<and>
     wheel_inv (re_wheel w) \<and> Suc (tw_current (re_wheel w)) < 2 ^ 64 \<and>
     timers_ok X (re_sessions w) (deadlines (re_wheel w)) \<and>
     active_connections (ss_stats (re_state w)) = wrap64 (ot_slots ot + length (re_sessions w)) \<and>
     worker_active_connections (re_worker w) = wrap64 (ot_worker_slots ot + length (re_sessions w)) \<and>
     table_in (ot_stores ot) (rs_routing (ss_runtime (re_state w)))"

definition frame_of :: "others \<Rightarrow> nat set \<Rightarrow> nat \<Rightarrow> 'e reactor \<Rightarrow> frame" where
  "frame_of ot X k w =
     \<lparr>fr_bytes = ot_bytes ot + holdings se_queued (without k (re_sessions w)),
      fr_load = \<lambda>ref. ot_load ot ref + holdings (\<lambda>s. own_load s ref) (without k (re_sessions w)),
      fr_leases = ot_leases ot + leases (without k (re_sessions w)),
      fr_timers = deadlines (re_wheel w), fr_tick = tw_current (re_wheel w), fr_ident = k, fr_stores = ot_stores ot,
      fr_sessions = re_sessions w, fr_listeners = re_listeners w,
      fr_active = active_connections (ss_stats (re_state w)),
      fr_worker_active = worker_active_connections (re_worker w), fr_next_id = re_next_session_id w,
      fr_runtime = ss_runtime (re_state w), fr_untimed = (k \<in> X)\<rparr>"

lemma frame_of_simps [simp]:
  "fr_bytes (frame_of ot X k w) = ot_bytes ot + holdings se_queued (without k (re_sessions w))"
  "fr_load (frame_of ot X k w) = (\<lambda>ref. ot_load ot ref + holdings (\<lambda>s. own_load s ref) (without k (re_sessions w)))"
  "fr_leases (frame_of ot X k w) = ot_leases ot + leases (without k (re_sessions w))"
  "fr_timers (frame_of ot X k w) = deadlines (re_wheel w)" "fr_tick (frame_of ot X k w) = tw_current (re_wheel w)"
  "fr_ident (frame_of ot X k w) = k" "fr_stores (frame_of ot X k w) = ot_stores ot"
  "fr_sessions (frame_of ot X k w) = re_sessions w" "fr_listeners (frame_of ot X k w) = re_listeners w"
  "fr_active (frame_of ot X k w) = active_connections (ss_stats (re_state w))"
  "fr_worker_active (frame_of ot X k w) = worker_active_connections (re_worker w)"
  "fr_next_id (frame_of ot X k w) = re_next_session_id w" "fr_runtime (frame_of ot X k w) = ss_runtime (re_state w)"
  "fr_untimed (frame_of ot X k w) \<longleftrightarrow> k \<in> X"
  by (simp_all add: frame_of_def)

lemma timers_okD: "timers_ok X xs timers \<Longrightarrow> map_option fst (timers k) = (if k \<in> X then None else map_option se_timeout_generation (map_of xs k))"
  by (simp add: timers_ok_def)

lemma enter_timer:
  assumes "timers_ok X xs timers" and "map_of xs k = Some s"
  shows "(\<exists>due. timers = timers(k \<mapsto> (se_timeout_generation s, due))) \<or> k \<in> X \<and> timers = timers(k := None)"
  using timers_okD [OF assms(1), of k] assms(2)
  by (cases "timers k") (auto simp: fun_upd_idem split: if_splits intro: exI [where P = "\<lambda>due. timers = timers(k \<mapsto> (_, due))", OF fun_upd_idem [symmetric]])

lemma enter_session:
  assumes "reactor_ok ot X w" and "map_of (re_sessions w) k = Some s"
  shows "focus (frame_of ot X k w) UNIV (w\<lparr>re_session := s\<rparr>)"
proof -
  note r = assms(1) [unfolded reactor_ok_def]
  from r have d: "distinct (map fst (re_sessions w))" by simp
  note split = split_holdings [OF d assms(2)]
  have s: "session_in (ot_stores ot) (k, s)" using r map_of_SomeD [OF assms(2)] by blast
  then obtain x where x: "se_admission s = Some x" by (auto simp: session_in_def)
  have t: "timer_ok (frame_of ot X k w) s (deadlines (re_wheel w))"
    using enter_timer [OF _ assms(2)] r by (auto simp: timer_ok_def)
  show ?thesis
    using r s t x by (simp add: focus_def shared_ok_def unmoved_def session_in_def split(1,2) add.assoc)
qed

text \<open>The sets of sessions without a timer that are possible after a handler.\<close>

definition after_timers :: "bool \<Rightarrow> nat \<Rightarrow> nat set \<Rightarrow> nat set set" where
  "after_timers b k X = (if b then {X - {k}} else {X, X - {k}})"

lemma leave_timer:
  assumes "timers_ok X xs (fr_timers fr)" and "map_of xs (fr_ident fr) = Some s" and "timer_ok (timed_if b fr) t timers'"
    and "fr_untimed fr \<longleftrightarrow> fr_ident fr \<in> X"
  shows "\<exists>X'\<in>after_timers b (fr_ident fr) X. timers_ok X' (put_session (fr_ident fr) t xs) timers'"
proof -
  let ?k = "fr_ident fr"
  consider due where "timers' = (fr_timers fr)(?k \<mapsto> (se_timeout_generation t, due))"
    | "\<not> b" "?k \<in> X" "timers' = (fr_timers fr)(?k := None)"
    using assms(3,4) by (cases b) (auto simp: timer_ok_def)
  then show ?thesis
  proof cases
    case 1
    then have "timers_ok (X - {?k}) (put_session ?k t xs) timers'"
      unfolding timers_ok_def using timers_okD [OF assms(1)] assms(2) by simp
    then show ?thesis by (auto simp: after_timers_def)
  next
    case 2
    then have "map_option fst (timers' j) = (if j \<in> X then None else map_option se_timeout_generation (map_of (put_session ?k t xs) j))" for j
      using timers_okD [OF assms(1), of j] assms(2) by (cases "j = ?k") auto
    then have "timers_ok X (put_session ?k t xs) timers'" by (simp add: timers_ok_def)
    with 2(1) show ?thesis by (auto simp: after_timers_def)
  qed
qed

lemma leave_session:
  assumes "reactor_ok ot X w" and "map_of (re_sessions w) k = Some s" and "focus (timed_if b (frame_of ot X k w)) UNIV w'"
  shows "\<exists>X'\<in>after_timers b k X. reactor_ok ot X' (w'\<lparr>re_sessions := put_session k (re_session w') (re_sessions w')\<rparr>)"
proof -
  note r = assms(1) [unfolded reactor_ok_def]
  from r have d: "distinct (map fst (re_sessions w))" by simp
  let ?xs = "put_session k (re_session w') (re_sessions w)"
  have f: "focus (frame_of ot X k w) UNIV w'" by (rule focus_timed_if [OF assms(3)])
  have t: "timer_ok (timed_if b (frame_of ot X k w)) (re_session w') (deadlines (re_wheel w'))"
    using assms(3) by (simp add: focus_def shared_ok_def)
  have "\<exists>X'\<in>after_timers b k X. timers_ok X' ?xs (deadlines (re_wheel w'))"
    using leave_timer [OF _ _ t, of X "re_sessions w" s] r assms(2) by simp
  then obtain X' where X': "X' \<in> after_timers b k X" "timers_ok X' ?xs (deadlines (re_wheel w'))" by blast
  have d': "distinct (map fst ?xs)" and m: "map_of ?xs k = Some (re_session w')" using d assms(2) by simp_all
  note split = split_holdings [OF d' m, unfolded without_put]
  have old: "x \<in> set (without k (re_sessions w)) \<Longrightarrow> session_in (ot_stores ot) x" for x using r by (auto simp: without_def)
  obtain x where x: "se_admission (re_session w') = Some x"
      "limiter_ok (add_mset x (ot_leases ot + leases (without k (re_sessions w)))) (re_limiter w')"
    using f by (auto simp: focus_def shared_ok_def)
  have "reactor_ok ot X' (w'\<lparr>re_sessions := ?xs\<rparr>)"
    using f r X'(2) d' old x split unfolding reactor_ok_def focus_def shared_ok_def unmoved_def
    by (auto simp: session_in_def add.assoc)
  with X'(1) f show ?thesis by (auto simp: focus_def unmoved_def)
qed

section \<open>Running a handler\<close>

lemma reactor_session [simp]: "reactor_ok ot X (w\<lparr>re_session := s\<rparr>) = reactor_ok ot X w"
  by (simp add: reactor_ok_def)

lemma reactor_env [simp]: "reactor_ok ot X (w\<lparr>re_env := e\<rparr>) = reactor_ok ot X w"
  by (simp add: reactor_ok_def)

lemma reactor_listeners [simp]: "reactor_ok ot X (w\<lparr>re_listeners := ls\<rparr>) = reactor_ok ot X w"
  by (simp add: reactor_ok_def)

lemma reactor_worker:
  "worker_active_connections ws = worker_active_connections (re_worker w) \<Longrightarrow>
     reactor_ok ot X (w\<lparr>re_worker := ws\<rparr>) = reactor_ok ot X w"
  by (simp add: reactor_ok_def)

text \<open>The handler may promise that the session has its timer when it is kept.\<close>

lemma on_session_wp:
  assumes r: "reactor_ok ot X w" and m: "map_of (re_sessions w) k = Some s"
    and a: "\<And>w'. focus (frame_of ot X k w) UNIV w' \<Longrightarrow> re_session w' = s \<Longrightarrow>
      wp action (\<lambda>x. focus (timed_if (b x) (frame_of ot X k w)) UNIV) w'"
  shows "wp (on_session k s action) (\<lambda>x w'. (\<exists>X'\<in>after_timers (b x) k X. reactor_ok ot X' w') \<and>
    (\<exists>t. re_sessions w' = put_session k t (re_sessions w)) \<and> ss_runtime (re_state w') = ss_runtime (re_state w) \<and>
    re_listeners w' = re_listeners w) w"
proof -
  have "wp action (\<lambda>x. focus (timed_if (b x) (frame_of ot X k w)) UNIV) (w\<lparr>re_session := s\<rparr>)"
    by (rule a [OF enter_session [OF r m]]) simp
  then show ?thesis
    unfolding on_session_def wp_simps
  proof (rule wp_mono)
    fix x w' assume f: "focus (timed_if (b x) (frame_of ot X k w)) UNIV w'"
    have "re_sessions w' = re_sessions w" "ss_runtime (re_state w') = ss_runtime (re_state w)" "re_listeners w' = re_listeners w"
      using focus_timed_if [OF f] by (simp_all add: focus_def unmoved_def)
    with leave_session [OF r m f] show "(\<exists>X'\<in>after_timers (b x) k X. reactor_ok ot X' (w'\<lparr>re_sessions := put_session k (re_session w') (re_sessions w')\<rparr>)) \<and>
        (\<exists>t. re_sessions (w'\<lparr>re_sessions := put_session k (re_session w') (re_sessions w')\<rparr>) = put_session k t (re_sessions w)) \<and>
        ss_runtime (re_state (w'\<lparr>re_sessions := put_session k (re_session w') (re_sessions w')\<rparr>)) = ss_runtime (re_state w) \<and>
        re_listeners (w'\<lparr>re_sessions := put_session k (re_session w') (re_sessions w')\<rparr>) = re_listeners w"
      by auto
  qed
qed

section \<open>Closing a session\<close>

text \<open>Everything the session in focus held is given back.\<close>

definition closed :: "frame \<Rightarrow> 'e reactor \<Rightarrow> bool" where
  "closed fr w \<longleftrightarrow>
     \<not> re_fault w \<and> queued_bytes (ss_stats (re_state w)) = wrap64 (fr_bytes fr) \<and>
     queued_bytes_limit (ss_stats (re_state w)) < 2 ^ 64 \<and> loads_ok (re_backends w) (fr_stores fr) (fr_load fr) \<and>
     limiter_ok (fr_leases fr) (re_limiter w) \<and> wheel_inv (re_wheel w) \<and> tw_current (re_wheel w) = fr_tick fr \<and>
     Suc (fr_tick fr) < 2 ^ 64 \<and> deadlines (re_wheel w) = (fr_timers fr)(fr_ident fr := None) \<and>
     re_sessions w = without (fr_ident fr) (fr_sessions fr) \<and> re_listeners w = fr_listeners fr \<and>
     active_connections (ss_stats (re_state w)) = fetch_sub (fr_active fr) 1 \<and>
     worker_active_connections (re_worker w) = fetch_sub (fr_worker_active fr) 1 \<and>
     ss_runtime (re_state w) = fr_runtime fr"

lemma keeps_closed_env: "keeps (closed fr) (os_do m)"
  by (auto simp: keeps_def wp_simps closed_def intro: wp_any)

lemma keeps_destroy_session: "keeps (closed fr) (destroy_session d)"
  unfolding destroy_session_def by (intro keeps_intros keeps_closed_env)

text \<open>The load of the backend after the session is no longer counted.\<close>

lemma loads_released:
  assumes "loads_ok store n (\<lambda>ref. load ref + own_load s ref)" and "se_backend_counted s" and "se_backend s = Some ref"
  shows "loads_ok (store[ref := (store ! ref)\<lparr>be_active_connections := fetch_sub (be_active_connections (store ! ref)) 1\<rparr>]) n load"
proof -
  have "be_active_connections (store[ref := (store ! ref)\<lparr>be_active_connections := fetch_sub (be_active_connections (store ! ref)) 1\<rparr>] ! r) =
      wrap64 (load r)" if "r < n" for r
  proof (cases "r = ref")
    case True
    then have "be_active_connections (store ! ref) = wrap64 (load ref + 1)" using assms that by (simp add: loads_ok_def own_load_def)
    with True that assms(1) show ?thesis by (simp add: loads_ok_def wrap64_release)
  next
    case False
    then show ?thesis using assms that by (simp add: loads_ok_def own_load_def)
  qed
  with assms(1) show ?thesis by (simp add: loads_ok_def)
qed

lemma loads_uncounted:
  assumes "loads_ok store n (\<lambda>ref. load ref + own_load s ref)" and "\<not> se_backend_counted s"
  shows "loads_ok store n load"
  using assms by (simp add: loads_ok_def own_load_def)

lemma release_session_wp:
  assumes f: "focus fr UNIV w"
  shows "wp (release_session d (fr_ident fr) (re_session w)) (\<lambda>_. closed fr) w"
proof -
  let ?s = "re_session w"
  from f obtain x where x: "se_admission ?s = Some x" "limiter_ok (add_mset x (fr_leases fr)) (re_limiter w)"
    by (auto simp: focus_def shared_ok_def)
  from release_ok [OF x(2), of x] obtain l where l: "release x (re_limiter w) = Some l" "limiter_ok (fr_leases fr) l" by auto
  have loads: "loads_ok (re_backends w) (fr_stores fr) (\<lambda>ref. fr_load fr ref + own_load ?s ref)"
    using f by (simp add: focus_def shared_ok_def)
  have timers: "(deadlines (re_wheel w))(fr_ident fr := None) = (fr_timers fr)(fr_ident fr := None)"
    using f by (auto simp: focus_def shared_ok_def timer_ok_def)
  have "wheel_inv (re_wheel w)" using f by (simp add: focus_def shared_ok_def)
  note wheel = wheel.inv_cancel [OF this] wheel.view_cancel [OF this]
  have fin: "closed fr w' \<Longrightarrow> wp (destroy_session d) (\<lambda>_. closed fr) w'" for w' by (rule keepsD [OF keeps_destroy_session])
  note defs = release_session_def wp_simps release_bytes_def release_admission_def drop_lease_def release_active_slot_def
    lease_reset_def closed_def focus_def shared_ok_def unmoved_def without_def release_queued_bytes_def wrap64_release
  show ?thesis
  proof (cases "se_backend_counted ?s")
    case True
    then obtain ref where ref: "se_backend ?s = Some ref" using f by (auto simp: focus_def session_ok_def)
    show ?thesis
      using loads_released [OF loads True ref] f x l True ref wheel timers
      by (simp add: release_session_def wp_simps release_bytes_def release_admission_def drop_lease_def release_active_slot_def
        lease_reset_def, intro fin) (simp add: defs)
  next
    case False
    show ?thesis
      using loads_uncounted [OF loads False] f x l False wheel timers
      by (simp add: release_session_def wp_simps release_bytes_def release_admission_def drop_lease_def release_active_slot_def
        lease_reset_def, intro fin) (simp add: defs)
  qed
qed

lemma close_focused_wp:
  assumes f: "focus fr UNIV w" and h: "honest_writes (d_os d)"
  shows "wp (close_focused d (fr_ident fr)) (\<lambda>_. closed fr) w"
proof -
  have os: "wp (os_do m) (\<lambda>_ w'. focus fr UNIV w' \<and> re_session w' = re_session w) w"
    if "focus fr UNIV w" for m :: "('a, 'c) state" and w :: "'a reactor"
    using that by (auto simp: wp_simps focus_env intro: wp_any)
  have rest: "wp (os_do (os_epoll_del (d_os d) (se_client (re_session w)))) (\<lambda>_ w'.
      if fd_valid (se_upstream (re_session w))
      then wp (os_do (os_epoll_del (d_os d) (se_upstream (re_session w)))) (\<lambda>_. wp (release_session d (fr_ident fr) (re_session w)) (\<lambda>_. closed fr)) w'
      else wp (release_session d (fr_ident fr) (re_session w)) (\<lambda>_. closed fr) w') w" if "focus fr UNIV w" for w :: "'a reactor"
  proof (rule wp_mono [OF os [OF that]], elim conjE, rule ifI, goal_cases)
    case (1 _ w')
    show ?case by (rule wp_mono [OF os [OF 1(1)]], elim conjE) (use release_session_wp 1(2) in metis)
  next
    case (2 _ w')
    then show ?case using release_session_wp by metis
  qed
  have start: "wp (do_if b (flush_upstream_queue d)) (\<lambda>_. focus fr UNIV) w" for b
    using keepsD [OF flush_upstream_queue_keeps [OF h] f] f by (simp add: wp_simps)
  show ?thesis
    unfolding close_focused_def wp_bind wp_se_get id_apply
    by (rule wp_mono [OF start]) (use rest in \<open>simp only: wp_do_if wp_bind wp_return\<close>)
qed

lemma forget_session:
  assumes r: "reactor_ok ot X w" and m: "map_of (re_sessions w) k = Some s" and c: "closed (frame_of ot X k w) w'"
  shows "reactor_ok ot (X - {k}) w'"
proof -
  note r' = r [unfolded reactor_ok_def] and c' = c [unfolded closed_def, simplified]
  have d: "distinct (map fst (re_sessions w))" using r' by simp
  note split = split_holdings [OF d m]
  have t: "timers_ok X (re_sessions w) (deadlines (re_wheel w))" using r' by simp
  have dl: "deadlines (re_wheel w') = (deadlines (re_wheel w))(k := None)" using c' by simp
  have "map_option fst (deadlines (re_wheel w') j) = (if j \<in> X - {k} then None else map_option se_timeout_generation (map_of (without k (re_sessions w)) j))" for j
    using timers_okD [OF t, of j] dl by simp
  then have "timers_ok (X - {k}) (re_sessions w') (deadlines (re_wheel w'))" using c' by (simp add: timers_ok_def)
  moreover have "\<forall>x\<in>set (without k (re_sessions w)). session_in (ot_stores ot) x" using r' by (auto simp: without_def)
  ultimately show ?thesis
    using r' c' d split(3) unfolding reactor_ok_def by (simp add: distinct_without wrap64_release)
qed

lemma timers_drop_absent:
  assumes "reactor_ok ot X w" and "map_of (re_sessions w) k = None"
  shows "reactor_ok ot (X - {k}) w"
proof -
  have t: "timers_ok X (re_sessions w) (deadlines (re_wheel w))" using assms(1) by (simp add: reactor_ok_def)
  have "map_option fst (deadlines (re_wheel w) j) = (if j \<in> X - {k} then None else map_option se_timeout_generation (map_of (re_sessions w) j))" for j
    using timers_okD [OF t, of j] assms(2) by (cases "j = k") auto
  then have "timers_ok (X - {k}) (re_sessions w) (deadlines (re_wheel w))" by (simp add: timers_ok_def)
  with assms(1) show ?thesis by (simp add: reactor_ok_def)
qed

lemma close_session_wp:
  assumes r: "reactor_ok ot X w" and h: "honest_writes (d_os d)"
  shows "wp (close_session d k) (\<lambda>_ w'. reactor_ok ot (X - {k}) w' \<and> re_sessions w' = without k (re_sessions w) \<and>
    ss_runtime (re_state w') = ss_runtime (re_state w) \<and> re_listeners w' = re_listeners w) w"
proof (cases "map_of (re_sessions w) k")
  case None
  have "reactor_ok ot (X - {k}) w" by (rule timers_drop_absent [OF r None])
  moreover have "without k (re_sessions w) = re_sessions w" using None by (intro without_absent) (simp add: map_of_eq_None_iff)
  ultimately show ?thesis using None by (simp add: close_session_def find_session_def wp_simps)
next
  case (Some s)
  have "wp (close_focused d k) (\<lambda>_. closed (frame_of ot X k w)) (w\<lparr>re_session := s\<rparr>)"
    using close_focused_wp [OF enter_session [OF r Some] h] by simp
  then have "wp (close_focused d k) (\<lambda>_ w'. reactor_ok ot (X - {k}) w' \<and> re_sessions w' = without k (re_sessions w) \<and>
      ss_runtime (re_state w') = ss_runtime (re_state w) \<and> re_listeners w' = re_listeners w) (w\<lparr>re_session := s\<rparr>)"
    by (rule wp_mono) (use forget_session [OF r Some] in \<open>auto simp: closed_def\<close>)
  with Some show ?thesis by (simp add: close_session_def find_session_def wp_simps)
qed

end
