(* ===== verification/Reactor_Steps.thy ===== *)
theory Reactor_Steps
  imports Reactor_Invariant
begin

text \<open>
  Every step of a reactor worker keeps its invariant: events of sessions and listeners, expiries, whole rounds,
  the loop, and the shutdown, after which everything the worker held is given back.
\<close>

section \<open>What the worker relies on\<close>

text \<open>
  Writes do not report more than they were given, the steady clock stays in range, \<^verbatim>\<open>accept4\<close> and
  \<^verbatim>\<open>getsockname\<close> fill a whole \<^verbatim>\<open>sockaddr_storage\<close>, and walking a hash table visits each entry once.
\<close>

definition deps_contract :: "('e, 'g) deps \<Rightarrow> bool" where
  "deps_contract d \<longleftrightarrow>
     honest_writes (d_os d) \<and> (\<forall>e. clock_ok (fst (run_state (os_now (d_os d)) e))) \<and>
     (\<forall>v e client address e'. run_state (os_accept4 (d_os d) v) e = (Inr (client, address), e') \<longrightarrow> length address = sockaddr_bytes) \<and>
     (\<forall>v e address e'. run_state (os_getsockname (d_os d) v) e = (Inr address, e') \<longrightarrow> length address = sockaddr_bytes) \<and>
     (\<forall>es. mset (d_order d es) = mset es)"

lemma contract_writes: "deps_contract d \<Longrightarrow> honest_writes (d_os d)"
  by (simp add: deps_contract_def)

lemma now_wp:
  assumes "deps_contract d" and "\<And>t e. clock_ok t \<Longrightarrow> Q t (w\<lparr>re_env := e\<rparr>)"
  shows "wp (now d) Q w"
  using assms unfolding now_def wp_os_do
  by (intro wpI) (auto simp: deps_contract_def dest: spec [of _ "re_env w"])

section \<open>Events of sessions\<close>

lemma keeps_reactor_os [keeps_intros]: "keeps (reactor_ok ot X) (os_do m)"
  by (auto simp: keeps_def wp_simps intro: wp_any)

lemma keeps_reactor_worker:
  "(\<And>ws. worker_active_connections (f ws) = worker_active_connections ws) \<Longrightarrow> keeps (reactor_ok ot X) (worker_do f)"
  by (simp add: keeps_def wp_simps reactor_worker)

lemma keeps_listener_do [keeps_intros]: "keeps (reactor_ok ot X) (listener_do i f)"
  by (simp add: keeps_def listener_do_def wp_simps)

lemma keeps_reactor_now [keeps_intros]: "keeps (reactor_ok ot X) (now d)"
  unfolding now_def by (rule keeps_reactor_os)

text \<open>A handler that decides whether its session is kept, and the closing of one that is not.\<close>

lemma handle_wp:
  assumes r: "reactor_ok ot X w" and m: "map_of (re_sessions w) k = Some s" and c: "deps_contract d"
    and a: "\<And>w'. focus (frame_of ot X k w) UNIV w' \<Longrightarrow> re_session w' = s \<Longrightarrow>
      wp action (\<lambda>kept. focus (timed_if (kept \<and> k \<in> X) (frame_of ot X k w)) UNIV) w'"
  shows "wp (on_session k s action) (\<lambda>kept. wp (do_if (\<not> kept) (close_session d k)) (\<lambda>_ w'. reactor_ok ot (X - {k}) w' \<and>
    (\<forall>j. j \<noteq> k \<longrightarrow> map_of (re_sessions w') j = map_of (re_sessions w) j) \<and> ss_runtime (re_state w') = ss_runtime (re_state w))) w"
proof (rule wp_mono [OF on_session_wp [where b = "\<lambda>kept. kept \<and> k \<in> X", OF r m]], erule (1) a, elim conjE bexE exE)
  fix kept X' t and w' :: "'a reactor"
  assume X': "X' \<in> after_timers (kept \<and> k \<in> X) k X" and r': "reactor_ok ot X' w'"
    and t: "re_sessions w' = put_session k t (re_sessions w)" and rt: "ss_runtime (re_state w') = ss_runtime (re_state w)"
  have "X' = X - {k}" if kept using X' that by (auto simp: after_timers_def split: if_splits)
  moreover have "X' - {k} = X - {k}" using X' by (auto simp: after_timers_def split: if_splits)
  ultimately show "wp (do_if (\<not> kept) (close_session d k)) (\<lambda>_ w'. reactor_ok ot (X - {k}) w' \<and>
    (\<forall>j. j \<noteq> k \<longrightarrow> map_of (re_sessions w') j = map_of (re_sessions w) j) \<and> ss_runtime (re_state w') = ss_runtime (re_state w)) w'"
    using r' t rt wp_mono [OF close_session_wp [OF r' contract_writes [OF c]], of k "\<lambda>_ w'. reactor_ok ot (X - {k}) w' \<and>
      (\<forall>j. j \<noteq> k \<longrightarrow> map_of (re_sessions w') j = map_of (re_sessions w) j) \<and> ss_runtime (re_state w') = ss_runtime (re_state w)"]
    by (cases kept) (auto simp: wp_simps)
qed

lemma event_handler_keeps:
  assumes "deps_contract d"
  shows "keeps (focus fr UNIV) (do {
    kept \<leftarrow> (if client then client_ready d events else upstream_ready d events);
    if kept then update_interests d else State_Monad.return False })"
  by (intro keeps_intros client_ready_keeps upstream_ready_keeps contract_writes assms)

lemma session_event_wp:
  assumes r: "reactor_ok ot {} w" and c: "deps_contract d"
  shows "wp (do {
       found \<leftarrow> find_session k;
       case found of
         None \<Rightarrow> State_Monad.return (Inr ())
       | Some s \<Rightarrow>
           do {
             kept \<leftarrow> on_session k s
               (do {
                  kept \<leftarrow> (if client then client_ready d events else upstream_ready d events);
                  if kept then update_interests d else State_Monad.return False
                });
             do_if (\<not> kept) (close_session d k);
             State_Monad.return (Inr ())
           }
     }) (\<lambda>_ w'. reactor_ok ot {} w' \<and> ss_runtime (re_state w') = ss_runtime (re_state w)) w"
proof (cases "map_of (re_sessions w) k")
  case None
  then show ?thesis using r by (simp add: find_session_def wp_simps)
next
  case (Some s)
  have "wp (on_session k s (do {
      kept \<leftarrow> (if client then client_ready d events else upstream_ready d events);
      if kept then update_interests d else State_Monad.return False }))
    (\<lambda>kept. wp (do_if (\<not> kept) (close_session d k)) (\<lambda>_ w'. reactor_ok ot ({} - {k}) w' \<and>
    (\<forall>j. j \<noteq> k \<longrightarrow> map_of (re_sessions w') j = map_of (re_sessions w) j) \<and> ss_runtime (re_state w') = ss_runtime (re_state w))) w"
    by (rule handle_wp [OF r Some c]) (use keepsD [OF event_handler_keeps [OF c]] in \<open>simp add: timed_if_def\<close>)
  then have "wp (on_session k s (do {
      kept \<leftarrow> (if client then client_ready d events else upstream_ready d events);
      if kept then update_interests d else State_Monad.return False }))
    (\<lambda>kept. wp (do_if (\<not> kept) (close_session d k)) (\<lambda>_ w'. reactor_ok ot {} w' \<and> ss_runtime (re_state w') = ss_runtime (re_state w))) w"
    by (elim wp_mono) auto
  then show ?thesis
    unfolding wp_bind find_session_def wp_gets Some option.case wp_return .
qed

section \<open>Expiries\<close>

definition expired :: "others \<Rightarrow> nat set \<Rightarrow> nat \<Rightarrow> 'e reactor \<Rightarrow> 'e reactor \<Rightarrow> bool" where
  "expired ot X k w w' \<longleftrightarrow> reactor_ok ot (X - {k}) w' \<and>
     (\<forall>j. j \<noteq> k \<longrightarrow> map_of (re_sessions w') j = map_of (re_sessions w) j) \<and> ss_runtime (re_state w') = ss_runtime (re_state w)"

lemma reschedule:
  assumes r: "reactor_ok ot X w" and m: "map_of (re_sessions w) k = Some s"
  shows "reactor_ok ot (X - {k}) (w\<lparr>re_wheel := wheel_schedule (re_wheel w) k (se_timeout_generation s) t\<rparr>)"
proof -
  have w: "wheel_inv (re_wheel w)" "Suc (tw_current (re_wheel w)) < 2 ^ 64" and
    tm: "timers_ok X (re_sessions w) (deadlines (re_wheel w))" using r by (simp_all add: reactor_ok_def)
  let ?v = "wheel_schedule (re_wheel w) k (se_timeout_generation s) t"
  have "map_option fst (deadlines ?v j) = (if j \<in> X - {k} then None else map_option se_timeout_generation (map_of (re_sessions w) j))" for j
    using timers_okD [OF tm, of j] m by (simp add: wheel_schedule_spec(2) [OF w])
  then have "timers_ok (X - {k}) (re_sessions w) (deadlines ?v)" by (simp add: timers_ok_def)
  then show ?thesis using r by (simp add: reactor_ok_def wheel_schedule_spec(1))
qed

lemma expired_connect_wp:
  assumes f: "focus fr UNIV w" and "se_stage (re_session w) = UpstreamConnect"
  shows "wp (do { record_upstream_error; discard_upstream d; overall \<leftarrow> se_get se_upstream_overall_deadline;
      if overall \<le> t then State_Monad.return False else start_next_upstream_connect d })
    (\<lambda>kept. focus (timed_if kept fr) UNIV) w"
proof -
  have conn: "focus fr ({UpstreamConnect} \<times> UNIV) w" using assms by (simp add: focus_def)
  have start: "wp (start_next_upstream_connect d) (\<lambda>kept. focus (timed_if kept fr) UNIV) w'"
    if "focus fr ({UpstreamConnect} \<times> UNIV) w'" for w' :: "'a reactor"
    by (rule wp_mono [OF start_next_upstream_connect_wp [OF that]]) (rule focus_any)
  show ?thesis
    unfolding wp_simps
    by (rule wp_keeps [OF keeps_record_upstream_error conn], erule wp_keeps [OF keeps_discard_upstream], intro ifI start)
      (auto intro: focus_any)
qed

lemma expire_session_wp:
  assumes r: "reactor_ok ot X w" and c: "deps_contract d" and k: "te_session expiry \<in> X"
    and g: "\<And>s. map_of (re_sessions w) (te_session expiry) = Some s \<Longrightarrow> se_timeout_generation s = te_generation expiry"
  shows "wp (expire_session d t expiry) (\<lambda>_. expired ot X (te_session expiry) w) w"
proof (cases "map_of (re_sessions w) (te_session expiry)")
  case None
  then show ?thesis using timers_drop_absent [OF r None] by (simp add: expire_session_def find_session_def wp_simps expired_def)
next
  case (Some s)
  let ?k = "te_session expiry"
  have close: "wp (close_session d ?k) (\<lambda>_. expired ot X ?k w) w'"
    if "reactor_ok ot X w'" "re_sessions w' = re_sessions w" "ss_runtime (re_state w') = ss_runtime (re_state w)" for w' :: "'a reactor"
    by (rule wp_mono [OF close_session_wp [OF that(1) contract_writes [OF c]]]) (use that in \<open>auto simp: expired_def\<close>)
  have timed: "wp (on_session ?k s (do { record_upstream_error; discard_upstream d; overall \<leftarrow> se_get se_upstream_overall_deadline;
      if overall \<le> t then State_Monad.return False else start_next_upstream_connect d }))
    (\<lambda>kept. wp (do_if (\<not> kept) (close_session d ?k)) (\<lambda>_. expired ot X ?k w)) w" if "se_stage s = UpstreamConnect"
    unfolding expired_def by (rule handle_wp [OF r Some c], simp only: k simp_thms, rule expired_connect_wp) (simp_all add: that)
  have plain: "expired ot X ?k w (w\<lparr>re_wheel := wheel_schedule (re_wheel w) ?k (te_generation expiry) u\<rparr>)" for u
    using reschedule [OF r Some] g [OF Some] by (simp add: expired_def)
  show ?thesis
  proof (cases "t < timeout_deadline s")
    case True
    then show ?thesis using Some plain g [OF Some] by (simp add: expire_session_def find_session_def wp_simps)
  next
    case late: False
    show ?thesis
    proof (cases "se_stage s = UpstreamConnect")
      case True
      with late Some g [OF Some] timed show ?thesis
        unfolding expire_session_def find_session_def wp_bind wp_gets by (simp only: option.case simp_thms if_True if_False wp_bind not_not)
    next
      case False
      with late Some g [OF Some] close [OF r] close [of "w\<lparr>re_worker := ws\<rparr>" for ws] r show ?thesis
        by (simp add: expire_session_def find_session_def wp_simps reactor_worker)
    qed
  qed
qed

lemma expire_each_wp:
  assumes "deps_contract d" and "reactor_ok ot (te_session ` set es) w" and "distinct (map te_session es)"
    and "\<And>e s. e \<in> set es \<Longrightarrow> map_of (re_sessions w) (te_session e) = Some s \<Longrightarrow> se_timeout_generation s = te_generation e"
  shows "wp (expire_each d t es) (\<lambda>_ w'. reactor_ok ot {} w' \<and> ss_runtime (re_state w') = ss_runtime (re_state w)) w"
  using assms(2-)
proof (induction es arbitrary: w)
  case Nil
  then show ?case by (simp add: wp_simps)
next
  case (Cons e es)
  have X: "te_session ` set (e # es) - {te_session e} = te_session ` set es" using Cons.prems(2) by auto
  have step: "wp (expire_session d t e) (\<lambda>_. expired ot (te_session ` set (e # es)) (te_session e) w) w"
    by (rule expire_session_wp [OF Cons.prems(1) assms(1)]) (use Cons.prems(3) [of e] in simp_all)
  show ?case
    unfolding expire_each.simps wp_bind
  proof (rule wp_mono [OF step])
    fix x and w' :: "'a reactor" assume w': "expired ot (te_session ` set (e # es)) (te_session e) w w'"
    have "wp (expire_each d t es) (\<lambda>_ w''. reactor_ok ot {} w'' \<and> ss_runtime (re_state w'') = ss_runtime (re_state w')) w'"
    proof (rule Cons.IH)
      show "reactor_ok ot (te_session ` set es) w'" using w' X by (simp add: expired_def)
      show "distinct (map te_session es)" using Cons.prems(2) by simp
      show "se_timeout_generation s = te_generation e'" if "e' \<in> set es" "map_of (re_sessions w') (te_session e') = Some s" for e' s
      proof (rule Cons.prems(3))
        show "e' \<in> set (e # es)" using that(1) by simp
        have "te_session e' \<noteq> te_session e" using that(1) Cons.prems(2) by (auto simp: image_iff)
        with w' that(2) show "map_of (re_sessions w) (te_session e') = Some s" by (simp add: expired_def)
      qed
    qed
    then show "wp (expire_each d t es) (\<lambda>_ w'. reactor_ok ot {} w' \<and> ss_runtime (re_state w') = ss_runtime (re_state w)) w'"
      using w' by (simp add: expired_def)
  qed
qed

lemma expiry_eta [simp]: "\<lparr>te_session = te_session e, te_generation = te_generation e\<rparr> = e"
  by (cases e) simp

lemma expire_timeouts_wp:
  assumes c: "deps_contract d" and r: "reactor_ok ot {} w" and t: "clock_ok t"
  shows "wp (expire_timeouts d t) (\<lambda>_ w'. reactor_ok ot {} w' \<and> ss_runtime (re_state w') = ss_runtime (re_state w)) w"
proof -
  have inv: "wheel_inv (re_wheel w)" "Suc (tw_current (re_wheel w)) < 2 ^ 64" and tm: "timers_ok {} (re_sessions w) (deadlines (re_wheel w))"
    using r by (simp_all add: reactor_ok_def)
  obtain v es where a: "wheel_advance (re_wheel w) t = (v, es)" by (metis surj_pair)
  note spec = wheel_advance_spec [OF inv(1), of t, unfolded a fst_conv snd_conv]
  have v: "wheel_inv v" "deadlines v = expired_by (tick_floor t) (deadlines (re_wheel w))" "Suc (tw_current v) < 2 ^ 64"
    using spec inv(2) tick_floor_bound [OF t] by (simp_all add: max_def)
  have fires: "\<lparr>te_session = k, te_generation = g\<rparr> \<in> set es \<longleftrightarrow> (\<exists>due. deadlines (re_wheel w) k = Some (g, due) \<and> due \<le> tick_floor t)" for k g
    using wheel.advance_fires [OF inv(1), of k g t] a by simp
  obtain ds where ds: "es = map we_expiry ds" "distinct (map we_session ds)" using spec(3) by blast
  then have dist: "distinct (map te_session es)" by (simp add: comp_def)
  have gen: "se_timeout_generation s = te_generation e"
    if "e \<in> set es" "map_of (re_sessions w) (te_session e) = Some s" for e s
  proof -
    have "\<lparr>te_session = te_session e, te_generation = te_generation e\<rparr> \<in> set es" using that(1) by simp
    then obtain due where "deadlines (re_wheel w) (te_session e) = Some (te_generation e, due)" unfolding fires by blast
    with timers_okD [OF tm, of "te_session e"] that(2) show ?thesis by simp
  qed
  have "map_option fst (deadlines v k) = (if k \<in> te_session ` set es then None else map_option se_timeout_generation (map_of (re_sessions w) k))" for k
  proof (cases "deadlines (re_wheel w) k")
    case None
    then show ?thesis using timers_okD [OF tm, of k] by (simp add: v(2) expired_by_def)
  next
    case (Some gd)
    obtain g due where gd: "gd = (g, due)" by (cases gd)
    have "k \<in> te_session ` set es \<longleftrightarrow> due \<le> tick_floor t"
    proof
      assume "k \<in> te_session ` set es"
      then obtain e where "e \<in> set es" "te_session e = k" by auto
      then have "\<lparr>te_session = k, te_generation = te_generation e\<rparr> \<in> set es" by auto
      then show "due \<le> tick_floor t" unfolding fires using Some gd by auto
    next
      assume "due \<le> tick_floor t"
      then have "\<lparr>te_session = k, te_generation = g\<rparr> \<in> set es" using fires Some gd by blast
      then show "k \<in> te_session ` set es" by force
    qed
    then show ?thesis using timers_okD [OF tm, of k] Some gd by (simp add: v(2) expired_by_def)
  qed
  then have "timers_ok (te_session ` set es) (re_sessions w) (deadlines v)" by (simp add: timers_ok_def)
  then have "reactor_ok ot (te_session ` set es) (w\<lparr>re_wheel := v\<rparr>)" using r v(1,3) by (simp add: reactor_ok_def)
  then have "wp (expire_each d t es) (\<lambda>_ w'. reactor_ok ot {} w' \<and> ss_runtime (re_state w') = ss_runtime (re_state (w\<lparr>re_wheel := v\<rparr>))) (w\<lparr>re_wheel := v\<rparr>)"
    using dist gen by (intro expire_each_wp [OF c]) simp_all
  then show ?thesis using a by (simp add: expire_timeouts_def wp_simps)
qed

end
