(* ===== verification/Reactor_Accept.thy ===== *)
theory Reactor_Accept
  imports Reactor_Steps
begin

text \<open>
  Accepting connections keeps the invariant of the worker: a connection that is turned away leaves nothing behind,
  and one that is admitted becomes a session with exactly one slot, one lease and one timer.
\<close>

section \<open>A connection that is not in the table yet\<close>

definition slot :: "others \<Rightarrow> others" where
  "slot ot = ot\<lparr>ot_slots := ot_slots ot + 1, ot_worker_slots := ot_worker_slots ot + 1\<rparr>"

definition leased :: "lease \<Rightarrow> others \<Rightarrow> others" where
  "leased x ot = ot\<lparr>ot_leases := add_mset x (ot_leases ot)\<rparr>"

lemma slot_simps [simp]:
  "ot_bytes (slot ot) = ot_bytes ot" "ot_load (slot ot) = ot_load ot" "ot_leases (slot ot) = ot_leases ot"
  "ot_slots (slot ot) = ot_slots ot + 1" "ot_worker_slots (slot ot) = ot_worker_slots ot + 1" "ot_stores (slot ot) = ot_stores ot"
  by (simp_all add: slot_def)

lemma leased_simps [simp]:
  "ot_bytes (leased x ot) = ot_bytes ot" "ot_load (leased x ot) = ot_load ot" "ot_leases (leased x ot) = add_mset x (ot_leases ot)"
  "ot_slots (leased x ot) = ot_slots ot" "ot_worker_slots (leased x ot) = ot_worker_slots ot" "ot_stores (leased x ot) = ot_stores ot"
  by (simp_all add: leased_def)

lemma release_slot_wp:
  assumes "reactor_ok (slot ot) X w"
  shows "wp release_active_slot (\<lambda>_ w'. reactor_ok ot X w' \<and> ss_runtime (re_state w') = ss_runtime (re_state w)) w"
  using assms by (simp add: release_active_slot_def wp_simps reactor_ok_def wrap64_release)

lemma drop_lease_wp:
  assumes r: "reactor_ok (leased x ot) X w" and a: "se_admission (re_session w) = Some x"
  shows "wp drop_lease (\<lambda>_ w'. reactor_ok ot X w' \<and> ss_runtime (re_state w') = ss_runtime (re_state w)) w"
proof -
  have ok: "limiter_ok (add_mset x (ot_leases ot + leases (re_sessions w))) (re_limiter w)" using r by (simp add: reactor_ok_def)
  from release_ok [OF ok, of x] obtain l where "release x (re_limiter w) = Some l" "limiter_ok (ot_leases ot + leases (re_sessions w)) l"
    by auto
  with r a show ?thesis by (simp add: drop_lease_def lease_reset_def wp_simps reactor_ok_def)
qed

definition steady :: "others \<Rightarrow> 'e reactor \<Rightarrow> 'e reactor \<Rightarrow> bool" where
  "steady ot w w' \<longleftrightarrow> reactor_ok ot {} w' \<and> ss_runtime (re_state w') = ss_runtime (re_state w)"

lemma steady_os: "keeps (steady ot w) (os_do m)"
  by (auto simp: keeps_def wp_simps steady_def intro: wp_any)

lemma steady_destroy: "keeps (steady ot w) (destroy_session d)"
  unfolding destroy_session_def by (intro keeps_intros steady_os)

lemma abandon_session_wp:
  assumes r: "reactor_ok (leased x (slot ot)) {} w" and a: "se_admission (re_session w) = Some x"
  shows "wp (abandon_session d) (\<lambda>r w'. r = Inr () \<and> steady ot w w') w"
proof -
  have 1: "wp drop_lease (\<lambda>_. wp release_active_slot (\<lambda>_. steady ot w)) w"
    by (rule wp_mono [OF drop_lease_wp [OF r a]], elim conjE, rule wp_mono [OF release_slot_wp]) (auto simp: steady_def)
  show ?thesis
    unfolding abandon_session_def release_admission_def wp_simps
    by (rule wp_mono [OF 1], erule wp_mono, rule wp_keeps [OF steady_destroy]) simp_all
qed

section \<open>A new session\<close>

definition fresh :: "nat \<Rightarrow> lease \<Rightarrow> session \<Rightarrow> bool" where
  "fresh n x s \<longleftrightarrow> session_ok n s \<and> se_queued s = 0 \<and> \<not> se_backend_counted s \<and> se_admission s = Some x"

lemma insert_table:
  assumes r: "reactor_ok (leased x (slot ot)) {} w" and f: "fresh (ot_stores ot) x s" and n: "map_of (re_sessions w) (se_id s) = None"
  shows "reactor_ok ot {se_id s} (w\<lparr>re_sessions := re_sessions w @ [(se_id s, s)]\<rparr>)"
proof -
  note r' = r [unfolded reactor_ok_def, simplified]
  have new: "se_id s \<notin> fst ` set (re_sessions w)" using n by (simp add: map_of_eq_None_iff)
  have h: "holdings g (re_sessions w @ [(se_id s, s)]) = holdings g (re_sessions w) + g s" for g by (simp add: holdings_def)
  have l: "leases (re_sessions w @ [(se_id s, s)]) = add_mset x (leases (re_sessions w))" using f by (simp add: leases_def fresh_def)
  have t: "timers_ok {} (re_sessions w) (deadlines (re_wheel w))" using r' by simp
  have "map_option fst (deadlines (re_wheel w) k) = (if k \<in> {se_id s} then None
      else map_option se_timeout_generation (map_of (re_sessions w @ [(se_id s, s)]) k))" for k
    using timers_okD [OF t, of k] n by (auto simp: map_of_append map_add_def split: option.splits)
  then have "timers_ok {se_id s} (re_sessions w @ [(se_id s, s)]) (deadlines (re_wheel w))" by (simp add: timers_ok_def)
  with r' f new h l show ?thesis by (simp add: reactor_ok_def fresh_def session_in_def own_load_def)
qed

lemma handshake_handler_wp:
  assumes "focus fr UNIV w" and "se_stage (re_session w) = TlsHandshake"
  shows "wp (do { driven \<leftarrow> drive_tls_handshake d; if driven then update_interests d else State_Monad.return False })
    (\<lambda>_. focus fr UNIV) w"
proof -
  have "focus fr ({TlsHandshake} \<times> UNIV) w" using assms by (simp add: focus_def)
  from drive_tls_handshake_wp [OF this] show ?thesis
    unfolding wp_simps by (rule wp_mono) (intro ifI keepsD [OF update_interests_keeps])
qed

lemma start_handshake_wp:
  assumes r: "reactor_ok ot {} w" and m: "map_of (re_sessions w) k = Some s" and c: "deps_contract d" and t: "se_stage s = TlsHandshake"
  shows "wp (on_session k s (do { driven \<leftarrow> drive_tls_handshake d; if driven then update_interests d else State_Monad.return False }))
    (\<lambda>kept. wp (do_if (\<not> kept) (close_session d k)) (\<lambda>_. steady ot w)) w"
proof -
  have "wp (on_session k s (do { driven \<leftarrow> drive_tls_handshake d; if driven then update_interests d else State_Monad.return False }))
    (\<lambda>kept. wp (do_if (\<not> kept) (close_session d k)) (\<lambda>_ w'. reactor_ok ot ({} - {k}) w' \<and>
    (\<forall>j. j \<noteq> k \<longrightarrow> map_of (re_sessions w') j = map_of (re_sessions w) j) \<and> ss_runtime (re_state w') = ss_runtime (re_state w))) w"
    by (rule handle_wp [OF r m c]) (use t in \<open>simp add: timed_if_def handshake_handler_wp\<close>)
  then show ?thesis by (elim wp_mono) (auto simp: steady_def)
qed

lemma insert_session_wp:
  assumes r: "reactor_ok (leased x (slot ot)) {} w" and f: "fresh (ot_stores ot) x s" and n: "map_of (re_sessions w) (se_id s) = None"
    and c: "deps_contract d"
  shows "wp (insert_session d s) (\<lambda>r w'. r = Inr () \<and> steady ot w w') w"
proof -
  let ?k = "se_id s"
  let ?w = "w\<lparr>re_sessions := re_sessions w @ [(?k, s)]\<rparr>"
  have r1: "reactor_ok ot {?k} ?w" by (rule insert_table [OF r f n])
  have m1: "map_of (re_sessions ?w) ?k = Some s" using n by (simp add: map_of_append map_add_def)
  have timed: "wp (on_session ?k s schedule_timeout) (\<lambda>_ w'. steady ot w w' \<and> map_of (re_sessions w') ?k \<noteq> None) ?w"
    by (rule wp_mono [OF on_session_wp [where b = "\<lambda>_. True", OF r1 m1]])
      (use schedule_timeout_wp n in \<open>auto simp: steady_def after_timers_def map_of_append map_add_def\<close>)
  have go: "wp (case map_of (re_sessions w') ?k of
      Some stored \<Rightarrow> do_if (se_stage stored = TlsHandshake) (do {
        kept \<leftarrow> on_session ?k stored (do { driven \<leftarrow> drive_tls_handshake d; if driven then update_interests d else State_Monad.return False });
        do_if (\<not> kept) (close_session d ?k) })
    | None \<Rightarrow> fault) (\<lambda>_. steady ot w) w'"
    if w': "steady ot w w'" "map_of (re_sessions w') ?k \<noteq> None" for w' :: "'a reactor"
  proof -
    from w'(2) obtain t where t: "map_of (re_sessions w') ?k = Some t" by auto
    have "wp (on_session ?k t (do { driven \<leftarrow> drive_tls_handshake d; if driven then update_interests d else State_Monad.return False }))
      (\<lambda>kept. wp (do_if (\<not> kept) (close_session d ?k)) (\<lambda>_. steady ot w)) w'" if "se_stage t = TlsHandshake"
      by (rule wp_mono [OF start_handshake_wp [OF _ t c that, of ot]], use w' in \<open>simp add: steady_def\<close>, erule wp_mono)
        (use w'(1) in \<open>simp add: steady_def\<close>)
    with t w'(1) show ?thesis by (simp only: option.case wp_do_if wp_bind) simp
  qed
  show ?thesis
    unfolding insert_session_def find_session_def wp_bind wp_modify wp_worker_do wp_gets wp_return
    by (rule wp_mono [OF timed], elim conjE, rule wp_mono [OF go]) (auto simp: steady_def reactor_worker)
qed

lemma store_session_wp:
  assumes r: "reactor_ok (leased x (slot ot)) {} w" and f: "fresh (ot_stores ot) x (re_session w)" and c: "deps_contract d"
  shows "wp (store_session d) (\<lambda>r w'. steady (if r = Inl duplicate_session then slot ot else ot) w w') w"
proof -
  let ?s = "re_session w"
  have adm: "se_admission ?s = Some x" using f by (simp add: fresh_def)
  have ne: "Inr () \<noteq> (Inl duplicate_session :: unit result)" by simp
  have dup: "wp drop_lease (\<lambda>_. wp (destroy_session d) (\<lambda>_. steady (slot ot) w)) (w\<lparr>re_env := e\<rparr>)" for e
    by (rule wp_mono [OF drop_lease_wp [of x "slot ot" "{}"]], use r adm in simp_all, rule keepsD [OF steady_destroy])
      (auto simp: steady_def)
  have ab: "wp (abandon_session d) (\<lambda>r w'. steady (if r = Inl duplicate_session then slot ot else ot) w w') (w\<lparr>re_env := e\<rparr>)" for e
    by (rule wp_mono [OF abandon_session_wp [of x ot]]) (use r adm in \<open>auto simp: steady_def\<close>)
  have ins: "wp (insert_session d ?s) (\<lambda>r w'. steady (if r = Inl duplicate_session then slot ot else ot) w w') (w\<lparr>re_env := e\<rparr>)"
    if "map_of (re_sessions w) (se_id ?s) = None" for e
    by (rule wp_mono [OF insert_session_wp [of x ot _ ?s d]]) (use r f c that in \<open>auto simp: steady_def\<close>)
  have main: "wp (case a of Inl _ \<Rightarrow> abandon_session d
      | Inr _ \<Rightarrow> do { existing \<leftarrow> find_session (se_id ?s); if existing \<noteq> None
          then do { drop_lease; destroy_session d; State_Monad.return (Inl duplicate_session) } else insert_session d ?s })
      (\<lambda>r w'. steady (if r = Inl duplicate_session then slot ot else ot) w w') (w\<lparr>re_env := e\<rparr>)" for a :: "unit sys" and e
  proof (cases a)
    case (Inl y)
    then show ?thesis using ab by simp
  next
    case (Inr y)
    show ?thesis
      unfolding Inr sum.case find_session_def wp_bind wp_gets wp_if wp_return
      by (intro ifI) (use dup ins in simp_all)
  qed
  show ?thesis
    unfolding store_session_def wp_bind wp_se_get id_apply
    by (subst wp_os_do, rule wp_any) (rule main)
qed

section \<open>Admitting a client\<close>

abbreviation settled :: "others \<Rightarrow> unit result \<Rightarrow> 'e reactor \<Rightarrow> 'e reactor \<Rightarrow> bool" where
  "settled ot r w w' \<equiv> steady (if r = Inl duplicate_session then slot ot else ot) w w'"

lemma new_session_fresh:
  assumes "table_in n (rs_routing runtime)"
  shows "fresh n x ((new_session runtime)\<lparr>se_id := i, se_client := v, se_proxy_header := h, se_admission := Some x, se_last_activity := t\<rparr>)"
  using assms pending.inv_new pending.bytes_new
  by (auto simp: fresh_def session_ok_def new_session_def se_queued_def empty_string_def pending.size_bytes)

text \<open>A connection whose session is being built.\<close>

definition building :: "others \<Rightarrow> lease \<Rightarrow> runtime_snapshot \<Rightarrow> 'e reactor \<Rightarrow> bool" where
  "building ot x runtime w \<longleftrightarrow> reactor_ok (leased x (slot ot)) {} w \<and> ss_runtime (re_state w) = runtime \<and>
     fresh (ot_stores ot) x (re_session w)"

lemma building_os: "keeps (building ot x r) (os_do m)"
  by (auto simp: keeps_def wp_simps building_def intro: wp_any)

lemma building_worker:
  "(\<And>ws. worker_active_connections (f ws) = worker_active_connections ws) \<Longrightarrow> keeps (building ot x r) (worker_do f)"
  by (simp add: keeps_def wp_simps building_def reactor_worker)

lemma building_set: "(\<And>n s. fresh n x s \<Longrightarrow> fresh n x (f s)) \<Longrightarrow> keeps (building ot x r) (se_set f)"
  by (simp add: keeps_def wp_simps building_def)

lemma building_store:
  assumes "building ot x (ss_runtime (re_state w)) w'" and "deps_contract d"
  shows "wp (store_session d) (\<lambda>r. settled ot r w) w'"
  using assms by (intro wp_mono [OF store_session_wp]) (auto simp: steady_def building_def)

lemma building_abandon:
  assumes "building ot x (ss_runtime (re_state w)) w'"
  shows "wp (abandon_session d) (\<lambda>r. settled ot r w) w'"
  by (rule wp_mono [OF abandon_session_wp]) (use assms in \<open>auto simp: steady_def building_def fresh_def\<close>)

lemma open_session_wp:
  assumes r: "reactor_ok (leased x (slot ot)) {} w" and c: "deps_contract d" and rt: "table_in (ot_stores ot) (rs_routing runtime)"
    and p: "length peer = sockaddr_bytes" and l: "length local = sockaddr_bytes"
  shows "wp (open_session d i runtime client peer local (Some x)) (\<lambda>r. settled ot r w) w"
proof -
  obtain h where h: "make_proxy_v2_header peer local = Some h" using make_proxy_v2_header_of [OF p l] by blast
  let ?J = "building ot x (ss_runtime (re_state w)) :: 'a reactor \<Rightarrow> bool"
  note new = new_session_fresh [OF rt, of x]
  have plain: "keeps ?J (se_set (\<lambda>s. s\<lparr>se_stage := FirstMessage, se_deadline := g s\<rparr>))"
      "keeps ?J (se_set (\<lambda>s. s\<lparr>se_tls_handshake_started_at := g s\<rparr>))"
      "keeps ?J (se_set (\<lambda>s. s\<lparr>se_ssl := Some stream, se_stage := TlsHandshake, se_deadline := g s\<rparr>))" for g stream
    by (rule building_set; auto simp: fresh_def session_ok_def se_queued_def)+
  have count: "keeps ?J (worker_do (\<lambda>ws. ws\<lparr>tls_handshake_attempts := f ws\<rparr>))" "keeps ?J (worker_do (\<lambda>ws. ws\<lparr>rejected_tls := f ws\<rparr>))" for f
    by (simp_all add: building_worker)
  have ssl: "keeps ?J (case y of None \<Rightarrow> State_Monad.return None | Some ctx \<Rightarrow> os_do (os_ssl_new (d_os d) ctx client))" for y
    by (intro keeps_intros building_os)
  have start: "?J (w\<lparr>re_next_session_id := m, re_env := e, re_session := (new_session runtime)\<lparr>se_id := j, se_client := client,
      se_proxy_header := h, se_admission := Some x, se_last_activity := t\<rparr>\<rparr>)" for m e j t
    using r new by (simp add: building_def reactor_ok_def)
  have rest: "wp (do {
       limits \<leftarrow> se_get se_limits;
       tls_enabled \<leftarrow> gets (\<lambda>w. ls_tls_enabled (re_listeners w ! i));
       if \<not> tls_enabled
       then do {
         se_set (\<lambda>s. s\<lparr>se_stage := FirstMessage,
           se_deadline := se_last_activity s + first_message_timeout_seconds limits * ns_per_second\<rparr>);
         store_session d
       }
       else do {
         worker_do (\<lambda>ws. ws\<lparr>tls_handshake_attempts := fetch_add (tls_handshake_attempts ws) 1\<rparr>);
         se_set (\<lambda>s. s\<lparr>se_tls_handshake_started_at := se_last_activity s\<rparr>);
         contexts \<leftarrow> gets re_tls;
         ssl \<leftarrow> (case context_for contexts i of
                  None \<Rightarrow> State_Monad.return None
                | Some tls_context \<Rightarrow> os_do (os_ssl_new (d_os d) tls_context client));
         case ssl of
           None \<Rightarrow>
             do {
               worker_do (\<lambda>ws. ws\<lparr>rejected_tls := fetch_add (rejected_tls ws) 1\<rparr>);
               abandon_session d
             }
         | Some stream \<Rightarrow>
             do {
               se_set (\<lambda>s. s\<lparr>se_ssl := Some stream, se_stage := TlsHandshake,
                 se_deadline := se_last_activity s + tls_handshake_timeout_seconds limits * ns_per_second\<rparr>);
               store_session d
             }
       }
     }) (\<lambda>r. settled ot r w) w'" if J: "?J w'" for w'
    apply (subst wp_bind, subst wp_se_get, subst wp_bind, subst wp_gets, subst wp_if, rule ifI)
     apply (subst wp_bind, rule wp_keeps [OF plain(1) J], erule building_store [OF _ c])
    apply (subst wp_bind, rule wp_keeps [OF count(1) J], subst wp_bind, erule wp_keeps [OF plain(2)],
        subst wp_bind, subst wp_gets, subst wp_bind, erule wp_keeps [OF ssl])
    subgoal for _ _ _ _ y w''
      apply (cases y; simp only: option.case; subst wp_bind)
       apply (erule wp_keeps [OF count(2)], erule building_abandon)
      apply (erule wp_keeps [OF plain(3)], erule building_store [OF _ c])
      done
    done
  show ?thesis
    unfolding open_session_def Let_def h wp_bind [of "gets re_next_session_id"]
    apply (subst wp_gets, subst wp_bind, subst wp_modify, subst wp_bind, subst wp_do_if)
    apply (simp only: option.distinct if_False option.case)
    apply (subst wp_bind, subst now_def, subst wp_os_do, rule wp_any, subst wp_bind, subst wp_se_set)
    apply (rule rest, rule start)
    done
qed

lemma admit_accepts: "admit i st inserted limits t l = (l', result, x) \<Longrightarrow> result = Accepted \<longleftrightarrow> x \<noteq> None"
  by (auto simp: admit_def Let_def split: if_splits prod.splits bool.splits)

lemma acquire_accepts:
  assumes "acquire order False key limits t l = (l', r)"
  obtains result x where "r = Some (result, x)" "result = Accepted \<longleftrightarrow> x \<noteq> None"
proof -
  have "\<exists>result x. r = Some (result, x) \<and> (result = Accepted \<longleftrightarrow> x \<noteq> None)"
    using assms by (auto simp: acquire_def Let_def map_prod_def split: option.splits prod.splits bool.splits dest: admit_accepts)
  then show ?thesis using that by blast
qed

lemma turn_away_wp:
  assumes "reactor_ok (slot ot) {} w"
  shows "wp (turn_away d client) (\<lambda>r. settled ot r w) w"
  unfolding turn_away_def wp_simps
  by (rule wp_mono [OF release_slot_wp [OF assms]]) (auto simp: steady_def intro: wp_any)

lemma count_rejection_active [simp]: "worker_active_connections (count_rejection result ws) = worker_active_connections ws"
  by (simp add: count_rejection_def split: admission_result.splits)

text \<open>The decision of the limiter on a connection that holds a slot.\<close>

lemma admission_wp:
  assumes r: "reactor_ok (slot ot) {} w" and c: "deps_contract d" and rt: "table_in (ot_stores ot) (rs_routing runtime)"
    and p: "length peer = sockaddr_bytes" and l: "length local = sockaddr_bytes"
  shows "wp (do {
      t \<leftarrow> now d;
      limiter \<leftarrow> gets re_limiter;
      let (limiter, admission) = acquire (d_order d) False key limits t limiter;
      modify (\<lambda>w. w\<lparr>re_limiter := limiter\<rparr>);
      stats_do (\<lambda>s. s\<lparr>tracked_clients := tracked limiter\<rparr>);
      case admission of
        None \<Rightarrow> do { fault; State_Monad.return (Inr ()) }
      | Some (result, lease) \<Rightarrow>
          (if result \<noteq> Accepted
           then do { worker_do (count_rejection result); turn_away d client }
           else open_session d i runtime client peer local lease)
    }) (\<lambda>r. settled ot r w) w"
proof -
  have step: "wp (do {
      modify (\<lambda>w. w\<lparr>re_limiter := limiter\<rparr>);
      stats_do (\<lambda>s. s\<lparr>tracked_clients := tracked limiter\<rparr>);
      case admission of
        None \<Rightarrow> do { fault; State_Monad.return (Inr ()) }
      | Some (result, lease) \<Rightarrow>
          (if result \<noteq> Accepted
           then do { worker_do (count_rejection result); turn_away d client }
           else open_session d i runtime client peer local lease)
    }) (\<lambda>r. settled ot r w) (w\<lparr>re_env := e\<rparr>)" if a: "acquire (d_order d) False key limits t (re_limiter w) = (limiter, admission)" for t e limiter admission
  proof -
    obtain result x where x: "admission = Some (result, x)" "result = Accepted \<longleftrightarrow> x \<noteq> None" using acquire_accepts [OF a] .
    have ok: "limiter_ok (ot_leases ot + leases (re_sessions w)) (re_limiter w)" using r by (simp add: reactor_ok_def)
    have "limiter_ok (granted x (ot_leases ot + leases (re_sessions w))) limiter"
      using acquire_ok [OF ok _ a] c x(1) by (simp add: deps_contract_def)
    then have g: "reactor_ok (case x of None \<Rightarrow> slot ot | Some y \<Rightarrow> leased y (slot ot)) {} (w\<lparr>re_env := e, re_limiter := limiter,
        re_state := (re_state w)\<lparr>ss_stats := (ss_stats (re_state w))\<lparr>tracked_clients := tracked limiter\<rparr>\<rparr>\<rparr>)" (is "reactor_ok _ _ ?w")
      using r by (cases x) (simp_all add: reactor_ok_def granted_def)
    show ?thesis
    proof (cases x)
      case None
      then have "reactor_ok (slot ot) {} (?w\<lparr>re_worker := count_rejection result (re_worker ?w)\<rparr>)" using g by (simp add: reactor_worker)
      from turn_away_wp [OF this] None x show ?thesis by (simp add: wp_simps steady_def)
    next
      case (Some y)
      from g Some have "reactor_ok (leased y (slot ot)) {} ?w" by simp
      from open_session_wp [OF this c rt p l] Some x show ?thesis by (simp add: wp_simps steady_def)
    qed
  qed
  show ?thesis
    apply (subst wp_bind, subst now_def, subst wp_os_do, rule wp_any, subst wp_bind, subst wp_gets)
    subgoal for t e
    proof -
      obtain limiter admission where a: "acquire (d_order d) False key limits t (re_limiter w) = (limiter, admission)" by (metis surj_pair)
      have w: "re_limiter (w\<lparr>re_env := e\<rparr>) = re_limiter w" by simp
      show ?thesis unfolding w a Let_def prod.case by (rule step [OF a])
    qed
    done
qed

lemma getsockname_wp:
  assumes "deps_contract d" and "\<And>error e. Q (Inl error) (w\<lparr>re_env := e\<rparr>)"
    and "\<And>address e. length address = sockaddr_bytes \<Longrightarrow> Q (Inr address) (w\<lparr>re_env := e\<rparr>)"
  shows "wp (os_do (os_getsockname (d_os d) v)) Q w"
  unfolding wp_os_do
proof (rule wpI)
  fix x e assume "run_state (os_getsockname (d_os d) v) (re_env w) = (x, e)"
  with assms show "Q x (w\<lparr>re_env := e\<rparr>)" unfolding deps_contract_def by (cases x) blast+
qed

lemma accept4_wp:
  assumes "deps_contract d" and "\<And>error e. Q (Inl error) (w\<lparr>re_env := e\<rparr>)"
    and "\<And>client address e. length address = sockaddr_bytes \<Longrightarrow> Q (Inr (client, address)) (w\<lparr>re_env := e\<rparr>)"
  shows "wp (os_do (os_accept4 (d_os d) v)) Q w"
  unfolding wp_os_do
proof (rule wpI)
  fix x e assume r: "run_state (os_accept4 (d_os d) v) (re_env w) = (x, e)"
  show "Q x (w\<lparr>re_env := e\<rparr>)"
  proof (cases x)
    case (Inl error)
    then show ?thesis using assms(2) by simp
  next
    case (Inr y)
    obtain client address where y: "y = (client, address)" by (cases y)
    with r Inr assms(1) have "length address = sockaddr_bytes" unfolding deps_contract_def by blast
    with Inr y assms(3) show ?thesis by simp
  qed
qed

lemma admit_client_wp:
  assumes r: "reactor_ok ot {} w" and c: "deps_contract d" and rt: "table_in (ot_stores ot) (rs_routing runtime)"
    and p: "length peer = sockaddr_bytes"
  shows "wp (admit_client d i runtime client peer) (\<lambda>r. settled ot r w) w"
proof -
  have slotted: "reactor_ok (slot ot) {} w'" if "re_fault w' = re_fault w" "re_sessions w' = re_sessions w"
      "queued_bytes (ss_stats (re_state w')) = queued_bytes (ss_stats (re_state w))"
      "queued_bytes_limit (ss_stats (re_state w')) = queued_bytes_limit (ss_stats (re_state w))"
      "re_backends w' = re_backends w" "re_limiter w' = re_limiter w" "re_wheel w' = re_wheel w"
      "active_connections (ss_stats (re_state w')) = fetch_add (active_connections (ss_stats (re_state w))) 1"
      "worker_active_connections (re_worker w') = fetch_add (worker_active_connections (re_worker w)) 1"
      "ss_runtime (re_state w') = ss_runtime (re_state w)" for w' :: "'a reactor"
    using r that by (simp add: reactor_ok_def wrap64_add)
  have full: "steady ot w w'" if "re_fault w' = re_fault w" "re_sessions w' = re_sessions w"
      "queued_bytes (ss_stats (re_state w')) = queued_bytes (ss_stats (re_state w))"
      "queued_bytes_limit (ss_stats (re_state w')) = queued_bytes_limit (ss_stats (re_state w))"
      "re_backends w' = re_backends w" "re_limiter w' = re_limiter w" "re_wheel w' = re_wheel w"
      "active_connections (ss_stats (re_state w')) = active_connections (ss_stats (re_state w))"
      "worker_active_connections (re_worker w') = worker_active_connections (re_worker w)"
      "ss_runtime (re_state w') = ss_runtime (re_state w)" for w' :: "'a reactor"
    using r that by (simp add: reactor_ok_def steady_def)
  have undo: "fetch_sub (fetch_add (active_connections (ss_stats (re_state w))) 1) 1 = active_connections (ss_stats (re_state w))"
    using r by (simp add: reactor_ok_def wrap64_add wrap64_release)
  have settled_from: "wp m (\<lambda>r. settled ot r w') w' \<Longrightarrow> ss_runtime (re_state w') = ss_runtime (re_state w) \<Longrightarrow> wp m (\<lambda>r. settled ot r w) w'"
    for m and w' :: "'a reactor"
    by (erule wp_mono) (simp add: steady_def split: if_splits)
  show ?thesis
    unfolding admit_client_def
    apply (subst wp_Let, subst wp_bind, subst wp_os_do, rule wp_any)
    apply (subst wp_bind, subst wp_gets, subst wp_bind, subst wp_stats_do, subst wp_if, rule ifI)
    subgoal by (simp add: wp_simps, rule wp_any, rule full) (simp_all add: undo [simplified])
    apply (subst wp_bind, subst wp_worker_do, subst wp_bind, rule getsockname_wp [OF c])
     apply (simp only: sum.case)
     apply (rule settled_from, rule turn_away_wp, rule slotted; simp)
    apply (simp only: sum.case)
    apply (rule settled_from, rule admission_wp [OF _ c rt p], rule slotted; simp)
    done
qed

end
