(* ===== verification/Reactor_Run.thy ===== *)
theory Reactor_Run
  imports Reactor_Accept
begin

text \<open>
  Rounds of the event loop, the loop itself and the shutdown. A worker that stops has given back every byte,
  slot, lease, backend load and timer it took.
\<close>

section \<open>Listeners\<close>

lemma steady_listener: "keeps (steady ot w) (listener_do i f)"
  by (simp add: keeps_def listener_do_def wp_simps steady_def)

lemma steady_now: "keeps (steady ot w) (now d)"
  unfolding now_def by (rule steady_os)

lemma steady_worker:
  "(\<And>ws. worker_active_connections (f ws) = worker_active_connections ws) \<Longrightarrow> keeps (steady ot w) (worker_do f)"
  by (simp add: keeps_def wp_simps steady_def reactor_worker)

lemmas steady_intros = steady_listener steady_now steady_os steady_worker

text \<open>The errors of \<^verbatim>\<open>epoll\<close> are not the one of a duplicate session.\<close>

lemma epoll_error_settled:
  "wp (io_error d ''epoll_ctl(DEL listener)'' n) (\<lambda>r. settled ot r w) w' \<longleftrightarrow> steady ot w w'"
  "wp (io_error d ''epoll_ctl(ADD listener)'' n) (\<lambda>r. settled ot r w) w' \<longleftrightarrow> steady ot w w'"
  "wp (io_error d ''epoll_wait'' n) (\<lambda>r. settled ot r w) w' \<longleftrightarrow> steady ot w w'"
  by (simp_all add: io_error_def wp_simps duplicate_session_def)

lemma pause_listener_wp:
  assumes "steady ot w0 w"
  shows "wp (pause_listener d i) (\<lambda>r. settled ot r w0) w"
proof -
  have fin: "wp (do { t \<leftarrow> now d; listener_do i (\<lambda>l. l\<lparr>ls_registered := False, ls_resume_at := t + kAcceptResourceBackoff\<rparr>);
      State_Monad.return (Inr ()) }) (\<lambda>r. settled ot r w0) w'" if "steady ot w0 w'" for w' :: "'a reactor"
    unfolding wp_bind wp_return
    by (rule wp_keeps [OF steady_now that], erule wp_keeps [OF steady_listener]) simp
  have rm: "keeps (steady ot w0) (if b then os_do m else State_Monad.return (Inr ()))" for b and m :: "('a, unit sys) state"
    by (intro keeps_intros steady_os)
  show ?thesis
    unfolding pause_listener_def wp_bind [of "gets _"] wp_gets Let_def
    apply (subst wp_bind, rule wp_keeps [OF rm assms])
    subgoal for removed w'
      apply (cases removed; simp only: sum.case wp_if)
       apply (intro ifI)
        apply (simp only: epoll_error_settled)
       apply (erule fin)+
      done
    done
qed

lemma rearm_from_wp:
  "steady ot w0 w \<Longrightarrow> wp (rearm_from d t i n) (\<lambda>r. settled ot r w0) w"
proof (induction n arbitrary: i w)
  case 0
  then show ?case by (simp add: wp_simps)
next
  case (Suc n)
  have set: "wp (listener_do i f) (\<lambda>_. wp (rearm_from d t (Suc i) n) (\<lambda>r. settled ot r w0)) w'" if "steady ot w0 w'" for f and w' :: "'a reactor"
    by (rule wp_keeps [OF steady_listener that]) (rule Suc.IH)
  show ?case
    unfolding rearm_from.simps
    apply (subst wp_bind, subst wp_gets, subst wp_if, intro ifI Suc.IH Suc.prems)
    apply (subst wp_bind, rule wp_keeps [OF steady_os Suc.prems])
    subgoal for added w'
      apply (cases added; simp only: sum.case wp_if wp_bind)
       apply (intro ifI)
        apply (erule set)
       apply (simp only: epoll_error_settled)
      apply (erule set)
      done
    done
qed

section \<open>Events\<close>

lemma accept_loop_wp:
  assumes c: "deps_contract d" and rt: "table_in (ot_stores ot) (rs_routing runtime)"
  shows "steady ot w0 w \<Longrightarrow> wp (accept_loop d i runtime n) (\<lambda>r. settled ot r w0) w"
proof (induction n arbitrary: w)
  case 0
  then show ?case by (simp add: wp_simps)
next
  case (Suc n)
  have admit: "wp (admit_client d i runtime client peer) (\<lambda>r w. case r of Inl e \<Rightarrow> settled ot (Inl e) w0 w
      | Inr _ \<Rightarrow> wp (accept_loop d i runtime n) (\<lambda>r. settled ot r w0) w) w'"
    if "steady ot w0 w'" "length peer = sockaddr_bytes" for w' :: "'a reactor" and client peer
  proof (rule wp_mono [OF admit_client_wp [OF _ c rt that(2), of w']])
    show "reactor_ok ot {} w'" using that(1) by (simp add: steady_def)
    fix r and w'' :: "'a reactor" assume "settled ot r w' w''"
    then have "settled ot r w0 w''" using that(1) by (simp add: steady_def split: if_splits)
    then show "case r of Inl e \<Rightarrow> settled ot (Inl e) w0 w'' | Inr _ \<Rightarrow> wp (accept_loop d i runtime n) (\<lambda>r. settled ot r w0) w''"
      using Suc.IH by (cases r) simp_all
  qed
  have env: "steady ot w0 (w\<lparr>re_env := e\<rparr>)" for e using Suc.prems by (simp add: steady_def)
  show ?case
    unfolding accept_loop.simps
    apply (subst wp_bind, subst wp_gets, subst wp_bind, rule accept4_wp [OF c])
     apply (simp only: sum.case wp_if wp_return, intro ifI Suc.IH pause_listener_wp env)
     apply (simp add: env)
    apply (simp only: sum.case prod.case wp_bind wp_case_sum wp_return, rule admit [OF env], assumption)
    done
qed

lemma accept_ready_wp:
  assumes c: "deps_contract d" and r: "reactor_ok ot {} w"
  shows "wp (accept_ready d i) (\<lambda>r. settled ot r w) w"
proof -
  have s: "steady ot w w" and rt: "table_in (ot_stores ot) (rs_routing (ss_runtime (re_state w)))"
    using r by (simp_all add: steady_def reactor_ok_def)
  show ?thesis
    unfolding accept_ready_def wp_bind wp_gets wp_if wp_return
    by (intro ifI accept_loop_wp [OF c rt s]) (simp add: s)
qed

lemma dispatch_event_wp:
  assumes c: "deps_contract d" and r: "reactor_ok ot {} w"
  shows "wp (dispatch_event d token events) (\<lambda>r. settled ot r w) w"
proof (cases "event_kind_of token = ListenerEvent")
  case True
  then show ?thesis using accept_ready_wp [OF c r] by (simp add: dispatch_event_def)
next
  case False
  have "wp (dispatch_event d token events) (\<lambda>r w'. reactor_ok ot {} w' \<and> ss_runtime (re_state w') = ss_runtime (re_state w)) w"
    using session_event_wp [OF r c, of "unat (event_id token)" "event_kind_of token = ClientEvent" events] False
    by (simp only: dispatch_event_def Let_def if_False)
  moreover have "wp (dispatch_event d token events) (\<lambda>r _. r = Inr ()) w"
    using False by (simp add: dispatch_event_def wp_simps find_session_def split: option.splits) (auto intro!: wp_any)
  ultimately show ?thesis by (rule wp_mono [OF wp_conj]) (auto simp: steady_def)
qed

lemma dispatch_batch_wp:
  assumes c: "deps_contract d"
  shows "steady ot w0 w \<Longrightarrow> wp (dispatch_batch d ready) (\<lambda>r. settled ot r w0) w"
proof (induction ready arbitrary: w)
  case Nil
  then show ?case by (simp add: wp_simps)
next
  case (Cons x ready)
  obtain token events where x: "x = (token, events)" by (cases x)
  have r: "reactor_ok ot {} w" using Cons.prems by (simp add: steady_def)
  show ?case
    unfolding x dispatch_batch.simps wp_simps
  proof (rule wp_mono [OF dispatch_event_wp [OF c r]])
    fix r and w' :: "'a reactor" assume "settled ot r w w'"
    then have "settled ot r w0 w'" using Cons.prems by (simp add: steady_def split: if_splits)
    then show "case r of Inl error \<Rightarrow> settled ot (Inl error) w0 w' | Inr y \<Rightarrow> wp (dispatch_batch d ready) (\<lambda>r. settled ot r w0) w'"
      using Cons.IH by (cases r) simp_all
  qed
qed

lemma expire_now_wp:
  assumes c: "deps_contract d" and s: "steady ot w0 w"
  shows "wp (now d) (\<lambda>t. wp (expire_timeouts d t) (\<lambda>_. steady ot w0)) w"
proof (rule now_wp [OF c])
  fix t e assume t: "clock_ok t"
  have "reactor_ok ot {} (w\<lparr>re_env := e\<rparr>)" using s by (simp add: steady_def)
  from expire_timeouts_wp [OF c this t] show "wp (expire_timeouts d t) (\<lambda>_. steady ot w0) (w\<lparr>re_env := e\<rparr>)"
    by (rule wp_mono) (use s in \<open>simp add: steady_def\<close>)
qed

lemma dispatch_round_wp:
  assumes c: "deps_contract d" and r: "reactor_ok ot {} w"
  shows "wp (dispatch_round d) (\<lambda>r. settled ot r w) w"
proof -
  let ?S = "steady ot w :: 'a reactor \<Rightarrow> bool"
  have s: "?S w" using r by (simp add: steady_def)
  have idle: "wp (now d) (\<lambda>_. wp (now d) (\<lambda>t. wp (expire_timeouts d t) (\<lambda>_. ?S))) w'" if "?S w'" for w'
    by (rule wp_keeps [OF steady_now that]) (rule expire_now_wp [OF c])
  have count: "wp (do_if b (do { t \<leftarrow> now d; worker_do (\<lambda>ws. record_event_batch ws n (t - t0)) })) (\<lambda>_. ?S) w'" if "?S w'" for b n t0 w'
    using that by (intro keepsD [where I = ?S] keeps_intros steady_now steady_worker) (simp_all add: record_event_batch_def Let_def)
  have busy: "wp (dispatch_batch d ready) (\<lambda>r w'. case r of Inl e \<Rightarrow> settled ot (Inl e) w w'
      | Inr _ \<Rightarrow> wp (do_if (ready \<noteq> []) (do { t \<leftarrow> now d; worker_do (\<lambda>ws. record_event_batch ws (length ready) (t - t0)) }))
          (\<lambda>_. wp (now d) (\<lambda>t. wp (expire_timeouts d t) (\<lambda>_. ?S))) w') w'" if "?S w'" for ready t0 w'
  proof (rule wp_mono [OF dispatch_batch_wp [OF c that]])
    fix r and w'' :: "'a reactor" assume w'': "settled ot r w w''"
    show "case r of Inl e \<Rightarrow> settled ot (Inl e) w w''
      | Inr _ \<Rightarrow> wp (do_if (ready \<noteq> []) (do { t \<leftarrow> now d; worker_do (\<lambda>ws. record_event_batch ws (length ready) (t - t0)) }))
          (\<lambda>_. wp (now d) (\<lambda>t. wp (expire_timeouts d t) (\<lambda>_. ?S))) w''"
    proof (cases r)
      case (Inl e)
      then show ?thesis using w'' by simp
    next
      case (Inr y)
      then have "?S w''" using w'' by simp
      then show ?thesis unfolding Inr sum.case by (intro wp_mono [OF count] expire_now_wp [OF c])
    qed
  qed
  show ?thesis
    unfolding dispatch_round_def rearm_listeners_def
    apply (subst wp_bind, rule wp_keeps [OF steady_now s])
    apply (subst wp_bind, subst wp_bind, subst wp_gets, rule wp_mono [OF rearm_from_wp], assumption)
    subgoal for t w' rearmed w''
      apply (cases rearmed; simp only: sum.case wp_return)
      apply (subst wp_bind, subst wp_gets, subst wp_bind, rule wp_keeps [OF steady_os], simp)
      subgoal for _ waited w3
        apply (cases waited; simp only: sum.case wp_if wp_bind wp_return)
         apply (intro ifI)
          apply (simp only: epoll_error_settled)
         apply (simp add: idle)
        apply (erule wp_keeps [OF steady_now])
        apply (simp only: wp_case_sum wp_bind wp_return)
        apply (rule wp_mono [OF busy], assumption)
        apply (simp only: sum.distinct if_False)
        done
      done
    done
qed

section \<open>Shutting down\<close>

lemma close_listeners_keeps: "keeps (reactor_ok ot X) (close_listeners d i n)"
proof (induction n arbitrary: i)
  case 0
  show ?case by (simp add: keeps_return)
next
  case (Suc n)
  show ?case by (simp, intro keeps_intros Suc)
qed

lemma close_sessions_wp:
  assumes c: "deps_contract d"
  shows "reactor_ok ot {} w \<Longrightarrow> length (re_sessions w) \<le> n \<Longrightarrow>
    wp (close_sessions d n) (\<lambda>_ w'. reactor_ok ot {} w' \<and> re_sessions w' = []) w"
proof (induction n arbitrary: w)
  case 0
  then show ?case by (simp add: wp_simps)
next
  case (Suc n)
  show ?case
  proof (cases "re_sessions w")
    case Nil
    then show ?thesis using Suc.prems by (simp add: wp_simps)
  next
    case (Cons x xs)
    have d: "distinct (map fst (re_sessions w))" using Suc.prems(1) by (simp add: reactor_ok_def)
    have "map_of (re_sessions w) (fst x) = Some (snd x)" using Cons by (cases x) simp
    from split_holdings(3) [OF d this] have n: "length (without (fst x) (re_sessions w)) \<le> n" using Suc.prems(2) by simp
    have "wp (close_session d (fst x)) (\<lambda>_. wp (close_sessions d n) (\<lambda>_ w'. reactor_ok ot {} w' \<and> re_sessions w' = [])) w"
      by (rule wp_mono [OF close_session_wp [OF Suc.prems(1) contract_writes [OF c]]], rule Suc.IH) (use n in auto)
    then show ?thesis using Cons by (simp add: wp_simps)
  qed
qed

lemma shutdown_wp:
  assumes c: "deps_contract d" and r: "reactor_ok ot {} w"
  shows "wp (shutdown d) (\<lambda>_ w'. reactor_ok ot {} w' \<and> re_sessions w' = []) w"
  unfolding shutdown_def wp_bind wp_gets
  by (rule wp_keeps [OF close_listeners_keeps r]) (simp add: close_sessions_wp [OF c])

section \<open>Running\<close>

lemma dispatch_events_settled:
  assumes c: "deps_contract d" and "dispatch_events d w = Some (r, w')" and "reactor_ok ot {} w"
  shows "reactor_ok (if r = Inl duplicate_session then slot ot else ot) {} w'"
proof -
  have "deps_contract d \<longrightarrow> reactor_ok ot {} w \<longrightarrow> reactor_ok (if fst (r, w') = Inl duplicate_session then slot ot else ot) {} (snd (r, w'))"
  proof (rule dispatch_events.raw_induct [where P = "\<lambda>d w r. deps_contract d \<longrightarrow> reactor_ok ot {} w \<longrightarrow>
      reactor_ok (if fst r = Inl duplicate_session then slot ot else ot) {} (snd r)", OF _ assms(2)], intro impI)
    fix f and d :: "('a, 'b) deps" and w :: "'a reactor" and r
    assume IH: "\<And>d w r. f d w = Some r \<Longrightarrow> deps_contract d \<longrightarrow> reactor_ok ot {} w \<longrightarrow>
        reactor_ok (if fst r = Inl duplicate_session then slot ot else ot) {} (snd r)"
      and step: "(case run_state (os_do (os_stop_requested (d_os d))) w of (stop, w) \<Rightarrow>
        if stop then Some (Inr (), w)
        else case run_state (dispatch_round d) w of (dispatched, w) \<Rightarrow>
          (case dispatched of Inl error \<Rightarrow> Some (Inl error, w) | Inr _ \<Rightarrow> f d w)) = Some r"
      and c: "deps_contract d" and ok: "reactor_ok ot {} w"
    obtain stop w1 where s: "run_state (os_do (os_stop_requested (d_os d))) w = (stop, w1)" by (metis surj_pair)
    have w1: "reactor_ok ot {} w1" using keeps_run [OF keeps_reactor_os s ok] .
    obtain x w2 where x: "run_state (dispatch_round d) w1 = (x, w2)" by (metis surj_pair)
    have w2: "settled ot x w1 w2" by (rule wp_run [OF dispatch_round_wp [OF c w1] x])
    show "reactor_ok (if fst r = Inl duplicate_session then slot ot else ot) {} (snd r)"
    proof (cases stop)
      case True
      then show ?thesis using step s w1 by auto
    next
      case False
      show ?thesis
      proof (cases x)
        case (Inl e)
        then show ?thesis using step s x False w2 by (auto simp: steady_def)
      next
        case (Inr y)
        then have "f d w2 = Some r" "reactor_ok ot {} w2" using step s x False w2 by (auto simp: steady_def)
        with IH c show ?thesis by blast
      qed
    qed
  qed
  with assms show ?thesis by simp
qed

text \<open>The state of the process a worker starts in: its counters are 64-bit values and the leases on the limiter are known.\<close>

definition process_ok :: "lease multiset \<Rightarrow> service_state \<Rightarrow> rate_limiter \<Rightarrow> worker_stats \<Rightarrow> backend_store \<Rightarrow> bool" where
  "process_ok L state limiter worker backends \<longleftrightarrow>
     queued_bytes (ss_stats state) < 2 ^ 64 \<and> queued_bytes_limit (ss_stats state) < 2 ^ 64 \<and>
     active_connections (ss_stats state) < 2 ^ 64 \<and> worker_active_connections worker < 2 ^ 64 \<and>
     (\<forall>b\<in>set backends. be_active_connections b < 2 ^ 64) \<and> limiter_ok L limiter \<and>
     table_in (length backends) (rs_routing (ss_runtime state))"

definition others_of :: "lease multiset \<Rightarrow> service_state \<Rightarrow> worker_stats \<Rightarrow> backend_store \<Rightarrow> others" where
  "others_of L state worker backends =
     \<lparr>ot_bytes = queued_bytes (ss_stats state), ot_load = \<lambda>ref. be_active_connections (backends ! ref), ot_leases = L,
      ot_slots = active_connections (ss_stats state), ot_worker_slots = worker_active_connections worker,
      ot_stores = length backends\<rparr>"

lemma new_reactor_ok:
  assumes c: "deps_contract d" and p: "process_ok L state limiter worker backends"
    and n: "new_reactor d listeners contexts state limiter worker backends e = (Inr w, e')"
  shows "reactor_ok (others_of L state worker backends) {} w"
proof -
  obtain t e1 e2 e3 ls epoll where w: "w = \<lparr>re_env = e2, re_epoll = epoll, re_state = state, re_tls = contexts, re_limiter = limiter,
      re_worker = worker, re_backends = backends, re_listeners = ls, re_sessions = [],
      re_wheel = wheel_new t, re_next_session_id = 1, re_route_sequence = 0, re_source_sequence = 0,
      re_session = new_session (ss_runtime state), re_fault = False\<rparr>" and t: "run_state (os_now (d_os d)) e1 = (t, e3)"
    using n by (auto simp: new_reactor_def split: prod.splits sum.splits)
  have "clock_ok (fst (run_state (os_now (d_os d)) e1))" using c unfolding deps_contract_def by blast
  then have clock: "clock_ok t" using t by simp
  have r: "wheel_inv (wheel_new t)" "Suc (tw_current (wheel_new t)) < 2 ^ 64" using wheel_reach_ok [OF wheel_reach.new [OF clock]] by simp_all
  have dl: "deadlines (wheel_new t) = Map.empty" by (simp add: deadlines_def wheel_new_def fun_eq_iff)
  from p show ?thesis
    unfolding w by (simp add: reactor_ok_def others_of_def process_ok_def holdings_def leases_def loads_ok_def wrap64_id r r(2) [simplified] dl timers_ok_def)
qed

text \<open>The states between two rounds of the loop, before and after it asks whether to stop.\<close>

inductive rounds :: "('e, 'g) deps \<Rightarrow> 'e reactor \<Rightarrow> 'e reactor \<Rightarrow> bool" for d w where
  start: "rounds d w w"
| polled: "rounds d w w' \<Longrightarrow> run_state (os_do (os_stop_requested (d_os d))) w' = (stop, w'') \<Longrightarrow> rounds d w w''"
| round: "rounds d w w' \<Longrightarrow> run_state (dispatch_round d) w' = (Inr (), w'') \<Longrightarrow> rounds d w w''"

lemma rounds_ok:
  assumes "rounds d w w'" and c: "deps_contract d" and "reactor_ok ot {} w"
  shows "reactor_ok ot {} w'"
  using assms(1,3)
proof induction
  case (polled w' stop w'')
  then show ?case using keeps_run [OF keeps_reactor_os polled.hyps(2)] by blast
next
  case (round w' w'')
  then show ?case using wp_run [OF dispatch_round_wp [OF c] round.hyps(2)] by (auto simp: steady_def)
qed

section \<open>Properties\<close>

text \<open>
  Property C1. Whatever the network, the miners and the backends do, and however often the loop runs: when a worker
  stops, on a stop request or on an error, no session is left, every byte it queued, every backend it counted,
  every admission lease and every timer is given back, and so is every connection slot, except for the one of a
  connection whose identifier was already taken. No handler on the way dereferenced a missing backend, a dangling lease or
  a missing TLS stream, and no loop bound of the model was exhausted.
\<close>

theorem reactor_run_gives_back:
  assumes "deps_contract d" and "process_ok L state limiter worker backends"
    and "new_reactor d listeners contexts state limiter worker backends e = (Inr w, e')" and "reactor_run d w = Some (r, w')"
  shows "re_sessions w' = [] \<and> \<not> re_fault w' \<and>
    queued_bytes (ss_stats (re_state w')) = queued_bytes (ss_stats state) \<and>
    (r \<noteq> Inl duplicate_session \<longrightarrow> active_connections (ss_stats (re_state w')) = active_connections (ss_stats state) \<and>
       worker_active_connections (re_worker w') = worker_active_connections worker) \<and>
    map be_active_connections (re_backends w') = map be_active_connections backends \<and>
    limiter_ok L (re_limiter w') \<and> deadlines (re_wheel w') = Map.empty"
proof -
  let ?ot = "others_of L state worker backends"
  obtain w1 where run: "dispatch_events d w = Some (r, w1)" "w' = snd (run_state (shutdown d) w1)"
    using assms(4) by (auto simp: reactor_run_def split: option.splits bind_splits)
  note ok = new_reactor_ok [OF assms(1-3)]
  obtain u where u: "run_state (shutdown d) w1 = (u, w')" using run(2) by (metis prod.collapse)
  from wp_run [OF shutdown_wp [OF assms(1) dispatch_events_settled [OF assms(1) run(1) ok]] u]
  have w': "reactor_ok (if r = Inl duplicate_session then slot ?ot else ?ot) {} w'" "re_sessions w' = []" by simp_all
  have slot: "ot_bytes (if b then slot ?ot else ?ot) = ot_bytes ?ot" "ot_load (if b then slot ?ot else ?ot) = ot_load ?ot"
    "ot_leases (if b then slot ?ot else ?ot) = ot_leases ?ot" "ot_stores (if b then slot ?ot else ?ot) = ot_stores ?ot" for b
    by simp_all
  have dl: "deadlines (re_wheel w') = Map.empty"
    using w' by (auto simp: reactor_ok_def timers_ok_def fun_eq_iff)
  have loads: "loads_ok (re_backends w') (length backends) (\<lambda>ref. be_active_connections (backends ! ref))"
    using w' slot by (simp add: reactor_ok_def holdings_def others_of_def)
  then have "map be_active_connections (re_backends w') = map be_active_connections backends"
    using assms(2) by (intro nth_equalityI) (auto simp: loads_ok_def process_ok_def wrap64_id)
  with w' slot dl assms(2) show ?thesis
    by (auto simp: reactor_ok_def holdings_def leases_def others_of_def process_ok_def wrap64_id)
qed

text \<open>
  Property C3. Between any two rounds of a worker's event loop its table and everything shared agree: session
  identifiers are distinct, the shared byte counter and connection counter are what the others hold plus what the
  sessions queue and their number, each backend counts exactly the sessions relayed to it, the leases on the
  limiter are the others' and the sessions', and each session has exactly one timer, of its current generation, and no other
  timer exists.
\<close>

theorem reactor_rounds_account:
  assumes "deps_contract d" and "process_ok L state limiter worker backends"
    and "new_reactor d listeners contexts state limiter worker backends e = (Inr w, e')" and "rounds d w w'"
  shows "distinct (map fst (re_sessions w')) \<and> \<not> re_fault w' \<and>
    queued_bytes (ss_stats (re_state w')) =
      (queued_bytes (ss_stats state) + (\<Sum>(_, s)\<leftarrow>re_sessions w'. se_queued s)) mod 2 ^ 64 \<and>
    active_connections (ss_stats (re_state w')) = (active_connections (ss_stats state) + length (re_sessions w')) mod 2 ^ 64 \<and>
    (\<forall>ref<length backends. be_active_connections (re_backends w' ! ref) =
       (be_active_connections (backends ! ref) +
        length (filter (\<lambda>(_, s). se_backend_counted s \<and> se_backend s = Some ref) (re_sessions w'))) mod 2 ^ 64) \<and>
    limiter_ok (L + mset (map (\<lambda>(_, s). the (se_admission s)) (re_sessions w'))) (re_limiter w') \<and>
    (\<forall>k. map_option fst (deadlines (re_wheel w') k) = map_option se_timeout_generation (map_of (re_sessions w') k))"
proof -
  have ok: "reactor_ok (others_of L state worker backends) {} w'"
    by (rule rounds_ok [OF assms(4,1) new_reactor_ok [OF assms(1-3)]])
  have own: "holdings (\<lambda>s. own_load s ref) xs = length (filter (\<lambda>(_, s). se_backend_counted s \<and> se_backend s = Some ref) xs)" for ref xs
    by (induction xs) (auto simp: holdings_def own_load_def)
  have sums: "holdings se_queued xs = (\<Sum>(_, s)\<leftarrow>xs. se_queued s)" "leases xs = mset (map (\<lambda>(_, s). the (se_admission s)) xs)" for xs
    by (induction xs) (auto simp: holdings_def leases_def)
  from ok show ?thesis
    unfolding reactor_ok_def others_of_def loads_ok_def own sums timers_ok_def by (simp add: wrap64_def)
qed

section \<open>A quiet process\<close>

text \<open>An operating system on which nothing arrives; the environment counts the rounds until the stop request.\<close>

definition still :: "'a \<Rightarrow> (nat, 'a) state" where
  "still x = State_Monad.return x"

definition quiet_os :: "nat os" where
  "quiet_os =
     \<lparr>os_now = still 5, os_stop_requested = State (\<lambda>n. (n = 0, n - 1)), os_wait_until = (\<lambda>_. still ()),
      os_strerror = (\<lambda>_. ''error''), os_socket = (\<lambda>_. still (Inr 3)), os_setsockopt = (\<lambda>_ _ _. still (Inr ())),
      os_bind = (\<lambda>_ _. still (Inr ())), os_listen = (\<lambda>_ _. still (Inr ())),
      os_connect = (\<lambda>_ _. still (Inl EINPROGRESS)), os_socket_error = (\<lambda>_. still (Inr 0)),
      os_accept4 = (\<lambda>_. still (Inl EAGAIN)), os_getsockname = (\<lambda>_. still (Inl EINTR)),
      os_close = (\<lambda>_. still ()), os_poll = (\<lambda>_ _ _. still (Inr None)), os_send = (\<lambda>_ _. still (Inl EAGAIN)),
      os_recv = (\<lambda>_ _. still (Inl EAGAIN)), os_epoll_create = still (Inr 4),
      os_epoll_add = (\<lambda>_ _ _. still (Inr ())),
      os_epoll_mod = (\<lambda>_ _ _. still (Inr ())), os_epoll_del = (\<lambda>_. still (Inr ())),
      os_epoll_wait = (\<lambda>_ _. still (Inr [])), os_ssl_new = (\<lambda>_ _. still None),
      os_ssl_accept = (\<lambda>_. still (Inl (SSL_ERROR_WANT_READ, EAGAIN))),
      os_ssl_read = (\<lambda>_ _. still (Inl (SSL_ERROR_WANT_READ, EAGAIN))),
      os_ssl_write = (\<lambda>_ _. still (Inl (SSL_ERROR_WANT_WRITE, EAGAIN))),
      os_ssl_pending = (\<lambda>_. still 0), os_ssl_free = (\<lambda>_. still ())\<rparr>"

definition quiet_deps :: "(nat, unit) deps" where
  "quiet_deps = \<lparr>d_os = quiet_os, d_glaze = sample_glaze, d_order = id\<rparr>"

definition quiet_state :: service_state where
  "quiet_state = \<lparr>ss_runtime = \<lparr>rs_config = default_config, rs_routing = sample_table\<rparr>, ss_tls_certificates = [], ss_stats = new_stats 0\<rparr>"

definition quiet_reactor :: "nat reactor result \<times> nat" where
  "quiet_reactor = new_reactor quiet_deps [] [] quiet_state new_rate_limiter new_worker_stats [sample_backend 0, sample_backend 1] 1"

lemma quiet_contract: "deps_contract quiet_deps"
  by (simp add: deps_contract_def quiet_deps_def quiet_os_def still_def honest_writes_def clock_ok_def)

lemma quiet_process: "process_ok {#} quiet_state new_rate_limiter new_worker_stats [sample_backend 0, sample_backend 1]"
  by (simp add: process_ok_def quiet_state_def new_stats_def new_worker_stats_def new_rate_limiter_ok sample_backend_def sample_table_def
    table_in_def)

lemma quiet_advance: "wheel_advance (wheel_new 5) 5 = (wheel_new 5, [])"
  by (simp add: wheel_advance_def wheel_run.simps wheel_new_def tick_floor_def cxx_quot_def ns_per_second_def)

lemma quiet_round:
  assumes "re_listeners w = []" and "re_wheel w = wheel_new 5"
  shows "run_state (dispatch_round quiet_deps) w = (Inr (), w)"
  using assms
  by (simp add: dispatch_round_def rearm_listeners_def expire_timeouts_def quiet_advance quiet_deps_def quiet_os_def still_def now_def
    os_do_def gets_def modify_def do_if_def epoll_wait_timeout_def)

lemma quiet_run:
  assumes "re_listeners w = []" and "re_wheel w = wheel_new 5" and "re_sessions w = []" and "re_env w = 1"
  shows "reactor_run quiet_deps w = Some (Inr (), w\<lparr>re_env := 0\<rparr>)"
proof -
  have stop: "run_state (os_do (os_stop_requested (d_os quiet_deps))) v = (re_env v = 0, v\<lparr>re_env := re_env v - 1\<rparr>)" for v
    by (simp add: quiet_deps_def quiet_os_def os_do_def)
  have "dispatch_events quiet_deps w = dispatch_events quiet_deps (w\<lparr>re_env := 0\<rparr>)"
    using assms by (subst dispatch_events.simps) (simp add: stop quiet_round)
  also have "\<dots> = Some (Inr (), w\<lparr>re_env := 0\<rparr>)" by (subst dispatch_events.simps) (simp add: stop)
  finally have run: "dispatch_events quiet_deps w = Some (Inr (), w\<lparr>re_env := 0\<rparr>)" .
  show ?thesis using assms by (simp add: reactor_run_def run shutdown_def gets_def do_if_def)
qed

theorem reactor_run_gives_back_witness:
  "\<exists>w r w'. quiet_reactor = (Inr w, 1) \<and> reactor_run quiet_deps w = Some (r, w') \<and> re_sessions w' = []"
proof -
  obtain w where w: "quiet_reactor = (Inr w, 1)" and f: "re_listeners w = []" "re_wheel w = wheel_new 5" "re_sessions w = []" "re_env w = 1"
    by (simp add: quiet_reactor_def new_reactor_def quiet_deps_def quiet_os_def still_def)
  show ?thesis
    using w quiet_run [OF f] reactor_run_gives_back [OF quiet_contract quiet_process, of "[]" "[]" 1 w 1]
    unfolding quiet_reactor_def by blast
qed

theorem reactor_rounds_account_witness:
  "\<exists>w w'. quiet_reactor = (Inr w, 1) \<and> run_state (dispatch_round quiet_deps) w = (Inr (), w') \<and> distinct (map fst (re_sessions w'))"
proof -
  obtain w where w: "quiet_reactor = (Inr w, 1)" and f: "re_listeners w = []" "re_wheel w = wheel_new 5"
    by (simp add: quiet_reactor_def new_reactor_def quiet_deps_def quiet_os_def still_def)
  have r: "run_state (dispatch_round quiet_deps) w = (Inr (), w)" by (rule quiet_round [OF f])
  have "rounds quiet_deps w w" by (rule rounds.round [OF rounds.start r])
  then show ?thesis
    using w r reactor_rounds_account [OF quiet_contract quiet_process, of "[]" "[]" 1 w 1 w] unfolding quiet_reactor_def by blast
qed

end
