(* ===== verification/Edge_Server.thy ===== *)
theory Edge_Server
  imports Tls_Context Reactor_Run
begin

text \<open>
  The edge server, from \<^verbatim>\<open>src/src/net/server.cpp\<close>: loading TLS material, the number of workers, construction of the
  workers, and reloading TLS material while they run.
\<close>

section \<open>Loading TLS material\<close>

text \<open>The loop over the listeners, with what was loaded so far; a thrown error releases all of it.\<close>

fun load_loop :: "'e openssl \<Rightarrow> ssl_context option list \<Rightarrow> tls_certificate_status list \<Rightarrow> listener_config list \<Rightarrow>
    ('e, (ssl_context option list \<times> tls_certificate_status list) result) state" where
  "load_loop ol contexts certificates [] = State_Monad.return (Inr (contexts, certificates))"
| "load_loop ol contexts certificates (listener # listeners) =
     (if \<not> lc_tls listener then load_loop ol (contexts @ [None]) certificates listeners
      else do {
        created \<leftarrow> create_server_context ol (lc_certificate_file listener) (lc_private_key_file listener);
        case created of
          Inl error \<Rightarrow> do { free_contexts ol contexts; State_Monad.return (Inl error) }
        | Inr ctx \<Rightarrow>
            do {
              expiry \<leftarrow> certificate_expiry_timestamp_seconds ol ctx;
              case expiry of
                Inl error \<Rightarrow> do { free_contexts ol (contexts @ [Some ctx]); State_Monad.return (Inl error) }
              | Inr seconds \<Rightarrow>
                  load_loop ol (contexts @ [Some ctx])
                    (certificates @ [\<lparr>tc_listener_name = lc_name listener, tc_expiry_timestamp_seconds = seconds\<rparr>]) listeners
            }
      })"

definition load_tls_contexts :: "'e openssl \<Rightarrow> config \<Rightarrow>
    ('e, (ssl_context option list \<times> tls_certificate_status list) result) state" where
  "load_tls_contexts ol config = load_loop ol [] [] (cfg_listeners config)"

section \<open>The number of workers\<close>

definition kMaximumAutomaticWorkers :: nat where "kMaximumAutomaticWorkers = 32"
definition kSessionCapacitySkewPercent :: nat where "kSessionCapacitySkewPercent = 25"
definition kWholePercent :: nat where "kWholePercent = 100"

text \<open>
  What the machine reports: the hardware threads, the processors of the affinity mask when \<^verbatim>\<open>sched_getaffinity\<close>
  succeeds, and the text of \<^verbatim>\<open>/sys/fs/cgroup/cpu.max\<close> when it can be opened.
\<close>

record machine =
  mc_hardware_concurrency :: nat
  mc_affinity :: "int option"
  mc_cpu_max :: "string option"

text \<open>Extraction of a word with \<^verbatim>\<open>>>\<close>, and the two extractions in a row.\<close>

definition is_space :: "char \<Rightarrow> bool" where
  "is_space c \<longleftrightarrow> c \<in> {CHR '' '', CHR 0x09, CHR 0x0A, CHR 0x0B, CHR 0x0C, CHR 0x0D}"

definition read_word :: "string \<Rightarrow> (string \<times> string) option" where
  "read_word s =
     (let t = dropWhile is_space s
      in if t = [] then None else Some (takeWhile (\<lambda>c. \<not> is_space c) t, dropWhile (\<lambda>c. \<not> is_space c) t))"

definition read_cpu_max :: "string option \<Rightarrow> (string \<times> string) option" where
  "read_cpu_max file =
     (case file of
        None \<Rightarrow> None
      | Some text \<Rightarrow>
          (case read_word text of
             None \<Rightarrow> None
           | Some (quota_text, rest) \<Rightarrow> map_option (\<lambda>(period_text, _). (quota_text, period_text)) (read_word rest)))"

definition parse_number :: "string \<Rightarrow> nat option" where
  "parse_number text = (case from_chars 64 text of Some (v, []) \<Rightarrow> Some v | _ \<Rightarrow> None)"

definition quota_limit :: "string option \<Rightarrow> nat option" where
  "quota_limit file =
     (case read_cpu_max file of
        None \<Rightarrow> None
      | Some (quota_text, period_text) \<Rightarrow>
          if quota_text = ''max'' then None
          else (case (parse_number quota_text, parse_number period_text) of
                  (Some quota, Some period) \<Rightarrow>
                    if 0 < quota \<and> 0 < period
                    then Some (min (quota div period + (if quota mod period \<noteq> 0 then 1 else 0)) (2 ^ 32 - 1))
                    else None
                | _ \<Rightarrow> None))"

definition server_worker_count :: "machine \<Rightarrow> config \<Rightarrow> nat" where
  "server_worker_count m config =
     (if 0 < cfg_io_workers config then nat (cfg_io_workers config)
      else (let available = max (mc_hardware_concurrency m) 1;
                available = (case mc_affinity m of
                   None \<Rightarrow> available
                 | Some affinity_count \<Rightarrow> if 0 < affinity_count then min available (nat affinity_count) else available);
                available = (case quota_limit (mc_cpu_max m) of None \<Rightarrow> available | Some limit \<Rightarrow> min available limit)
            in min available kMaximumAutomaticWorkers))"

text \<open>How many sessions a worker reserves room for, in 64-bit arithmetic.\<close>

definition expected_sessions :: "config \<Rightarrow> nat \<Rightarrow> nat" where
  "expected_sessions config how_many =
     (let sessions_per_worker = wrap64 (max_connections (cfg_limits config) + how_many - 1) div how_many
      in wrap64 (sessions_per_worker + wrap64 (sessions_per_worker * kSessionCapacitySkewPercent) div kWholePercent))"

section \<open>The server\<close>

text \<open>
  \<^verbatim>\<open>EdgeServer\<close> with its \<^verbatim>\<open>Runtime\<close>: a listener template is the address it binds; the reactors are as constructed, and
  \<open>ed_threads\<close> are the workers that have a thread. The service state is shared with the rest of the process.
\<close>

record 'e edge =
  ed_env :: 'e
  ed_templates :: "socket_address list"
  ed_limiter :: rate_limiter
  ed_contexts :: tls_context_store
  ed_reactors :: "'e reactor list"
  ed_threads :: "nat list"
  ed_state :: service_state

definition edge_do :: "('e, 'a) state \<Rightarrow> ('e edge, 'a) state" where
  "edge_do m = State (\<lambda>w. case run_state m (ed_env w) of (x, e) \<Rightarrow> (x, w\<lparr>ed_env := e\<rparr>))"

definition reload_failed :: "error \<Rightarrow> ('e edge, unit result) state" where
  "reload_failed error =
     do {
       modify (\<lambda>w. w\<lparr>ed_state := (ed_state w)\<lparr>ss_stats := (ss_stats (ed_state w))
         \<lparr>tls_reload_failures := fetch_add (tls_reload_failures (ss_stats (ed_state w))) 1\<rparr>\<rparr>\<rparr>);
       State_Monad.return (Inl error)
     }"

text \<open>A replaced context is released by the store; a stream made from it keeps it alive by itself.\<close>

definition reload_tls :: "'e openssl \<Rightarrow> config \<Rightarrow> ('e edge, unit result) state" where
  "reload_tls ol config =
     (if filter lc_tls (cfg_listeners config) = [] then State_Monad.return (Inr ())
      else do {
        loaded \<leftarrow> edge_do (load_tls_contexts ol config);
        case loaded of
          Inl error \<Rightarrow> reload_failed error
        | Inr (contexts, certificates) \<Rightarrow>
            do {
              templates \<leftarrow> gets ed_templates;
              if length contexts \<noteq> length templates
              then do {
                edge_do (free_contexts ol contexts);
                reload_failed (ConfigError ''listener topology changed during TLS reload'')
              }
              else do {
                current \<leftarrow> gets ed_contexts;
                case publish_contexts contexts current of
                  Inl error \<Rightarrow> do { edge_do (free_contexts ol contexts); reload_failed error }
                | Inr published \<Rightarrow>
                    do {
                      modify (\<lambda>w. w\<lparr>ed_contexts := published\<rparr>);
                      edge_do (free_contexts ol current);
                      modify (\<lambda>w. w\<lparr>ed_state := (ed_state w)\<lparr>ss_tls_certificates := certificates,
                        ss_stats := (ss_stats (ed_state w))
                          \<lparr>tls_reload_successes := fetch_add (tls_reload_successes (ss_stats (ed_state w))) 1\<rparr>\<rparr>\<rparr>);
                      State_Monad.return (Inr ())
                    }
              }
            }
      })"

section \<open>Construction, start and stop\<close>

text \<open>A listener binds the first address its endpoint resolves to.\<close>

fun listener_templates :: "resolver \<Rightarrow> listener_config list \<Rightarrow> socket_address list result" where
  "listener_templates getaddrinfo [] = Inr []"
| "listener_templates getaddrinfo (listener # listeners) =
     and_then (parse_endpoint (lc_address listener)) (\<lambda>endpoint.
       and_then (resolve_endpoints getaddrinfo endpoint True) (\<lambda>addresses.
         and_then (listener_templates getaddrinfo listeners) (\<lambda>templates. Inr (hd addresses # templates))))"

definition destroy_reactor :: "'e os \<Rightarrow> 'e reactor \<Rightarrow> ('e, unit) state" where
  "destroy_reactor os r = do { destroy_all os (map ls_socket (re_listeners r)); fd_destroy os (re_epoll r) }"

fun destroy_reactors :: "'e os \<Rightarrow> 'e reactor list \<Rightarrow> ('e, unit) state" where
  "destroy_reactors os [] = State_Monad.return ()"
| "destroy_reactors os (r # rs) = do { destroy_reactor os r; destroy_reactors os rs }"

text \<open>The loop over the worker indices; an exception destroys the reactors made so far.\<close>

fun create_reactors :: "('e, 'g) deps \<Rightarrow> 'e edge \<Rightarrow> backend_store \<Rightarrow> 'e reactor list \<Rightarrow> nat list \<Rightarrow> ('e, 'e reactor list result) state" where
  "create_reactors d w backends made [] = State_Monad.return (Inr made)"
| "create_reactors d w backends made (worker_index # indices) =
     do {
       created \<leftarrow> State (new_reactor d (ed_templates w) (ed_contexts w) (ed_state w) (ed_limiter w)
                   (workers (ss_stats (ed_state w)) ! worker_index) backends);
       case created of
         Inl error \<Rightarrow> do { destroy_reactors (d_os d) made; State_Monad.return (Inl error) }
       | Inr r \<Rightarrow> create_reactors d w backends (made @ [r]) indices
     }"

definition empty_runtime :: "'e \<Rightarrow> service_state \<Rightarrow> 'e edge" where
  "empty_runtime e state =
     \<lparr>ed_env = e, ed_templates = [], ed_limiter = new_rate_limiter, ed_contexts = [], ed_reactors = [], ed_threads = [], ed_state = state\<rparr>"

definition stats_set :: "(stats \<Rightarrow> stats) \<Rightarrow> ('e edge, unit) state" where
  "stats_set f = modify (\<lambda>w. w\<lparr>ed_state := (ed_state w)\<lparr>ss_stats := f (ss_stats (ed_state w))\<rparr>\<rparr>)"

text \<open>The second part of the constructor: the statistics of the workers and their reactors.\<close>

definition create_workers :: "('e, 'g) deps \<Rightarrow> 'e openssl \<Rightarrow> backend_store \<Rightarrow> nat \<Rightarrow> ('e edge, unit result) state" where
  "create_workers d ol backends how_many =
     do {
       stats_set (\<lambda>s. initialize_workers s how_many);
       w \<leftarrow> State_Monad.get;
       created \<leftarrow> edge_do (create_reactors d w backends [] [0..<how_many]);
       case created of
         Inl error \<Rightarrow>
           do {
             edge_do (free_contexts ol (ed_contexts w));
             modify (\<lambda>w. w\<lparr>ed_contexts := []\<rparr>);
             State_Monad.return (Inl error)
           }
       | Inr reactors \<Rightarrow>
           do {
             modify (\<lambda>w. w\<lparr>ed_reactors := reactors\<rparr>);
             stats_set (\<lambda>s. s\<lparr>io_workers := how_many\<rparr>);
             State_Monad.return (Inr ())
           }
     }"

text \<open>
  \<^verbatim>\<open>EdgeServer::EdgeServer\<close>, started on \<open>empty_runtime\<close>. The room reserved for sessions only sizes a hash table
  and is not part of a reactor's state. An exception destroys the runtime.
\<close>

definition construct_server :: "('e, 'g) deps \<Rightarrow> 'e openssl \<Rightarrow> resolver \<Rightarrow> machine \<Rightarrow> backend_store \<Rightarrow> config \<Rightarrow> ('e edge, unit result) state" where
  "construct_server d ol getaddrinfo m backends config =
     (case listener_templates getaddrinfo (cfg_listeners config) of
        Inl error \<Rightarrow> State_Monad.return (Inl error)
      | Inr templates \<Rightarrow>
          do {
            modify (\<lambda>w. w\<lparr>ed_templates := templates\<rparr>);
            loaded \<leftarrow> edge_do (load_tls_contexts ol config);
            case loaded of
              Inl error \<Rightarrow> State_Monad.return (Inl error)
            | Inr (contexts, certificates) \<Rightarrow>
                do {
                  current \<leftarrow> gets ed_contexts;
                  case publish_contexts contexts current of
                    Inl error \<Rightarrow> do { edge_do (free_contexts ol contexts); State_Monad.return (Inl error) }
                  | Inr published \<Rightarrow>
                      do {
                        modify (\<lambda>w. w\<lparr>ed_contexts := published, ed_state := (ed_state w)\<lparr>ss_tls_certificates := certificates\<rparr>\<rparr>);
                        create_workers d ol backends (server_worker_count m config)
                      }
                }
          })"

definition start_server :: "'e edge \<Rightarrow> 'e edge" where
  "start_server w = (if ed_threads w \<noteq> [] then w else w\<lparr>ed_threads := [0..<length (ed_reactors w)]\<rparr>)"

text \<open>The body of a worker thread: the reactor after its run, and whether \<^verbatim>\<open>on_worker_failure\<close> was called.\<close>

definition worker_body :: "('e, 'g) deps \<Rightarrow> 'e reactor \<Rightarrow> (bool \<times> 'e reactor) option" where
  "worker_body d r = map_option (\<lambda>(result, r'). (isl result, r')) (reactor_run d r)"

text \<open>Every worker is asked to stop and joined.\<close>

definition stop_server :: "'e edge \<Rightarrow> 'e edge" where
  "stop_server w = w\<lparr>ed_threads := []\<rparr>"

section \<open>What loading and reloading leave behind\<close>

text \<open>One slot per listener, filled exactly for the TLS listeners with new contexts, or nothing at all.\<close>

definition slots_for :: "ssl_context option list \<Rightarrow> listener_config list \<Rightarrow> bool" where
  "slots_for contexts listeners \<longleftrightarrow> list_all2 (\<lambda>slot listener. slot \<noteq> None \<longleftrightarrow> lc_tls listener) contexts listeners"

definition load_post :: "('e \<Rightarrow> ssl_context set) \<Rightarrow> ssl_context set \<Rightarrow> ssl_context option list \<Rightarrow> tls_certificate_status list \<Rightarrow>
    listener_config list \<Rightarrow> (ssl_context option list \<times> tls_certificate_status list) result \<Rightarrow> 'e \<Rightarrow> bool" where
  "load_post live L contexts certificates listeners r e' \<longleftrightarrow>
     (case r of
        Inl _ \<Rightarrow> live e' = L - handles contexts
      | Inr (loaded, dates) \<Rightarrow>
          \<exists>fresh. loaded = contexts @ fresh \<and> slots_for fresh listeners \<and> handles fresh \<inter> L = {} \<and> live e' = L \<union> handles fresh \<and>
            map tc_listener_name dates = map tc_listener_name certificates @ map lc_name (filter lc_tls listeners))"

lemma load_post_plain:
  assumes "load_post live L (contexts @ [None]) certificates listeners r e'" and "\<not> lc_tls listener"
  shows "load_post live L contexts certificates (listener # listeners) r e'"
proof (cases r)
  case (Inr x)
  obtain loaded dates where x: "x = (loaded, dates)" by (cases x)
  with assms Inr obtain fresh where "loaded = (contexts @ [None]) @ fresh" "slots_for fresh listeners" "handles fresh \<inter> L = {}"
    "live e' = L \<union> handles fresh" "map tc_listener_name dates = map tc_listener_name certificates @ map lc_name (filter lc_tls listeners)"
    by (auto simp: load_post_def)
  with x Inr assms(2) show ?thesis
    by (auto simp: load_post_def slots_for_def intro!: exI [of _ "None # fresh"])
qed (use assms in \<open>simp add: load_post_def\<close>)

lemma load_post_tls:
  assumes "load_post live (insert ctx L) (contexts @ [Some ctx]) (certificates @ [c]) listeners r e'"
    and "lc_tls listener" and "ctx \<notin> L" and "handles contexts \<subseteq> L" and "tc_listener_name c = lc_name listener"
  shows "load_post live L contexts certificates (listener # listeners) r e'"
proof (cases r)
  case (Inr x)
  obtain loaded dates where x: "x = (loaded, dates)" by (cases x)
  with assms Inr obtain fresh where "loaded = (contexts @ [Some ctx]) @ fresh" "slots_for fresh listeners" "handles fresh \<inter> insert ctx L = {}"
    "live e' = insert ctx L \<union> handles fresh"
    "map tc_listener_name dates = map tc_listener_name (certificates @ [c]) @ map lc_name (filter lc_tls listeners)"
    by (auto simp: load_post_def)
  with x Inr assms(2,3,5) show ?thesis
    by (auto simp: load_post_def slots_for_def intro!: exI [of _ "Some ctx # fresh"])
qed (use assms in \<open>auto simp: load_post_def\<close>)

lemma load_loop_live:
  assumes "tracks_contexts ol live" and "handles contexts \<subseteq> live e"
  shows "wp (load_loop ol contexts certificates listeners) (load_post live (live e) contexts certificates listeners) e"
  using assms(2)
proof (induction listeners arbitrary: contexts certificates e)
  case Nil
  then show ?case by (auto simp: wp_simps load_post_def slots_for_def)
next
  case (Cons listener listeners)
  show ?case
  proof (cases "lc_tls listener")
    case False
    with Cons.IH [of "contexts @ [None]" e certificates] Cons.prems show ?thesis
      by (auto intro: wp_mono load_post_plain)
  next
    case tls: True
    have step: "wp (load_loop ol (contexts @ [Some ctx])
         (certificates @ [\<lparr>tc_listener_name = lc_name listener, tc_expiry_timestamp_seconds = t\<rparr>]) listeners)
       (load_post live (live e) contexts certificates (listener # listeners)) e2"
      if "ctx \<notin> live e" "live e2 = insert ctx (live e)" for ctx t e2
    proof (rule wp_mono)
      show "wp (load_loop ol (contexts @ [Some ctx])
           (certificates @ [\<lparr>tc_listener_name = lc_name listener, tc_expiry_timestamp_seconds = t\<rparr>]) listeners)
         (load_post live (insert ctx (live e)) (contexts @ [Some ctx])
           (certificates @ [\<lparr>tc_listener_name = lc_name listener, tc_expiry_timestamp_seconds = t\<rparr>]) listeners) e2"
        using Cons.IH [of "contexts @ [Some ctx]" e2] Cons.prems that by auto
    qed (use tls that Cons.prems in \<open>auto intro: load_post_tls\<close>)
    have free: "wp (free_contexts ol cs) (\<lambda>_. load_post live (live e) contexts certificates (listener # listeners) (Inl m)) e2"
      if "live e2 - handles cs = live e - handles contexts" for m cs e2
      by (rule wp_mono [OF free_contexts_live [OF assms(1)]]) (simp add: that load_post_def)
    have "(\<not> lc_tls listener) = False" using tls by simp
    note plain = this
    show ?thesis unfolding load_loop.simps plain if_False wp_simps
    proof (rule wp_mono [OF create_server_context_live [OF assms(1)]], goal_cases)
      case (1 created e1)
      show ?case
      proof (cases created)
        case (Inl m)
        with 1 show ?thesis using free [of e1 contexts] by simp
      next
        case (Inr ctx)
        with 1 have l: "ctx \<notin> live e" "live e1 = insert ctx (live e)" by simp_all
        show ?thesis unfolding Inr sum.case
        proof (rule certificate_expiry_live [OF assms(1)], goal_cases)
          case (1 expiry e2)
          show ?case
            using 1 l step [of ctx e2] free [of e2 "contexts @ [Some ctx]"] Cons.prems by (cases expiry) auto
        qed
      qed
    qed
  qed
qed

lemma wp_edge_do [wp_simps]: "wp (edge_do m) Q = (\<lambda>w. wp m (\<lambda>x e. Q x (w\<lparr>ed_env := e\<rparr>)) (ed_env w))"
  by (simp add: wp_def edge_do_def fun_eq_iff split: prod.splits)

definition reload_counted :: "'e edge \<Rightarrow> 'e \<Rightarrow> 'e edge" where
  "reload_counted w e = w\<lparr>ed_env := e, ed_state := (ed_state w)\<lparr>ss_stats := (ss_stats (ed_state w))
     \<lparr>tls_reload_failures := fetch_add (tls_reload_failures (ss_stats (ed_state w))) 1\<rparr>\<rparr>\<rparr>"

definition reload_applied :: "ssl_context option list \<Rightarrow> tls_certificate_status list \<Rightarrow> 'e edge \<Rightarrow> 'e \<Rightarrow> 'e edge" where
  "reload_applied contexts certificates w e = w\<lparr>ed_contexts := contexts, ed_env := e,
     ed_state := (ed_state w)\<lparr>ss_tls_certificates := certificates, ss_stats := (ss_stats (ed_state w))
       \<lparr>tls_reload_successes := fetch_add (tls_reload_successes (ss_stats (ed_state w))) 1\<rparr>\<rparr>\<rparr>"

definition reload_post :: "('e \<Rightarrow> ssl_context set) \<Rightarrow> config \<Rightarrow> 'e edge \<Rightarrow> unit result \<Rightarrow> 'e edge \<Rightarrow> bool" where
  "reload_post live config w r w' \<longleftrightarrow>
     (case r of
        Inl _ \<Rightarrow> w' = reload_counted w (ed_env w') \<and> live (ed_env w') = live (ed_env w)
      | Inr () \<Rightarrow> \<exists>contexts certificates. w' = reload_applied contexts certificates w (ed_env w') \<and>
          slots_for contexts (cfg_listeners config) \<and> length contexts = length (ed_templates w) \<and>
          handles contexts \<inter> live (ed_env w) = {} \<and>
          live (ed_env w') = (live (ed_env w) - handles (ed_contexts w)) \<union> handles contexts \<and>
          map tc_listener_name certificates = map lc_name (filter lc_tls (cfg_listeners config)))"

lemma reload_failed_post:
  assumes "live e = live (ed_env w)"
  shows "wp (reload_failed error) (reload_post live config w) (w\<lparr>ed_env := e\<rparr>)"
  using assms by (simp add: reload_failed_def wp_simps reload_post_def reload_counted_def)

lemma reload_tls_post:
  assumes "tracks_contexts ol live" and "handles (ed_contexts w) \<subseteq> live (ed_env w)" and "\<exists>l \<in> set (cfg_listeners config). lc_tls l"
  shows "wp (reload_tls ol config) (reload_post live config w) w"
proof -
  have tls: "filter lc_tls (cfg_listeners config) \<noteq> []" using assms(3) by (auto simp: filter_empty_conv)
  have release: "wp (free_contexts ol contexts) (\<lambda>_ e'. wp (reload_failed error) (reload_post live config w) (w\<lparr>ed_env := e'\<rparr>)) e"
    if "live e = live (ed_env w) \<union> handles contexts" "handles contexts \<inter> live (ed_env w) = {}" for contexts error e
    by (rule wp_mono [OF free_contexts_live [OF assms(1)]]) (use that in \<open>auto intro!: reload_failed_post\<close>)
  show ?thesis unfolding reload_tls_def if_not_P [OF tls] wp_simps load_tls_contexts_def
  proof (rule wp_mono [OF load_loop_live [OF assms(1)]], simp, goal_cases)
    case (1 loaded e)
    show ?case
    proof (cases loaded)
      case (Inl error)
      with 1 show ?thesis by (simp add: load_post_def reload_failed_post)
    next
      case (Inr x)
      obtain contexts certificates where x: "x = (contexts, certificates)" by (cases x)
      with 1 Inr have l: "slots_for contexts (cfg_listeners config)" "handles contexts \<inter> live (ed_env w) = {}"
        "live e = live (ed_env w) \<union> handles contexts"
        "map tc_listener_name certificates = map lc_name (filter lc_tls (cfg_listeners config))" by (auto simp: load_post_def)
      have apply_it: "wp (free_contexts ol (ed_contexts w)) (\<lambda>_ e'. reload_post live config w (Inr ()) (reload_applied contexts certificates w e')) e"
        if "length contexts = length (ed_templates w)"
      proof (rule wp_mono [OF free_contexts_live [OF assms(1)]], goal_cases)
        case (1 _ e')
        then have "live e' = (live (ed_env w) - handles (ed_contexts w)) \<union> handles contexts" using l(2,3) assms(2) by blast
        with l that show ?case
          unfolding reload_post_def sum.case unit.case
          by (intro exI [of _ contexts] exI [of _ certificates] conjI) (simp_all add: reload_applied_def)
      qed
      show ?thesis
        using release [OF l(3,2)] apply_it unfolding Inr x
        by (simp add: publish_contexts_spec wp_simps reload_applied_def)
    qed
  qed
qed

text \<open>
  Property C15. Reloading TLS material is all or nothing, and loses no context. Without TLS listeners nothing
  happens. Otherwise a success leaves one slot per listener, filled with a new context exactly for the TLS
  listeners, publishes the certificate dates of those listeners in their order, counts a success and releases
  exactly the contexts it replaced. A failure, at whatever listener and step, changes neither the published
  contexts nor the certificate dates, counts a failure, and releases every context it had created.
\<close>

theorem reload_tls_all_or_nothing:
  assumes "tracks_contexts ol live" and "handles (ed_contexts w) \<subseteq> live (ed_env w)"
    and "run_state (reload_tls ol config) w = (r, w')"
  shows "if \<exists>l \<in> set (cfg_listeners config). lc_tls l then reload_post live config w r w' else r = Inr () \<and> w' = w"
proof (rule ifI)
  assume "\<exists>l \<in> set (cfg_listeners config). lc_tls l"
  from wp_run [OF reload_tls_post [OF assms(1,2) this] assms(3)] show "reload_post live config w r w'" .
next
  assume "\<not> (\<exists>l \<in> set (cfg_listeners config). lc_tls l)"
  then have "filter lc_tls (cfg_listeners config) = []" by (auto simp: filter_empty_conv)
  with assms(3) show "r = Inr () \<and> w' = w" by (auto simp: reload_tls_def)
qed

definition vault_listener :: "string \<Rightarrow> listener_config" where
  "vault_listener path = \<lparr>lc_name = ''edge'', lc_address = ''0.0.0.0:3333'', lc_tls = True, lc_certificate_file = path, lc_private_key_file = ''key.pem''\<rparr>"

definition vault_edge :: "nat list edge" where
  "vault_edge =
     \<lparr>ed_env = [7], ed_templates = [\<lparr>sa_value = [], sa_length = 0, sa_family = 2\<rparr>], ed_limiter = new_rate_limiter,
      ed_contexts = [Some 7], ed_reactors = [], ed_threads = [],
      ed_state = \<lparr>ss_runtime = \<lparr>rs_config = default_config, rs_routing = sample_table\<rparr>, ss_tls_certificates = [], ss_stats = new_stats 0\<rparr>\<rparr>"

definition vault_config :: "string \<Rightarrow> config" where
  "vault_config path = default_config\<lparr>cfg_listeners := [vault_listener path]\<rparr>"

theorem reload_tls_all_or_nothing_witness:
  "reload_post set (vault_config ''chain.pem'') vault_edge (Inr ()) (snd (run_state (reload_tls vault_openssl (vault_config ''chain.pem'')) vault_edge)) \<and>
   reload_post set (vault_config ''other.pem'') vault_edge (Inl (ConfigError ''cannot load TLS certificate chain: other.pem''))
     (snd (run_state (reload_tls vault_openssl (vault_config ''other.pem'')) vault_edge))"
proof -
  have p: "handles (ed_contexts vault_edge) \<subseteq> set (ed_env vault_edge)" by (simp add: vault_edge_def)
  have t: "\<exists>l \<in> set (cfg_listeners (vault_config path)). lc_tls l" for path by (simp add: vault_config_def vault_listener_def)
  have r: "fst (run_state (reload_tls vault_openssl (vault_config ''chain.pem'')) vault_edge) = Inr ()"
    "fst (run_state (reload_tls vault_openssl (vault_config ''other.pem'')) vault_edge) =
       Inl (ConfigError ''cannot load TLS certificate chain: other.pem'')"
    by (simp_all add: reload_tls_def load_tls_contexts_def create_server_context_def certificate_expiry_timestamp_seconds_def
        expiry_of_tm_def throw_context_def edge_do_def reload_failed_def publish_contexts_spec vault_openssl_def
        vault_config_def vault_listener_def vault_edge_def date_ok_def month_days_def Let_def)
  note post = reload_tls_all_or_nothing [OF vault_tracks p surjective_pairing, where config = "vault_config _", unfolded if_P [OF t]]
  show ?thesis using post [of "''chain.pem''"] post [of "''other.pem''"] unfolding r by blast
qed

section \<open>What construction leaves behind\<close>

text \<open>Actions of one interface keep what belongs to the other.\<close>

definition os_keeps :: "('e \<Rightarrow> bool) \<Rightarrow> 'e os \<Rightarrow> bool" where
  "os_keeps I os \<longleftrightarrow>
     keeps I (os_epoll_create os) \<and> keeps I (os_now os) \<and> (\<forall>f. keeps I (os_socket os f)) \<and> (\<forall>v. keeps I (os_close os v)) \<and>
     (\<forall>v opt x. keeps I (os_setsockopt os v opt x)) \<and> (\<forall>v a. keeps I (os_bind os v a)) \<and> (\<forall>v n. keeps I (os_listen os v n)) \<and>
     (\<forall>v m t. keeps I (os_epoll_add os v m t))"

definition ol_keeps :: "('e \<Rightarrow> bool) \<Rightarrow> 'e openssl \<Rightarrow> bool" where
  "ol_keeps I ol \<longleftrightarrow>
     keeps I (ol_ctx_new ol) \<and> (\<forall>ctx. keeps I (ol_ctx_free ol ctx) \<and> keeps I (ol_set_min_tls12 ol ctx) \<and>
       keeps I (ol_session_cache_off ol ctx) \<and> keeps I (ol_check_key ol ctx) \<and> keeps I (ol_not_after ol ctx) \<and>
       (\<forall>options. keeps I (ol_set_options ol ctx options)) \<and> (\<forall>modes. keeps I (ol_set_mode ol ctx modes)) \<and>
       (\<forall>path. keeps I (ol_use_chain_file ol ctx path) \<and> keeps I (ol_use_key_file ol ctx path)))"

lemma os_keepsD:
  assumes "os_keeps I os"
  shows "keeps I (os_epoll_create os)" "keeps I (os_now os)" "keeps I (os_socket os f)" "keeps I (os_close os v)"
    "keeps I (os_setsockopt os v opt x)" "keeps I (os_bind os v a)" "keeps I (os_listen os v n)" "keeps I (os_epoll_add os v m t)"
  using assms by (simp_all add: os_keeps_def)

lemma ol_keepsD:
  assumes "ol_keeps I ol"
  shows "keeps I (ol_ctx_new ol)" "keeps I (ol_ctx_free ol ctx)" "keeps I (ol_set_min_tls12 ol ctx)"
    "keeps I (ol_session_cache_off ol ctx)" "keeps I (ol_check_key ol ctx)" "keeps I (ol_not_after ol ctx)"
    "keeps I (ol_set_options ol ctx options)" "keeps I (ol_set_mode ol ctx modes)" "keeps I (ol_use_chain_file ol ctx path)"
    "keeps I (ol_use_key_file ol ctx path)"
  using assms by (simp_all add: ol_keeps_def)

lemma fd_destroy_os: "os_keeps I os \<Longrightarrow> keeps I (fd_destroy os v)"
  unfolding fd_destroy_def fd_reset_def by (intro keeps_intros os_keepsD)

lemma destroy_all_os: "os_keeps I os \<Longrightarrow> keeps I (destroy_all os vs)"
  by (induction vs) (auto intro!: keeps_intros fd_destroy_os)

lemma create_listener_os: "os_keeps I os \<Longrightarrow> keeps I (create_listener os address backlog reuse)"
  unfolding create_listener_def listener_error_def by (intro keeps_intros os_keepsD fd_destroy_os)

lemma create_listeners_os: "os_keeps I os \<Longrightarrow> keeps I (create_listeners os contexts made addresses)"
  by (induction addresses arbitrary: made)
    (auto simp: Let_def intro!: keeps_intros os_keepsD fd_destroy_os destroy_all_os create_listener_os split: sum.splits)

lemma new_reactor_action:
  "State (new_reactor d listeners contexts state limiter worker backends) =
     do {
       created \<leftarrow> os_epoll_create (d_os d);
       t \<leftarrow> os_now (d_os d);
       case created of
         Inl error_number \<Rightarrow> State_Monad.return (Inl (IoError (''epoll_create1: '' @ os_strerror (d_os d) error_number)))
       | Inr epoll \<Rightarrow>
           do {
             made \<leftarrow> create_listeners (d_os d) contexts [] listeners;
             e \<leftarrow> State_Monad.get;
             case made of
               Inl error \<Rightarrow> do { fd_destroy (d_os d) epoll; State_Monad.return (Inl error) }
             | Inr made \<Rightarrow>
                 State_Monad.return (Inr
                   \<lparr>re_env = e, re_epoll = epoll, re_state = state, re_tls = contexts, re_limiter = limiter,
                    re_worker = worker, re_backends = backends, re_listeners = made, re_sessions = [],
                    re_wheel = wheel_new t, re_next_session_id = 1, re_route_sequence = 0, re_source_sequence = 0,
                    re_session = new_session (ss_runtime state), re_fault = False\<rparr>)
           }
     }"
  by (rule state_ext) (simp add: new_reactor_def)

lemma keeps_get [keeps_intros]: "keeps I State_Monad.get"
  by (simp add: keeps_def wp_def State_Monad.get_def)

lemma new_reactor_os: "os_keeps I (d_os d) \<Longrightarrow> keeps I (State (new_reactor d listeners contexts state limiter worker backends))"
  unfolding new_reactor_action by (intro keeps_intros os_keepsD fd_destroy_os create_listeners_os)

lemma create_reactors_os:
  assumes "os_keeps I (d_os d)"
  shows "keeps I (create_reactors d w backends made indices)"
proof -
  have "keeps I (destroy_reactors (d_os d) rs)" for rs
    by (induction rs) (auto simp: destroy_reactor_def intro!: keeps_intros fd_destroy_os destroy_all_os assms)
  then show ?thesis
    by (induction indices arbitrary: made) (auto intro!: keeps_intros new_reactor_os assms split: sum.splits)
qed

lemma free_contexts_ol: "ol_keeps I ol \<Longrightarrow> keeps I (free_contexts ol contexts)"
proof (induction contexts)
  case (Cons slot contexts)
  then show ?case by (cases slot) (auto intro!: keeps_intros ol_keepsD)
qed (simp add: keeps_return)

lemma create_server_context_ol: "ol_keeps I ol \<Longrightarrow> keeps I (create_server_context ol certificate key)"
  unfolding create_server_context_def throw_context_def by (intro keeps_intros ol_keepsD)

lemma load_loop_ol: "ol_keeps I ol \<Longrightarrow> keeps I (load_loop ol contexts certificates listeners)"
  by (induction listeners arbitrary: contexts certificates)
    (auto simp: certificate_expiry_timestamp_seconds_def intro!: keeps_intros ol_keepsD free_contexts_ol create_server_context_ol split: sum.splits)

subsection \<open>Descriptors\<close>

definition tracks_epoll :: "'e os \<Rightarrow> ('e \<Rightarrow> fd set) \<Rightarrow> bool" where
  "tracks_epoll os opened \<longleftrightarrow> tracks_descriptors os opened \<and> (\<forall>v m t. neutral opened (os_epoll_add os v m t))"

lemma tracks_epollD:
  assumes "tracks_epoll os opened"
  shows "tracks_descriptors os opened" and "opens opened (os_epoll_create os) (\<lambda>v. v)" and "neutral opened (os_epoll_add os v m t)"
  using assms by (simp_all add: tracks_epoll_def tracks_descriptors_def)

lemma destroy_all_wp:
  assumes "tracks_descriptors os opened" and "\<forall>v \<in> set vs. fd_valid v" and "\<And>e'. opened e' = opened e - set vs \<Longrightarrow> Q () e'"
  shows "wp (destroy_all os vs) Q e"
  using assms(2,3)
proof (induction vs arbitrary: e)
  case (Cons v vs)
  show ?case unfolding destroy_all.simps wp_simps
    by (rule fd_destroy_wp [OF assms(1)], rule Cons.IH) (use Cons.prems in \<open>auto simp: Diff_insert2 [of _ v "set vs"]\<close>)
qed (simp add: wp_simps)

lemma create_listener_wp:
  assumes t: "tracks_descriptors os opened"
    and bad: "\<And>m e'. opened e' = opened e \<Longrightarrow> Q (Inl m) e'"
    and good: "\<And>v e'. fd_valid v \<Longrightarrow> v \<notin> opened e \<Longrightarrow> opened e' = insert v (opened e) \<Longrightarrow> Q (Inr v) e'"
  shows "wp (create_listener os address backlog reuse) Q e"
  unfolding create_listener_def wp_simps
proof (rule tracks_wp(7) [OF t], goal_cases)
  case (1 error e')
  then show ?case by (simp add: wp_simps bad)
next
  case (2 v e')
  have err: "wp (listener_error os v call error) Q e''" if "opened e'' = opened e'" for call error e''
    unfolding listener_error_def wp_simps by (rule fd_destroy_wp [OF t]) (use 2 that in \<open>auto intro!: bad simp: fd_valid_def\<close>)
  have fin: "Q (Inr v) e''" if "opened e'' = opened e'" for e'' by (rule good) (use 2 that in \<open>simp_all add: fd_valid_def\<close>)
  show ?case
    by (auto simp: wp_simps split: sum.splits intro!: err fin bind_source_wp [OF t] tracks_wp(2,3,4) [OF t])
qed

definition sockets :: "listener_state list \<Rightarrow> fd set" where
  "sockets ls = ls_socket ` set ls"

text \<open>The listeners made for the addresses, the first one having the given index.\<close>

definition listening :: "tls_context_store \<Rightarrow> nat \<Rightarrow> listener_state list \<Rightarrow> bool" where
  "listening contexts first ls \<longleftrightarrow>
     (\<forall>i < length ls. fd_valid (ls_socket (ls ! i)) \<and> ls_registered (ls ! i) \<and>
        (ls_tls_enabled (ls ! i) \<longleftrightarrow> context_for contexts (first + i) \<noteq> None))"

lemma sockets_valid: "listening contexts first ls \<Longrightarrow> v \<in> sockets ls \<Longrightarrow> fd_valid v"
  by (auto simp: listening_def sockets_def in_set_conv_nth)

definition listeners_post :: "('e \<Rightarrow> fd set) \<Rightarrow> 'e \<Rightarrow> tls_context_store \<Rightarrow> listener_state list \<Rightarrow> socket_address list \<Rightarrow>
    listener_state list result \<Rightarrow> 'e \<Rightarrow> bool" where
  "listeners_post opened e contexts made addresses r e' \<longleftrightarrow>
     (case r of
        Inl _ \<Rightarrow> opened e' = opened e - sockets made
      | Inr ls \<Rightarrow> \<exists>fresh. ls = made @ fresh \<and> length fresh = length addresses \<and> listening contexts (length made) fresh \<and>
          sockets fresh \<inter> opened e = {} \<and> opened e' = opened e \<union> sockets fresh)"

lemma listeners_post_Cons:
  assumes "listeners_post opened e1 contexts (made @ [l]) addresses r e'" and "opened e1 = insert (ls_socket l) (opened e)"
    and "ls_socket l \<notin> opened e" and "listening contexts (length made) [l]"
  shows "listeners_post opened e contexts made (address # addresses) r e'"
proof (cases r)
  case (Inl m)
  with assms show ?thesis by (auto simp: listeners_post_def sockets_def)
next
  case (Inr ls)
  with assms(1) obtain fresh where f: "ls = (made @ [l]) @ fresh" "length fresh = length addresses" "listening contexts (Suc (length made)) fresh"
    "sockets fresh \<inter> opened e1 = {}" "opened e' = opened e1 \<union> sockets fresh" by (auto simp: listeners_post_def)
  have "listening contexts (length made) (l # fresh)"
    using assms(4) f(3) by (auto simp: listening_def nth_Cons split: nat.splits)
  then show ?thesis
    using f assms(2,3) Inr by (auto simp: listeners_post_def sockets_def intro!: exI [of _ "l # fresh"])
qed

lemma create_listeners_wp:
  assumes t: "tracks_epoll os opened" and "\<forall>v \<in> sockets made. fd_valid v" and "sockets made \<subseteq> opened e"
  shows "wp (create_listeners os contexts made addresses) (listeners_post opened e contexts made addresses) e"
  using assms(2,3)
proof (induction addresses arbitrary: made e)
  case Nil
  then show ?case by (simp add: wp_simps listeners_post_def listening_def sockets_def)
next
  case (Cons address addresses)
  note td = tracks_epollD [OF t]
  let ?P = "listeners_post opened e contexts made (address # addresses)"
  have undo: "wp (destroy_all os (map ls_socket made)) (\<lambda>_. ?P (Inl m)) e'" if "opened e' = opened e" for m e'
    by (rule destroy_all_wp [OF td(1)]) (use that Cons.prems(1) in \<open>auto simp: listeners_post_def sockets_def\<close>)
  show ?case unfolding create_listeners.simps wp_simps Let_def
  proof (rule create_listener_wp [OF td(1)], goal_cases)
    case (1 m e')
    then show ?case by (simp add: wp_simps undo)
  next
    case (2 v e1)
    let ?l = "\<lparr>ls_socket = v, ls_tls_enabled = context_for contexts (length made) \<noteq> None, ls_registered = True, ls_resume_at = 0\<rparr>"
    have step: "wp (create_listeners os contexts (made @ [?l]) addresses) ?P e2" if "opened e2 = opened e1" for e2
    proof (rule wp_mono [OF Cons.IH])
      show "\<forall>v \<in> sockets (made @ [?l]). fd_valid v" "sockets (made @ [?l]) \<subseteq> opened e2"
        using Cons.prems 2 that by (auto simp: sockets_def)
      show "?P r e'" if p: "listeners_post opened e2 contexts (made @ [?l]) addresses r e'" for r e'
        by (rule listeners_post_Cons [OF p]) (use 2 \<open>opened e2 = opened e1\<close> in \<open>simp_all add: listening_def\<close>)
    qed
    show ?case unfolding sum.case wp_simps
    proof (rule neutral_wp [OF td(3)], goal_cases)
      case (1 added e2)
      have "wp (fd_destroy os v) (\<lambda>_. wp (destroy_all os (map ls_socket made)) (\<lambda>_. ?P (Inl m))) e2" for m
        by (rule fd_destroy_wp [OF td(1)], rule undo) (use 1 2 in auto)
      with step [OF 1] show ?case by (cases added) (simp_all add: wp_simps)
    qed
  qed
qed

definition reactor_fds :: "'e reactor \<Rightarrow> fd set" where
  "reactor_fds r = insert (re_epoll r) (sockets (re_listeners r))"

text \<open>A reactor as constructed: no session, one registered listener per address.\<close>

definition ready_reactor :: "tls_context_store \<Rightarrow> nat \<Rightarrow> 'e reactor \<Rightarrow> bool" where
  "ready_reactor contexts how_many r \<longleftrightarrow>
     re_sessions r = [] \<and> re_tls r = contexts \<and> length (re_listeners r) = how_many \<and> listening contexts 0 (re_listeners r) \<and>
     fd_valid (re_epoll r)"

lemma destroy_reactor_wp:
  assumes "tracks_epoll os opened" and "ready_reactor contexts n r" and "\<And>e'. opened e' = opened e - reactor_fds r \<Longrightarrow> Q () e'"
  shows "wp (destroy_reactor os r) Q e"
  unfolding destroy_reactor_def wp_simps
proof (rule destroy_all_wp [OF tracks_epollD(1) [OF assms(1)]], goal_cases)
  case 1
  show ?case using assms(2) sockets_valid [of contexts 0 "re_listeners r"] by (simp add: ready_reactor_def sockets_def)
next
  case (2 e1)
  show ?case
    by (rule fd_destroy_wp [OF tracks_epollD(1) [OF assms(1)]])
      (use 2 assms(2) in \<open>auto simp: ready_reactor_def reactor_fds_def sockets_def Diff_insert [of _ "re_epoll r" "ls_socket ` set (re_listeners r)"] intro!: assms(3)\<close>)
qed

lemma destroy_reactors_wp:
  assumes "tracks_epoll os opened" and "\<forall>r \<in> set rs. ready_reactor contexts n r"
  shows "wp (destroy_reactors os rs) (\<lambda>_ e'. opened e' = opened e - \<Union> (reactor_fds ` set rs)) e"
  using assms(2)
proof (induction rs arbitrary: e)
  case (Cons r rs)
  show ?case unfolding destroy_reactors.simps wp_simps
    by (rule destroy_reactor_wp [OF assms(1)], use Cons.prems in auto, rule wp_mono [OF Cons.IH]) (use Cons.prems in auto)
qed (simp add: wp_simps)

lemma new_reactor_wp:
  assumes t: "tracks_epoll (d_os d) opened"
    and bad: "\<And>m e'. opened e' = opened e \<Longrightarrow> Q (Inl m) e'"
    and good: "\<And>r e'. ready_reactor contexts (length listeners) r \<Longrightarrow> reactor_fds r \<inter> opened e = {} \<Longrightarrow>
        opened e' = opened e \<union> reactor_fds r \<Longrightarrow> Q (Inr r) e'"
  shows "wp (State (new_reactor d listeners contexts state limiter worker backends)) Q e"
  unfolding new_reactor_action wp_simps
proof (rule opens_wp [OF tracks_epollD(2) [OF t]], goal_cases)
  case (1 error e1)
  show ?case by (rule neutral_wp [OF tracksD(3) [OF tracks_epollD(1) [OF t]]]) (use 1 in \<open>simp add: wp_simps bad\<close>)
next
  case (2 epoll e1)
  show ?case
  proof (rule neutral_wp [OF tracksD(3) [OF tracks_epollD(1) [OF t]]], unfold sum.case wp_simps,
      rule wp_mono [OF create_listeners_wp [OF t]], goal_cases)
    case (3 time e2 made e3)
    have o: "opened e2 = insert epoll (opened e)" "epoll \<notin> opened e" "fd_valid epoll" using 2 3 by (simp_all add: fd_valid_def)
    show ?case
    proof (cases made)
      case (Inl m)
      then have "wp (fd_destroy (d_os d) epoll) (\<lambda>_. Q (Inl m)) e3"
        using 3 o by (intro fd_destroy_wp [OF tracks_epollD(1) [OF t]] bad) (auto simp: listeners_post_def sockets_def)
      with Inl show ?thesis by (simp add: wp_simps wp_def State_Monad.get_def)
    next
      case (Inr ls)
      with 3 o show ?thesis
        by (auto simp: wp_def State_Monad.get_def listeners_post_def ready_reactor_def reactor_fds_def intro!: good)
    qed
  qed (simp_all add: sockets_def)
qed

definition reactors_post :: "('e \<Rightarrow> fd set) \<Rightarrow> 'e \<Rightarrow> 'e edge \<Rightarrow> 'e reactor list \<Rightarrow> nat list \<Rightarrow> 'e reactor list result \<Rightarrow> 'e \<Rightarrow> bool" where
  "reactors_post opened e w made indices r e' \<longleftrightarrow>
     (case r of
        Inl _ \<Rightarrow> opened e' = opened e - \<Union> (reactor_fds ` set made)
      | Inr rs \<Rightarrow> \<exists>fresh. rs = made @ fresh \<and> length fresh = length indices \<and>
          (\<forall>r \<in> set fresh. ready_reactor (ed_contexts w) (length (ed_templates w)) r) \<and>
          \<Union> (reactor_fds ` set fresh) \<inter> opened e = {} \<and> opened e' = opened e \<union> \<Union> (reactor_fds ` set fresh))"

lemma create_reactors_wp:
  assumes t: "tracks_epoll (d_os d) opened" and "\<forall>r \<in> set made. ready_reactor (ed_contexts w) (length (ed_templates w)) r"
  shows "wp (create_reactors d w backends made indices) (reactors_post opened e w made indices) e"
  using assms(2)
proof (induction indices arbitrary: made e)
  case Nil
  then show ?case by (simp add: wp_simps reactors_post_def)
next
  case (Cons index indices)
  show ?case unfolding create_reactors.simps wp_simps
  proof (rule new_reactor_wp [OF t], goal_cases)
    case (1 m e')
    then show ?case
      by (simp add: wp_simps) (rule wp_mono [OF destroy_reactors_wp [OF t Cons.prems]], simp add: reactors_post_def)
  next
    case (2 r e1)
    show ?case unfolding sum.case
    proof (rule wp_mono [OF Cons.IH], goal_cases)
      case (2 res e')
      show ?case
      proof (cases res)
        case (Inl m)
        with 2 \<open>reactor_fds r \<inter> opened e = {}\<close> \<open>opened e1 = opened e \<union> reactor_fds r\<close> show ?thesis by (auto simp: reactors_post_def)
      next
        case (Inr rs)
        with 2 obtain fresh where "rs = (made @ [r]) @ fresh" "length fresh = length indices"
          "\<forall>r \<in> set fresh. ready_reactor (ed_contexts w) (length (ed_templates w)) r"
          "\<Union> (reactor_fds ` set fresh) \<inter> opened e1 = {}" "opened e' = opened e1 \<union> \<Union> (reactor_fds ` set fresh)"
          by (auto simp: reactors_post_def)
        with Inr \<open>ready_reactor (ed_contexts w) (length (ed_templates w)) r\<close> \<open>reactor_fds r \<inter> opened e = {}\<close> \<open>opened e1 = opened e \<union> reactor_fds r\<close>
        show ?thesis unfolding reactors_post_def Inr sum.case by (intro exI [of _ "r # fresh"]) auto
      qed
    qed (use 2 Cons.prems in auto)
  qed
qed

subsection \<open>The server\<close>

definition tracks_process :: "'e os \<Rightarrow> 'e openssl \<Rightarrow> ('e \<Rightarrow> fd set) \<Rightarrow> ('e \<Rightarrow> ssl_context set) \<Rightarrow> bool" where
  "tracks_process os ol opened live \<longleftrightarrow>
     tracks_epoll os opened \<and> tracks_contexts ol live \<and> (\<forall>x. os_keeps (\<lambda>e. live e = x) os) \<and> (\<forall>x. ol_keeps (\<lambda>e. opened e = x) ol)"

definition serves :: "config \<Rightarrow> 'e reactor \<Rightarrow> bool" where
  "serves config r \<longleftrightarrow> re_sessions r = [] \<and>
     list_all2 (\<lambda>s l. ls_registered s \<and> fd_valid (ls_socket s) \<and> (ls_tls_enabled s \<longleftrightarrow> lc_tls l)) (re_listeners r) (cfg_listeners config)"

definition server_post :: "('e \<Rightarrow> fd set) \<Rightarrow> ('e \<Rightarrow> ssl_context set) \<Rightarrow> 'e \<Rightarrow> machine \<Rightarrow> config \<Rightarrow> unit result \<Rightarrow> 'e edge \<Rightarrow> bool" where
  "server_post opened live e m config r w \<longleftrightarrow>
     (case r of
        Inl _ \<Rightarrow> opened (ed_env w) = opened e \<and> live (ed_env w) = live e
      | Inr _ \<Rightarrow>
          length (ed_reactors w) = server_worker_count m config \<and>
          worker_count (ss_stats (ed_state w)) = server_worker_count m config \<and>
          io_workers (ss_stats (ed_state w)) = server_worker_count m config \<and>
          slots_for (ed_contexts w) (cfg_listeners config) \<and> (\<forall>r \<in> set (ed_reactors w). serves config r) \<and>
          handles (ed_contexts w) \<inter> live e = {} \<and> live (ed_env w) = live e \<union> handles (ed_contexts w) \<and>
          \<Union> (reactor_fds ` set (ed_reactors w)) \<inter> opened e = {} \<and>
          opened (ed_env w) = opened e \<union> \<Union> (reactor_fds ` set (ed_reactors w)))"

lemma listener_templates_length: "listener_templates getaddrinfo listeners = Inr templates \<Longrightarrow> length templates = length listeners"
  by (induction listeners arbitrary: templates) (auto simp: and_then_Inr_iff)

lemma ready_serves:
  assumes "slots_for contexts (cfg_listeners config)" and "ready_reactor contexts (length (cfg_listeners config)) r"
  shows "serves config r"
  using assms
  by (auto simp: serves_def ready_reactor_def listening_def slots_for_def list_all2_conv_all_nth context_for_def)

lemma wp_get [wp_simps]: "wp State_Monad.get Q = (\<lambda>s. Q s s)"
  by (simp add: wp_def State_Monad.get_def fun_eq_iff)

lemma wp_stats_set: "wp (stats_set f) Q = (\<lambda>w. Q () (w\<lparr>ed_state := (ed_state w)\<lparr>ss_stats := f (ss_stats (ed_state w))\<rparr>\<rparr>))"
  by (simp add: stats_set_def wp_simps)

lemma tracks_processD:
  assumes "tracks_process os ol opened live"
  shows "tracks_epoll os opened" "tracks_contexts ol live" "os_keeps (\<lambda>e. live e = x) os" "ol_keeps (\<lambda>e. opened e = y) ol"
  using assms by (simp_all add: tracks_process_def)

lemma create_workers_post:
  assumes t: "tracks_process (d_os d) ol opened live" and "workers (ss_stats (ed_state w)) = []"
    and templates: "length (ed_templates w) = length (cfg_listeners config)"
    and c: "slots_for (ed_contexts w) (cfg_listeners config)" "handles (ed_contexts w) \<inter> live e = {}"
      "live (ed_env w) = live e \<union> handles (ed_contexts w)" "opened (ed_env w) = opened e"
  shows "wp (create_workers d ol backends (server_worker_count m config)) (server_post opened live e m config) w"
proof -
  note td = tracks_processD [OF t]
  let ?n = "server_worker_count m config"
  define v where "v = w\<lparr>ed_state := (ed_state w)\<lparr>ss_stats := initialize_workers (ss_stats (ed_state w)) ?n\<rparr>\<rparr>"
  have v: "ed_env v = ed_env w" "ed_contexts v = ed_contexts w" "ed_templates v = ed_templates w"
    "length (workers (ss_stats (ed_state v))) = ?n" using assms(2) by (simp_all add: v_def initialize_workers_def)
  show ?thesis unfolding create_workers_def wp_simps wp_stats_set v_def [symmetric]
  proof (rule wp_mono [OF wp_conj [OF create_reactors_wp [OF td(1)] keepsD [OF create_reactors_os [OF td(3)], where s = "ed_env v", OF refl]]], simp, goal_cases)
    case (1 created e2)
    show ?case
    proof (cases created)
      case (Inl error)
      with 1 c v have "opened e2 = opened e" "live e2 = live e \<union> handles (ed_contexts v)" by (simp_all add: reactors_post_def)
      then have "wp (free_contexts ol (ed_contexts v)) (\<lambda>_ e3. live e3 = live e \<and> opened e3 = opened e) e2"
        using c(2) v(2) wp_conj [OF free_contexts_live [OF td(2), of "ed_contexts v" e2] keepsD [OF free_contexts_ol [OF td(4)], where s = e2, OF refl]]
        by (auto elim!: wp_mono)
      then have "wp (free_contexts ol (ed_contexts v)) (\<lambda>_ e3. server_post opened live e m config (Inl error) (v\<lparr>ed_env := e3, ed_contexts := []\<rparr>)) e2"
        by (rule wp_mono) (simp add: server_post_def)
      then show ?thesis unfolding Inl sum.case wp_simps by simp
    next
      case (Inr reactors)
      with 1 c v templates have "length reactors = ?n" "\<forall>r \<in> set reactors. serves config r" "live e2 = live e \<union> handles (ed_contexts v)"
        "\<Union> (reactor_fds ` set reactors) \<inter> opened e = {}" "opened e2 = opened e \<union> \<Union> (reactor_fds ` set reactors)"
        by (auto simp: reactors_post_def intro: ready_serves)
      with c v show ?thesis
        unfolding Inr sum.case wp_simps wp_stats_set by (simp add: server_post_def worker_count_def)
    qed
  qed
qed

lemma construct_server_post:
  assumes t: "tracks_process (d_os d) ol opened live" and s: "workers (ss_stats state) = []"
  shows "wp (construct_server d ol getaddrinfo m backends config) (server_post opened live e m config) (empty_runtime e state)"
proof (cases "listener_templates getaddrinfo (cfg_listeners config)")
  case (Inl error)
  then show ?thesis by (simp add: construct_server_def wp_simps server_post_def empty_runtime_def)
next
  case (Inr templates)
  note td = tracks_processD [OF t]
  define w0 where "w0 = (empty_runtime e state)\<lparr>ed_templates := templates\<rparr>"
  have w0: "ed_env w0 = e" "ed_contexts w0 = []" "ed_state w0 = state" "length (ed_templates w0) = length (cfg_listeners config)"
    by (simp_all add: w0_def empty_runtime_def listener_templates_length [OF Inr])
  show ?thesis unfolding construct_server_def Inr sum.case wp_simps load_tls_contexts_def w0_def [symmetric]
  proof (rule wp_mono [OF wp_conj [OF load_loop_live [OF td(2)] keepsD [OF load_loop_ol [OF td(4)], where s = "ed_env w0", OF refl]]], simp, goal_cases)
    case (1 loaded e1)
    show ?case
    proof (cases loaded)
      case l: (Inl error)
      with 1 w0 show ?thesis by (simp add: wp_simps server_post_def load_post_def)
    next
      case l: (Inr x)
      obtain contexts certificates where x: "x = (contexts, certificates)" by (cases x)
      with 1 l w0 have c: "slots_for contexts (cfg_listeners config)" "handles contexts \<inter> live e = {}" "live e1 = live e \<union> handles contexts"
        "opened e1 = opened e" by (auto simp: load_post_def)
      have p: "publish_contexts contexts (ed_contexts (w0\<lparr>ed_env := e1\<rparr>)) = Inr contexts" by (simp add: publish_contexts_spec w0)
      show ?thesis unfolding l x sum.case prod.case p wp_simps
        by (rule create_workers_post [OF t]) (use c w0 s in simp_all)
    qed
  qed
qed

section \<open>Properties\<close>

text \<open>
  Property C16. Constructing the server is all or nothing. With fresh statistics, a successful construction
  has as many reactors as \<^verbatim>\<open>worker_count\<close> says, and as many worker statistics; every reactor listens, without sessions, on one registered
  socket per configured listener, with TLS exactly where the configuration asks for it; the contexts published are
  those of the TLS listeners, and the descriptors opened are exactly those of the reactors. A construction that throws, at whatever step,
  leaves no descriptor open and no context alive that was not there before.
\<close>

theorem construct_server_all_or_nothing:
  assumes "tracks_process (d_os d) ol opened live" and "workers (ss_stats state) = []"
    and "run_state (construct_server d ol getaddrinfo m backends config) (empty_runtime e state) = (r, w)"
  shows "case r of
     Inl _ \<Rightarrow> opened (ed_env w) = opened e \<and> live (ed_env w) = live e
   | Inr _ \<Rightarrow>
       length (ed_reactors w) = server_worker_count m config \<and> worker_count (ss_stats (ed_state w)) = server_worker_count m config \<and>
       slots_for (ed_contexts w) (cfg_listeners config) \<and>
       (\<forall>r \<in> set (ed_reactors w). re_sessions r = [] \<and>
          list_all2 (\<lambda>s l. ls_registered s \<and> fd_valid (ls_socket s) \<and> (ls_tls_enabled s \<longleftrightarrow> lc_tls l)) (re_listeners r) (cfg_listeners config)) \<and>
       live (ed_env w) = live e \<union> handles (ed_contexts w) \<and>
       opened (ed_env w) = opened e \<union> \<Union> (reactor_fds ` set (ed_reactors w))"
  using wp_run [OF construct_server_post [OF assms(1,2)] assms(3)]
  by (cases r) (simp_all add: server_post_def serves_def)

text \<open>An OpenSSL that can create no context, beside the operating system on which nothing arrives.\<close>

definition bare_openssl :: "idle_state openssl" where
  "bare_openssl =
     \<lparr>ol_ctx_new = idle_call None, ol_set_min_tls12 = (\<lambda>_. idle_call ()), ol_set_options = (\<lambda>_ _. idle_call ()),
      ol_session_cache_off = (\<lambda>_. idle_call ()), ol_set_mode = (\<lambda>_ _. idle_call ()),
      ol_use_chain_file = (\<lambda>_ _. idle_call False), ol_use_key_file = (\<lambda>_ _. idle_call False),
      ol_check_key = (\<lambda>_. idle_call False), ol_not_after = (\<lambda>_. idle_call None), ol_ctx_free = (\<lambda>_. idle_call ())\<rparr>"

definition idle_deps :: "(idle_state, unit) deps" where
  "idle_deps = \<lparr>d_os = idle_os, d_glaze = sample_glaze, d_order = id\<rparr>"

lemma idle_tracks_process: "tracks_process (d_os idle_deps) bare_openssl (\<lambda>e. set (idle_open e)) (\<lambda>_. {})"
proof -
  have "tracks_epoll idle_os (\<lambda>e. set (idle_open e))"
    unfolding tracks_epoll_def using idle_tracks by (simp add: idle_os_def neutral_def)
  then show ?thesis
    by (simp add: tracks_process_def idle_deps_def tracks_contexts_def os_keeps_def ol_keeps_def bare_openssl_def stays_def keeps_def wp_def)
qed

definition plain_config :: config where
  "plain_config = default_config\<lparr>cfg_listeners := [\<lparr>lc_name = ''edge'', lc_address = ''10.0.0.1:3333'', lc_tls = False,
     lc_certificate_file = [], lc_private_key_file = []\<rparr>], cfg_io_workers := 1\<rparr>"

definition plain_server :: "unit result \<times> idle_state edge" where
  "plain_server = run_state (construct_server idle_deps bare_openssl one_address_resolver
     \<lparr>mc_hardware_concurrency = 4, mc_affinity = None, mc_cpu_max = None\<rparr> [] plain_config)
     (empty_runtime \<lparr>idle_clock = 0, idle_open = []\<rparr> quiet_state)"

lemma plain_templates: "\<exists>a. listener_templates one_address_resolver (cfg_listeners plain_config) = Inr [a]"
  by (simp add: plain_config_def parse_sample_address resolve_endpoints_def resolve_addresses_def one_address_resolver_def sockaddr_bytes_def Let_def)

lemma idle_os_simps:
  "os_now idle_os = tick idle_clock id" "os_socket idle_os f = tick (\<lambda>e. Inr (idle_next e)) idle_open_fd"
  "os_setsockopt idle_os v opt x = idle_call (Inr ())" "os_bind idle_os v a = idle_call (Inr ())" "os_listen idle_os v n = idle_call (Inr ())"
  "os_epoll_create idle_os = tick (\<lambda>e. Inr (idle_next e)) idle_open_fd" "os_epoll_add idle_os v m t = idle_call (Inr ())"
  by (simp_all add: idle_os_def)

lemma wp_tick: "wp (tick r f) Q = (\<lambda>e. Q (r e) (f (e\<lparr>idle_clock := idle_clock e + 1\<rparr>)))"
  by (simp add: wp_def fun_eq_iff)

lemma idle_listener: "wp (create_listener idle_os address backlog reuse) (\<lambda>r _. \<not> isl r) e"
  unfolding create_listener_def by (simp add: idle_os_simps wp_simps wp_tick)

lemma idle_listeners: "wp (create_listeners idle_os contexts made addresses) (\<lambda>r _. \<not> isl r) e"
proof (induction addresses arbitrary: made e)
  case (Cons address addresses)
  show ?case unfolding create_listeners.simps wp_simps
    by (rule wp_mono [OF idle_listener]) (auto simp: idle_os_simps wp_simps wp_tick Cons.IH split: sum.splits)
qed (simp add: wp_simps)

lemma idle_reactors: "wp (create_reactors idle_deps w backends made indices) (\<lambda>r _. \<not> isl r) e"
proof (induction indices arbitrary: made e)
  case (Cons index indices)
  have "wp (State (new_reactor idle_deps listeners contexts state limiter worker backends)) (\<lambda>r _. \<not> isl r) e"
    for listeners contexts state limiter worker e
    unfolding new_reactor_action
    by (simp add: idle_deps_def idle_os_simps wp_simps wp_tick) (rule wp_mono [OF idle_listeners], auto simp: wp_simps split: sum.splits)
  then show ?case unfolding create_reactors.simps wp_simps
    by (rule wp_mono) (auto simp: Cons.IH split: sum.splits)
qed (simp add: wp_simps)

lemma plain_server_succeeds: "fst plain_server = Inr ()"
proof -
  obtain a where t: "listener_templates one_address_resolver (cfg_listeners plain_config) = Inr [a]" using plain_templates by blast
  have l: "load_tls_contexts bare_openssl plain_config = State_Monad.return (Inr ([None], []))"
    by (simp add: load_tls_contexts_def plain_config_def)
  have "wp (construct_server idle_deps bare_openssl one_address_resolver m [] plain_config) (\<lambda>r _. \<not> isl r) (empty_runtime e state)" for m e state
    unfolding construct_server_def t sum.case l create_workers_def wp_simps wp_stats_set
    by (simp add: empty_runtime_def publish_contexts_spec wp_simps wp_stats_set) (rule wp_mono [OF idle_reactors], auto simp: wp_simps wp_stats_set split: sum.splits)
  then have "\<not> isl (fst plain_server)" by (simp add: plain_server_def wp_def case_prod_beta)
  then show ?thesis by (cases "fst plain_server") auto
qed

theorem construct_server_all_or_nothing_witness:
  "fst plain_server = Inr () \<and> length (ed_reactors (snd plain_server)) = 1 \<and>
   set (idle_open (ed_env (snd plain_server))) = \<Union> (reactor_fds ` set (ed_reactors (snd plain_server)))"
proof -
  have w: "workers (ss_stats quiet_state) = []" by (simp add: quiet_state_def new_stats_def)
  have n: "server_worker_count m plain_config = 1" for m by (simp add: server_worker_count_def plain_config_def)
  have "plain_server = (Inr (), snd plain_server)" using plain_server_succeeds by (metis prod.collapse)
  note run = this [unfolded plain_server_def]
  show ?thesis
    using construct_server_all_or_nothing [OF idle_tracks_process w run] plain_server_succeeds
    by (simp add: n plain_server_def [symmetric])
qed

text \<open>The processor limits of the machine; the quota of a control group is rounded up to whole processors.\<close>

definition cpu_limits :: "machine \<Rightarrow> nat set" where
  "cpu_limits m =
     {32, max (mc_hardware_concurrency m) 1} \<union>
     {nat n | n. mc_affinity m = Some n \<and> 0 < n} \<union>
     {nat \<lceil>of_nat quota / of_nat period :: rat\<rceil> | quota period quota_text period_text.
        read_cpu_max (mc_cpu_max m) = Some (quota_text, period_text) \<and> parse_number quota_text = Some quota \<and>
        parse_number period_text = Some period \<and> 0 < quota \<and> 0 < period}"

lemma div_round_up: "0 < p \<Longrightarrow> nat \<lceil>of_nat q / of_nat p :: rat\<rceil> = q div p + (if q mod p \<noteq> 0 then 1 else 0)"
proof -
  assume p: "0 < p"
  have q: "(of_nat q :: rat) = of_nat (q div p) * of_nat p + of_nat (q mod p)" by (metis div_mult_mod_eq of_nat_add of_nat_mult)
  have "\<lceil>of_nat q / of_nat p :: rat\<rceil> = int (q div p) + (if q mod p \<noteq> 0 then 1 else 0)"
  proof (rule ceiling_unique)
    have "(0::rat) < of_nat p" using p by simp
    moreover have "(of_nat (q mod p) :: rat) < of_nat p" using p by simp
    ultimately show "(of_int (int (q div p) + (if q mod p \<noteq> 0 then 1 else 0)) :: rat) - 1 < of_nat q / of_nat p"
      "(of_nat q / of_nat p :: rat) \<le> of_int (int (q div p) + (if q mod p \<noteq> 0 then 1 else 0))"
      by (auto simp: q divide_simps algebra_simps)
  qed
  then show ?thesis by (simp add: nat_add_distrib)
qed

lemma max_is_no_number: "parse_number ''max'' = None"
  by (simp add: parse_number_def from_chars_def is_digit_def)

text \<open>
  Property C17. Without a configured number of workers, as many workers run as the most restrictive of the limits of the
  machine allows: the hardware threads, the affinity mask when it can be read, the processor quota of the control group rounded up
  to whole processors when there is one, and 32. There is always at least one worker. A configured number is taken as it is.
\<close>

theorem server_worker_count_least:
  "1 \<le> server_worker_count m config \<and>
   server_worker_count m config = (if 0 < cfg_io_workers config then nat (cfg_io_workers config) else Min (cpu_limits m))"
proof (cases "0 < cfg_io_workers config")
  case True
  then show ?thesis by (simp add: server_worker_count_def)
next
  case False
  define h where "h = max (mc_hardware_concurrency m) 1"
  define A where "A = {nat n | n. mc_affinity m = Some n \<and> 0 < n}"
  define B where "B = {nat \<lceil>of_nat quota / of_nat period :: rat\<rceil> | quota period quota_text period_text.
        read_cpu_max (mc_cpu_max m) = Some (quota_text, period_text) \<and> parse_number quota_text = Some quota \<and>
        parse_number period_text = Some period \<and> 0 < quota \<and> 0 < period}"
  define a where "a = (case mc_affinity m of None \<Rightarrow> h | Some n \<Rightarrow> if 0 < n then min h (nat n) else h)"
  have lim: "cpu_limits m = {32, h} \<union> A \<union> B" by (simp add: cpu_limits_def h_def A_def B_def)
  have A: "A = {} \<and> a = h \<or> (\<exists>n. A = {n} \<and> 0 < n \<and> a = min h n)"
    by (cases "mc_affinity m") (auto simp: A_def a_def)
  have B: "B = {} \<and> quota_limit (mc_cpu_max m) = None \<or>
    (\<exists>q. B = {q} \<and> 0 < q \<and> quota_limit (mc_cpu_max m) = Some (min q (2 ^ 32 - 1)))"
  proof (cases "read_cpu_max (mc_cpu_max m)")
    case None
    then show ?thesis by (simp add: B_def quota_limit_def)
  next
    case (Some texts)
    obtain quota_text period_text where x: "texts = (quota_text, period_text)" by (cases texts)
    show ?thesis
    proof (cases "\<exists>q p. parse_number quota_text = Some q \<and> parse_number period_text = Some p \<and> 0 < q \<and> 0 < p")
      case True
      then obtain q p where qp: "parse_number quota_text = Some q" "parse_number period_text = Some p" "0 < q" "0 < p" by blast
      then have "quota_text \<noteq> ''max''" using max_is_no_number by auto
      moreover have "B = {q div p + (if q mod p \<noteq> 0 then 1 else 0)}" using Some x qp by (auto simp: B_def div_round_up)
      moreover have "0 < q div p + (if q mod p \<noteq> 0 then 1 else 0)" using qp by (auto simp: div_greater_zero_iff mod_less not_le)
      ultimately show ?thesis using Some x qp by (simp add: quota_limit_def)
    next
      case False
      then have "B = {}" using Some x by (auto simp: B_def)
      moreover have "quota_limit (mc_cpu_max m) = None" using False Some x by (auto simp: quota_limit_def split: option.splits)
      ultimately show ?thesis by simp
    qed
  qed
  have "server_worker_count m config = min (case quota_limit (mc_cpu_max m) of None \<Rightarrow> a | Some l \<Rightarrow> min a l) 32"
    unfolding server_worker_count_def if_not_P [OF False] Let_def a_def h_def kMaximumAutomaticWorkers_def by (rule refl)
  moreover have "min (min x (min q (2 ^ 32 - 1))) 32 = min 32 (min x q)" for x q :: nat by simp
  moreover have "1 \<le> h" by (simp add: h_def)
  ultimately show ?thesis
    using False A B unfolding lim by (elim disjE exE conjE) (simp_all add: min.commute min.left_commute)
qed

end
