(* ===== verification/Logging.thy ===== *)
theory Logging
  imports Tls_Context
begin

text \<open>
  The log of the process, from \<^verbatim>\<open>src/src/core/logging.cpp\<close> and \<^verbatim>\<open>logging.hpp\<close>: levels, the gate, and the
  line that is written. The local time is an argument.
\<close>

datatype level = Debug | Info | Notice | Warning | ErrorLevel

definition level_number :: "level \<Rightarrow> nat" where
  "level_number level = (case level of Debug \<Rightarrow> 0 | Info \<Rightarrow> 1 | Notice \<Rightarrow> 2 | Warning \<Rightarrow> 3 | ErrorLevel \<Rightarrow> 4)"

definition level_name :: "level \<Rightarrow> string" where
  "level_name level =
     (case level of Debug \<Rightarrow> ''DEBUG'' | Info \<Rightarrow> ''INFO'' | Notice \<Rightarrow> ''NOTICE'' | Warning \<Rightarrow> ''WARNING'' | ErrorLevel \<Rightarrow> ''ERROR'')"

definition initial_level :: level where "initial_level = Info"

definition int_to_string :: "int \<Rightarrow> string" where
  "int_to_string i = (if i < 0 then ''-'' @ to_string (nat (- i)) else to_string (nat i))"

text \<open>A number in at least so many digits, filled with zeros, and a text in at least so many columns.\<close>

definition zero_pad :: "nat \<Rightarrow> nat \<Rightarrow> string" where
  "zero_pad width n = (let digits = to_string n in replicate (width - length digits) CHR ''0'' @ digits)"

definition column_pad :: "nat \<Rightarrow> string \<Rightarrow> string" where
  "column_pad width s = s @ replicate (width - length s) CHR '' ''"

definition year_text :: "int \<Rightarrow> string" where
  "year_text y = (if y < 0 then ''-'' @ zero_pad 4 (nat (- y)) else zero_pad 4 (nat y))"

definition date_time_text :: "int \<Rightarrow> int \<Rightarrow> int \<Rightarrow> int \<Rightarrow> int \<Rightarrow> int \<Rightarrow> string" where
  "date_time_text y m d hour minute second =
     year_text y @ ''-'' @ zero_pad 2 (nat m) @ ''-'' @ zero_pad 2 (nat d) @ '' '' @
     zero_pad 2 (nat hour) @ '':'' @ zero_pad 2 (nat minute) @ '':'' @ zero_pad 2 (nat second)"

text \<open>One line on the error stream; \<open>milliseconds\<close> is the time since the epoch.\<close>

definition log_line :: "tm \<Rightarrow> nat \<Rightarrow> level \<Rightarrow> string \<Rightarrow> string" where
  "log_line local_time milliseconds level message =
     ''['' @ date_time_text (tm_year local_time + 1900) (tm_mon local_time + 1) (tm_mday local_time)
        (tm_hour local_time) (tm_min local_time) (tm_sec local_time) @ ''.'' @ zero_pad 3 (milliseconds mod 1000) @ ''] '' @
     column_pad 7 (level_name level) @ '' '' @ c_str message @ [CHR 0x0A]"

text \<open>The logger: the level of the process and what has been written to the error stream.\<close>

record logger =
  lg_level :: level
  lg_stream :: string

definition initial_logger :: logger where
  "initial_logger = \<lparr>lg_level = initial_level, lg_stream = []\<rparr>"

definition set_level :: "level \<Rightarrow> logger \<Rightarrow> logger" where
  "set_level level lg = lg\<lparr>lg_level := level\<rparr>"

definition log_write :: "tm \<Rightarrow> nat \<Rightarrow> level \<Rightarrow> string \<Rightarrow> logger \<Rightarrow> logger" where
  "log_write local_time milliseconds level message lg = lg\<lparr>lg_stream := lg_stream lg @ log_line local_time milliseconds level message\<rparr>"

text \<open>\<^verbatim>\<open>message\<close>: nothing is written below the level of the process.\<close>

definition log_message :: "tm \<Rightarrow> nat \<Rightarrow> level \<Rightarrow> string \<Rightarrow> logger \<Rightarrow> logger" where
  "log_message local_time milliseconds level message lg =
     (if level_number (lg_level lg) \<le> level_number level then log_write local_time milliseconds level message lg else lg)"

end
