(* ===== verification/Http_Api.thy ===== *)
theory Http_Api
  imports Edge_Server Logging
begin

text \<open>
  The observability endpoint, from \<^verbatim>\<open>src/src/api/http_server.cpp\<close>: the status page, the Prometheus exposition and the
  health route. The HTTP server and its router are a library; a response is the data handed to it. The clocks and the process number
  are arguments.
\<close>

section \<open>Constants\<close>

definition kHttpListenBacklog :: nat where "kHttpListenBacklog = 64"
definition kMaximumRequestBytes :: nat where "kMaximumRequestBytes = 4096"
definition kMaximumConnections :: nat where "kMaximumConnections = 128"
definition kRequestTimeout :: int where "kRequestTimeout = 3 * ns_per_second"
definition kCertificateExpiryWarning :: int where "kCertificateExpiryWarning = 30 * 86400"
definition kHttpWorkers :: nat where "kHttpWorkers = 1"
definition kNanosecondsPerMillisecond :: double where "kNanosecondsPerMillisecond = Fin 1000000"
definition kVersion :: string where "kVersion = ''0.1.0''"

definition nl :: string where "nl = [CHR 0x0A]"

section \<open>Text helpers\<close>

definition html_entity :: "char \<Rightarrow> string" where
  "html_entity character =
     (if character = CHR ''&'' then ''&amp;''
      else if character = CHR ''<'' then ''&lt;''
      else if character = CHR ''>'' then ''&gt;''
      else if character = CHR 0x22 then ''&quot;''
      else if character = CHR 0x27 then ''&#39;''
      else [character])"

definition html_escape :: "string \<Rightarrow> string" where
  "html_escape value = concat (map html_entity value)"

definition label_escape :: "char \<Rightarrow> string" where
  "label_escape character =
     (if character = CHR 0x5C then [CHR 0x5C, CHR 0x5C]
      else if character = CHR 0x22 then [CHR 0x5C, CHR 0x22]
      else if character = CHR 0x0A then [CHR 0x5C, CHR ''n'']
      else [character])"

definition prometheus_label :: "string \<Rightarrow> string" where
  "prometheus_label value = concat (map label_escape value)"

definition uptime_seconds :: "time_point \<Rightarrow> stats \<Rightarrow> nat" where
  "uptime_seconds time s = nat (cxx_quot (time - started_at s) ns_per_second mod 2 ^ 64)"

definition human_duration :: "nat \<Rightarrow> string" where
  "human_duration seconds =
     (let days = seconds div 86400; seconds = seconds mod 86400;
          hours = seconds div 3600; seconds = seconds mod 3600;
          minutes = seconds div 60; seconds = seconds mod 60
      in to_string days @ ''d '' @ to_string hours @ ''h '' @ to_string minutes @ ''m '' @ to_string seconds @ ''s'')"

definition certificate_expiration_time :: "int \<Rightarrow> string" where
  "certificate_expiration_time timestamp_seconds =
     (case civil_of_days (timestamp_seconds div 86400) of (y, m, d) \<Rightarrow>
        let rest = timestamp_seconds mod 86400
        in date_time_text y m d (rest div 3600) (rest mod 3600 div 60) (rest mod 60) @ '' UTC'')"

text \<open>\<^verbatim>\<open>{:.3f}\<close> of a double that is not negative: the exact value rounded to three decimals, ties to even.\<close>

definition fixed3 :: "double \<Rightarrow> string" where
  "fixed3 x =
     (case x of
        Fin r \<Rightarrow> (let thousandths = nat (round_half_even (r * 1000)) in to_string (thousandths div 1000) @ ''.'' @ zero_pad 3 (thousandths mod 1000))
      | PInf \<Rightarrow> ''inf'' | NInf \<Rightarrow> ''-inf'' | NaN \<Rightarrow> ''nan'')"

section \<open>Metrics\<close>

definition metric_header :: "string \<Rightarrow> string \<Rightarrow> string \<Rightarrow> string" where
  "metric_header name help kind = ''# HELP '' @ name @ '' '' @ help @ nl @ ''# TYPE '' @ name @ '' '' @ kind @ nl"

definition metric_sample :: "string \<Rightarrow> string \<Rightarrow> string \<Rightarrow> string" where
  "metric_sample name labels value = name @ labels @ '' '' @ value @ nl"

definition counter :: "string \<Rightarrow> string \<Rightarrow> nat \<Rightarrow> string" where
  "counter name help value = metric_header name help ''counter'' @ metric_sample name [] (to_string value)"

definition gauge :: "string \<Rightarrow> string \<Rightarrow> nat \<Rightarrow> string" where
  "gauge name help value = metric_header name help ''gauge'' @ metric_sample name [] (to_string value)"

definition label :: "string \<Rightarrow> string \<Rightarrow> string" where
  "label name value = name @ ''=\"'' @ value @ ''\"''"

definition process_metrics :: "time_point \<Rightarrow> stats \<Rightarrow> string" where
  "process_metrics time s =
     metric_header ''pool_lb_build_info'' ''Build and version information.'' ''gauge'' @
     metric_sample ''pool_lb_build_info'' (''{'' @ label ''version'' kVersion @ ''}'') ''1'' @
     gauge ''pool_lb_uptime_seconds'' ''Seconds since the process started.'' (uptime_seconds time s) @
     gauge ''pool_lb_connections_active'' ''Currently admitted miner connections.'' (active_connections s) @
     gauge ''pool_lb_io_workers'' ''Fixed epoll reactor worker threads.'' (io_workers s)"

definition connection_metrics :: "worker_stats \<Rightarrow> string" where
  "connection_metrics aggregate =
     counter ''pool_lb_connections_accepted_total'' ''Miner connections admitted at the edge.'' (accepted_connections aggregate) @
     counter ''pool_lb_connections_closed_total'' ''Admitted miner connections closed.'' (closed_connections aggregate) @
     counter ''pool_lb_connections_rejected_protocol_total'' ''Connections rejected for invalid Stratum V1 input.''
       (rejected_protocol aggregate) @
     counter ''pool_lb_connections_rejected_rate_total'' ''Connections rejected by the per-IP rate limit.''
       (rejected_rate_limit aggregate) @
     counter ''pool_lb_connections_rejected_ip_limit_total'' ''Connections rejected by the per-IP concurrent limit.''
       (rejected_ip_limit aggregate) @
     counter ''pool_lb_connections_rejected_global_limit_total'' ''Connections rejected by the global concurrent limit.''
       (rejected_global_limit aggregate) @
     counter ''pool_lb_connections_rejected_global_rate_total'' ''Connections rejected by the process-wide admission rate limit.''
       (rejected_global_rate aggregate) @
     counter ''pool_lb_connections_rejected_source_capacity_total''
       ''Connections rejected because the bounded source table was full.'' (rejected_source_capacity aggregate) @
     counter ''pool_lb_connections_rejected_traffic_rate_total''
       ''Connections closed after exceeding ongoing byte or message limits.'' (rejected_traffic_rate aggregate) @
     counter ''pool_lb_connections_rejected_queue_limit_total'' ''Connections closed by the process-wide queued-byte limit.''
       (rejected_queue_limit aggregate) @
     counter ''pool_lb_connections_rejected_tls_total'' ''Connections rejected during TLS setup.'' (rejected_tls aggregate)"

definition certificate_sample :: "tls_certificate_status \<Rightarrow> string" where
  "certificate_sample certificate =
     metric_sample ''pool_lb_tls_certificate_expiry_timestamp_seconds''
       (''{'' @ label ''listener'' (prometheus_label (tc_listener_name certificate)) @ ''}'')
       (int_to_string (tc_expiry_timestamp_seconds certificate))"

definition certificate_metrics :: "stats \<Rightarrow> tls_certificate_status list \<Rightarrow> string" where
  "certificate_metrics s certificates =
     metric_header ''pool_lb_tls_certificate_reloads_total'' ''TLS certificate reload attempts by result.'' ''counter'' @
     metric_sample ''pool_lb_tls_certificate_reloads_total'' (''{'' @ label ''result'' ''success'' @ ''}'') (to_string (tls_reload_successes s)) @
     metric_sample ''pool_lb_tls_certificate_reloads_total'' (''{'' @ label ''result'' ''failure'' @ ''}'') (to_string (tls_reload_failures s)) @
     metric_header ''pool_lb_tls_certificate_expiry_timestamp_seconds''
       ''Unix timestamp at which the active TLS leaf certificate expires.'' ''gauge'' @
     concat (map certificate_sample certificates)"

definition traffic_metrics :: "stats \<Rightarrow> worker_stats \<Rightarrow> string" where
  "traffic_metrics s aggregate =
     counter ''pool_lb_connections_rejected_no_backend_total'' ''Valid connections rejected because no backend was healthy.''
       (rejected_no_backend aggregate) @
     counter ''pool_lb_upstream_connect_errors_total'' ''Failed upstream TCP connection attempts.'' (upstream_connect_errors aggregate) @
     counter ''pool_lb_client_bytes_total'' ''Bytes received from miners before framing validation.'' (client_bytes aggregate) @
     counter ''pool_lb_upstream_bytes_total'' ''Bytes received from pool backends.'' (upstream_bytes aggregate) @
     counter ''pool_lb_relay_client_reads_paused_total''
       ''Times a session's own upstream queue crossed its high-water mark, pausing miner reads.'' (client_reads_paused aggregate) @
     counter ''pool_lb_relay_upstream_reads_paused_total''
       ''Times a session's own miner queue crossed its high-water mark, pausing pool reads.'' (upstream_reads_paused aggregate) @
     counter ''pool_lb_relay_shared_pressure_pauses_total''
       ''Times reads were paused by process-wide queued-byte pressure rather than the session's own queues.''
       (shared_pressure_pauses aggregate) @
     gauge ''pool_lb_queued_bytes'' ''Bytes currently queued across both relay directions.'' (queued_bytes s) @
     gauge ''pool_lb_queued_bytes_limit'' ''Current process-wide queued-byte limit.'' (queued_bytes_limit s) @
     gauge ''pool_lb_queued_bytes_high_water'' ''Highest process-wide queued-byte total observed.'' (queued_bytes_high_water s) @
     gauge ''pool_lb_tracked_client_sources'' ''Client IP or IPv6-prefix states currently retained.'' (tracked_clients s) @
     counter ''pool_lb_reactor_events_processed_total'' ''Socket events processed by all reactors.'' (events_processed aggregate) @
     counter ''pool_lb_reactor_event_batches_total'' ''Non-empty epoll batches processed.'' (event_batches aggregate) @
     counter ''pool_lb_reactor_batch_processing_nanoseconds_total'' ''Nanoseconds spent processing non-empty epoll batches.''
       (batch_processing_nanoseconds aggregate) @
     gauge ''pool_lb_reactor_batch_processing_nanoseconds_max'' ''Longest non-empty epoll batch processing time since startup.''
       (maximum_batch_processing_nanoseconds aggregate) @
     counter ''pool_lb_tls_handshake_attempts_total'' ''TLS handshakes started.'' (tls_handshake_attempts aggregate) @
     counter ''pool_lb_tls_handshake_successes_total'' ''TLS handshakes completed.'' (tls_handshake_successes aggregate) @
     counter ''pool_lb_tls_handshake_nanoseconds_total'' ''Nanoseconds spent in completed TLS handshakes.''
       (tls_handshake_nanoseconds aggregate)"

text \<open>The cast of an index to the enumeration of validation errors.\<close>

definition error_at :: "nat \<Rightarrow> validation_error" where
  "error_at index =
     ([NoError, Empty, TooDeep, InvalidJson, InvalidShape, InvalidMethod, InvalidInitialMethod, InvalidSequence, InvalidId, InvalidParams, Count]) ! index"

definition protocol_error_metrics :: "worker_stats \<Rightarrow> string" where
  "protocol_error_metrics aggregate =
     metric_header ''pool_lb_protocol_errors_total'' ''Invalid miner messages by reason.'' ''counter'' @
     concat (map (\<lambda>index. metric_sample ''pool_lb_protocol_errors_total''
         (''{'' @ label ''reason'' (validation_error_name (error_at index)) @ ''}'') (to_string (protocol_errors aggregate ! index)))
       [1..<length (protocol_errors aggregate)])"

definition worker_samples :: "nat \<Rightarrow> worker_stats \<Rightarrow> string" where
  "worker_samples worker_index w =
     (let labels = ''{'' @ label ''worker'' (to_string worker_index) @ ''}''
      in metric_sample ''pool_lb_worker_connections_active'' labels (to_string (worker_active_connections w)) @
         metric_sample ''pool_lb_worker_events_processed_total'' labels (to_string (events_processed w)) @
         metric_sample ''pool_lb_worker_batch_processing_nanoseconds_max'' labels (to_string (maximum_batch_processing_nanoseconds w)))"

definition worker_metrics :: "stats \<Rightarrow> string" where
  "worker_metrics s =
     metric_header ''pool_lb_worker_connections_active'' ''Active sessions by reactor worker.'' ''gauge'' @
     metric_header ''pool_lb_worker_events_processed_total'' ''Socket events by reactor worker.'' ''counter'' @
     metric_header ''pool_lb_worker_batch_processing_nanoseconds_max'' ''Longest epoll batch by reactor worker.'' ''gauge'' @
     concat (map (\<lambda>worker_index. worker_samples worker_index (workers s ! worker_index)) [0..<worker_count s])"

definition backend_samples :: "string \<Rightarrow> backend_state \<Rightarrow> string" where
  "backend_samples pool_name backend =
     (let labels = ''{'' @ label ''pool'' (prometheus_label pool_name) @ '','' @ label ''backend'' (prometheus_label (be_name backend)) @ ''}''
      in metric_sample ''pool_lb_backend_up'' labels (if be_healthy backend then ''1'' else ''0'') @
         metric_sample ''pool_lb_backend_connections_active'' labels (to_string (be_active_connections backend)) @
         metric_sample ''pool_lb_backend_connection_attempts_total'' labels (to_string (be_connection_attempts backend)) @
         metric_sample ''pool_lb_backend_connection_errors_total'' labels (to_string (be_connection_errors backend)))"

definition backend_metrics :: "backend_store \<Rightarrow> routing_table \<Rightarrow> string" where
  "backend_metrics store routing =
     metric_header ''pool_lb_backend_up'' ''Backend health (1 = up, 0 = down).'' ''gauge'' @
     metric_header ''pool_lb_backend_connections_active'' ''Active sessions pinned to a backend.'' ''gauge'' @
     metric_header ''pool_lb_backend_connection_attempts_total'' ''Backend connection attempts.'' ''counter'' @
     metric_header ''pool_lb_backend_connection_errors_total'' ''Backend connection failures.'' ''counter'' @
     concat (map (\<lambda>pool. concat (map (\<lambda>ref. backend_samples (ps_name pool) (store ! ref)) (ps_backends pool))) (rt_pools routing))"

definition metrics_body :: "time_point \<Rightarrow> backend_store \<Rightarrow> service_state \<Rightarrow> routing_table \<Rightarrow> string" where
  "metrics_body time store state routing =
     (let s = ss_stats state; aggregate = snapshot s
      in process_metrics time s @ connection_metrics aggregate @ certificate_metrics s (ss_tls_certificates state) @
         traffic_metrics s aggregate @ protocol_error_metrics aggregate @ worker_metrics s @ backend_metrics store routing)"

section \<open>The status page\<close>

definition expired :: "int \<Rightarrow> tls_certificate_status \<Rightarrow> bool" where
  "expired time certificate \<longleftrightarrow> tc_expiry_timestamp_seconds certificate \<le> time"

definition expiring :: "int \<Rightarrow> tls_certificate_status \<Rightarrow> bool" where
  "expiring time certificate \<longleftrightarrow> tc_expiry_timestamp_seconds certificate - time \<le> kCertificateExpiryWarning"

text \<open>The class and the text of the state line.\<close>

definition page_state :: "bool \<Rightarrow> tls_certificate_status list \<Rightarrow> int \<Rightarrow> string \<times> string" where
  "page_state routable certificates time =
     (if \<not> routable then (''bad'', ''NO ROUTABLE BACKENDS'')
      else if list_ex (expired time) certificates then (''bad'', ''TLS CERTIFICATE EXPIRED'')
      else if list_ex (expiring time) certificates then (''warn'', ''TLS CERTIFICATE EXPIRING'')
      else (''ok'', ''READY''))"

definition certificate_row :: "int \<Rightarrow> tls_certificate_status \<Rightarrow> string" where
  "certificate_row time certificate =
     (let expiry = tc_expiry_timestamp_seconds certificate;
          distance = (if expired time certificate then time - expiry else expiry - time)
      in ''<tr><td>'' @ html_escape (''TLS '' @ tc_listener_name certificate @ '' certificate'') @
         ''</td><td class=\"'' @ (if expired time certificate then ''bad'' else if expiring time certificate then ''warn'' else ''ok'') @ ''\">'' @
         (if expired time certificate then ''expired '' else ''expires '') @ certificate_expiration_time expiry @ '' ('' @
         human_duration (nat distance) @ (if expired time certificate then '' ago'' else '' remaining'') @ '')</td></tr>'')"

definition backend_row :: "string \<Rightarrow> backend_state \<Rightarrow> string" where
  "backend_row pool_name backend =
     ''<tr><td>'' @ html_escape (pool_name @ ''/'' @ be_name backend) @ ''</td><td class=\"'' @
     (if be_healthy backend then ''ok'' else ''bad'') @ ''\">'' @ (if be_healthy backend then ''up'' else ''down'') @ '' - '' @
     to_string (be_active_connections backend) @ '' sessions</td></tr>''"

definition page_head :: "string \<Rightarrow> string" where
  "page_head state_text =
     ''<!doctype html><html lang=\"en\"><head><meta charset=\"utf-8\">'' @
     ''<link rel=\"icon\" href=\"data:,\"><meta http-equiv=\"refresh\" content=\"5\">'' @
     ''<meta name=\"viewport\" content=\"width=device-width,initial-scale=1\">'' @
     ''<title>erikslund-pool-lb - '' @ state_text @ ''</title><style>'' @
     ''body{font-family:system-ui,sans-serif;margin:2rem auto;max-width:46rem;color:#222}'' @
     ''h1{font-size:1.4rem;margin-bottom:.2rem}small{color:#888;font-weight:400}'' @
     ''table{border-collapse:collapse;width:100%;margin-top:1rem}'' @
     ''td{padding:.3rem .8rem;border-bottom:1px solid #e5e5e5;vertical-align:top}'' @
     ''td:first-child{color:#777;width:14rem}.ok{color:#0a7d28}.bad{color:#c0392b}'' @
     ''.warn{color:#b8860b}a{color:#2563eb;text-decoration:none}</style></head><body>''"

definition page_foot :: string where
  "page_foot =
     ''</table><p><a href=\"/\">/</a> | <a href=\"/metrics\">/metrics</a> | '' @ ''<a href=\"/healthz\">/healthz</a></p></body></html>''"

definition status_rows :: "int \<Rightarrow> backend_store \<Rightarrow> tls_certificate_status list \<Rightarrow> routing_table \<Rightarrow> string" where
  "status_rows time store certificates routing =
     concat (map (certificate_row time) certificates) @
     concat (map (\<lambda>pool. concat (map (\<lambda>ref. backend_row (ps_name pool) (store ! ref)) (ps_backends pool))) (rt_pools routing))"

text \<open>\<open>clock\<close> is the steady clock, \<open>time\<close> the seconds of the system clock since the epoch.\<close>

definition status_body :: "time_point \<Rightarrow> int \<Rightarrow> nat \<Rightarrow> backend_store \<Rightarrow> service_state \<Rightarrow> routing_table \<Rightarrow> string" where
  "status_body clock time pid store state routing =
     (let s = ss_stats state; aggregate = snapshot s; certificates = ss_tls_certificates state
      in case page_state (has_routable_backend store routing) certificates time of (state_class, state_text) \<Rightarrow>
        page_head state_text @
        ''<h1>erikslund-pool-lb <small>v'' @ kVersion @ '' | pid '' @ to_string pid @ ''</small></h1>'' @
        ''<p class=\"'' @ state_class @ ''\"><strong>'' @ state_text @ ''</strong></p><table>'' @
        ''<tr><td>uptime</td><td>'' @ human_duration (uptime_seconds clock s) @ ''</td></tr><tr><td>active pool</td><td>'' @
        html_escape (rt_active_pool routing) @ ''</td></tr>'' @
        ''<tr><td>active sessions</td><td>'' @ to_string (active_connections s) @ ''</td></tr>'' @
        ''<tr><td>I/O workers</td><td>'' @ to_string (io_workers s) @ ''</td></tr>'' @
        ''<tr><td>queued bytes</td><td>'' @ to_string (queued_bytes s) @ '' / '' @ to_string (queued_bytes_limit s) @
        '' (high water '' @ to_string (queued_bytes_high_water s) @ '')</td></tr>'' @
        ''<tr><td>tracked sources</td><td>'' @ to_string (tracked_clients s) @ ''</td></tr>'' @
        ''<tr><td>maximum reactor batch</td><td>'' @
        fixed3 (double_div (double_of_nat (maximum_batch_processing_nanoseconds aggregate)) kNanosecondsPerMillisecond) @ '' ms</td></tr>'' @
        status_rows time store certificates routing @ page_foot)"

section \<open>Routes and options\<close>

text \<open>The levels of the library; a value outside the enumeration is logged as information.\<close>

datatype http_level = HttpDebug | HttpInfo | HttpWarning | HttpError | HttpOther

definition log_level :: "http_level \<Rightarrow> level" where
  "log_level level =
     (case level of HttpDebug \<Rightarrow> Debug | HttpInfo \<Rightarrow> Info | HttpWarning \<Rightarrow> Warning | HttpError \<Rightarrow> ErrorLevel | HttpOther \<Rightarrow> Info)"

datatype http_status = Ok | NoContent | NotFound | ServiceUnavailable

datatype http_response = HtmlResponse string | PrometheusResponse string | TextResponse string http_status | EmptyResponse http_status

text \<open>What a handler reads besides the request.\<close>

record view =
  vw_clock :: time_point
  vw_time :: int
  vw_pid :: nat
  vw_store :: backend_store
  vw_state :: service_state

definition vw_routing :: "view \<Rightarrow> routing_table" where
  "vw_routing v = rs_routing (ss_runtime (vw_state v))"

definition status_route :: "view \<Rightarrow> http_response" where
  "status_route v = HtmlResponse (status_body (vw_clock v) (vw_time v) (vw_pid v) (vw_store v) (vw_state v) (vw_routing v))"

definition metrics_route :: "view \<Rightarrow> http_response" where
  "metrics_route v = PrometheusResponse (metrics_body (vw_clock v) (vw_store v) (vw_state v) (vw_routing v))"

definition health_route :: "view \<Rightarrow> http_response" where
  "health_route v =
     (let healthy = has_routable_backend (vw_store v) (vw_routing v)
      in TextResponse ((if healthy then ''ok'' else ''degraded'') @ nl) (if healthy then Ok else ServiceUnavailable))"

record http_router =
  hr_routes :: "(string \<times> (view \<Rightarrow> http_response)) list"
  hr_fallback :: "view \<Rightarrow> http_response"

definition make_router :: http_router where
  "make_router =
     \<lparr>hr_routes =
        [(''/'', status_route), (''/status'', status_route), (''/metrics'', metrics_route), (''/health'', health_route),
         (''/healthz'', health_route), (''/favicon.ico'', \<lambda>_. EmptyResponse NoContent)],
      hr_fallback = (\<lambda>_. TextResponse (''not found'' @ nl) NotFound)\<rparr>"

record http_options =
  op_bind_address :: string
  op_port :: nat
  op_worker_threads :: nat
  op_max_request_line_bytes :: nat
  op_max_header_block_bytes :: nat
  op_max_target_bytes :: nat
  op_max_body_bytes :: nat
  op_max_connections :: nat
  op_header_timeout :: int
  op_body_timeout :: int
  op_write_timeout :: int
  op_request_deadline :: int
  op_listen_backlog :: nat
  op_reuse_port :: bool
  op_server_header :: string

definition make_options :: "config \<Rightarrow> http_options result" where
  "make_options config =
     and_then (parse_endpoint (cfg_api_address config)) (\<lambda>endpoint. Inr
       \<lparr>op_bind_address = ep_host endpoint, op_port = ep_port endpoint, op_worker_threads = kHttpWorkers,
        op_max_request_line_bytes = kMaximumRequestBytes, op_max_header_block_bytes = kMaximumRequestBytes,
        op_max_target_bytes = kMaximumRequestBytes, op_max_body_bytes = 0, op_max_connections = kMaximumConnections,
        op_header_timeout = kRequestTimeout, op_body_timeout = kRequestTimeout, op_write_timeout = kRequestTimeout,
        op_request_deadline = kRequestTimeout, op_listen_backlog = kHttpListenBacklog, op_reuse_port = False, op_server_header = []\<rparr>)"

text \<open>The callback the library logs with.\<close>

definition http_log :: "tm \<Rightarrow> nat \<Rightarrow> http_level \<Rightarrow> string \<Rightarrow> logger \<Rightarrow> logger" where
  "http_log local_time milliseconds level message lg =
     (let mapped_level = log_level level
      in if level_number (lg_level lg) \<le> level_number mapped_level then log_write local_time milliseconds mapped_level message lg else lg)"

text \<open>\<^verbatim>\<open>HttpServer\<close>: the library's server is constructed and started, which binds its listener and may throw.\<close>

definition new_http_server :: "(http_router \<Rightarrow> http_options \<Rightarrow> ('e, unit result) state) \<Rightarrow> config \<Rightarrow> ('e, unit result) state" where
  "new_http_server start config =
     (case make_options config of
        Inl error \<Rightarrow> State_Monad.return (Inl error)
      | Inr options \<Rightarrow> start make_router options)"

end
