(* ===== verification/Health_Monitor.thy ===== *)
theory Health_Monitor
  imports Router Socket_Ops
begin

text \<open>
  Readiness checks, from \<^verbatim>\<open>src/src/routing/health_monitor.cpp\<close> and \<^verbatim>\<open>health_monitor.hpp\<close>: the HTTP probe
  with its bounded status line, the TCP fallback, the rotation over a backend's addresses and the
  rise and fall counters. A loop that does not return is \<open>None\<close>.
\<close>

section \<open>The HTTP probe\<close>

definition crlf :: string where
  "crlf = [CHR 0x0D, CHR 0x0A]"

definition kHealthRequest :: string where
  "kHealthRequest = ''GET /health HTTP/1.1'' @ crlf @ ''Host: pool-backend'' @ crlf @ ''Connection: close'' @ crlf @ crlf"

definition kMaximumStatusLineBytes :: nat where "kMaximumStatusLineBytes = 512"
definition kStatusLineTerminatorBytes :: nat where "kStatusLineTerminatorBytes = 2"

definition response_capacity :: nat where
  "response_capacity = kMaximumStatusLineBytes + kStatusLineTerminatorBytes"

text \<open>\<^verbatim>\<open>std::string_view::find\<close> of a text.\<close>

fun str_search :: "'a list \<Rightarrow> 'a list \<Rightarrow> nat option" where
  "str_search pattern [] = (if pattern = [] then Some 0 else None)"
| "str_search pattern (x # xs) =
     (if starts_with (x # xs) pattern then Some 0 else map_option Suc (str_search pattern xs))"

definition healthy_status :: "string \<Rightarrow> bool option" where
  "healthy_status response =
     (case str_search crlf response of
        None \<Rightarrow> None
      | Some line_end \<Rightarrow>
          (let status_line = take line_end response
           in Some (starts_with status_line ''HTTP/1.1 200 '' \<or> starts_with status_line ''HTTP/1.0 200 '')))"

text \<open>Rounded up to whole milliseconds.\<close>

definition ceil_milliseconds :: "int \<Rightarrow> int" where
  "ceil_milliseconds t = - ((- t) div ns_per_millisecond)"

definition timeout_until :: "'e os \<Rightarrow> time_point \<Rightarrow> ('e, int) state" where
  "timeout_until os deadline =
     do {
       now \<leftarrow> os_now os;
       State_Monad.return (if deadline \<le> now then 0 else ceil_milliseconds (deadline - now))
     }"

partial_function (option) send_health_request :: "'e os \<Rightarrow> fd \<Rightarrow> time_point \<Rightarrow> string \<Rightarrow> 'e \<Rightarrow> (bool \<times> 'e) option" where
  "send_health_request os socket deadline remaining e =
     (if remaining = [] then Some (True, e)
      else do {
        (writable, e) \<leftarrow> wait_fd os socket POLLOUT deadline e;
        if \<not> writable then Some (False, e)
        else case run_state (os_send os socket remaining) e of (sent, e) \<Rightarrow>
          (case sent of
             Inr n \<Rightarrow> if 0 < n then send_health_request os socket deadline (drop n remaining) e else Some (False, e)
           | Inl error_number \<Rightarrow>
               (if error_number \<in> {EAGAIN, EINTR} then send_health_request os socket deadline remaining e
                else Some (False, e)))
      })"

text \<open>The state of the loop is the response so far.\<close>

partial_function (option) read_healthy_status :: "'e os \<Rightarrow> fd \<Rightarrow> time_point \<Rightarrow> string \<Rightarrow> 'e \<Rightarrow> (bool \<times> 'e) option" where
  "read_healthy_status os socket deadline response e =
     (if response_capacity \<le> length response then Some (False, e)
      else case run_state (os_recv os socket (response_capacity - length response)) e of (received, e) \<Rightarrow>
        (case received of
           Inr bytes \<Rightarrow>
             (if bytes = [] then Some (False, e)
              else case healthy_status (response @ bytes) of
                     Some status \<Rightarrow> Some (status, e)
                   | None \<Rightarrow> read_healthy_status os socket deadline (response @ bytes) e)
         | Inl error_number \<Rightarrow>
             (if error_number = EINTR then read_healthy_status os socket deadline response e
              else if error_number \<noteq> EAGAIN then Some (False, e)
              else do {
                (readable, e) \<leftarrow> wait_fd os socket POLLIN deadline e;
                if readable then read_healthy_status os socket deadline response e
                else case run_state (os_recv os socket (response_capacity - length response)) e of (final_received, e) \<Rightarrow>
                  (case final_received of
                     Inl _ \<Rightarrow> Some (False, e)
                   | Inr bytes \<Rightarrow>
                       (if bytes = [] then Some (False, e)
                        else Some (case healthy_status (response @ bytes) of None \<Rightarrow> False | Some status \<Rightarrow> status, e)))
              })))"

definition check_http_address :: "'e os \<Rightarrow> socket_address \<Rightarrow> time_point \<Rightarrow> 'e \<Rightarrow> (bool \<times> 'e) option" where
  "check_http_address os address deadline e =
     (case run_state (timeout_until os deadline) e of (timeout, e) \<Rightarrow>
        if timeout = 0 then Some (False, e)
        else do {
          (socket, e) \<leftarrow> connect_tcp os address timeout e;
          if \<not> fd_valid socket then Some (False, e)
          else do {
            (sent, e) \<leftarrow> send_health_request os socket deadline kHealthRequest e;
            (healthy, e) \<leftarrow> (if sent then read_healthy_status os socket deadline [] e else Some (False, e));
            Some (healthy, snd (run_state (fd_destroy os socket) e))
          }
        })"

definition check_tcp_address :: "'e os \<Rightarrow> socket_address \<Rightarrow> time_point \<Rightarrow> 'e \<Rightarrow> (bool \<times> 'e) option" where
  "check_tcp_address os address deadline e =
     (case run_state (timeout_until os deadline) e of (timeout, e) \<Rightarrow>
        if timeout \<le> 0 then Some (False, e)
        else do {
          (socket, e) \<leftarrow> connect_tcp os address timeout e;
          Some (fd_valid socket, snd (run_state (fd_destroy os socket) e))
        })"

section \<open>Checking a backend\<close>

text \<open>The increment of an \<^verbatim>\<open>int\<close>.\<close>

definition int32_inc :: "int \<Rightarrow> int" where
  "int32_inc x = (x + 1 + 2 ^ 31) mod 2 ^ 32 - 2 ^ 31"

definition record_check :: "health_config \<Rightarrow> bool \<Rightarrow> backend_state \<Rightarrow> backend_state" where
  "record_check config reachable backend =
     (let was_healthy = be_healthy backend
      in if reachable
         then let successes = int32_inc (be_consecutive_successes backend);
                  backend = backend\<lparr>be_consecutive_failures := 0, be_consecutive_successes := successes\<rparr>
              in if \<not> was_healthy \<and> rise_checks config \<le> successes then backend\<lparr>be_healthy := True\<rparr> else backend
         else let failures = int32_inc (be_consecutive_failures backend);
                  backend = backend\<lparr>be_consecutive_successes := 0, be_consecutive_failures := failures\<rparr>
              in if was_healthy \<and> fall_checks config \<le> failures then backend\<lparr>be_healthy := False\<rparr> else backend)"

text \<open>The loop over the addresses; the last argument but one counts the attempts that remain.\<close>

fun check_addresses :: "'e os \<Rightarrow> bool \<Rightarrow> socket_address list \<Rightarrow> nat \<Rightarrow> time_point \<Rightarrow> nat \<Rightarrow> 'e \<Rightarrow> (bool \<times> 'e) option" where
  "check_addresses os use_http addresses first_address overall_deadline 0 e = Some (False, e)"
| "check_addresses os use_http addresses first_address overall_deadline (Suc n) e =
     (case run_state (os_stop_requested os) e of (stop, e) \<Rightarrow>
        if stop then Some (False, e)
        else case run_state (os_now os) e of (now, e) \<Rightarrow>
          if overall_deadline \<le> now then Some (False, e)
          else let attempts_remaining = Suc n; offset = length addresses - attempts_remaining;
                   attempt_deadline = now + cxx_quot (overall_deadline - now) (int attempts_remaining);
                   address = addresses ! ((first_address + offset) mod length addresses)
               in do {
                 (healthy, e) \<leftarrow> (if use_http then check_http_address os address attempt_deadline e
                                  else check_tcp_address os address attempt_deadline e);
                 if healthy then Some (True, e)
                 else check_addresses os use_http addresses first_address overall_deadline n e
               })"

record 'e health_monitor =
  hm_backends :: backend_store
  hm_address_sequence :: nat
  hm_env :: 'e

definition check_backend :: "'e os \<Rightarrow> backend_ref \<Rightarrow> health_config \<Rightarrow> 'e health_monitor \<Rightarrow> 'e health_monitor option" where
  "check_backend os ref config m =
     (let backend = hm_backends m ! ref;
          use_http = be_health_socket_addresses backend \<noteq> [];
          addresses = (if use_http then be_health_socket_addresses backend else be_socket_addresses backend);
          address_count = length addresses;
          first_address = (if address_count = 0 then 0 else hm_address_sequence m mod address_count);
          m = (if address_count = 0 then m else m\<lparr>hm_address_sequence := wrap64 (hm_address_sequence m + 1)\<rparr>)
      in case run_state (os_now os) (hm_env m) of (now, e) \<Rightarrow>
           let overall_deadline = now + connect_timeout_milliseconds config * ns_per_millisecond
           in do {
             (reachable, e) \<leftarrow> check_addresses os use_http addresses first_address overall_deadline address_count e;
             Some (m\<lparr>hm_backends := (hm_backends m)[ref := record_check config reachable backend], hm_env := e\<rparr>)
           })"

text \<open>One pass over the backends of a table; \<open>False\<close> when a stop request ended it.\<close>

fun check_each :: "'e os \<Rightarrow> health_config \<Rightarrow> backend_ref list \<Rightarrow> 'e health_monitor \<Rightarrow> (bool \<times> 'e health_monitor) option" where
  "check_each os config [] m = Some (True, m)"
| "check_each os config (ref # refs) m =
     (case run_state (os_stop_requested os) (hm_env m) of (stop, e) \<Rightarrow>
        let m = m\<lparr>hm_env := e\<rparr>
        in if stop then Some (False, m)
           else do {
             m \<leftarrow> check_backend os ref config m;
             check_each os config refs m
           })"

text \<open>
  The loop of the monitor thread. Loading the published snapshot is an argument: it gives the routing
  table and may hand over a store to which a reload has added backends.
\<close>

partial_function (option) monitor_run ::
  "'e os \<Rightarrow> ('e health_monitor \<Rightarrow> routing_table \<times> 'e health_monitor) \<Rightarrow> 'e health_monitor \<Rightarrow> 'e health_monitor option" where
  "monitor_run os load_runtime m =
     (case run_state (os_stop_requested os) (hm_env m) of (stop, e) \<Rightarrow>
        let m = m\<lparr>hm_env := e\<rparr>
        in if stop then Some m
           else case load_runtime m of (table, m) \<Rightarrow>
             do {
               (finished, m) \<leftarrow> check_each os (rt_health table) (concat (map ps_backends (rt_pools table))) m;
               if \<not> finished then Some m
               else case run_state (os_now os) (hm_env m) of (now, e) \<Rightarrow>
                 (case run_state (os_wait_until os (now + interval_seconds (rt_health table) * ns_per_second)) e of (_, e) \<Rightarrow>
                    monitor_run os load_runtime (m\<lparr>hm_env := e\<rparr>))
             })"

section \<open>Rise and fall\<close>

text \<open>The verdict after a series of checks, and the streaks that decide it.\<close>

definition run_checks :: "health_config \<Rightarrow> bool list \<Rightarrow> backend_state \<Rightarrow> backend_state" where
  "run_checks config outcomes backend = foldl (\<lambda>b reachable. record_check config reachable b) backend outcomes"

definition success_streak :: "bool list \<Rightarrow> nat" where
  "success_streak outcomes = length (takeWhile (\<lambda>r. r) (rev outcomes))"

definition failure_streak :: "bool list \<Rightarrow> nat" where
  "failure_streak outcomes = length (takeWhile Not (rev outcomes))"

lemma streak_snoc:
  "success_streak (outcomes @ [r]) = (if r then Suc (success_streak outcomes) else 0)"
  "failure_streak (outcomes @ [r]) = (if r then 0 else Suc (failure_streak outcomes))"
  by (simp_all add: success_streak_def failure_streak_def)

lemma streak_le: "success_streak outcomes \<le> length outcomes" "failure_streak outcomes \<le> length outcomes"
  using length_takeWhile_le [of _ "rev outcomes"] by (simp_all add: success_streak_def failure_streak_def)

lemma int32_inc_small: "0 \<le> x \<Longrightarrow> x < 2 ^ 31 - 1 \<Longrightarrow> int32_inc x = x + 1"
  by (simp add: int32_inc_def)

lemma run_checks_snoc: "run_checks config (outcomes @ [r]) b = record_check config r (run_checks config outcomes b)"
  by (simp add: run_checks_def)

lemma run_checks_counters:
  assumes "be_consecutive_successes b = 0" and "be_consecutive_failures b = 0" and "length outcomes < 2 ^ 31"
  shows "be_consecutive_successes (run_checks config outcomes b) = int (success_streak outcomes) \<and>
    be_consecutive_failures (run_checks config outcomes b) = int (failure_streak outcomes)"
  using assms(3)
proof (induction outcomes rule: rev_induct)
  case Nil
  then show ?case using assms(1,2) by (simp add: run_checks_def success_streak_def failure_streak_def)
next
  case (snoc r outcomes)
  then have "int (success_streak outcomes) < 2 ^ 31 - 1" "int (failure_streak outcomes) < 2 ^ 31 - 1"
    using streak_le [of outcomes] by simp_all
  with snoc show ?case
    by (simp add: run_checks_snoc record_check_def streak_snoc int32_inc_small Let_def)
qed

lemma healthy_streak:
  assumes "be_consecutive_successes b = 0" "be_consecutive_failures b = 0" "\<not> be_healthy b" "length outcomes < 2 ^ 31"
    and "0 < rise_checks config" "0 < fall_checks config"
  shows "(rise_checks config \<le> int (success_streak outcomes) \<longrightarrow> be_healthy (run_checks config outcomes b)) \<and>
    (fall_checks config \<le> int (failure_streak outcomes) \<longrightarrow> \<not> be_healthy (run_checks config outcomes b))"
proof (cases outcomes rule: rev_cases)
  case Nil
  then show ?thesis using assms by (simp add: success_streak_def failure_streak_def)
next
  case (snoc before r)
  then have len: "length before < 2 ^ 31 - 1" using assms(4) by simp
  then have "int (success_streak before) < 2 ^ 31 - 1" "int (failure_streak before) < 2 ^ 31 - 1"
    using streak_le [of before] by simp_all
  with run_checks_counters [OF assms(1,2), of before config] len assms(5,6) snoc show ?thesis
    by (simp add: run_checks_snoc record_check_def streak_snoc int32_inc_small Let_def)
qed

text \<open>
  Property C38. A backend that starts unhealthy is healthy after any series of fewer than \<open>2 ^ 31\<close>
  checks exactly according to its latest streak: \<open>rise_checks\<close> consecutive successes make it healthy,
  \<open>fall_checks\<close> consecutive failures make it unhealthy, and any other outcome leaves the verdict as
  it was before that check. Both thresholds are positive, as validation demands.
\<close>

theorem health_hysteresis:
  assumes "0 < rise_checks config" and "0 < fall_checks config" and "length outcomes < 2 ^ 31 - 1"
    and "be_consecutive_successes b = 0" and "be_consecutive_failures b = 0" and "\<not> be_healthy b"
  shows "be_healthy (run_checks config (outcomes @ [r]) b) \<longleftrightarrow>
    (if rise_checks config \<le> int (success_streak (outcomes @ [r])) then True
     else if fall_checks config \<le> int (failure_streak (outcomes @ [r])) then False
     else be_healthy (run_checks config outcomes b))"
proof -
  have "int (success_streak outcomes) < 2 ^ 31 - 1" "int (failure_streak outcomes) < 2 ^ 31 - 1"
    using streak_le [of outcomes] assms(3) by simp_all
  with run_checks_counters [OF assms(4,5), of outcomes config] healthy_streak [OF assms(4-6), of "outcomes @ [r]" config] assms(1-3)
  show ?thesis
    by (cases r) (simp_all add: run_checks_snoc record_check_def streak_snoc int32_inc_small Let_def)
qed

theorem health_hysteresis_witness:
  "be_healthy (run_checks default_health ([True, False, False] @ [True]) (sample_backend 0\<lparr>be_healthy := False\<rparr>)) \<and>
   be_healthy (run_checks default_health ([True, False] @ [False]) (sample_backend 0\<lparr>be_healthy := False\<rparr>)) \<and>
   \<not> be_healthy (run_checks default_health ([True, False, False] @ [False]) (sample_backend 0\<lparr>be_healthy := False\<rparr>))"
proof -
  have b: "be_consecutive_successes (sample_backend 0\<lparr>be_healthy := False\<rparr>) = 0"
    "be_consecutive_failures (sample_backend 0\<lparr>be_healthy := False\<rparr>) = 0" "\<not> be_healthy (sample_backend 0\<lparr>be_healthy := False\<rparr>)"
    by (simp_all add: sample_backend_def new_backend_def)
  have c: "0 < rise_checks default_health" "0 < fall_checks default_health" by (simp_all add: default_health_def)
  show ?thesis
    using health_hysteresis [OF c _ b, of "[True, False, False]" True] health_hysteresis [OF c _ b, of "[True, False]" False]
      health_hysteresis [OF c _ b, of "[True]" False] health_hysteresis [OF c _ b, of "[]" True]
      health_hysteresis [OF c _ b, of "[True, False, False]" False]
    by (simp add: success_streak_def failure_streak_def default_health_def)
qed

section \<open>The verdict on what was received\<close>

lemma str_search_length: "str_search pattern xs = Some i \<Longrightarrow> i + length pattern \<le> length xs"
proof (induction xs arbitrary: i)
  case (Cons x xs)
  show ?case
  proof (cases "starts_with (x # xs) pattern")
    case True
    with Cons.prems show ?thesis by (auto simp: starts_with_iff dest: arg_cong [where f = length])
  next
    case False
    with Cons show ?thesis by auto
  qed
qed (simp split: if_splits)

text \<open>A match inside a prefix is the first match of the whole.\<close>

lemma str_search_append: "str_search pattern xs = Some i \<Longrightarrow> str_search pattern (xs @ ys) = Some i"
proof (induction xs arbitrary: i)
  case Nil
  then show ?case by (cases ys) (auto split: if_splits)
next
  case (Cons x xs)
  have le: "length pattern \<le> length (x # xs)" using str_search_length [OF Cons.prems] by simp
  have same: "starts_with ((x # xs) @ ys) pattern \<longleftrightarrow> starts_with (x # xs) pattern"
    using le unfolding starts_with_iff by (metis append_eq_append_conv_if append_take_drop_id append.assoc)
  show ?case
  proof (cases "starts_with (x # xs) pattern")
    case True
    with same Cons.prems show ?thesis by simp
  next
    case False
    with Cons.prems obtain j where "str_search pattern xs = Some j" "i = Suc j" by auto
    with Cons.IH False same show ?thesis by simp
  qed
qed

lemma healthy_status_append: "healthy_status xs = Some status \<Longrightarrow> healthy_status (xs @ ys) = Some status"
proof -
  assume h: "healthy_status xs = Some status"
  then obtain i where i: "str_search crlf xs = Some i" by (auto simp: healthy_status_def split: option.splits)
  from str_search_length [OF i] have "take i (xs @ ys) = take i xs" by simp
  then show ?thesis using h i str_search_append [OF i, of ys] by (simp only: healthy_status_def option.case)
qed

text \<open>The text before the first line end.\<close>

definition first_line :: "string \<Rightarrow> string \<Rightarrow> bool" where
  "first_line response line \<longleftrightarrow> (\<exists>rest. response = line @ crlf @ rest) \<and>
     (\<forall>a b. response = a @ crlf @ b \<longrightarrow> length line \<le> length a)"

lemma str_search_first:
  "case str_search pattern xs of
     None \<Rightarrow> \<forall>a b. xs \<noteq> a @ pattern @ b
   | Some i \<Rightarrow> (\<exists>a b. xs = a @ pattern @ b \<and> length a = i) \<and> (\<forall>a b. xs = a @ pattern @ b \<longrightarrow> i \<le> length a)"
proof (induction xs)
  case Nil
  then show ?case by simp
next
  case (Cons x xs)
  show ?case
  proof (cases "starts_with (x # xs) pattern")
    case True
    then show ?thesis by (auto simp: starts_with_iff intro!: exI [of _ "[]"])
  next
    case False
    then have later: "x # xs = a @ pattern @ b \<longleftrightarrow> (\<exists>a'. a = x # a' \<and> xs = a' @ pattern @ b)" for a b
      by (cases a) (auto simp: starts_with_iff)
    show ?thesis
    proof (cases "str_search pattern xs")
      case None
      with Cons False later show ?thesis by auto
    next
      case (Some i)
      with Cons.IH obtain a b where ab: "xs = a @ pattern @ b" "length a = i"
        and first: "\<And>a b. xs = a @ pattern @ b \<Longrightarrow> i \<le> length a" by auto
      have "Suc i \<le> length c" if "x # xs = c @ pattern @ d" for c d
        using that later [of c d] first by auto
      moreover have "\<exists>a b. x # xs = a @ pattern @ b \<and> length a = Suc i"
        using ab by (intro exI [of _ "x # a"] exI [of _ b]) simp
      moreover have "str_search pattern (x # xs) = Some (Suc i)" using Some False by simp
      ultimately show ?thesis by (simp only: option.case) blast
    qed
  qed
qed

lemma healthy_status_first_line:
  "healthy_status response = Some True \<longleftrightarrow>
     (\<exists>line reason. first_line response line \<and> (line = ''HTTP/1.1 200 '' @ reason \<or> line = ''HTTP/1.0 200 '' @ reason))"
proof (cases "str_search crlf response")
  case None
  then have "\<not> first_line response line" for line
    using str_search_first [where pattern = crlf and xs = response] by (simp add: first_line_def)
  with None show ?thesis by (simp add: healthy_status_def)
next
  case (Some i)
  then obtain a b where ab: "response = a @ crlf @ b" "length a = i"
    and first: "\<And>a b. response = a @ crlf @ b \<Longrightarrow> i \<le> length a"
    using str_search_first [where pattern = crlf and xs = response] by auto
  have "first_line response line \<longleftrightarrow> line = take i response" for line
  proof
    assume l: "first_line response line"
    then obtain c where c: "response = line @ crlf @ c" by (auto simp: first_line_def)
    with first [OF c] l ab have "length line = i" unfolding first_line_def by (metis le_antisym)
    with c show "line = take i response" by simp
  next
    assume "line = take i response"
    with ab have "line = a" by simp
    with ab first show "first_line response line" unfolding first_line_def by metis
  qed
  with Some show ?thesis by (auto simp: healthy_status_def Let_def starts_with_iff)
qed

text \<open>The probe under observation: every answer of \<^verbatim>\<open>recv\<close> with the environment before and after it.\<close>

type_synonym 'e reading = "'e \<times> string sys \<times> 'e"

definition watch_recv :: "('e, string sys) state \<Rightarrow> ('e \<times> 'e reading list, string sys) state" where
  "watch_recv m = State (\<lambda>(e, seen). case run_state m e of (received, e') \<Rightarrow> (received, e', seen @ [(e, received, e')]))"

definition watch :: "'e os \<Rightarrow> ('e \<times> 'e reading list) os" where
  "watch os = (beside_os os)\<lparr>os_recv := \<lambda>v n. watch_recv (os_recv os v n)\<rparr>"

definition received_text :: "'e reading list \<Rightarrow> string" where
  "received_text seen = concat (map (\<lambda>(_, received, _). case received of Inl _ \<Rightarrow> [] | Inr bytes \<Rightarrow> bytes) seen)"

lemma received_text_simps [simp]:
  "received_text [] = []" "received_text (seen @ [(e, Inl x, e')]) = received_text seen"
  "received_text (seen @ [(e, Inr bytes, e')]) = received_text seen @ bytes"
  by (simp_all add: received_text_def)

text \<open>
  The ends of the conversation at which a status line that is not complete is no longer waited for: the peer closed or
  \<^verbatim>\<open>recv\<close> failed; or nothing was there, waiting for more failed, on a hang-up, at the deadline or because the service stops, and one
  more read was made.
\<close>

definition conversation_over :: "'e os \<Rightarrow> fd \<Rightarrow> time_point \<Rightarrow> 'e reading list \<Rightarrow> bool" where
  "conversation_over os socket deadline seen \<longleftrightarrow>
     (\<exists>before e received e'. seen = before @ [(e, received, e')] \<and>
        (received = Inr [] \<or> (\<exists>error. received = Inl error \<and> error \<notin> {EAGAIN, EINTR}))) \<or>
     (\<exists>before e1 e2 e3 last e4. seen = before @ [(e1, Inl EAGAIN, e2), (e3, last, e4)] \<and>
        wait_fd os socket POLLIN deadline e2 = Some (False, e3))"

definition bounded_recv :: "'e os \<Rightarrow> bool" where
  "bounded_recv os \<longleftrightarrow> (\<forall>v n e bytes e'. run_state (os_recv os v n) e = (Inr bytes, e') \<longrightarrow> length bytes \<le> n)"

lemma watch_simps [simp]:
  "os_stop_requested (watch os) = beside (os_stop_requested os)" "os_now (watch os) = beside (os_now os)"
  "os_poll (watch os) v events t = beside (os_poll os v events t)" "os_send (watch os) v bytes = beside (os_send os v bytes)"
  "os_recv (watch os) v n = watch_recv (os_recv os v n)"
  by (simp_all add: watch_def)

lemma run_watch_recv: "run_state (watch_recv m) (e, seen) = (case run_state m e of (received, e') \<Rightarrow> (received, e', seen @ [(e, received, e')]))"
  by (simp add: watch_recv_def)

lemma watch_remaining: "remaining_milliseconds (watch os) deadline = beside (remaining_milliseconds os deadline)"
  by (simp add: remaining_milliseconds_def Let_def beside_def State_Monad.bind_def State_Monad.return_def fun_eq_iff split: prod.splits)

text \<open>Waiting is not affected by the observation.\<close>

lemma watch_wait:
  assumes "wait_fd (watch os) v events deadline (e, seen) = Some (ready, e', seen')"
  shows "seen' = seen \<and> wait_fd os v events deadline e = Some (ready, e')"
proof -
  have "\<forall>os. x = watch os \<longrightarrow> snd (snd r) = snd w \<and> wait_fd os v events deadline (fst w) = Some (fst r, fst (snd r))"
    if "wait_fd x v events deadline w = Some r" for x :: "('x \<times> 'x reading list) os" and v events deadline w r
  proof (rule wait_fd.raw_induct [OF _ that], intro allI impI, goal_cases)
    case (1 f x v events deadline w r os)
    obtain stop e1 rem e2 polled e3 where
      s: "run_state (os_stop_requested os) (fst w) = (stop, e1)" "run_state (remaining_milliseconds os deadline) e1 = (rem, e2)"
        "run_state (os_poll os v events (min rem 250)) e2 = (polled, e3)"
      by (metis surj_pair)
    have again: "snd (snd r) = snd w \<and> wait_fd os v events deadline e3 = Some (fst r, fst (snd r))"
      if "f x v events deadline (e3, snd w) = Some r" using 1(1) [OF that] 1(3) by simp
    from 1(2,3) s again show ?case
      by (subst wait_fd.simps)
        (auto simp: watch_remaining run_state_beside split: if_splits sum.splits option.splits)
  qed
  from this [OF assms] show ?thesis by simp
qed

text \<open>What holds of an observed probe that went on from a text without a complete line.\<close>

definition probe_result :: "'e os \<Rightarrow> fd \<Rightarrow> time_point \<Rightarrow> bool \<Rightarrow> 'e reading list \<Rightarrow> bool" where
  "probe_result os socket deadline verdict seen \<longleftrightarrow>
     length (received_text seen) \<le> response_capacity \<and> (verdict \<longleftrightarrow> healthy_status (received_text seen) = Some True) \<and>
     (healthy_status (received_text seen) \<noteq> None \<or> length (received_text seen) = response_capacity \<or> conversation_over os socket deadline seen)"

lemma conversation_over_end:
  "received = Inr [] \<Longrightarrow> conversation_over os socket deadline (seen @ [(e, received, e')])"
  "received = Inl error \<Longrightarrow> error \<noteq> EAGAIN \<Longrightarrow> error \<noteq> EINTR \<Longrightarrow> conversation_over os socket deadline (seen @ [(e, received, e')])"
  "wait_fd os socket POLLIN deadline e2 = Some (False, e3) \<Longrightarrow>
     conversation_over os socket deadline ((seen @ [(e1, Inl EAGAIN, e2)]) @ [(e3, received, e4)])"
  by (auto simp: conversation_over_def)

lemma read_status_watched:
  assumes "read_healthy_status (watch os) socket deadline response (e, seen) = Some (verdict, e', seen')"
    and "bounded_recv os" and "received_text seen = response" and "healthy_status response = None" and "length response \<le> response_capacity"
  shows "read_healthy_status os socket deadline response e = Some (verdict, e') \<and> probe_result os socket deadline verdict seen'"
proof -
  have "\<forall>os. x = watch os \<longrightarrow> bounded_recv os \<longrightarrow> received_text (snd w) = response \<longrightarrow> healthy_status response = None \<longrightarrow>
      length response \<le> response_capacity \<longrightarrow>
      read_healthy_status os socket deadline response (fst w) = Some (fst r, fst (snd r)) \<and> probe_result os socket deadline (fst r) (snd (snd r))"
    if "read_healthy_status x socket deadline response w = Some r" for x :: "('x \<times> 'x reading list) os" and socket deadline response w r
  proof (rule read_healthy_status.raw_induct [OF _ that], intro allI impI, goal_cases)
    case (1 f x socket deadline response w r os)
    let ?n = "response_capacity - length response"
    obtain e seen where w: "w = (e, seen)" by (cases w)
    note so_far = 1(5) [unfolded w snd_conv] and open_line = 1(6) and short = 1(7) and bounded = 1(4)
    have IH: "read_healthy_status os socket deadline response' e' = Some (fst r, fst (snd r)) \<and> probe_result os socket deadline (fst r) (snd (snd r))"
      if "f (watch os) socket deadline response' (e', seen') = Some r" "received_text seen' = response'" "healthy_status response' = None"
        "length response' \<le> response_capacity" for response' e' seen'
      using 1(1) [OF that(1)] that 1(4) by auto
    obtain received e1 where recv: "run_state (os_recv os socket ?n) e = (received, e1)" by (cases "run_state (os_recv os socket ?n) e")
    note step = 1(2) [unfolded 1(3) w watch_simps run_watch_recv recv prod.case]
    show ?case
    proof (cases "response_capacity \<le> length response")
      case True
      with step so_far open_line short show ?thesis
        by (subst read_healthy_status.simps) (auto simp: w probe_result_def)
    next
      case False
      have room: "length (response @ bytes) \<le> response_capacity" if "received = Inr bytes" for bytes
        using 1(4) recv that False unfolding bounded_recv_def by fastforce
      show ?thesis
      proof (cases received)
        case (Inr bytes)
        with step recv False so_far open_line room IH [of "response @ bytes" e1 "seen @ [(e, Inr bytes, e1)]"] show ?thesis
          by (subst read_healthy_status.simps)
            (auto simp: w probe_result_def conversation_over_end split: if_splits option.splits)
      next
        case (Inl error)
        consider "error = EINTR" | "error \<noteq> EINTR" "error \<noteq> EAGAIN" | "error = EAGAIN" by blast
        then show ?thesis
        proof cases
          case 1
          with Inl step recv False so_far open_line short IH [of response e1 "seen @ [(e, Inl EINTR, e1)]"] show ?thesis
            by (subst read_healthy_status.simps) (auto simp: w)
        next
          case 2
          with Inl step recv False so_far open_line short show ?thesis
            by (subst read_healthy_status.simps) (auto simp: w probe_result_def conversation_over_end)
        next
          case 3
          let ?seen = "seen @ [(e, Inl EAGAIN, e1)]"
          obtain readable e2 seen2 where waited: "wait_fd (watch os) socket POLLIN deadline (e1, ?seen) = Some (readable, e2, seen2)"
            using step Inl 3 False by (auto simp: Option.bind_eq_Some_conv)
          then have wait: "seen2 = ?seen" "wait_fd os socket POLLIN deadline e1 = Some (readable, e2)" by (simp_all add: watch_wait [OF waited])
          obtain final e3 where last: "run_state (os_recv os socket ?n) e2 = (final, e3)" by (cases "run_state (os_recv os socket ?n) e2")
          have room': "length (response @ bytes) \<le> response_capacity" if "final = Inr bytes" for bytes
            using bounded last that False unfolding bounded_recv_def by fastforce
          have text': "received_text ((seen @ [(e, Inl EAGAIN, e1)]) @ [(e2, final, e3)]) = response @ (case final of Inl _ \<Rightarrow> [] | Inr bytes \<Rightarrow> bytes)"
            using so_far by (cases final) (simp_all del: append_assoc)
          show ?thesis
          proof (cases readable)
            case True
            with Inl 3 step recv False waited wait so_far open_line short IH [of response e2 ?seen] show ?thesis
              by (subst read_healthy_status.simps) (auto simp: w)
          next
            case False
            from \<open>\<not> response_capacity \<le> length response\<close> Inl 3 step recv False waited wait last so_far open_line short room' text'
              conversation_over_end(3) [of os socket deadline e1 e2 seen e final e3]
            show ?thesis
              by (subst read_healthy_status.simps)
                (auto simp: w run_watch_recv probe_result_def split: if_splits option.splits sum.splits)
          qed
        qed
      qed
    qed
  qed
  from this [OF assms(1)] assms(2-) show ?thesis by simp
qed

section \<open>A check always ends\<close>

text \<open>
  What the probe relies on beyond \<^const>\<open>keeps_time\<close>: a \<^verbatim>\<open>send\<close> or \<^verbatim>\<open>recv\<close> that has to be retried took time,
  and \<^verbatim>\<open>recv\<close> on the non-blocking socket, which never sleeps, is not interrupted.
\<close>

definition probe_time :: "'e os \<Rightarrow> ('e \<Rightarrow> time_point) \<Rightarrow> bool" where
  "probe_time os clock \<longleftrightarrow> keeps_time os clock \<and>
     (\<forall>v bytes e. case run_state (os_send os v bytes) e of (sent, e') \<Rightarrow>
        if sent \<in> {Inl EAGAIN, Inl EINTR} then clock e < clock e' else clock e \<le> clock e') \<and>
     (\<forall>v n e. case run_state (os_recv os v n) e of (received, e') \<Rightarrow>
        received \<noteq> Inl EINTR \<and> (if received = Inl EAGAIN then clock e < clock e' else clock e \<le> clock e'))"

lemma probe_timeD:
  assumes "probe_time os clock"
  shows "keeps_time os clock"
    and "run_state (os_send os v bytes) e = (sent, e') \<Longrightarrow> sent \<in> {Inl EAGAIN, Inl EINTR} \<Longrightarrow> clock e < clock e'"
    and "run_state (os_recv os v n) e = (received, e') \<Longrightarrow> received \<noteq> Inl EINTR"
    and "run_state (os_recv os v n) e = (Inl EAGAIN, e') \<Longrightarrow> clock e < clock e'"
proof -
  show "keeps_time os clock" using assms by (simp add: probe_time_def)
  have send: "\<forall>v bytes e. case run_state (os_send os v bytes) e of (sent, e') \<Rightarrow>
      if sent \<in> {Inl EAGAIN, Inl EINTR} then clock e < clock e' else clock e \<le> clock e'"
    using conjunct1 [OF conjunct2 [OF assms [unfolded probe_time_def]]] .
  have recv: "\<forall>v n e. case run_state (os_recv os v n) e of (received, e') \<Rightarrow>
      received \<noteq> Inl EINTR \<and> (if received = Inl EAGAIN then clock e < clock e' else clock e \<le> clock e')"
    using conjunct2 [OF conjunct2 [OF assms [unfolded probe_time_def]]] .
  show "run_state (os_send os v bytes) e = (sent, e') \<Longrightarrow> sent \<in> {Inl EAGAIN, Inl EINTR} \<Longrightarrow> clock e < clock e'"
    using send by (metis (no_types, lifting) case_prod_conv)
  show "run_state (os_recv os v n) e = (received, e') \<Longrightarrow> received \<noteq> Inl EINTR"
    and "run_state (os_recv os v n) e = (Inl EAGAIN, e') \<Longrightarrow> clock e < clock e'"
  proof -
    have "case run_state (os_recv os v n) e of (received, e') \<Rightarrow>
        received \<noteq> Inl EINTR \<and> (if received = Inl EAGAIN then clock e < clock e' else clock e \<le> clock e')"
      by (rule spec [OF spec [OF spec [OF recv]]])
    then show "run_state (os_recv os v n) e = (received, e') \<Longrightarrow> received \<noteq> Inl EINTR"
      and "run_state (os_recv os v n) e = (Inl EAGAIN, e') \<Longrightarrow> clock e < clock e'" by simp_all
  qed
qed

lemma wait_ready_before:
  assumes "keeps_time os clock" and "wait_fd os v events deadline e = Some (True, e')"
  shows "clock e < deadline \<and> clock e \<le> clock e'"
proof
  show "clock e \<le> clock e'" using wait_fd_total [OF assms(1), of v events deadline e] assms(2) by auto
  obtain stop e1 rem e2 where s: "run_state (os_stop_requested os) e = (stop, e1)"
    "run_state (remaining_milliseconds os deadline) e1 = (rem, e2)" by (metis surj_pair)
  with assms(2) have "0 < rem" by (auto simp: wait_fd.simps [of os v events deadline e] split: if_splits)
  moreover have "clock e \<le> clock e1" using assms(1) s(1) by (metis keeps_time_def snd_conv)
  ultimately show "clock e < deadline" using remaining_positive [OF assms(1) s(2)] by simp
qed

lemma send_health_request_total:
  assumes p: "probe_time os clock"
  shows "\<exists>r. send_health_request os socket deadline remaining e = Some r"
proof (induction "length remaining" arbitrary: remaining e rule: less_induct)
  case shorter: less
  show ?case
  proof (induction "nat (deadline - clock e)" arbitrary: e rule: less_induct)
    case sooner: less
    obtain writable e1 where w: "wait_fd os socket POLLOUT deadline e = Some (writable, e1)"
      using wait_fd_total [OF probe_timeD(1) [OF p]] by blast
    obtain sent e2 where s: "run_state (os_send os socket remaining) e1 = (sent, e2)"
      by (cases "run_state (os_send os socket remaining) e1")
    have eq: "send_health_request os socket deadline remaining e =
        (if remaining = [] then Some (True, e) else if \<not> writable then Some (False, e1)
         else case sent of
                Inr n \<Rightarrow> if 0 < n then send_health_request os socket deadline (drop n remaining) e2 else Some (False, e2)
              | Inl error \<Rightarrow> if error \<in> {EAGAIN, EINTR} then send_health_request os socket deadline remaining e2 else Some (False, e2))"
      using w s by (subst send_health_request.simps) simp
    show ?case
    proof (cases "remaining \<noteq> [] \<and> writable \<and> sent \<in> {Inl EAGAIN, Inl EINTR}")
      case True
      with w have "clock e < deadline \<and> clock e \<le> clock e1" by (intro wait_ready_before [OF probe_timeD(1) [OF p]]) simp
      with probe_timeD(2) [OF p s] True have "nat (deadline - clock e2) < nat (deadline - clock e)" by auto
      from sooner.hyps [OF this] True eq show ?thesis by auto
    next
      case False
      with shorter eq show ?thesis by (auto split: sum.splits)
    qed
  qed
qed

lemma read_healthy_status_total:
  assumes p: "probe_time os clock"
  shows "\<exists>r. read_healthy_status os socket deadline response e = Some r"
proof (induction "response_capacity - length response" arbitrary: response e rule: less_induct)
  case fuller: less
  show ?case
  proof (induction "nat (deadline - clock e)" arbitrary: e rule: less_induct)
    case sooner: less
    let ?n = "response_capacity - length response"
    obtain received e1 where r: "run_state (os_recv os socket ?n) e = (received, e1)" by (cases "run_state (os_recv os socket ?n) e")
    obtain readable e2 where w: "wait_fd os socket POLLIN deadline e1 = Some (readable, e2)"
      using wait_fd_total [OF probe_timeD(1) [OF p]] by blast
    show ?case
    proof (cases "response_capacity \<le> length response \<or> received \<noteq> Inl EAGAIN \<or> \<not> readable")
      case True
      have "\<exists>x. read_healthy_status os socket deadline (response @ bytes) e1 = Some x"
        if "length response < response_capacity" "bytes \<noteq> []" for bytes
        using that by (intro fuller.hyps) (simp add: Suc_le_eq diff_less_mono2)
      with True r w probe_timeD(3) [OF p r] show ?thesis
        by (subst read_healthy_status.simps) (auto split: sum.splits option.splits prod.splits)
    next
      case False
      with r w have eq: "read_healthy_status os socket deadline response e = read_healthy_status os socket deadline response e2"
        by (subst read_healthy_status.simps) simp
      have "clock e1 < deadline \<and> clock e1 \<le> clock e2" using w False by (intro wait_ready_before [OF probe_timeD(1) [OF p]]) simp
      with probe_timeD(4) [OF p] r False have "nat (deadline - clock e2) < nat (deadline - clock e)" by fastforce
      from sooner.hyps [OF this] eq show ?thesis by simp
    qed
  qed
qed

lemma watch_probe_time: "probe_time os clock \<Longrightarrow> probe_time (watch os) (clock \<circ> fst)"
  by (simp add: probe_time_def keeps_time_def run_state_beside watch_recv_def case_prod_beta)

lemma first_line_found: "healthy_status response \<noteq> None \<longleftrightarrow> (\<exists>line. first_line response line)"
proof (cases "str_search crlf response")
  case None
  then show ?thesis
    using str_search_first [where pattern = crlf and xs = response] by (auto simp: healthy_status_def first_line_def)
next
  case (Some i)
  then have "\<exists>line. first_line response line"
    using str_search_first [where pattern = crlf and xs = response] by (auto simp: first_line_def)
  with Some show ?thesis by (simp add: healthy_status_def Let_def)
qed

text \<open>
  Property C39. Whatever the peer, the clock, interruptions and a stop request do, the verdict of the probe depends only on the text it
  has received, not on the pieces it came in: it is positive exactly when the first line of that text is a 200 status line, also when
  the line comes with the hang-up. The probe takes at most 514 bytes, and it ends without a complete line only when they are used up or
  the conversation is over. Where time passes, it always reaches a verdict. (\<^verbatim>\<open>recv\<close> is assumed to give at most as many bytes as
  it was asked for.)
\<close>

theorem health_probe_exact:
  assumes "bounded_recv os"
  shows "(\<forall>verdict e' seen. read_healthy_status (watch os) socket deadline [] (e, []) = Some (verdict, e', seen) \<longrightarrow>
      read_healthy_status os socket deadline [] e = Some (verdict, e') \<and> length (received_text seen) \<le> 514 \<and>
      (verdict \<longleftrightarrow> (\<exists>line reason. first_line (received_text seen) line \<and>
         (line = ''HTTP/1.1 200 '' @ reason \<or> line = ''HTTP/1.0 200 '' @ reason))) \<and>
      ((\<exists>line. first_line (received_text seen) line) \<or> length (received_text seen) = 514 \<or> conversation_over os socket deadline seen)) \<and>
    (probe_time os clock \<longrightarrow> (\<exists>verdict e' seen. read_healthy_status (watch os) socket deadline [] (e, []) = Some (verdict, e', seen)))"
proof -
  have capacity: "response_capacity = 514"
    by (simp add: response_capacity_def kMaximumStatusLineBytes_def kStatusLineTerminatorBytes_def)
  have start: "healthy_status [] = None" by (simp add: healthy_status_def crlf_def)
  have "read_healthy_status os socket deadline [] e = Some (verdict, e') \<and> probe_result os socket deadline verdict seen"
    if "read_healthy_status (watch os) socket deadline [] (e, []) = Some (verdict, e', seen)" for verdict e' seen
    by (rule read_status_watched [OF that assms]) (simp_all add: start)
  moreover have "\<exists>verdict e' seen. read_healthy_status (watch os) socket deadline [] (e, []) = Some (verdict, e', seen)" if "probe_time os clock"
    using read_healthy_status_total [OF watch_probe_time [OF that]] by (metis surj_pair)
  ultimately show ?thesis
    by (simp only: probe_result_def capacity healthy_status_first_line first_line_found) blast
qed

text \<open>A peer that has not answered yet, and then sends its status line and closes at once.\<close>

definition hangup_os :: "idle_state os" where
  "hangup_os = idle_os\<lparr>os_poll := \<lambda>_ _ _. idle_call (Inr (Some (POLLIN OR POLLHUP))),
     os_recv := \<lambda>_ n. tick (\<lambda>e. if idle_clock e < 2 then Inl EAGAIN else Inr (take n (''HTTP/1.1 200 OK'' @ crlf))) id\<rparr>"

lemma hangup_recv: "os_recv hangup_os v n =
    tick (\<lambda>e. if idle_clock e < 2 then Inl EAGAIN else Inr (take n (''HTTP/1.1 200 OK'' @ crlf))) id"
  by (simp add: hangup_os_def)

lemma hangup_wait:
  "wait_fd (watch hangup_os) 3 POLLIN 1000000000 (\<lparr>idle_clock = 1, idle_open = []\<rparr>, seen) = Some (False, \<lparr>idle_clock = 4, idle_open = []\<rparr>, seen)"
  by (subst wait_fd.simps)
    (simp add: hangup_os_def idle_os_def watch_remaining run_state_beside remaining_milliseconds_def cxx_quot_def ns_per_millisecond_def INT_MAX_def
      POLLIN_def POLLHUP_def POLLERR_def POLLNVAL_def)

theorem health_probe_exact_witness:
  "\<exists>e' seen. read_healthy_status (watch hangup_os) 3 1000000000 [] (\<lparr>idle_clock = 0, idle_open = []\<rparr>, []) = Some (True, e', seen) \<and>
     read_healthy_status hangup_os 3 1000000000 [] \<lparr>idle_clock = 0, idle_open = []\<rparr> = Some (True, e') \<and>
     (\<exists>line reason. first_line (received_text seen) line \<and> (line = ''HTTP/1.1 200 '' @ reason \<or> line = ''HTTP/1.0 200 '' @ reason))"
proof -
  have line: "healthy_status (take 514 (''HTTP/1.1 200 OK'' @ crlf)) = Some True" "take 514 (''HTTP/1.1 200 OK'' @ crlf) \<noteq> []" by code_simp+
  have capacity: "response_capacity = 514"
    by (simp add: response_capacity_def kMaximumStatusLineBytes_def kStatusLineTerminatorBytes_def)
  obtain e' seen where run: "read_healthy_status (watch hangup_os) 3 1000000000 [] (\<lparr>idle_clock = 0, idle_open = []\<rparr>, []) = Some (True, e', seen)"
    using line by (subst (asm) read_healthy_status.simps)
      (simp add: hangup_wait hangup_recv run_watch_recv capacity del: take_append take_Cons_numeral)
  have "bounded_recv hangup_os" by (auto simp: bounded_recv_def hangup_recv split: if_splits)
  note result = conjunct1 [OF health_probe_exact [OF this], rule_format, OF run]
  show ?thesis
    by (intro exI [of _ e'] exI [of _ seen] conjI)
      (rule run, rule conjunct1 [OF result], rule iffD1 [OF conjunct1 [OF conjunct2 [OF conjunct2 [OF result]]] TrueI])
qed

lemma connect_tcp_total:
  assumes "keeps_time os clock" shows "\<exists>v e'. connect_tcp os address timeout e = Some (v, e')"
proof -
  obtain c e1 now e2 where c: "run_state (start_connect os address None) e = (c, e1)" "run_state (os_now os) e1 = (now, e2)"
    by (metis surj_pair)
  moreover obtain ready e3 where "wait_fd os (cs_socket c) POLLOUT (now + timeout * ns_per_millisecond) e2 = Some (ready, e3)"
    using wait_fd_total [OF assms] by blast
  ultimately show ?thesis by (auto simp: connect_tcp_def Let_def split: sum.splits prod.splits)
qed

lemma check_addresses_total:
  assumes p: "probe_time os clock"
  shows "\<exists>reachable e'. check_addresses os use_http addresses first_address overall_deadline n e = Some (reachable, e')"
proof (induction n arbitrary: e)
  case (Suc n)
  note tot = connect_tcp_total [OF probe_timeD(1) [OF p]] send_health_request_total [OF p] read_healthy_status_total [OF p]
  have "\<exists>healthy e'. check_http_address os address deadline e = Some (healthy, e')" for address deadline e
  proof -
    obtain timeout e1 v e2 where a: "run_state (timeout_until os deadline) e = (timeout, e1)" "connect_tcp os address timeout e1 = Some (v, e2)"
      using tot(1) by (metis surj_pair)
    moreover obtain sent e3 healthy e4 where "send_health_request os v deadline kHealthRequest e2 = Some (sent, e3)"
      "read_healthy_status os v deadline [] e3 = Some (healthy, e4)"
      using tot(2,3) by (metis surj_pair)
    ultimately show ?thesis by (auto simp: check_http_address_def)
  qed
  moreover have "\<exists>healthy e'. check_tcp_address os address deadline e = Some (healthy, e')" for address deadline e
  proof -
    obtain timeout e1 v e2 where "run_state (timeout_until os deadline) e = (timeout, e1)" "connect_tcp os address timeout e1 = Some (v, e2)"
      using tot(1) by (metis surj_pair)
    then show ?thesis by (auto simp: check_tcp_address_def)
  qed
  ultimately have check: "\<exists>healthy e'. (if use_http then check_http_address os address deadline e
      else check_tcp_address os address deadline e) = Some (healthy, e')" for address deadline e by simp
  obtain stop e1 now e2 where s: "run_state (os_stop_requested os) e = (stop, e1)" "run_state (os_now os) e1 = (now, e2)"
    by (metis surj_pair)
  obtain healthy e3 where h: "(if use_http
      then check_http_address os (addresses ! ((first_address + (length addresses - Suc n)) mod length addresses))
        (now + cxx_quot (overall_deadline - now) (int (Suc n))) e2
      else check_tcp_address os (addresses ! ((first_address + (length addresses - Suc n)) mod length addresses))
        (now + cxx_quot (overall_deadline - now) (int (Suc n))) e2) = Some (healthy, e3)"
    using check by blast
  show ?case unfolding check_addresses.simps s prod.case Let_def h using Suc.IH [of e3] by auto
qed auto

text \<open>
  Property C40. A health check of a backend always returns, whatever the peer does, and its only effect on
  the shared backends is to record one outcome for that backend; in particular the connection
  counters that routing reads are untouched.
\<close>

theorem check_backend_returns:
  assumes "probe_time os clock"
  shows "\<exists>m' reachable. check_backend os ref config m = Some m' \<and>
    hm_backends m' = (hm_backends m)[ref := record_check config reachable (hm_backends m ! ref)] \<and>
    be_active_connections (record_check config reachable (hm_backends m ! ref)) = be_active_connections (hm_backends m ! ref)"
proof -
  let ?b = "hm_backends m ! ref"
  let ?http = "be_health_socket_addresses ?b \<noteq> []"
  let ?as = "if ?http then be_health_socket_addresses ?b else be_socket_addresses ?b"
  let ?first = "if length ?as = 0 then 0 else hm_address_sequence m mod length ?as"
  obtain now e1 where now: "run_state (os_now os) (hm_env m) = (now, e1)" by (cases "run_state (os_now os) (hm_env m)")
  obtain reachable e2 where c: "check_addresses os ?http ?as ?first
      (now + connect_timeout_milliseconds config * ns_per_millisecond) (length ?as) e1 = Some (reachable, e2)"
    using check_addresses_total [OF assms] by blast
  have "be_active_connections (record_check config reachable ?b) = be_active_connections ?b"
    by (simp add: record_check_def Let_def)
  moreover have "\<exists>m'. check_backend os ref config m = Some m' \<and> hm_backends m' = (hm_backends m)[ref := record_check config reachable ?b]"
    using now c by (cases "length ?as = 0") (simp_all add: check_backend_def Let_def)
  ultimately show ?thesis by blast
qed

lemma idle_probe_time: "probe_time idle_os idle_clock"
  using idle_keeps_time by (simp add: probe_time_def idle_os_def)

theorem check_backend_returns_witness:
  "\<exists>m' reachable. check_backend idle_os 0 default_health
      \<lparr>hm_backends = [sample_backend 3], hm_address_sequence = 0, hm_env = \<lparr>idle_clock = 0, idle_open = []\<rparr>\<rparr> = Some m' \<and>
    hm_backends m' = [record_check default_health reachable (sample_backend 3)] \<and>
    be_active_connections (record_check default_health reachable (sample_backend 3)) = be_active_connections (sample_backend 3)"
  using check_backend_returns [OF idle_probe_time, of 0 default_health
      "\<lparr>hm_backends = [sample_backend 3], hm_address_sequence = 0, hm_env = \<lparr>idle_clock = 0, idle_open = []\<rparr>\<rparr>"]
  by simp

end
