(* ===== verification/Main_Loop.thy ===== *)
theory Main_Loop
  imports Http_Api Health_Monitor
begin

text \<open>
  The process, from \<^verbatim>\<open>src/src/main.cpp\<close>: start-up, the loop that applies reloads, address refreshes and renewed
  TLS material, and the health check of a running instance. What the process asks of its host is a record of actions.
\<close>

section \<open>The host\<close>

text \<open>
  \<open>ho_stat\<close> gives the modification time and the size; \<open>ho_nofile\<close> the soft descriptor limit, nothing when it cannot be read;
  \<open>ho_resolver\<close> the answers of the resolver at this moment; \<open>ho_requested\<close> whether a stop and a reload have been requested by this
  moment, by a signal or a thread that failed, while the process is still starting. \<open>ho_http_start\<close> starts a server of the HTTP library.
\<close>

record ('e, 'g) host =
  ho_deps :: "('e, 'g) deps"
  ho_openssl :: "'e openssl"
  ho_machine :: machine
  ho_getenv :: "string \<Rightarrow> string option"
  ho_read_file :: "string \<Rightarrow> ('e, string option) state"
  ho_stat :: "string \<Rightarrow> ('e, (int \<times> int) option) state"
  ho_nofile :: "('e, nat option) state"
  ho_resolver :: "('e, resolver) state"
  ho_requested :: "('e, bool \<times> bool) state"
  ho_http_start :: "http_router \<Rightarrow> http_options \<Rightarrow> ('e, unit result) state"
  ho_yaml :: yaml_reader
  ho_inet_pton :: address_reader

definition kDefaultConfigPath :: string where "kDefaultConfigPath = ''/etc/erikslund-pool-lb/pool-lb.yml''"
definition kMainLoopInterval :: int where "kMainLoopInterval = 200 * ns_per_millisecond"
definition kAddressRefreshInterval :: int where "kAddressRefreshInterval = 5 * 60 * ns_per_second"
definition kTlsMaterialPollInterval :: int where "kTlsMaterialPollInterval = 30 * ns_per_second"

section \<open>Helpers\<close>

definition file_fingerprint :: "('e, 'g) host \<Rightarrow> string \<Rightarrow> ('e, string) state" where
  "file_fingerprint h path =
     do {
       info \<leftarrow> ho_stat h (c_str path);
       State_Monad.return (case info of
         Some (mtime, bytes) \<Rightarrow> path @ '':'' @ int_to_string mtime @ '':'' @ int_to_string bytes @ '';''
       | None \<Rightarrow> path @ '':missing;'')
     }"

fun fingerprint_loop :: "('e, 'g) host \<Rightarrow> string \<Rightarrow> listener_config list \<Rightarrow> ('e, string) state" where
  "fingerprint_loop h fingerprint [] = State_Monad.return fingerprint"
| "fingerprint_loop h fingerprint (listener # listeners) =
     (if \<not> lc_tls listener then fingerprint_loop h fingerprint listeners
      else do {
        certificate \<leftarrow> file_fingerprint h (lc_certificate_file listener);
        key \<leftarrow> file_fingerprint h (lc_private_key_file listener);
        fingerprint_loop h (fingerprint @ certificate @ key) listeners
      })"

definition tls_material_fingerprint :: "('e, 'g) host \<Rightarrow> config \<Rightarrow> ('e, string) state" where
  "tls_material_fingerprint h config = fingerprint_loop h [] (cfg_listeners config)"

definition config_path_from :: "(string \<Rightarrow> string option) \<Rightarrow> string list \<Rightarrow> string result" where
  "config_path_from getenv arguments =
     (case getenv ''ERIKSLUND_POOL_LB_CONFIG'' of
        Some (c # environment) \<Rightarrow> Inr (c # environment)
      | _ \<Rightarrow>
          if length arguments = 1 then Inr kDefaultConfigPath
          else if length arguments = 3 \<and> arguments ! 1 = ''--config'' then Inr (arguments ! 2)
          else Inl (ConfigError ''usage: erikslund-pool-lb [--config PATH] | --health-check HOST:PORT''))"

definition kDescriptorHeadroom :: nat where "kDescriptorHeadroom = 4096"
definition RLIM_INFINITY :: nat where "RLIM_INFINITY = 2 ^ 64 - 1"

definition check_descriptor_limit :: "nat option \<Rightarrow> config \<Rightarrow> unit result" where
  "check_descriptor_limit limit config =
     (case limit of
        None \<Rightarrow> Inl (ConfigError ''cannot read RLIMIT_NOFILE'')
      | Some rlim_cur \<Rightarrow>
          (let sessions = max_connections (cfg_limits config)
           in if (2 ^ 64 - 1 - kDescriptorHeadroom) div 2 < sessions
              then Inl (ConfigError ''limits.max_connections is too large'')
              else let required = sessions * 2 + kDescriptorHeadroom
                   in if rlim_cur \<noteq> RLIM_INFINITY \<and> rlim_cur < required
                      then Inl (ConfigError (''RLIMIT_NOFILE is '' @ to_string rlim_cur @ '' but at least '' @ to_string required @
                             '' is required for '' @ to_string sessions @ '' sessions''))
                      else Inr ()))"

definition validate_file_descriptor_limit :: "('e, 'g) host \<Rightarrow> config \<Rightarrow> ('e, unit result) state" where
  "validate_file_descriptor_limit h config =
     do { limit \<leftarrow> ho_nofile h; State_Monad.return (check_descriptor_limit limit config) }"

text \<open>Reading the file and checking the descriptor limit, as start-up and reload both begin.\<close>

definition load_config :: "('e, 'g) host \<Rightarrow> string \<Rightarrow> ('e, config result) state" where
  "load_config h path =
     do {
       text \<leftarrow> ho_read_file h path;
       case from_file (\<lambda>_. text) (ho_yaml h) (ho_inet_pton h) path of
         Inl error \<Rightarrow> State_Monad.return (Inl error)
       | Inr config \<Rightarrow>
           do {
             checked \<leftarrow> validate_file_descriptor_limit h config;
             State_Monad.return (and_then checked (\<lambda>_. Inr config))
           }
     }"

section \<open>The health check of a running instance\<close>

definition kHealthCheckTimeout :: int where "kHealthCheckTimeout = 3 * ns_per_second"

definition healthz_request :: string where
  "healthz_request = ''GET /healthz HTTP/1.1'' @ crlf @ ''Host: localhost'' @ crlf @ ''Connection: close'' @ crlf @ crlf"

fun connect_first :: "'e os \<Rightarrow> time_point \<Rightarrow> socket_address list \<Rightarrow> 'e \<Rightarrow> (fd \<times> 'e) option" where
  "connect_first os deadline [] e = Some (-1, e)"
| "connect_first os deadline (candidate # addresses) e =
     (case run_state (os_now os) e of (time, e) \<Rightarrow>
        if deadline \<le> time then Some (-1, e)
        else do {
          (socket, e) \<leftarrow> connect_tcp os candidate (ceil_milliseconds (deadline - time)) e;
          if fd_valid socket then Some (socket, e) else connect_first os deadline addresses e
        })"

partial_function (option) send_request :: "'e os \<Rightarrow> fd \<Rightarrow> time_point \<Rightarrow> string \<Rightarrow> 'e \<Rightarrow> (bool \<times> 'e) option" where
  "send_request os socket deadline remaining e =
     (if remaining = [] then Some (True, e)
      else do {
        (writable, e) \<leftarrow> wait_fd os socket POLLOUT deadline e;
        if \<not> writable then Some (False, e)
        else case run_state (os_send os socket remaining) e of (sent, e) \<Rightarrow>
          (case sent of
             Inr n \<Rightarrow> send_request os socket deadline (drop n remaining) e
           | Inl error_number \<Rightarrow>
               (if error_number \<in> {EAGAIN, EINTR} then send_request os socket deadline remaining e
                else Some (False, e)))
      })"

definition answered_ok :: "'e os \<Rightarrow> fd \<Rightarrow> time_point \<Rightarrow> 'e \<Rightarrow> (bool \<times> 'e) option" where
  "answered_ok os socket deadline e =
     do {
       (readable, e) \<leftarrow> wait_fd os socket POLLIN deadline e;
       if \<not> readable then Some (False, e)
       else case run_state (os_recv os socket 64) e of (received, e) \<Rightarrow>
         Some (case received of Inl _ \<Rightarrow> False | Inr response \<Rightarrow> response \<noteq> [] \<and> starts_with response ''HTTP/1.1 200 '', e)
     }"

text \<open>Waits without a stop token; the socket is closed on every way out.\<close>

definition run_health_check :: "'e os \<Rightarrow> resolver \<Rightarrow> string \<Rightarrow> 'e \<Rightarrow> (bool result \<times> 'e) option" where
  "run_health_check os getaddrinfo address e =
     (let os = os\<lparr>os_stop_requested := State_Monad.return False\<rparr>
      in case run_state (os_now os) e of (time, e) \<Rightarrow>
        let deadline = time + kHealthCheckTimeout
        in case and_then (parse_endpoint address) (\<lambda>endpoint. resolve_endpoints getaddrinfo endpoint False) of
             Inl error \<Rightarrow> Some (Inl error, e)
           | Inr addresses \<Rightarrow>
               do {
                 (socket, e) \<leftarrow> connect_first os deadline addresses e;
                 if \<not> fd_valid socket then Some (Inr False, e)
                 else do {
                   (sent, e) \<leftarrow> send_request os socket deadline healthz_request e;
                   (ok, e) \<leftarrow> (if sent then answered_ok os socket deadline e else Some (False, e));
                   Some (Inr ok, snd (run_state (fd_destroy os socket) e))
                 }
               })"

section \<open>The process\<close>

text \<open>
  The local variables of \<^verbatim>\<open>main\<close>, the two flags the signal handler sets, the server, and the backends of all routing
  tables. The service state is that of the server.
\<close>

record 'e process =
  pr_edge :: "'e edge"
  pr_backends :: backend_store
  pr_config :: config
  pr_stop_requested :: bool
  pr_reload_requested :: bool
  pr_tls_fingerprint :: string
  pr_next_address_refresh :: time_point
  pr_next_tls_poll :: time_point

datatype signal = SIGHUP | SIGINT | SIGTERM

definition handle_signal :: "signal \<Rightarrow> 'e process \<Rightarrow> 'e process" where
  "handle_signal signal_number p =
     (if signal_number = SIGHUP then p\<lparr>pr_reload_requested := True\<rparr> else p\<lparr>pr_stop_requested := True\<rparr>)"

definition on_edge :: "('e edge, 'a) state \<Rightarrow> ('e process, 'a) state" where
  "on_edge m = State (\<lambda>p. case run_state m (pr_edge p) of (x, w) \<Rightarrow> (x, p\<lparr>pr_edge := w\<rparr>))"

definition on_host :: "('e, 'a) state \<Rightarrow> ('e process, 'a) state" where
  "on_host m = on_edge (edge_do m)"

definition pr_runtime :: "'e process \<Rightarrow> runtime_snapshot" where
  "pr_runtime p = ss_runtime (ed_state (pr_edge p))"

text \<open>Publication, with the backends of the new table.\<close>

definition publish_table :: "config \<Rightarrow> backend_store \<Rightarrow> routing_table \<Rightarrow> ('e process, unit) state" where
  "publish_table config backends routing =
     modify (\<lambda>p. p\<lparr>pr_edge := (pr_edge p)\<lparr>ed_state := publish config routing (ed_state (pr_edge p))\<rparr>, pr_backends := backends\<rparr>)"

section \<open>The loop\<close>

text \<open>
  Every exception of the body is caught and logged; the backends of a table that is not published are dropped.
\<close>

definition apply_replacement :: "('e, 'g) host \<Rightarrow> config \<Rightarrow> ('e process, unit result) state" where
  "apply_replacement h replacement =
     do {
       current \<leftarrow> gets pr_config;
       if restart_required_changes current replacement \<noteq> [] then State_Monad.return (Inr ())
       else do {
         getaddrinfo \<leftarrow> on_host (ho_resolver h);
         p \<leftarrow> State_Monad.get;
         case make_routing_table getaddrinfo (pr_backends p) replacement (Some (rs_routing (pr_runtime p))) of
           Inl error \<Rightarrow> State_Monad.return (Inl error)
         | Inr (backends, routing) \<Rightarrow>
             do {
               reloaded \<leftarrow> on_edge (reload_tls (ho_openssl h) replacement);
               case reloaded of
                 Inl error \<Rightarrow> State_Monad.return (Inl error)
               | Inr _ \<Rightarrow>
                   do {
                     publish_table replacement backends routing;
                     modify (\<lambda>p. p\<lparr>pr_config := replacement\<rparr>);
                     State_Monad.return (Inr ())
                   }
             }
       }
     }"

definition reload_step :: "('e, 'g) host \<Rightarrow> string \<Rightarrow> ('e process, unit) state" where
  "reload_step h config_path =
     do {
       requested \<leftarrow> gets pr_reload_requested;
       modify (\<lambda>p. p\<lparr>pr_reload_requested := False\<rparr>);
       do_if requested (do {
         loaded \<leftarrow> on_host (load_config h config_path);
         case loaded of
           Inl error \<Rightarrow> State_Monad.return ()
         | Inr replacement \<Rightarrow> do { _ \<leftarrow> apply_replacement h replacement; State_Monad.return () }
       })
     }"

definition address_refresh_step :: "('e, 'g) host \<Rightarrow> time_point \<Rightarrow> ('e process, unit) state" where
  "address_refresh_step h time =
     do {
       next_refresh \<leftarrow> gets pr_next_address_refresh;
       do_if (next_refresh \<le> time) (do {
         modify (\<lambda>p. p\<lparr>pr_next_address_refresh := time + kAddressRefreshInterval\<rparr>);
         getaddrinfo \<leftarrow> on_host (ho_resolver h);
         p \<leftarrow> State_Monad.get;
         case make_routing_table getaddrinfo (pr_backends p) (pr_config p) (Some (rs_routing (pr_runtime p))) of
           Inl error \<Rightarrow> State_Monad.return ()
         | Inr (backends, refreshed) \<Rightarrow> publish_table (pr_config p) backends refreshed
       })
     }"

definition tls_poll_step :: "('e, 'g) host \<Rightarrow> time_point \<Rightarrow> ('e process, unit) state" where
  "tls_poll_step h time =
     do {
       next_poll \<leftarrow> gets pr_next_tls_poll;
       do_if (next_poll \<le> time) (do {
         modify (\<lambda>p. p\<lparr>pr_next_tls_poll := time + kTlsMaterialPollInterval\<rparr>);
         config \<leftarrow> gets pr_config;
         fingerprint \<leftarrow> on_host (tls_material_fingerprint h config);
         current \<leftarrow> gets pr_tls_fingerprint;
         do_if (fingerprint \<noteq> current) (do {
           reloaded \<leftarrow> on_edge (reload_tls (ho_openssl h) config);
           case reloaded of
             Inl error \<Rightarrow> State_Monad.return ()
           | Inr _ \<Rightarrow> modify (\<lambda>p. p\<lparr>pr_tls_fingerprint := fingerprint\<rparr>)
         })
       })
     }"

definition main_iteration :: "('e, 'g) host \<Rightarrow> string \<Rightarrow> ('e process, unit) state" where
  "main_iteration h config_path =
     do {
       reload_step h config_path;
       time \<leftarrow> on_host (os_now (d_os (ho_deps h)));
       address_refresh_step h time;
       tls_poll_step h time;
       sleep_from \<leftarrow> on_host (os_now (d_os (ho_deps h)));
       on_host (os_wait_until (d_os (ho_deps h)) (sleep_from + kMainLoopInterval))
     }"

section \<open>Start-up\<close>

definition new_service_state :: "time_point \<Rightarrow> config \<Rightarrow> routing_table \<Rightarrow> service_state" where
  "new_service_state time config routing =
     publish config routing \<lparr>ss_runtime = \<lparr>rs_config = config, rs_routing = routing\<rparr>, ss_tls_certificates = [], ss_stats = new_stats time\<rparr>"

text \<open>
  From the path of the configuration to the entry of the loop, with its threads started; an exception ends the process. The signal
  handlers are installed before the server is built, so that both flags may be set when the loop is entered.
\<close>

definition start_up :: "('e, 'g) host \<Rightarrow> string \<Rightarrow> ('e, 'e process result) state" where
  "start_up h config_path =
     do {
       loaded \<leftarrow> load_config h config_path;
       case loaded of
         Inl error \<Rightarrow> State_Monad.return (Inl error)
       | Inr config \<Rightarrow>
           do {
             getaddrinfo \<leftarrow> ho_resolver h;
             case make_routing_table getaddrinfo [] config None of
               Inl error \<Rightarrow> State_Monad.return (Inl error)
             | Inr (backends, routing) \<Rightarrow>
                 do {
                   started \<leftarrow> os_now (d_os (ho_deps h));
                   e \<leftarrow> State_Monad.get;
                   case run_state (construct_server (ho_deps h) (ho_openssl h) getaddrinfo (ho_machine h) backends config)
                          (empty_runtime e (new_service_state started config routing)) of
                     (Inl error, w) \<Rightarrow> do { State_Monad.set (ed_env w); State_Monad.return (Inl error) }
                   | (Inr _, w) \<Rightarrow>
                       do {
                         State_Monad.set (ed_env w);
                         http \<leftarrow> new_http_server (ho_http_start h) config;
                         case http of
                           Inl error \<Rightarrow>
                             do {
                               destroy_reactors (d_os (ho_deps h)) (ed_reactors w);
                               free_contexts (ho_openssl h) (ed_contexts w);
                               State_Monad.return (Inl error)
                             }
                         | Inr _ \<Rightarrow>
                             do {
                               fingerprint \<leftarrow> tls_material_fingerprint h config;
                               refresh_from \<leftarrow> os_now (d_os (ho_deps h));
                               poll_from \<leftarrow> os_now (d_os (ho_deps h));
                               (stop, reload) \<leftarrow> ho_requested h;
                               e \<leftarrow> State_Monad.get;
                               State_Monad.return (Inr
                                 \<lparr>pr_edge = start_server (w\<lparr>ed_env := e\<rparr>), pr_backends = backends, pr_config = config,
                                  pr_stop_requested = stop, pr_reload_requested = reload, pr_tls_fingerprint = fingerprint,
                                  pr_next_address_refresh = refresh_from + kAddressRefreshInterval,
                                  pr_next_tls_poll = poll_from + kTlsMaterialPollInterval\<rparr>)
                             }
                       }
                 }
           }
     }"

section \<open>The entry of the process\<close>

text \<open>
  What \<^verbatim>\<open>main\<close> does before its loop: an exit status on the left, or the process that enters the loop. Nothing means that it does
  not get there.
\<close>

definition main_entry :: "('e, 'g) host \<Rightarrow> string list \<Rightarrow> 'e \<Rightarrow> ((nat + 'e process) \<times> 'e) option" where
  "main_entry h arguments e =
     (if length arguments = 3 \<and> arguments ! 1 = ''--health-check''
      then case run_state (ho_resolver h) e of (getaddrinfo, e) \<Rightarrow>
        do {
          (healthy, e) \<leftarrow> run_health_check (d_os (ho_deps h)) getaddrinfo (arguments ! 2) e;
          Some (Inl (case healthy of Inr ok \<Rightarrow> if ok then 0 else 1 | Inl error \<Rightarrow> 1), e)
        }
      else case config_path_from (ho_getenv h) arguments of
        Inl error \<Rightarrow> Some (Inl 1, e)
      | Inr config_path \<Rightarrow>
          (case run_state (start_up h config_path) e of
             (Inl error, e) \<Rightarrow> Some (Inl 1, e)
           | (Inr p, e) \<Rightarrow> Some (Inr p, e)))"

text \<open>After the loop: the workers are stopped and joined, and the status is zero.\<close>

definition main_shutdown :: "'e process \<Rightarrow> nat \<times> 'e process" where
  "main_shutdown p = (0, p\<lparr>pr_edge := stop_server (pr_edge p)\<rparr>)"

end
