(* ===== verification/Main_Invariant.thy ===== *)
theory Main_Invariant
  imports Main_Loop
begin

text \<open>
  What the main loop guarantees: settings are replaced as a whole or not at all, and whatever is published was
  validated, fits the running workers and agrees with the listeners, the routes and the byte budget.
\<close>

section \<open>Reloading TLS material, without what OpenSSL promises\<close>

lemma load_loop_slots:
  "wp (load_loop ol contexts certificates listeners)
     (\<lambda>r _. case r of Inl _ \<Rightarrow> True | Inr (loaded, _) \<Rightarrow> \<exists>fresh. loaded = contexts @ fresh \<and> slots_for fresh listeners) e"
proof (induction listeners arbitrary: contexts certificates e)
  case Nil
  then show ?case by (simp add: wp_simps slots_for_def)
next
  case (Cons listener listeners)
  have step: "wp (load_loop ol (contexts @ [slot]) cs listeners)
     (\<lambda>r _. case r of Inl _ \<Rightarrow> True | Inr (loaded, _) \<Rightarrow> \<exists>fresh. loaded = contexts @ fresh \<and> slots_for fresh (listener # listeners)) e"
    if "slot \<noteq> None \<longleftrightarrow> lc_tls listener" for slot cs e
  proof (rule wp_mono [OF Cons.IH], goal_cases)
    case (1 r e')
    with that show ?case
      by (auto simp: slots_for_def split: sum.splits)
  qed
  show ?case
  proof (cases "lc_tls listener")
    case False
    then show ?thesis using step [of None] by simp
  next
    case True
    show ?thesis
      using True step [of "Some _"]
      by (simp add: wp_simps, intro wp_any) (auto simp: wp_simps split: sum.splits intro!: wp_any)
  qed
qed

definition reload_shape :: "config \<Rightarrow> 'e edge \<Rightarrow> unit result \<Rightarrow> 'e edge \<Rightarrow> bool" where
  "reload_shape config w r w' \<longleftrightarrow>
     (case r of
        Inl _ \<Rightarrow> w' = reload_counted w (ed_env w')
      | Inr _ \<Rightarrow> (filter lc_tls (cfg_listeners config) = [] \<and> w' = w) \<or>
          (\<exists>contexts certificates. w' = reload_applied contexts certificates w (ed_env w') \<and>
             slots_for contexts (cfg_listeners config) \<and> length contexts = length (ed_templates w)))"

lemma reload_tls_shape: "wp (reload_tls ol config) (reload_shape config w) w"
proof (cases "filter lc_tls (cfg_listeners config) = []")
  case True
  then show ?thesis by (simp add: reload_tls_def wp_simps reload_shape_def)
next
  case False
  have failed: "wp (reload_failed error) (reload_shape config w) (w\<lparr>ed_env := e\<rparr>)" for error e
    by (simp add: reload_failed_def wp_simps reload_shape_def reload_counted_def)
  show ?thesis unfolding reload_tls_def if_not_P [OF False] wp_simps load_tls_contexts_def
  proof (rule wp_mono [OF load_loop_slots], goal_cases)
    case (1 loaded e)
    show ?case
    proof (cases loaded)
      case (Inl error)
      then show ?thesis by (simp add: failed)
    next
      case (Inr x)
      obtain contexts certificates where x: "x = (contexts, certificates)" by (cases x)
      with 1 Inr have s: "slots_for contexts (cfg_listeners config)" by auto
      have "reload_shape config w (Inr ()) (reload_applied contexts certificates w e')" if "length contexts = length (ed_templates w)" for e'
        using s that unfolding reload_shape_def sum.case
        by (intro disjI2 exI [of _ contexts] exI [of _ certificates] conjI) (simp_all add: reload_applied_def)
      then show ?thesis
        unfolding Inr x by (auto simp: publish_contexts_spec wp_simps reload_applied_def intro!: wp_any failed)
    qed
  qed
qed

text \<open>What a TLS reload leaves alone.\<close>

lemma reload_shape_rest:
  assumes "reload_shape config w r w'"
  shows "ss_runtime (ed_state w') = ss_runtime (ed_state w)" and "ed_templates w' = ed_templates w"
    and "queued_bytes_limit (ss_stats (ed_state w')) = queued_bytes_limit (ss_stats (ed_state w))"
    and "isl r \<Longrightarrow> ed_contexts w' = ed_contexts w \<and> ss_tls_certificates (ed_state w') = ss_tls_certificates (ed_state w)"
    and "\<not> isl r \<Longrightarrow> filter lc_tls (cfg_listeners config) = [] \<and> ed_contexts w' = ed_contexts w \<or> slots_for (ed_contexts w') (cfg_listeners config)"
proof -
  have cases: "(isl r \<and> (\<exists>e. w' = reload_counted w e)) \<or> (\<not> isl r \<and> filter lc_tls (cfg_listeners config) = [] \<and> w' = w) \<or>
    (\<not> isl r \<and> (\<exists>contexts certificates e. w' = reload_applied contexts certificates w e \<and> slots_for contexts (cfg_listeners config)))"
    using assms unfolding reload_shape_def by (cases r) (simp_all, blast+)
  then show "ss_runtime (ed_state w') = ss_runtime (ed_state w)" "ed_templates w' = ed_templates w"
    "queued_bytes_limit (ss_stats (ed_state w')) = queued_bytes_limit (ss_stats (ed_state w))"
    by (auto simp: reload_counted_def reload_applied_def)
  from cases show "isl r \<Longrightarrow> ed_contexts w' = ed_contexts w \<and> ss_tls_certificates (ed_state w') = ss_tls_certificates (ed_state w)"
    by (auto simp: reload_counted_def)
  from cases show "\<not> isl r \<Longrightarrow> filter lc_tls (cfg_listeners config) = [] \<and> ed_contexts w' = ed_contexts w \<or> slots_for (ed_contexts w') (cfg_listeners config)"
    by (auto simp: reload_applied_def)
qed

section \<open>One reload\<close>

lemma wp_on_edge [wp_simps]: "wp (on_edge m) Q = (\<lambda>p. wp m (\<lambda>x w. Q x (p\<lparr>pr_edge := w\<rparr>)) (pr_edge p))"
  by (simp add: wp_def on_edge_def fun_eq_iff split: prod.splits)

text \<open>What may differ when a reload is rejected: the host, and the counter of failed TLS reloads.\<close>

definition settings :: "'e process \<Rightarrow> config \<times> runtime_snapshot \<times> backend_store \<times> tls_context_store \<times> tls_certificate_status list \<times> nat" where
  "settings p = (pr_config p, pr_runtime p, pr_backends p, ed_contexts (pr_edge p), ss_tls_certificates (ed_state (pr_edge p)),
     queued_bytes_limit (ss_stats (ed_state (pr_edge p))))"

definition kept :: "'e process \<Rightarrow> 'e process \<Rightarrow> bool" where
  "kept p p' \<longleftrightarrow> settings p' = settings p \<and> ed_templates (pr_edge p') = ed_templates (pr_edge p)"

definition replaced :: "config \<Rightarrow> 'e process \<Rightarrow> 'e process \<Rightarrow> bool" where
  "replaced c p p' \<longleftrightarrow>
     pr_config p' = c \<and> rs_config (pr_runtime p') = c \<and>
     queued_bytes_limit (ss_stats (ed_state (pr_edge p'))) = max_queued_bytes (cfg_limits c) \<and>
     (\<exists>getaddrinfo. make_routing_table getaddrinfo (pr_backends p) c (Some (rs_routing (pr_runtime p))) =
        Inr (pr_backends p', rs_routing (pr_runtime p'))) \<and>
     (filter lc_tls (cfg_listeners c) = [] \<and> ed_contexts (pr_edge p') = ed_contexts (pr_edge p) \<or>
      slots_for (ed_contexts (pr_edge p')) (cfg_listeners c)) \<and>
     ed_templates (pr_edge p') = ed_templates (pr_edge p)"

lemma kept_refl: "kept p p" by (simp add: kept_def)

lemma settings_host [simp]:
  "settings (p\<lparr>pr_edge := pr_edge p\<lparr>ed_env := e\<rparr>\<rparr>) = settings p" "settings (p\<lparr>pr_reload_requested := b\<rparr>) = settings p"
  "settings (p\<lparr>pr_next_address_refresh := t\<rparr>) = settings p" "settings (p\<lparr>pr_next_tls_poll := t\<rparr>) = settings p"
  "settings (p\<lparr>pr_tls_fingerprint := s\<rparr>) = settings p" "settings (p\<lparr>pr_stop_requested := b\<rparr>) = settings p"
  by (simp_all add: settings_def pr_runtime_def)

lemma apply_replacement_outcome:
  "wp (apply_replacement h c) (\<lambda>_ p'. kept p p' \<or> restart_required_changes (pr_config p) c = [] \<and> replaced c p p') p"
proof (cases "restart_required_changes (pr_config p) c = []")
  case False
  then show ?thesis by (simp add: apply_replacement_def wp_simps kept_refl)
next
  case True
  let ?P = "\<lambda>p'. kept p p' \<or> restart_required_changes (pr_config p) c = [] \<and> replaced c p p'"
  have host: "kept p (p\<lparr>pr_edge := pr_edge p\<lparr>ed_env := e\<rparr>\<rparr>)" for e by (simp add: kept_def)
  have reload: "wp (reload_tls (ho_openssl h) c) (\<lambda>r w. case r of
       Inl error \<Rightarrow> ?P (p\<lparr>pr_edge := w\<rparr>)
     | Inr _ \<Rightarrow> ?P (p\<lparr>pr_edge := w\<lparr>ed_state := publish c routing (ed_state w)\<rparr>, pr_backends := backends, pr_config := c\<rparr>)) (pr_edge p\<lparr>ed_env := e\<rparr>)"
    if m: "make_routing_table getaddrinfo (pr_backends p) c (Some (rs_routing (pr_runtime p))) = Inr (backends, routing)"
    for getaddrinfo backends routing e
  proof (rule wp_mono [OF reload_tls_shape], goal_cases)
    case (1 r w)
    show ?case
    proof (cases r)
      case (Inl error)
      with reload_shape_rest [OF 1] show ?thesis by (simp add: kept_def settings_def pr_runtime_def)
    next
      case (Inr u)
      with reload_shape_rest [OF 1] have "ed_templates w = ed_templates (pr_edge p) \<and>
        (filter lc_tls (cfg_listeners c) = [] \<and> ed_contexts w = ed_contexts (pr_edge p) \<or> slots_for (ed_contexts w) (cfg_listeners c))"
        by simp
      then have "replaced c p (p\<lparr>pr_edge := w\<lparr>ed_state := publish c routing (ed_state w)\<rparr>, pr_backends := backends, pr_config := c\<rparr>)"
        using m by (auto simp: replaced_def pr_runtime_def publish_def publish_limit_def publish_runtime_def)
      with Inr True show ?thesis by simp
    qed
  qed
  show ?thesis
    unfolding apply_replacement_def wp_simps on_host_def publish_table_def True
  proof (simp only: simp_thms if_False, rule wp_any, goal_cases)
    case (1 getaddrinfo e)
    let ?made = "make_routing_table getaddrinfo (pr_backends p) c (Some (rs_routing (pr_runtime p)))"
    show ?case
    proof (cases ?made)
      case (Inl error)
      then show ?thesis using host by (simp add: pr_runtime_def wp_simps)
    next
      case (Inr x)
      obtain backends routing where x: "x = (backends, routing)" by (cases x)
      show ?thesis
        using reload [OF Inr [unfolded x], of e] Inr True unfolding x
        by (auto simp: pr_runtime_def wp_simps split: sum.splits elim!: wp_mono)
    qed
  qed
qed

lemma load_config_validated:
  "wp (load_config h path) (\<lambda>r _. case r of Inl _ \<Rightarrow> True
     | Inr c \<Rightarrow> validate (ho_inet_pton h) c = Inr () \<and> max_connections (cfg_limits c) \<le> (2 ^ 64 - 1 - kDescriptorHeadroom) div 2) e"
  unfolding load_config_def wp_bind
proof (rule wp_any, goal_cases)
  case (1 contents e)
  show ?case
  proof (cases "from_file (\<lambda>_. contents) (ho_yaml h) (ho_inet_pton h) path")
    case (Inr c)
    then have "validate (ho_inet_pton h) c = Inr ()" by (auto simp: from_file_def from_string_Inr split: option.splits)
    with Inr show ?thesis
      by (auto simp: wp_simps validate_file_descriptor_limit_def check_descriptor_limit_def Let_def split: option.splits intro!: wp_any)
  qed (simp add: wp_simps)
qed

text \<open>
  Property C14. A reload is applied as a whole or not at all. Whatever the file, the resolver, the TLS material and
  the descriptor limit are: after the reload step either nothing of the settings changed (configuration, published
  snapshot, backends, contexts, certificate dates and byte limit), or a reload was requested and everything now comes from one configuration that
  was read and validated, fits the descriptor arithmetic, keeps what needs a restart, and whose routing
  table was built against the previous one; the contexts match its listeners.
\<close>

theorem reload_applied_or_kept:
  "let p' = snd (run_state (reload_step h path) p)
   in settings p' = settings p \<or>
      (pr_reload_requested p \<and>
       validate (ho_inet_pton h) (pr_config p') = Inr () \<and> max_connections (cfg_limits (pr_config p')) * 2 + 4096 < 2 ^ 64 \<and>
       restart_required_changes (pr_config p) (pr_config p') = [] \<and> replaced (pr_config p') p p')"
proof -
  let ?P = "\<lambda>p'. kept p p' \<or>
      (pr_reload_requested p \<and>
       validate (ho_inet_pton h) (pr_config p') = Inr () \<and> max_connections (cfg_limits (pr_config p')) * 2 + 4096 < 2 ^ 64 \<and>
       restart_required_changes (pr_config p) (pr_config p') = [] \<and> replaced (pr_config p') p p')"
  have same: "kept (p\<lparr>pr_reload_requested := False, pr_edge := pr_edge p\<lparr>ed_env := e\<rparr>\<rparr>) p' \<longleftrightarrow> kept p p'"
    "replaced c (p\<lparr>pr_reload_requested := False, pr_edge := pr_edge p\<lparr>ed_env := e\<rparr>\<rparr>) p' \<longleftrightarrow> replaced c p p'" for e p' c
    by (simp_all add: kept_def replaced_def settings_def pr_runtime_def)
  have "wp (reload_step h path) (\<lambda>_. ?P) p"
  proof (cases "pr_reload_requested p")
    case False
    then show ?thesis by (simp add: reload_step_def wp_simps kept_def)
  next
    case True
    show ?thesis unfolding reload_step_def wp_simps on_host_def if_P [OF True]
    proof (rule wp_mono [OF load_config_validated], goal_cases)
      case (1 loaded e)
      show ?case
      proof (cases loaded)
        case (Inl error)
        then show ?thesis by (simp add: wp_simps kept_def settings_def pr_runtime_def)
      next
        case (Inr c)
        with 1 have v: "validate (ho_inet_pton h) c = Inr ()" "max_connections (cfg_limits c) * 2 + 4096 < 2 ^ 64"
          by (simp_all add: kDescriptorHeadroom_def)
        show ?thesis unfolding Inr sum.case wp_simps
        proof (rule wp_mono [OF apply_replacement_outcome], goal_cases)
          case (1 r p')
          then have "kept p p' \<or> restart_required_changes (pr_config p) c = [] \<and> replaced c p p'" by (simp add: same)
          moreover have "pr_config p' = c" if "replaced c p p'" using that by (simp add: replaced_def)
          ultimately show ?case using v True by auto
        qed
      qed
    qed
  qed
  then show ?thesis by (auto simp: wp_def Let_def kept_def split: prod.splits)
qed

section \<open>Every state of the process\<close>

definition coherent :: "('e, 'g) host \<Rightarrow> config \<Rightarrow> 'e process \<Rightarrow> bool" where
  "coherent h original p \<longleftrightarrow>
     (let config = pr_config p; table = rs_routing (pr_runtime p)
      in rs_config (pr_runtime p) = config \<and> validate (ho_inet_pton h) config = Inr () \<and>
         max_connections (cfg_limits config) * 2 + 4096 < 2 ^ 64 \<and> restart_required_changes original config = [] \<and>
         list_all2 (pool_for (pr_backends p)) (rt_pools table) (cfg_pools config) \<and>
         rt_active_pool_index table < length (rt_pools table) \<and>
         ps_name (rt_pools table ! rt_active_pool_index table) = cfg_active_pool config \<and>
         queued_bytes_limit (ss_stats (ed_state (pr_edge p))) = max_queued_bytes (cfg_limits config) \<and>
         slots_for (ed_contexts (pr_edge p)) (cfg_listeners config))"

lemma coherent_kept: "kept p p' \<Longrightarrow> coherent h original p \<Longrightarrow> coherent h original p'"
  by (simp add: kept_def settings_def coherent_def)

lemma same_listener_trans: "same_listener a b \<Longrightarrow> same_listener b c \<Longrightarrow> same_listener a c"
  by (simp add: same_listener_def)

lemma restart_trans:
  assumes "restart_required_changes a b = []" and "restart_required_changes b c = []"
  shows "restart_required_changes a c = []"
proof -
  have "list_all2 same_listener (cfg_listeners a) (cfg_listeners b)" "list_all2 same_listener (cfg_listeners b) (cfg_listeners c)"
    using assms by (auto simp: restart_required_changes_def split: if_splits)
  then have "list_all2 same_listener (cfg_listeners a) (cfg_listeners c)"
    using list_all2_trans [of same_listener same_listener same_listener] same_listener_trans by metis
  with assms show ?thesis by (auto simp: restart_required_changes_def split: if_splits)
qed

lemma slots_same:
  assumes "slots_for contexts (cfg_listeners a)" and "restart_required_changes a b = []"
  shows "slots_for contexts (cfg_listeners b)"
  using assms by (auto simp: slots_for_def restart_required_changes_def same_listener_def list_all2_conv_all_nth split: if_splits)

lemma refs_of_pools: "list_all2 (pool_for store) (rt_pools table) pools \<Longrightarrow> refs_ok store table"
proof -
  assume "list_all2 (pool_for store) (rt_pools table) pools"
  then have "pool \<in> set (rt_pools table) \<Longrightarrow> \<exists>c. pool_for store pool c" for pool by (auto simp: list_all2_conv_all_nth in_set_conv_nth)
  moreover have "ref < length store \<and> be_socket_addresses (store ! ref) \<noteq> []" if "pool_for store pool c" "ref \<in> set (ps_backends pool)" for pool c ref
    using that by (auto simp: pool_for_def list_all2_conv_all_nth in_set_conv_nth backend_for_def)
  ultimately show ?thesis by (auto simp: refs_ok_def)
qed

lemma coherent_built:
  assumes m: "make_routing_table getaddrinfo store c previous = Inr (pr_backends p, rs_routing (pr_runtime p))"
    and prev: "\<And>table. previous = Some table \<Longrightarrow> refs_ok store table"
    and c: "pr_config p = c" "rs_config (pr_runtime p) = c" "validate (ho_inet_pton h) c = Inr ()" "max_connections (cfg_limits c) * 2 + 4096 < 2 ^ 64"
      "restart_required_changes original c = []" "queued_bytes_limit (ss_stats (ed_state (pr_edge p))) = max_queued_bytes (cfg_limits c)"
      "slots_for (ed_contexts (pr_edge p)) (cfg_listeners c)"
  shows "coherent h original p"
proof -
  have "cfg_active_pool c \<in> pc_name ` set (cfg_pools c)" using c(3) by (simp add: validate_accepts config_ok_def)
  from routing_table_built [OF m prev this] c show ?thesis by (simp add: coherent_def Let_def)
qed

lemma coherent_replaced:
  assumes "coherent h original p" and r: "replaced c p p'" and "validate (ho_inet_pton h) c = Inr ()"
    and "max_connections (cfg_limits c) * 2 + 4096 < 2 ^ 64" and q: "restart_required_changes (pr_config p) c = []"
  shows "coherent h original p'"
proof -
  from r obtain getaddrinfo where
    m: "make_routing_table getaddrinfo (pr_backends p) c (Some (rs_routing (pr_runtime p))) = Inr (pr_backends p', rs_routing (pr_runtime p'))"
    by (auto simp: replaced_def)
  have k: "list_all2 (pool_for (pr_backends p)) (rt_pools (rs_routing (pr_runtime p))) (cfg_pools (pr_config p))"
    "slots_for (ed_contexts (pr_edge p)) (cfg_listeners (pr_config p))" "restart_required_changes original (pr_config p) = []"
    using assms(1) by (simp_all add: coherent_def Let_def)
  have "slots_for (ed_contexts (pr_edge p')) (cfg_listeners c)" using r slots_same [OF k(2) q] by (auto simp: replaced_def)
  with r assms(3,4) restart_trans [OF k(3) q] show ?thesis
    by (intro coherent_built [OF m]) (auto simp: replaced_def refs_of_pools [OF k(1)])
qed

lemma reload_step_coherent: "coherent h original p \<Longrightarrow> wp (reload_step h path) (\<lambda>_. coherent h original) p"
proof -
  assume c: "coherent h original p"
  note host = kept_def settings_def pr_runtime_def
  show ?thesis
  proof (cases "pr_reload_requested p")
    case False
    then show ?thesis using c by (simp add: reload_step_def wp_simps coherent_kept [OF _ c] kept_def)
  next
    case True
    show ?thesis unfolding reload_step_def wp_simps on_host_def if_P [OF True]
    proof (rule wp_mono [OF load_config_validated], goal_cases)
      case (1 loaded e)
      define p1 where "p1 = p\<lparr>pr_reload_requested := False, pr_edge := pr_edge p\<lparr>ed_env := e\<rparr>\<rparr>"
      have c1: "coherent h original p1" by (rule coherent_kept [OF _ c]) (simp add: p1_def host)
      show ?case
      proof (cases loaded)
        case (Inl error)
        with c1 show ?thesis by (simp add: wp_simps p1_def)
      next
        case (Inr replacement)
        with 1 have "wp (apply_replacement h replacement) (\<lambda>_. coherent h original) p1"
          using coherent_replaced [OF c1, of replacement] coherent_kept [OF _ c1]
          by (intro wp_mono [OF apply_replacement_outcome]) (auto simp: kDescriptorHeadroom_def)
        with Inr show ?thesis by (simp add: wp_simps p1_def)
      qed
    qed
  qed
qed

lemma address_refresh_coherent:
  assumes c: "coherent h original p"
  shows "wp (address_refresh_step h time) (\<lambda>_. coherent h original) p"
proof (cases "pr_next_address_refresh p \<le> time")
  case False
  then show ?thesis using c by (simp add: address_refresh_step_def wp_simps)
next
  case True
  show ?thesis unfolding address_refresh_step_def wp_simps on_host_def if_P [OF True] publish_table_def
  proof (rule wp_any, goal_cases)
    case (1 getaddrinfo e)
    define p1 where "p1 = p\<lparr>pr_next_address_refresh := time + kAddressRefreshInterval, pr_edge := pr_edge p\<lparr>ed_env := e\<rparr>\<rparr>"
    have c1: "coherent h original p1" by (rule coherent_kept [OF _ c]) (simp add: p1_def kept_def settings_def pr_runtime_def)
    let ?made = "make_routing_table getaddrinfo (pr_backends p1) (pr_config p1) (Some (rs_routing (pr_runtime p1)))"
    have "coherent h original (p1\<lparr>pr_edge := pr_edge p1\<lparr>ed_state := publish (pr_config p1) routing (ed_state (pr_edge p1))\<rparr>, pr_backends := backends\<rparr>)"
      if m: "?made = Inr (backends, routing)" for backends routing
      using c1 m
      by (intro coherent_built [where c = "pr_config p1" and previous = "Some (rs_routing (pr_runtime p1))" and store = "pr_backends p1" and getaddrinfo = getaddrinfo])
        (auto simp: coherent_def Let_def pr_runtime_def publish_def publish_limit_def publish_runtime_def intro: refs_of_pools)
    then show ?case using c1 by (cases ?made) (auto simp: p1_def wp_simps pr_runtime_def)
  qed
qed

lemma tls_poll_coherent:
  assumes c: "coherent h original p"
  shows "wp (tls_poll_step h time) (\<lambda>_. coherent h original) p"
proof (cases "pr_next_tls_poll p \<le> time")
  case False
  then show ?thesis using c by (simp add: tls_poll_step_def wp_simps)
next
  case True
  show ?thesis unfolding tls_poll_step_def wp_simps on_host_def if_P [OF True]
  proof (rule wp_any, goal_cases)
    case (1 fingerprint e)
    define p1 where "p1 = p\<lparr>pr_next_tls_poll := time + kTlsMaterialPollInterval, pr_edge := pr_edge p\<lparr>ed_env := e\<rparr>\<rparr>"
    have c1: "coherent h original p1" by (rule coherent_kept [OF _ c]) (simp add: p1_def kept_def settings_def pr_runtime_def)
    have "wp (reload_tls (ho_openssl h) (pr_config p1)) (\<lambda>r w. coherent h original (p1\<lparr>pr_edge := w\<rparr>)) (pr_edge p1)"
    proof (rule wp_mono [OF reload_tls_shape], goal_cases)
      case (1 r w)
      from reload_shape_rest [OF 1] have "slots_for (ed_contexts w) (cfg_listeners (pr_config p1))"
        using c1 by (cases "isl r") (auto simp: coherent_def Let_def)
      with reload_shape_rest(1-3) [OF 1] c1 show ?case by (simp add: coherent_def Let_def pr_runtime_def)
    qed
    moreover have "coherent h original (q\<lparr>pr_tls_fingerprint := f\<rparr>)" if "coherent h original q" for q f
      using that by (simp add: coherent_def Let_def pr_runtime_def)
    ultimately show ?case using c1 by (auto simp: p1_def wp_simps split: sum.splits elim!: wp_mono)
  qed
qed

lemma on_host_coherent: "coherent h original p \<Longrightarrow> wp (on_host m) (\<lambda>_. coherent h original) p"
  unfolding on_host_def wp_simps by (rule wp_any, rule coherent_kept) (simp_all add: kept_def)

lemma main_iteration_coherent: "coherent h original p \<Longrightarrow> wp (main_iteration h path) (\<lambda>_. coherent h original) p"
  unfolding main_iteration_def wp_bind
  by (rule wp_mono [OF reload_step_coherent], assumption, rule wp_mono [OF on_host_coherent], assumption,
      rule wp_mono [OF address_refresh_coherent], assumption, rule wp_mono [OF tls_poll_coherent], assumption, rule wp_mono [OF on_host_coherent], assumption, rule on_host_coherent)

text \<open>
  What the other threads of the process do between two steps of the main thread: traffic and health checks change
  statistics and the changing part of the backends, and the host goes on.
\<close>

definition same_backend :: "backend_state \<Rightarrow> backend_state \<Rightarrow> bool" where
  "same_backend b b' \<longleftrightarrow> be_name b' = be_name b \<and> be_pool b' = be_pool b \<and> be_configured_address b' = be_configured_address b \<and>
     be_configured_health_address b' = be_configured_health_address b \<and> be_socket_addresses b' = be_socket_addresses b \<and>
     be_health_socket_addresses b' = be_health_socket_addresses b \<and> be_send_proxy_v2 b' = be_send_proxy_v2 b"

text \<open>
  The parts of an iteration are steps of their own, with signals and other threads between them; each part is one step.
\<close>

inductive running :: "('e, 'g) host \<Rightarrow> string \<Rightarrow> 'e process \<Rightarrow> 'e process \<Rightarrow> bool" for h path p0 where
  started: "running h path p0 p0"
| signalled: "running h path p0 p \<Longrightarrow> running h path p0 (handle_signal signal_number p)"
| thread_failed: "running h path p0 p \<Longrightarrow> running h path p0 (p\<lparr>pr_stop_requested := True\<rparr>)"
| elsewhere: "running h path p0 p \<Longrightarrow> queued_bytes_limit s = queued_bytes_limit (ss_stats (ed_state (pr_edge p))) \<Longrightarrow>
    list_all2 same_backend (pr_backends p) backends \<Longrightarrow>
    running h path p0 (p\<lparr>pr_edge := (pr_edge p)\<lparr>ed_env := e, ed_state := (ed_state (pr_edge p))\<lparr>ss_stats := s\<rparr>\<rparr>, pr_backends := backends\<rparr>)"
| reloaded: "running h path p0 p \<Longrightarrow> run_state (reload_step h path) p = ((), p') \<Longrightarrow> running h path p0 p'"
| refreshed: "running h path p0 p \<Longrightarrow> run_state (address_refresh_step h time) p = ((), p') \<Longrightarrow> running h path p0 p'"
| tls_polled: "running h path p0 p \<Longrightarrow> run_state (tls_poll_step h time) p = ((), p') \<Longrightarrow> running h path p0 p'"
| iterated: "running h path p0 p \<Longrightarrow> \<not> pr_stop_requested p \<Longrightarrow> run_state (main_iteration h path) p = ((), p') \<Longrightarrow> running h path p0 p'"

lemma pool_for_same:
  assumes "list_all2 same_backend store store'" and "pool_for store pool c"
  shows "pool_for store' pool c"
proof -
  have "backend_for store' name ref b" if "backend_for store name ref b" for name ref b
  proof -
    have "same_backend (store ! ref) (store' ! ref)" "length store = length store'"
      using that list_all2_nthD [OF assms(1), of ref] list_all2_lengthD [OF assms(1)] unfolding backend_for_def by blast+
    then show ?thesis
      using that unfolding backend_for_def matches_config_def same_backend_def by (intro conjI; elim conjE; metis)
  qed
  with assms(2) show ?thesis unfolding pool_for_def using list_all2_mono by blast
qed

lemma running_coherent:
  assumes "running h path p0 p" and "coherent h original p0"
  shows "coherent h original p"
  using assms
proof induction
  case (signalled p signal_number)
  have "kept p (handle_signal signal_number p)" by (simp add: kept_def handle_signal_def)
  with signalled show ?case using coherent_kept by blast
next
  case (thread_failed p)
  have "kept p (p\<lparr>pr_stop_requested := True\<rparr>)" by (simp add: kept_def)
  with thread_failed show ?case using coherent_kept by blast
next
  case (elsewhere p s backends e)
  then have c: "coherent h original p" by simp
  have "list_all2 (pool_for (pr_backends p)) (rt_pools (rs_routing (pr_runtime p))) (cfg_pools (pr_config p))"
    using c by (simp add: coherent_def Let_def)
  then have "list_all2 (pool_for backends) (rt_pools (rs_routing (pr_runtime p))) (cfg_pools (pr_config p))"
    by (rule list_all2_mono) (rule pool_for_same [OF elsewhere.hyps(3)])
  with c elsewhere.hyps(2) show ?case by (simp add: coherent_def Let_def pr_runtime_def)
next
  case (reloaded p p')
  show ?case by (rule wp_run [OF reload_step_coherent reloaded.hyps(2)]) (use reloaded in simp)
next
  case (refreshed p time p')
  show ?case by (rule wp_run [OF address_refresh_coherent refreshed.hyps(2)]) (use refreshed in simp)
next
  case (tls_polled p time p')
  show ?case by (rule wp_run [OF tls_poll_coherent tls_polled.hyps(2)]) (use tls_polled in simp)
next
  case (iterated p p')
  show ?case by (rule wp_run [OF main_iteration_coherent iterated.hyps(3)]) (use iterated in simp)
qed

section \<open>Start-up\<close>

definition server_slots :: "service_state \<Rightarrow> config \<Rightarrow> 'e edge \<Rightarrow> bool" where
  "server_slots state config w \<longleftrightarrow> slots_for (ed_contexts w) (cfg_listeners config) \<and> ss_runtime (ed_state w) = ss_runtime state \<and>
     queued_bytes_limit (ss_stats (ed_state w)) = queued_bytes_limit (ss_stats state)"

lemma create_workers_slots:
  assumes "server_slots state config w"
  shows "wp (create_workers d ol backends n) (\<lambda>r w'. \<not> isl r \<longrightarrow> server_slots state config w') w"
  unfolding create_workers_def wp_simps wp_stats_set
proof (rule wp_any, goal_cases)
  case (1 created e)
  show ?case
  proof (cases created)
    case (Inl error)
    then show ?thesis by (auto simp: wp_simps intro!: wp_any)
  next
    case (Inr reactors)
    with assms show ?thesis by (simp add: wp_simps wp_stats_set server_slots_def initialize_workers_def)
  qed
qed

lemma construct_server_slots:
  "wp (construct_server d ol getaddrinfo m backends config) (\<lambda>r w. \<not> isl r \<longrightarrow> server_slots state config w) (empty_runtime e state)"
proof (cases "listener_templates getaddrinfo (cfg_listeners config)")
  case (Inl error)
  then show ?thesis by (simp add: construct_server_def wp_simps)
next
  case (Inr templates)
  define w0 where "w0 = (empty_runtime e state)\<lparr>ed_templates := templates\<rparr>"
  have w0: "ed_contexts w0 = []" "ed_state w0 = state" by (simp_all add: w0_def empty_runtime_def)
  show ?thesis unfolding construct_server_def Inr sum.case wp_simps load_tls_contexts_def w0_def [symmetric]
  proof (rule wp_mono [OF load_loop_slots], goal_cases)
    case (1 loaded e1)
    show ?case
    proof (cases loaded)
      case (Inl error)
      then show ?thesis by (simp add: wp_simps)
    next
      case l: (Inr x)
      obtain contexts certificates where x: "x = (contexts, certificates)" by (cases x)
      with 1 l have "slots_for contexts (cfg_listeners config)" by auto
      moreover have p: "publish_contexts contexts (ed_contexts (w0\<lparr>ed_env := e1\<rparr>)) = Inr contexts" by (simp add: publish_contexts_spec w0)
      ultimately show ?thesis unfolding l x sum.case prod.case p wp_simps
        by (intro create_workers_slots) (simp add: server_slots_def w0)
    qed
  qed
qed

lemma start_up_coherent:
  "wp (start_up h path) (\<lambda>r _. case r of Inl _ \<Rightarrow> True | Inr p \<Rightarrow> coherent h (pr_config p) p) e"
  unfolding start_up_def wp_bind
proof (rule wp_mono [OF load_config_validated], goal_cases)
  case (1 loaded e1)
  show ?case
  proof (cases loaded)
    case (Inl error)
    then show ?thesis by (simp add: wp_simps)
  next
    case (Inr c)
    with 1 have v: "validate (ho_inet_pton h) c = Inr ()" "max_connections (cfg_limits c) * 2 + 4096 < 2 ^ 64"
      by (simp_all add: kDescriptorHeadroom_def)
    show ?thesis unfolding Inr sum.case wp_bind
    proof (rule wp_any, goal_cases)
      case (1 getaddrinfo e2)
      show ?case
      proof (cases "make_routing_table getaddrinfo [] c None")
        case (Inl error)
        then show ?thesis by (simp add: wp_simps)
      next
        case made: (Inr x)
        obtain backends routing where x: "x = (backends, routing)" by (cases x)
        show ?thesis unfolding made x sum.case prod.case wp_bind wp_get
        proof (rule wp_any, goal_cases)
          case (1 time e3)
          let ?state = "new_service_state time c routing"
          obtain r w where rw: "run_state (construct_server (ho_deps h) (ho_openssl h) getaddrinfo (ho_machine h) backends c) (empty_runtime e3 ?state) = (r, w)"
            by (metis surj_pair)
          have slots: "\<not> isl r \<longrightarrow> server_slots ?state c w" by (rule wp_run [OF construct_server_slots rw])
          have "coherent h c \<lparr>pr_edge = start_server (w\<lparr>ed_env := e'\<rparr>), pr_backends = backends, pr_config = c, pr_stop_requested = a,
              pr_reload_requested = b, pr_tls_fingerprint = f, pr_next_address_refresh = t, pr_next_tls_poll = u\<rparr>" if "\<not> isl r" for e' a b f t u
            using made x v slots that
            by (intro coherent_built [where c = c and previous = None and store = "[]" and getaddrinfo = getaddrinfo])
              (auto simp: server_slots_def start_server_def pr_runtime_def new_service_state_def publish_def publish_limit_def publish_runtime_def
                restart_required_changes_def same_listener_def list.rel_refl)
          then show ?case
            unfolding rw prod.case by (cases r) (auto simp: wp_simps intro!: wp_any split: sum.splits)
        qed
      qed
    qed
  qed
qed

text \<open>
  Property C4. In every state of a running process between the steps of its main loop, however signals, thread failures, traffic, reloads, address refreshes and TLS
  renewals follow each other: what is published is the configuration the main thread holds; it passed
  validation and the descriptor arithmetic; listeners, API address and number of workers are those the process
  started with; the published routes are its pools, with usable backends, and point at its active pool; the byte
  budget is its limit; and a context is published exactly for its TLS listeners.
\<close>

theorem published_settings_valid:
  assumes "run_state (start_up h path) e = (Inr p0, e')" and "running h path p0 p"
  shows "rs_config (pr_runtime p) = pr_config p \<and> validate (ho_inet_pton h) (pr_config p) = Inr () \<and>
    max_connections (cfg_limits (pr_config p)) * 2 + 4096 < 2 ^ 64 \<and> restart_required_changes (pr_config p0) (pr_config p) = [] \<and>
    list_all2 (pool_for (pr_backends p)) (rt_pools (rs_routing (pr_runtime p))) (cfg_pools (pr_config p)) \<and>
    rt_active_pool_index (rs_routing (pr_runtime p)) < length (cfg_pools (pr_config p)) \<and>
    ps_name (rt_pools (rs_routing (pr_runtime p)) ! rt_active_pool_index (rs_routing (pr_runtime p))) = cfg_active_pool (pr_config p) \<and>
    queued_bytes_limit (ss_stats (ed_state (pr_edge p))) = max_queued_bytes (cfg_limits (pr_config p)) \<and>
    slots_for (ed_contexts (pr_edge p)) (cfg_listeners (pr_config p))"
proof -
  have "coherent h (pr_config p0) p0" using wp_run [OF start_up_coherent assms(1)] by simp
  from running_coherent [OF assms(2) this] show ?thesis
    by (auto simp: coherent_def Let_def dest: list_all2_lengthD)
qed

text \<open>A process on a machine where nothing arrives, with one plaintext listener and one backend.\<close>

definition home_config :: config where
  "home_config = sample_config\<lparr>cfg_listeners := cfg_listeners plain_config, cfg_io_workers := 1\<rparr>"

definition home_host :: "(idle_state, unit) host" where
  "home_host =
     \<lparr>ho_deps = idle_deps, ho_openssl = bare_openssl, ho_machine = \<lparr>mc_hardware_concurrency = 4, mc_affinity = None, mc_cpu_max = None\<rparr>,
      ho_getenv = (\<lambda>_. None), ho_read_file = (\<lambda>_. idle_call (Some ''pools'')), ho_stat = (\<lambda>_. idle_call None),
      ho_nofile = idle_call (Some RLIM_INFINITY), ho_resolver = idle_call one_address_resolver, ho_requested = idle_call (False, False), ho_http_start = (\<lambda>_ _. idle_call (Inr ())),
      ho_yaml = (\<lambda>_ _. Inr home_config), ho_inet_pton = (\<lambda>_ _. None)\<rparr>"

lemma home_valid: "validate (\<lambda>_ _. None) home_config = Inr ()"
proof -
  have e: "endpoint_ok ''10.0.0.1:3333''" "endpoint_ok ''127.0.0.1:7778''"
    using endpoint_okI [of False "''10.0.0.1''" "''3333''"] endpoint_okI [of False "''127.0.0.1''" "''7778''"]
    by (simp_all add: endpoint_text_def host_writable_def is_digit_def digits_value_def)
  have "limits_ok default_limits" "health_ok default_health" "protocol_ok default_protocol"
    by (simp_all add: limits_ok_def default_limits_def positive_rate_def health_ok_def default_health_def
        protocol_ok_def default_protocol_def methods_ok_def)
  with e have "config_ok (\<lambda>_ _. None) home_config"
    by (simp add: config_ok_def home_config_def plain_config_def sample_config_def default_config_def listener_ok_def pools_ok_def all_backends_def backend_ok_def sources_ok_def)
  then show ?thesis by (simp add: validate_accepts)
qed

lemma home_table: "\<exists>backends routing. make_routing_table one_address_resolver [] home_config None = Inr (backends, routing)"
  by (simp add: make_routing_table_def home_config_def sample_config_def default_config_def carried_over_backend_def resolve_backend_def
      resolve_configured_def parse_sample_address resolve_endpoints_def resolve_addresses_def one_address_resolver_def
      sockaddr_bytes_def Let_def)

lemma home_server:
  "wp (construct_server idle_deps bare_openssl one_address_resolver m backends home_config) (\<lambda>r _. \<not> isl r) (empty_runtime e state)"
proof -
  have l: "cfg_listeners home_config = cfg_listeners plain_config" by (simp add: home_config_def)
  obtain a where t: "listener_templates one_address_resolver (cfg_listeners home_config) = Inr [a]" using plain_templates l by auto
  have c: "load_tls_contexts bare_openssl home_config = State_Monad.return (Inr ([None], []))"
    by (simp add: load_tls_contexts_def l plain_config_def)
  show ?thesis
    unfolding construct_server_def t sum.case c create_workers_def wp_simps wp_stats_set
    by (simp add: empty_runtime_def publish_contexts_spec wp_simps wp_stats_set) (rule wp_mono [OF idle_reactors], auto simp: wp_simps wp_stats_set split: sum.splits)
qed

lemma home_start: "wp (start_up home_host path) (\<lambda>r _. \<exists>p. r = Inr p \<and> \<not> pr_stop_requested p) e"
proof -
  obtain backends routing where t: "make_routing_table one_address_resolver [] home_config None = Inr (backends, routing)" using home_table by blast
  have "from_file (\<lambda>_. Some ''pools'') (\<lambda>_ _. Inr home_config) (\<lambda>_ _. None) path = Inr home_config" for path
    by (simp add: from_file_def from_string_def home_valid)
  moreover have "check_descriptor_limit (Some RLIM_INFINITY) home_config = Inr ()"
    by (simp add: check_descriptor_limit_def home_config_def sample_config_def default_config_def default_limits_def kDescriptorHeadroom_def)
  moreover have "\<exists>options. make_options home_config = Inr options"
    using parse_endpoint_text [of False "''127.0.0.1''" "''7778''"]
    by (simp add: make_options_def home_config_def sample_config_def default_config_def endpoint_text_def host_writable_def is_digit_def digits_value_def)
  moreover have "tls_material_fingerprint home_host home_config = State_Monad.return []"
    by (simp add: tls_material_fingerprint_def home_config_def plain_config_def)
  moreover have "wp (State_Monad.set x) Q = (\<lambda>_. Q () x)" for x :: idle_state and Q by (simp add: wp_def State_Monad.set_def fun_eq_iff)
  moreover have "d_os idle_deps = idle_os" by (simp add: idle_deps_def)
  moreover have "False" if "run_state (construct_server idle_deps bare_openssl one_address_resolver m backends home_config) (empty_runtime e state) = (Inl x, w)"
    for m backends e state x w
    using wp_run [OF home_server that] by simp
  ultimately show ?thesis
    by (auto simp: start_up_def new_http_server_def load_config_def validate_file_descriptor_limit_def home_host_def t wp_simps wp_tick idle_os_simps split: sum.splits prod.splits)
qed

theorem published_settings_valid_witness:
  "\<exists>p0 e' p. run_state (start_up home_host ''pool-lb.yml'') \<lparr>idle_clock = 0, idle_open = []\<rparr> = (Inr p0, e') \<and>
     run_state (main_iteration home_host ''pool-lb.yml'') (handle_signal SIGHUP p0) = ((), p) \<and>
     restart_required_changes (pr_config p0) (pr_config p) = [] \<and> rs_config (pr_runtime p) = pr_config p"
proof -
  obtain r e' where run: "run_state (start_up home_host ''pool-lb.yml'') \<lparr>idle_clock = 0, idle_open = []\<rparr> = (r, e')" by (metis surj_pair)
  from wp_run [OF home_start this] obtain p0 where p0: "r = Inr p0" "\<not> pr_stop_requested p0" by blast
  note run = run [unfolded p0(1)]
  from p0(2)
  have s: "\<not> pr_stop_requested (handle_signal SIGHUP p0)" by (simp add: handle_signal_def)
  obtain p where it: "run_state (main_iteration home_host ''pool-lb.yml'') (handle_signal SIGHUP p0) = ((), p)" by (metis old.unit.exhaust surj_pair)
  have "running home_host ''pool-lb.yml'' p0 p"
    by (rule running.iterated [OF running.signalled [OF running.started] s it])
  from published_settings_valid [OF run this] run it show ?thesis by blast
qed

end
