(* ===== verification/Process_Exit.thy ===== *)
theory Process_Exit
  imports Main_Invariant
begin

text \<open>
  How the process ends: the health check of \<^verbatim>\<open>src/src/main.cpp\<close> returns within its deadline, \<^verbatim>\<open>main\<close> reaches its loop or
  an exit status, and a status of zero means what the caller takes it to mean.
\<close>

section \<open>The health check returns\<close>

text \<open>A stream socket that takes no byte of a non-empty buffer reports an error.\<close>

definition sends_progress :: "'e os \<Rightarrow> bool" where
  "sends_progress os \<longleftrightarrow> (\<forall>v bytes e. bytes \<noteq> [] \<longrightarrow> fst (run_state (os_send os v bytes) e) \<noteq> Inr 0)"

lemma send_request_total:
  assumes p: "probe_time os clock" and progress: "sends_progress os"
  shows "\<exists>r e'. send_request os socket deadline remaining e = Some (r, e')"
proof (induction "length remaining" arbitrary: remaining e rule: less_induct)
  case shorter: less
  show ?case
  proof (induction "nat (deadline - clock e)" arbitrary: e rule: less_induct)
    case sooner: less
    obtain writable e1 where w: "wait_fd os socket POLLOUT deadline e = Some (writable, e1)"
      using wait_fd_total [OF probe_timeD(1) [OF p]] by blast
    obtain sent e2 where s: "run_state (os_send os socket remaining) e1 = (sent, e2)"
      by (cases "run_state (os_send os socket remaining) e1")
    have eq: "send_request os socket deadline remaining e =
        (if remaining = [] then Some (True, e) else if \<not> writable then Some (False, e1)
         else case sent of
                Inr n \<Rightarrow> send_request os socket deadline (drop n remaining) e2
              | Inl error \<Rightarrow> if error \<in> {EAGAIN, EINTR} then send_request os socket deadline remaining e2 else Some (False, e2))"
      using w s by (subst send_request.simps) simp
    consider "remaining = [] \<or> \<not> writable" | "remaining \<noteq> []" "writable" "sent \<in> {Inl EAGAIN, Inl EINTR}"
      | n where "remaining \<noteq> []" "writable" "sent = Inr n" | error where "remaining \<noteq> []" "writable" "sent = Inl error" "error \<notin> {EAGAIN, EINTR}"
      by (cases sent) auto
    then show ?case
    proof cases
      case 2
      with w have "clock e < deadline \<and> clock e \<le> clock e1" by (intro wait_ready_before [OF probe_timeD(1) [OF p]]) simp
      with probe_timeD(2) [OF p s 2(3)] have "nat (deadline - clock e2) < nat (deadline - clock e)" by auto
      from sooner.hyps [OF this] 2 eq show ?thesis by auto
    next
      case (3 n)
      with progress s have "0 < n" by (metis fst_conv gr0I sends_progress_def)
      with 3 have "length (drop n remaining) < length remaining" by simp
      from shorter [OF this] 3 eq show ?thesis by simp
    qed (auto simp: eq)
  qed
qed

lemma connect_first_total:
  assumes "keeps_time os clock"
  shows "\<exists>v e'. connect_first os deadline addresses e = Some (v, e')"
proof (induction addresses arbitrary: e)
  case (Cons a addresses)
  obtain time e1 where t: "run_state (os_now os) e = (time, e1)" by (cases "run_state (os_now os) e")
  obtain v e2 where c: "connect_tcp os a (ceil_milliseconds (deadline - time)) e1 = Some (v, e2)"
    using connect_tcp_total [OF assms] by blast
  from Cons [of e2] show ?case by (auto simp: t c)
qed simp

lemma run_health_check_total:
  assumes p: "probe_time os clock" and progress: "sends_progress os"
  shows "\<exists>r e'. run_health_check os getaddrinfo address e = Some (r, e')"
proof -
  let ?os = "os\<lparr>os_stop_requested := State_Monad.return False\<rparr>"
  have p': "probe_time ?os clock" using p by (simp add: probe_time_def keeps_time_def)
  have progress': "sends_progress ?os" using progress by (simp add: sends_progress_def)
  have answered: "\<exists>r e'. answered_ok ?os v deadline e = Some (r, e')" for v deadline e
  proof -
    obtain readable e1 where "wait_fd ?os v POLLIN deadline e = Some (readable, e1)"
      using wait_fd_total [OF probe_timeD(1) [OF p']] by blast
    then show ?thesis by (auto simp: answered_ok_def split: prod.splits)
  qed
  obtain time e1 where t: "run_state (os_now os) e = (time, e1)" by (cases "run_state (os_now os) e")
  show ?thesis
  proof (cases "and_then (parse_endpoint address) (\<lambda>endpoint. resolve_endpoints getaddrinfo endpoint False)")
    case (Inl error)
    then show ?thesis by (simp add: run_health_check_def t Let_def)
  next
    case (Inr addresses)
    obtain v e2 where c: "connect_first ?os (time + kHealthCheckTimeout) addresses e1 = Some (v, e2)"
      using connect_first_total [OF probe_timeD(1) [OF p']] by blast
    obtain sent e3 where s: "send_request ?os v (time + kHealthCheckTimeout) healthz_request e2 = Some (sent, e3)"
      using send_request_total [OF p' progress'] by blast
    obtain ok e4 where "answered_ok ?os v (time + kHealthCheckTimeout) e3 = Some (ok, e4)" using answered by blast
    with Inr t c s show ?thesis by (simp add: run_health_check_def Let_def)
  qed
qed

section \<open>The entry and the exit status\<close>

definition health_check_mode :: "string list \<Rightarrow> bool" where
  "health_check_mode arguments \<longleftrightarrow> length arguments = 3 \<and> arguments ! 1 = ''--health-check''"

lemma entry_health_check:
  assumes "health_check_mode arguments" and p: "probe_time (d_os (ho_deps h)) clock" and progress: "sends_progress (d_os (ho_deps h))"
  shows "\<exists>getaddrinfo e1 healthy e'. run_state (ho_resolver h) e = (getaddrinfo, e1) \<and>
    run_health_check (d_os (ho_deps h)) getaddrinfo (arguments ! 2) e1 = Some (healthy, e') \<and>
    main_entry h arguments e = Some (Inl (if healthy = Inr True then 0 else 1), e')"
proof -
  obtain getaddrinfo e1 where r: "run_state (ho_resolver h) e = (getaddrinfo, e1)" by (cases "run_state (ho_resolver h) e")
  obtain healthy e2 where "run_health_check (d_os (ho_deps h)) getaddrinfo (arguments ! 2) e1 = Some (healthy, e2)"
    using run_health_check_total [OF p progress] by blast
  with assms(1) r show ?thesis by (auto simp: main_entry_def health_check_mode_def split: sum.split)
qed

text \<open>The status of the process: given before the loop, or after a stop was requested and the workers joined.\<close>

inductive main_exits :: "('e, 'g) host \<Rightarrow> string list \<Rightarrow> 'e \<Rightarrow> nat \<Rightarrow> bool" for h arguments e where
  before_loop: "main_entry h arguments e = Some (Inl status, e') \<Longrightarrow> main_exits h arguments e status"
| after_loop: "main_entry h arguments e = Some (Inr p0, e') \<Longrightarrow> config_path_from (ho_getenv h) arguments = Inr path \<Longrightarrow>
    running h path p0 p \<Longrightarrow> pr_stop_requested p \<Longrightarrow> main_shutdown p = (status, p') \<Longrightarrow> main_exits h arguments e status"

text \<open>
  Property C9. Before its loop the process never hangs on the instance it checks. Asked for a health check, it ends with status 0
  exactly when the check found the instance healthy and with 1 otherwise, an address that cannot be used included. Otherwise it ends
  with status 1, when the arguments are not understood, the configuration is refused or the server cannot be built, or it enters
  the loop with validated, published settings; a stop request that came meanwhile is kept.
\<close>

theorem main_entry_returns:
  assumes "probe_time (d_os (ho_deps h)) clock" and "sends_progress (d_os (ho_deps h))"
  shows "if health_check_mode arguments
    then \<exists>getaddrinfo e1 healthy e'. run_state (ho_resolver h) e = (getaddrinfo, e1) \<and>
      run_health_check (d_os (ho_deps h)) getaddrinfo (arguments ! 2) e1 = Some (healthy, e') \<and>
      main_entry h arguments e = Some (Inl (if healthy = Inr True then 0 else 1), e')
    else \<exists>r e'. main_entry h arguments e = Some (r, e') \<and>
      (case config_path_from (ho_getenv h) arguments of
         Inl error \<Rightarrow> r = Inl 1 \<and> e' = e
       | Inr path \<Rightarrow>
           (case run_state (start_up h path) e of
              (Inl error, e1) \<Rightarrow> r = Inl 1 \<and> e' = e1
            | (Inr p, e1) \<Rightarrow> r = Inr p \<and> e' = e1 \<and> validate (ho_inet_pton h) (pr_config p) = Inr () \<and> rs_config (pr_runtime p) = pr_config p))"
proof (cases "health_check_mode arguments")
  case True
  from entry_health_check [OF this assms] True show ?thesis by (simp only: if_True)
next
  case False
  have "validate (ho_inet_pton h) (pr_config p) = Inr () \<and> rs_config (pr_runtime p) = pr_config p"
    if "run_state (start_up h path) e = (Inr p, e')" for path p e'
    using wp_run [OF start_up_coherent that] by (simp add: coherent_def Let_def)
  with False show ?thesis
    by (auto simp: main_entry_def health_check_mode_def split: sum.split prod.split)
qed

lemma idle_sends_progress: "sends_progress idle_os"
  by (simp add: sends_progress_def idle_os_def)

theorem main_entry_returns_witness:
  "(\<exists>status e'. main_entry home_host [''lb'', ''--health-check'', ''10.0.0.1:80''] \<lparr>idle_clock = 0, idle_open = []\<rparr> = Some (Inl status, e') \<and> status \<le> 1) \<and>
   main_entry home_host [''lb'', ''--check''] \<lparr>idle_clock = 0, idle_open = []\<rparr> = Some (Inl 1, \<lparr>idle_clock = 0, idle_open = []\<rparr>)"
proof -
  have os: "d_os (ho_deps home_host) = idle_os" by (simp add: home_host_def idle_deps_def)
  note entry = main_entry_returns [of home_host idle_clock, unfolded os, OF idle_probe_time idle_sends_progress]
  have mode: "health_check_mode [''lb'', ''--health-check'', ''10.0.0.1:80'']" "\<not> health_check_mode [''lb'', ''--check'']"
    by (simp_all add: health_check_mode_def)
  have usage: "config_path_from (ho_getenv home_host) [''lb'', ''--check''] =
      Inl (ConfigError ''usage: erikslund-pool-lb [--config PATH] | --health-check HOST:PORT'')"
    by (simp add: config_path_from_def home_host_def)
  from entry [of "[''lb'', ''--health-check'', ''10.0.0.1:80'']" "\<lparr>idle_clock = 0, idle_open = []\<rparr>", unfolded if_P [OF mode(1)]]
  obtain healthy :: "bool result" and e' where "main_entry home_host [''lb'', ''--health-check'', ''10.0.0.1:80''] \<lparr>idle_clock = 0, idle_open = []\<rparr> =
     Some (Inl (if healthy = Inr True then 0 else 1), e')" by (elim exE conjE)
  moreover from entry [of "[''lb'', ''--check'']" "\<lparr>idle_clock = 0, idle_open = []\<rparr>", unfolded if_not_P [OF mode(2)] usage sum.case]
  have "main_entry home_host [''lb'', ''--check''] \<lparr>idle_clock = 0, idle_open = []\<rparr> = Some (Inl 1, \<lparr>idle_clock = 0, idle_open = []\<rparr>)"
    by (elim exE conjE) simp
  ultimately show ?thesis by simp
qed

text \<open>A process that served exits with status zero; a status other than zero comes from a process that never served.\<close>

lemma main_exits_status:
  assumes "main_exits h arguments e status" and "status \<noteq> 0"
  shows "\<exists>e'. main_entry h arguments e = Some (Inl status, e')"
  using assms by cases (auto simp: main_shutdown_def)

end
