(* ===== verification/Http_Exposition.thy ===== *)
theory Http_Exposition
  imports Http_Api
begin

text \<open>
  What a reader of the endpoint gets: a reference reader of the Prometheus text format recovers exactly the samples, whatever
  the configured names contain; escaped text cannot leave its place in the status page; the page shows the dates
  the certificates carry.
\<close>

section \<open>A reader of the text format\<close>

type_synonym sample = "string \<times> (string \<times> string) list \<times> string"

definition name_char :: "char \<Rightarrow> bool" where
  "name_char c \<longleftrightarrow> (let n = of_char c :: nat in (97 \<le> n \<and> n \<le> 122) \<or> (65 \<le> n \<and> n \<le> 90) \<or> (48 \<le> n \<and> n \<le> 57) \<or> n = 95 \<or> n = 58)"

text \<open>A label value up to its closing quote, and what follows the quote.\<close>

fun read_label :: "string \<Rightarrow> (string \<times> string) option" where
  "read_label [] = None"
| "read_label (c # cs) =
     (if c = CHR 0x22 then Some ([], cs)
      else if c = CHR 0x0A then None
      else if c = CHR 0x5C
      then (case cs of
              d # ds \<Rightarrow>
                if d = CHR 0x5C then map_option (apfst ((#) (CHR 0x5C))) (read_label ds)
                else if d = CHR 0x22 then map_option (apfst ((#) (CHR 0x22))) (read_label ds)
                else if d = CHR ''n'' then map_option (apfst ((#) (CHR 0x0A))) (read_label ds)
                else None
            | [] \<Rightarrow> None)
      else map_option (apfst ((#) c)) (read_label cs))"

text \<open>The labels after an opening brace.\<close>

partial_function (option) read_labels :: "string \<Rightarrow> ((string \<times> string) list \<times> string) option" where
  "read_labels s =
     (case dropWhile name_char s of
        e # q # r \<Rightarrow>
          if e = CHR ''='' \<and> q = CHR 0x22
          then (case read_label r of
                  Some (value, d # r) \<Rightarrow>
                    if d = CHR ''}'' then Some ([(takeWhile name_char s, value)], r)
                    else if d = CHR '',''
                    then Option.bind (read_labels r) (\<lambda>(labels, r). Some ((takeWhile name_char s, value) # labels, r))
                    else None
                | _ \<Rightarrow> None)
          else None
      | _ \<Rightarrow> None)"

definition read_value :: "string \<Rightarrow> (string \<times> string) option" where
  "read_value s =
     (case s of
        c # r \<Rightarrow> if c = CHR '' '' \<and> CHR 0x0A \<in> set r
                 then Some (takeWhile (\<lambda>c. c \<noteq> CHR 0x0A) r, tl (dropWhile (\<lambda>c. c \<noteq> CHR 0x0A) r)) else None
      | [] \<Rightarrow> None)"

definition read_sample :: "string \<Rightarrow> (sample \<times> string) option" where
  "read_sample s =
     (let name = takeWhile name_char s; r = dropWhile name_char s
      in if name = [] then None
         else Option.bind (case r of
              c # r' \<Rightarrow> if c = CHR ''{'' then read_labels r' else Some ([], r)
            | [] \<Rightarrow> None)
           (\<lambda>(labels, r). Option.bind (read_value r) (\<lambda>(value, r). Some ((name, labels, value), r))))"

text \<open>Comment lines are skipped, every other line is a sample.\<close>

partial_function (option) scrape :: "string \<Rightarrow> sample list option" where
  "scrape s =
     (case s of
        [] \<Rightarrow> Some []
      | c # _ \<Rightarrow>
          if c = CHR ''#''
          then (case dropWhile (\<lambda>c. c \<noteq> CHR 0x0A) s of [] \<Rightarrow> None | _ # r \<Rightarrow> scrape r)
          else Option.bind (read_sample s) (\<lambda>(x, r). Option.bind (scrape r) (\<lambda>xs. Some (x # xs))))"

section \<open>The samples of the endpoint\<close>

definition process_readings :: "time_point \<Rightarrow> stats \<Rightarrow> sample list" where
  "process_readings time s =
     [(''pool_lb_build_info'', [(''version'', kVersion)], ''1''),
      (''pool_lb_uptime_seconds'', [], to_string (uptime_seconds time s)),
      (''pool_lb_connections_active'', [], to_string (active_connections s)),
      (''pool_lb_io_workers'', [], to_string (io_workers s))]"

definition connection_readings :: "worker_stats \<Rightarrow> sample list" where
  "connection_readings aggregate =
     [(''pool_lb_connections_accepted_total'', [], to_string (accepted_connections aggregate)),
      (''pool_lb_connections_closed_total'', [], to_string (closed_connections aggregate)),
      (''pool_lb_connections_rejected_protocol_total'', [], to_string (rejected_protocol aggregate)),
      (''pool_lb_connections_rejected_rate_total'', [], to_string (rejected_rate_limit aggregate)),
      (''pool_lb_connections_rejected_ip_limit_total'', [], to_string (rejected_ip_limit aggregate)),
      (''pool_lb_connections_rejected_global_limit_total'', [], to_string (rejected_global_limit aggregate)),
      (''pool_lb_connections_rejected_global_rate_total'', [], to_string (rejected_global_rate aggregate)),
      (''pool_lb_connections_rejected_source_capacity_total'', [], to_string (rejected_source_capacity aggregate)),
      (''pool_lb_connections_rejected_traffic_rate_total'', [], to_string (rejected_traffic_rate aggregate)),
      (''pool_lb_connections_rejected_queue_limit_total'', [], to_string (rejected_queue_limit aggregate)),
      (''pool_lb_connections_rejected_tls_total'', [], to_string (rejected_tls aggregate))]"

definition certificate_readings :: "stats \<Rightarrow> tls_certificate_status list \<Rightarrow> sample list" where
  "certificate_readings s certificates =
     (''pool_lb_tls_certificate_reloads_total'', [(''result'', ''success'')], to_string (tls_reload_successes s)) #
     (''pool_lb_tls_certificate_reloads_total'', [(''result'', ''failure'')], to_string (tls_reload_failures s)) #
     map (\<lambda>certificate. (''pool_lb_tls_certificate_expiry_timestamp_seconds'', [(''listener'', tc_listener_name certificate)],
        int_to_string (tc_expiry_timestamp_seconds certificate))) certificates"

definition traffic_readings :: "stats \<Rightarrow> worker_stats \<Rightarrow> sample list" where
  "traffic_readings s aggregate =
     [(''pool_lb_connections_rejected_no_backend_total'', [], to_string (rejected_no_backend aggregate)),
      (''pool_lb_upstream_connect_errors_total'', [], to_string (upstream_connect_errors aggregate)),
      (''pool_lb_client_bytes_total'', [], to_string (client_bytes aggregate)),
      (''pool_lb_upstream_bytes_total'', [], to_string (upstream_bytes aggregate)),
      (''pool_lb_relay_client_reads_paused_total'', [], to_string (client_reads_paused aggregate)),
      (''pool_lb_relay_upstream_reads_paused_total'', [], to_string (upstream_reads_paused aggregate)),
      (''pool_lb_relay_shared_pressure_pauses_total'', [], to_string (shared_pressure_pauses aggregate)),
      (''pool_lb_queued_bytes'', [], to_string (queued_bytes s)),
      (''pool_lb_queued_bytes_limit'', [], to_string (queued_bytes_limit s)),
      (''pool_lb_queued_bytes_high_water'', [], to_string (queued_bytes_high_water s)),
      (''pool_lb_tracked_client_sources'', [], to_string (tracked_clients s)),
      (''pool_lb_reactor_events_processed_total'', [], to_string (events_processed aggregate)),
      (''pool_lb_reactor_event_batches_total'', [], to_string (event_batches aggregate)),
      (''pool_lb_reactor_batch_processing_nanoseconds_total'', [], to_string (batch_processing_nanoseconds aggregate)),
      (''pool_lb_reactor_batch_processing_nanoseconds_max'', [], to_string (maximum_batch_processing_nanoseconds aggregate)),
      (''pool_lb_tls_handshake_attempts_total'', [], to_string (tls_handshake_attempts aggregate)),
      (''pool_lb_tls_handshake_successes_total'', [], to_string (tls_handshake_successes aggregate)),
      (''pool_lb_tls_handshake_nanoseconds_total'', [], to_string (tls_handshake_nanoseconds aggregate))]"

definition protocol_error_readings :: "worker_stats \<Rightarrow> sample list" where
  "protocol_error_readings aggregate =
     map (\<lambda>index. (''pool_lb_protocol_errors_total'', [(''reason'', validation_error_name (error_at index))],
       to_string (protocol_errors aggregate ! index))) [1..<length (protocol_errors aggregate)]"

definition worker_readings :: "stats \<Rightarrow> sample list" where
  "worker_readings s =
     concat (map (\<lambda>i. let labels = [(''worker'', to_string i)]; w = workers s ! i in
       [(''pool_lb_worker_connections_active'', labels, to_string (worker_active_connections w)),
        (''pool_lb_worker_events_processed_total'', labels, to_string (events_processed w)),
        (''pool_lb_worker_batch_processing_nanoseconds_max'', labels, to_string (maximum_batch_processing_nanoseconds w))])
     [0..<worker_count s])"

definition backend_readings :: "backend_store \<Rightarrow> routing_table \<Rightarrow> sample list" where
  "backend_readings store routing =
     concat (map (\<lambda>pool. concat (map (\<lambda>ref. let backend = store ! ref; labels = [(''pool'', ps_name pool), (''backend'', be_name backend)] in
       [(''pool_lb_backend_up'', labels, if be_healthy backend then ''1'' else ''0''),
        (''pool_lb_backend_connections_active'', labels, to_string (be_active_connections backend)),
        (''pool_lb_backend_connection_attempts_total'', labels, to_string (be_connection_attempts backend)),
        (''pool_lb_backend_connection_errors_total'', labels, to_string (be_connection_errors backend))])
     (ps_backends pool))) (rt_pools routing))"

definition readings :: "time_point \<Rightarrow> backend_store \<Rightarrow> service_state \<Rightarrow> routing_table \<Rightarrow> sample list" where
  "readings time store state routing =
     (let s = ss_stats state; aggregate = snapshot s
      in process_readings time s @ connection_readings aggregate @ certificate_readings s (ss_tls_certificates state) @
         traffic_readings s aggregate @ protocol_error_readings aggregate @ worker_readings s @ backend_readings store routing)"

section \<open>Reading back what is written\<close>

lemma read_label_escaped: "read_label (prometheus_label v @ CHR 0x22 # rest) = Some (v, rest)"
  by (induction v) (simp_all add: prometheus_label_def label_escape_def)

definition sample_text :: "sample \<Rightarrow> string" where
  "sample_text x = (case x of (name, labels, value) \<Rightarrow>
     metric_sample name
       (if labels = [] then []
        else ''{'' @ concat (map (\<lambda>(k, v). label k (prometheus_label v) @ '','') (butlast labels)) @
             (case last labels of (k, v) \<Rightarrow> label k (prometheus_label v)) @ ''}'') value)"

definition name_ok :: "string \<Rightarrow> bool" where
  "name_ok s \<longleftrightarrow> s \<noteq> [] \<and> list_all name_char s"

definition sample_ok :: "sample \<Rightarrow> bool" where
  "sample_ok x \<longleftrightarrow> (case x of (name, labels, value) \<Rightarrow> name_ok name \<and> list_all (\<lambda>(k, _). name_ok k) labels \<and> CHR 0x0A \<notin> set value)"

lemma take_name:
  assumes "name_ok s" and "\<not> name_char c"
  shows "takeWhile name_char (s @ c # r) = s" and "dropWhile name_char (s @ c # r) = c # r"
  using assms by (auto simp: name_ok_def list_all_iff takeWhile_append2 dropWhile_append2)

lemma separators [simp]: "\<not> name_char CHR ''=''" "\<not> name_char CHR ''{''" "\<not> name_char CHR '' ''" "\<not> name_char CHR ''#''"
  by (simp_all add: name_char_def)

lemma read_labels_one:
  assumes "name_ok k"
  shows "read_labels (label k (prometheus_label v) @ CHR ''}'' # r) = Some ([(k, v)], r)"
  using take_name [OF assms separators(1)] read_label_escaped [of v "CHR ''}'' # r"]
  by (subst read_labels.simps) (simp add: label_def)

lemma read_labels_Cons:
  assumes "name_ok k"
  shows "read_labels (label k (prometheus_label v) @ CHR '','' # r) = Option.bind (read_labels r) (\<lambda>(labels, r). Some ((k, v) # labels, r))"
  using take_name [OF assms separators(1)] read_label_escaped [of v "CHR '','' # r"]
  by (subst read_labels.simps) (simp add: label_def)

lemma read_labels_text:
  assumes "labels \<noteq> []" and "list_all (\<lambda>(k, _). name_ok k) labels"
  shows "read_labels (concat (map (\<lambda>(k, v). label k (prometheus_label v) @ '','') (butlast labels)) @
    (case last labels of (k, v) \<Rightarrow> label k (prometheus_label v)) @ CHR ''}'' # r) = Some (labels, r)"
  using assms
proof (induction labels)
  case (Cons kv labels)
  obtain k v where kv: "kv = (k, v)" by (cases kv)
  show ?case
  proof (cases "labels = []")
    case True
    with Cons.prems kv show ?thesis by (simp add: read_labels_one)
  next
    case False
    with Cons kv show ?thesis by (simp add: read_labels_Cons)
  qed
qed simp

lemma read_value_text: "CHR 0x0A \<notin> set val \<Longrightarrow> read_value (CHR '' '' # val @ nl @ r) = Some (val, r)"
proof -
  assume v: "CHR 0x0A \<notin> set val"
  then have "takeWhile (\<lambda>c. c \<noteq> CHR 0x0A) (val @ CHR 0x0A # r) = val" "dropWhile (\<lambda>c. c \<noteq> CHR 0x0A) (val @ CHR 0x0A # r) = CHR 0x0A # r"
    by (induction val) auto
  then show ?thesis by (simp add: read_value_def nl_def)
qed

lemma read_sample_text:
  assumes "sample_ok x"
  shows "read_sample (sample_text x @ r) = Some (x, r)"
proof -
  obtain name labels val where x: "x = (name, labels, val)" by (cases x)
  with assms have ok: "name_ok name" "list_all (\<lambda>(k, _). name_ok k) labels" "CHR 0x0A \<notin> set val" by (simp_all add: sample_ok_def)
  have "name \<noteq> []" using ok by (simp add: name_ok_def)
  show ?thesis
  proof (cases "labels = []")
    case True
    with x ok \<open>name \<noteq> []\<close> take_name [OF ok(1) separators(3)] read_value_text [OF ok(3)] show ?thesis
      by (simp add: read_sample_def sample_text_def metric_sample_def)
  next
    case False
    with x ok \<open>name \<noteq> []\<close> take_name [OF ok(1) separators(2)] read_value_text [OF ok(3)] read_labels_text [OF False ok(2)] show ?thesis
      by (simp add: read_sample_def sample_text_def metric_sample_def)
  qed
qed

text \<open>A text exposes samples when a reader that comes to it reads them and goes on with what follows.\<close>

definition exposes :: "string \<Rightarrow> sample list \<Rightarrow> bool" where
  "exposes body xs \<longleftrightarrow> (\<forall>rest. scrape (body @ rest) = map_option (\<lambda>ys. xs @ ys) (scrape rest))"

lemma exposes_scrape: "exposes body xs \<Longrightarrow> scrape body = Some xs"
  using scrape.simps [of "[]"] by (auto simp: exposes_def dest!: spec [of _ "[]"])

lemma exposes_append: "exposes a xs \<Longrightarrow> exposes b ys \<Longrightarrow> exposes (a @ b) (xs @ ys)"
  by (simp add: exposes_def option.map_comp comp_def)

lemma exposes_Nil: "exposes [] []"
  by (simp add: exposes_def option.map_ident)

lemma exposes_concat: "(\<And>x. x \<in> set xs \<Longrightarrow> exposes (f x) (g x)) \<Longrightarrow> exposes (concat (map f xs)) (concat (map g xs))"
  by (induction xs) (auto intro: exposes_append exposes_Nil)

lemma exposes_sample: "sample_ok x \<Longrightarrow> exposes (sample_text x) [x]"
proof -
  assume x: "sample_ok x"
  have "c \<noteq> CHR ''#''" if "name_char c" for c using that by (auto simp: name_char_def)
  with x obtain c t where t: "sample_text x = c # t" and c: "c \<noteq> CHR ''#''"
    by (cases x) (auto simp: sample_ok_def sample_text_def metric_sample_def name_ok_def neq_Nil_conv)
  have "scrape (sample_text x @ rest) = map_option (\<lambda>ys. [x] @ ys) (scrape rest)" for rest
    using read_sample_text [OF x, of rest] t c by (subst scrape.simps) (cases "scrape rest"; simp)
  then show ?thesis by (simp add: exposes_def)
qed

lemma exposes_comment: "CHR 0x0A \<notin> set body \<Longrightarrow> exposes (''#'' @ body @ nl) []"
proof -
  assume t: "CHR 0x0A \<notin> set body"
  have "dropWhile (\<lambda>c. c \<noteq> CHR 0x0A) (CHR ''#'' # body @ CHR 0x0A # rest) = CHR 0x0A # rest" for rest
    using t by (induction body) auto
  then have "scrape (CHR ''#'' # body @ CHR 0x0A # rest) = scrape rest" for rest
    by (subst scrape.simps) simp
  then show ?thesis by (simp add: exposes_def nl_def option.map_ident)
qed

lemma exposes_header:
  assumes "CHR 0x0A \<notin> set name" and "CHR 0x0A \<notin> set help" and "CHR 0x0A \<notin> set kind"
  shows "exposes (metric_header name help kind) []"
  using exposes_append [OF exposes_comment [of "'' HELP '' @ name @ '' '' @ help"] exposes_comment [of "'' TYPE '' @ name @ '' '' @ kind"]] assms
  by (simp add: metric_header_def)

lemma name_no_newline: "name_ok s \<Longrightarrow> CHR 0x0A \<notin> set s"
  by (auto simp: name_ok_def list_all_iff name_char_def)

lemma number_no_newline: "CHR 0x0A \<notin> set (to_string n)" "CHR 0x0A \<notin> set (int_to_string i)"
proof -
  have "CHR 0x0A \<notin> set (to_string n)" for n
    using to_string_digits [of n] by (auto simp: list_all_iff is_digit_def)
  then show "CHR 0x0A \<notin> set (to_string n)" "CHR 0x0A \<notin> set (int_to_string i)" by (simp_all add: int_to_string_def)
qed

lemma exposes_counter:
  assumes "name_ok name" and "CHR 0x0A \<notin> set help"
  shows "exposes (counter name help n) [(name, [], to_string n)]" and "exposes (gauge name help n) [(name, [], to_string n)]"
proof -
  have "exposes (metric_sample name [] (to_string n)) [(name, [], to_string n)]"
    using exposes_sample [of "(name, [], to_string n)"] assms number_no_newline by (simp add: sample_ok_def sample_text_def)
  then show "exposes (counter name help n) [(name, [], to_string n)]" "exposes (gauge name help n) [(name, [], to_string n)]"
    using exposes_append [OF exposes_header] assms name_no_newline unfolding counter_def gauge_def by force+
qed

text \<open>A sample with labels; values without special characters may be written as they are.\<close>

definition plain :: "string \<Rightarrow> bool" where
  "plain v \<longleftrightarrow> CHR 0x5C \<notin> set v \<and> CHR 0x22 \<notin> set v \<and> CHR 0x0A \<notin> set v"

lemma prometheus_label_plain: "plain v \<Longrightarrow> prometheus_label v = v"
  by (induction v) (auto simp: prometheus_label_def label_escape_def plain_def)

lemma exposes_labelled:
  assumes "name_ok name" and "name_ok k" and "CHR 0x0A \<notin> set val"
  shows "exposes (metric_sample name (''{'' @ label k (prometheus_label v) @ ''}'') val) [(name, [(k, v)], val)]"
  using exposes_sample [of "(name, [(k, v)], val)"] assms by (simp add: sample_ok_def sample_text_def)

lemma exposes_labelled_plain:
  assumes "name_ok name" and "name_ok k" and "CHR 0x0A \<notin> set val" and "plain v"
  shows "exposes (metric_sample name (''{'' @ label k v @ ''}'') val) [(name, [(k, v)], val)]"
  using exposes_labelled [OF assms(1-3), of v] prometheus_label_plain [OF assms(4)] by simp

lemma exposes_labelled_two:
  assumes "name_ok name" and "name_ok k" and "name_ok k'" and "CHR 0x0A \<notin> set val"
  shows "exposes (metric_sample name (''{'' @ label k (prometheus_label v) @ '','' @ label k' (prometheus_label v') @ ''}'') val) [(name, [(k, v), (k', v')], val)]"
  using exposes_sample [of "(name, [(k, v), (k', v')], val)"] assms by (simp add: sample_ok_def sample_text_def)

lemma exposes_counter_append:
  assumes "name_ok name" and "CHR 0x0A \<notin> set help" and "exposes r xs"
  shows "exposes (counter name help n @ r) ((name, [], to_string n) # xs)" and "exposes (gauge name help n @ r) ((name, [], to_string n) # xs)"
  using exposes_append [OF exposes_counter(1) [OF assms(1,2)] assms(3)] exposes_append [OF exposes_counter(2) [OF assms(1,2)] assms(3)] by simp_all

lemma exposes_header_append:
  assumes "CHR 0x0A \<notin> set name" and "CHR 0x0A \<notin> set help" and "CHR 0x0A \<notin> set kind" and "exposes r xs"
  shows "exposes (metric_header name help kind @ r) xs"
  using exposes_append [OF exposes_header [OF assms(1-3)] assms(4)] by simp

lemma exposes_Cons: "exposes a [x] \<Longrightarrow> exposes r xs \<Longrightarrow> exposes (a @ r) (x # xs)"
  using exposes_append by force

lemmas exposes_rules = exposes_counter_append exposes_header_append exposes_counter

lemmas exposes_names = name_ok_def name_char_def

section \<open>Every group of metrics\<close>

lemma process_exposed: "exposes (process_metrics time s) (process_readings time s)"
proof -
  have "exposes (metric_sample ''pool_lb_build_info'' (''{'' @ label ''version'' kVersion @ ''}'') ''1'') [(''pool_lb_build_info'', [(''version'', kVersion)], ''1'')]"
    by (rule exposes_labelled_plain) (simp_all add: exposes_names plain_def kVersion_def)
  then show ?thesis
    unfolding process_metrics_def process_readings_def
    by (intro exposes_rules exposes_Cons) (simp_all add: exposes_names)
qed

lemma connection_exposed: "exposes (connection_metrics a) (connection_readings a)"
  unfolding connection_metrics_def connection_readings_def
  by (intro exposes_rules) (simp_all add: exposes_names)

lemma traffic_exposed: "exposes (traffic_metrics s a) (traffic_readings s a)"
  unfolding traffic_metrics_def traffic_readings_def
  by (intro exposes_rules) (simp_all add: exposes_names)

lemma exposes_map: "(\<And>x. x \<in> set xs \<Longrightarrow> exposes (f x) [g x]) \<Longrightarrow> exposes (concat (map f xs)) (map g xs)"
  using exposes_concat [of xs f "\<lambda>x. [g x]"] by simp

lemma certificate_exposed: "exposes (certificate_metrics s certificates) (certificate_readings s certificates)"
proof -
  let ?n = "''pool_lb_tls_certificate_reloads_total''"
  have "exposes (metric_sample ?n (''{'' @ label ''result'' v @ ''}'') (to_string n)) [(?n, [(''result'', v)], to_string n)]" if "plain v" for v n
    using that number_no_newline(1) by (intro exposes_labelled_plain) (simp_all add: exposes_names)
  then have a: "exposes (metric_sample ?n (''{'' @ label ''result'' ''success'' @ ''}'') (to_string n)) [(?n, [(''result'', ''success'')], to_string n)]"
    and b: "exposes (metric_sample ?n (''{'' @ label ''result'' ''failure'' @ ''}'') (to_string n)) [(?n, [(''result'', ''failure'')], to_string n)]" for n
    by (simp_all add: plain_def)
  have c: "exposes (certificate_sample c) [(''pool_lb_tls_certificate_expiry_timestamp_seconds'', [(''listener'', tc_listener_name c)],
      int_to_string (tc_expiry_timestamp_seconds c))]" for c
    unfolding certificate_sample_def using number_no_newline(2) by (intro exposes_labelled) (simp_all add: exposes_names)
  show ?thesis
    unfolding certificate_metrics_def certificate_readings_def
    by (intro exposes_header_append exposes_Cons a b exposes_map c) simp_all
qed

lemma error_names_plain: "i < 11 \<Longrightarrow> plain (validation_error_name (error_at i))"
proof -
  assume i: "i < 11"
  have "list_all (\<lambda>i. plain (validation_error_name (error_at i))) [0..<11]" by code_simp
  with i show ?thesis by (simp add: list_all_iff)
qed

lemma protocol_error_exposed:
  assumes "length (protocol_errors a) \<le> 11"
  shows "exposes (protocol_error_metrics a) (protocol_error_readings a)"
  unfolding protocol_error_metrics_def protocol_error_readings_def
  using assms number_no_newline(1)
  by (intro exposes_header_append exposes_map exposes_labelled_plain error_names_plain) (simp_all add: exposes_names)

lemma number_plain: "plain (to_string n)"
  using to_string_digits [of n] by (auto simp: plain_def list_all_iff is_digit_def)

lemma worker_exposed: "exposes (worker_metrics s) (worker_readings s)"
  unfolding worker_metrics_def worker_readings_def worker_samples_def Let_def
  using number_no_newline(1) number_plain
  by (intro exposes_header_append exposes_concat exposes_Cons exposes_labelled_plain) (simp_all add: exposes_names)

lemma backend_exposed: "exposes (backend_metrics store routing) (backend_readings store routing)"
  unfolding backend_metrics_def backend_readings_def backend_samples_def Let_def
  using number_no_newline(1)
  by (intro exposes_header_append exposes_concat exposes_Cons exposes_labelled_two) (simp_all add: exposes_names)

lemma snapshot_errors: "length (protocol_errors (snapshot s)) \<le> 11"
proof -
  have "length (protocol_errors (foldl add_worker o' ws)) \<le> length (protocol_errors o')" for o' ws
  proof (induction ws arbitrary: o')
    case (Cons w ws)
    have "length (protocol_errors (add_worker o' w)) \<le> length (protocol_errors o')" by (simp add: add_worker_def)
    with Cons [of "add_worker o' w"] show ?case by simp
  qed simp
  from this [of new_worker_stats "workers s"] show ?thesis
    by (simp add: snapshot_def new_worker_stats_def kValidationErrorCount_def)
qed

text \<open>
  Property C10. The Prometheus page is well-formed whatever the names of pools, backends and listeners contain: a reader of the text
  format accepts it and gets exactly the readings of the service, one sample per counter, per certificate, per reason, per worker and
  per backend, with the names it was configured with.
\<close>

theorem metrics_read_back: "scrape (metrics_body time store state routing) = Some (readings time store state routing)"
  unfolding metrics_body_def readings_def Let_def
  by (intro exposes_scrape exposes_append process_exposed connection_exposed certificate_exposed traffic_exposed
      protocol_error_exposed snapshot_errors worker_exposed backend_exposed)

section \<open>The status page\<close>

text \<open>A browser's reading of character references, as far as the page uses them.\<close>

definition entities :: "(string \<times> char) list" where
  "entities = [(''amp;'', CHR ''&''), (''lt;'', CHR ''<''), (''gt;'', CHR ''>''), (''quot;'', CHR 0x22), (''#39;'', CHR 0x27)]"

fun html_text :: "string \<Rightarrow> string option" where
  "html_text [] = Some []"
| "html_text (c # cs) =
     (if c \<in> {CHR ''<'', CHR ''>'', CHR 0x22, CHR 0x27} then None
      else if c = CHR ''&''
      then (case find (\<lambda>e. take (length (fst e)) cs = fst e) entities of
              None \<Rightarrow> None
            | Some e \<Rightarrow> map_option ((#) (snd e)) (html_text (drop (length (fst e)) cs)))
      else map_option ((#) c) (html_text cs))"

text \<open>
  Property C11. Escaped text stays text: read as character data, which has no tag and no quote, it is the text that was escaped.
\<close>

theorem html_escape_read_back: "html_text (html_escape s) = Some s"
  by (induction s) (simp_all add: html_escape_def html_entity_def entities_def)

text \<open>
  Property C12. A certificate's expiry, stored as seconds since the epoch, is shown as the date and time the certificate carries.
\<close>

theorem certificate_date_shown:
  assumes "expiry_of_tm expiration = Inr t" and "tm_hour expiration \<in> {0..<24}" and "tm_min expiration \<in> {0..<60}" and "tm_sec expiration \<in> {0..<60}"
  shows "certificate_expiration_time t =
    date_time_text (tm_year expiration + 1900) (tm_mon expiration + 1) (tm_mday expiration) (tm_hour expiration) (tm_min expiration) (tm_sec expiration) @ '' UTC''"
proof -
  define r where "r = tm_hour expiration * 3600 + tm_min expiration * 60 + tm_sec expiration"
  let ?y = "tm_year expiration + 1900" and ?m = "tm_mon expiration + 1" and ?d = "tm_mday expiration"
  have ok: "date_ok ?y ?m ?d" and t: "t = sys_days ?y ?m ?d * 86400 + r"
    using assms(1) by (auto simp: expiry_of_tm_def r_def Let_def split: if_splits)
  have r: "0 \<le> r" "r < 86400" using assms(2-4) by (auto simp: r_def)
  have "t div 86400 = sys_days ?y ?m ?d" "t mod 86400 = r" using r by (simp_all add: t)
  moreover have "r div 3600 = tm_hour expiration" "r mod 3600 div 60 = tm_min expiration" "r mod 60 = tm_sec expiration"
  proof -
    have a: "(h * 3600 + (m * 60 + s)) div 3600 = h" "(h * 3600 + (m * 60 + s)) mod 3600 = m * 60 + s"
      if "0 \<le> m" "m < 60" "0 \<le> s" "s < 60" for h m s :: int
      using that by simp_all
    have b: "(m * 60 + s) div 60 = m" if "0 \<le> s" "s < 60" for m s :: int using that by simp
    have c: "(h * 3600 + (m * 60 + s)) mod 60 = s" if "0 \<le> s" "s < 60" for h m s :: int
    proof -
      have "h * 3600 + (m * 60 + s) = s + 60 * (h * 60 + m)" by simp
      then show ?thesis using that by (simp only: mod_mult_self2) simp
    qed
    have e: "r = tm_hour expiration * 3600 + (tm_min expiration * 60 + tm_sec expiration)" by (simp add: r_def)
    show "r div 3600 = tm_hour expiration" "r mod 3600 div 60 = tm_min expiration" "r mod 60 = tm_sec expiration"
      unfolding e using assms(2-4) a b c by simp_all
  qed
  ultimately show ?thesis
    using civil_of_sys_days [OF ok] by (simp add: certificate_expiration_time_def Let_def)
qed

text \<open>A certificate that is valid until a quarter to one on a summer's day.\<close>

definition summer :: tm where
  "summer = \<lparr>tm_year = 130, tm_mon = 5, tm_mday = 15, tm_hour = 12, tm_min = 45, tm_sec = 9\<rparr>"

theorem certificate_date_shown_witness:
  "expiry_of_tm summer = Inr 1907757909 \<and> certificate_expiration_time 1907757909 = ''2030-06-15 12:45:09 UTC''"
proof -
  have e: "expiry_of_tm summer = Inr 1907757909" by code_simp
  have "date_time_text 2030 6 15 12 45 9 = ''2030-06-15 12:45:09''" by code_simp
  with e certificate_date_shown [OF e] show ?thesis by (simp add: summer_def)
qed

lemma select_backend_None_iff: "select_backend store table n = None \<longleftrightarrow> \<not> has_routable_backend store table"
proof -
  let ?a = "rt_active_pool_index table"
  have f: "failover_loop store ?a n 0 (rt_pools table) = None \<longleftrightarrow>
      (\<forall>j<length (rt_pools table). j \<noteq> ?a \<longrightarrow> \<not> pool_has_healthy_backend store (rt_pools table ! j))"
    using failover_loop_cases [where store = store and active_index = ?a and sequence = n and k = 0 and pools = "rt_pools table"] choose_None_iff
    by (cases "failover_loop store ?a n 0 (rt_pools table)") (auto, metis option.distinct(1))
  show ?thesis
    using f choose_None_iff [of store "rt_pools table ! ?a" n]
    by (cases "?a < length (rt_pools table) \<and> pool_has_healthy_backend store (rt_pools table ! ?a)")
      (auto simp: select_backend_def has_routable_backend_def list_ex_iff split: option.splits)
qed

text \<open>
  Property C13. The health route answers 200 exactly when the router would find a backend for a miner that connects, whatever its
  sequence number; the status page reads READY exactly when that is so and no certificate expires within thirty days.
\<close>

theorem health_reports_routing:
  "health_route v =
     (if select_backend (vw_store v) (vw_routing v) n = None then TextResponse (''degraded'' @ nl) ServiceUnavailable
      else TextResponse (''ok'' @ nl) Ok) \<and>
   (snd (page_state (has_routable_backend (vw_store v) (vw_routing v)) certificates time) = ''READY'' \<longleftrightarrow>
     select_backend (vw_store v) (vw_routing v) n \<noteq> None \<and>
     list_all (\<lambda>c. time + 30 * 86400 < tc_expiry_timestamp_seconds c) certificates)"
proof -
  have "list_ex (expired time) certificates \<Longrightarrow> list_ex (expiring time) certificates"
    by (auto simp: list_ex_iff expired_def expiring_def kCertificateExpiryWarning_def intro!: bexI)
  moreover have "list_all (\<lambda>c. time + 30 * 86400 < tc_expiry_timestamp_seconds c) certificates \<longleftrightarrow> \<not> list_ex (expiring time) certificates"
    by (auto simp: list_ex_iff list_all_iff expiring_def kCertificateExpiryWarning_def not_le algebra_simps)
  ultimately show ?thesis
    using select_backend_None_iff [of "vw_store v" "vw_routing v" n] by (auto simp: health_route_def page_state_def Let_def)
qed

end
