(* ===== verification/Line_Screen.thy ===== *)
theory Line_Screen
  imports Relay_Invariant "HOL-Library.Sublist"
begin

text \<open>
  A reference for the miner's side of a session: the whole text a miner has sent is split into lines, and each
  line is forwarded, dropped or ends the session. It knows no buffers and no reads; that it can be computed
  read by read is shown here.
\<close>

section \<open>Lines of a text\<close>

fun split_lines :: "string \<Rightarrow> string list \<times> string" where
  "split_lines [] = ([], [])"
| "split_lines (c # cs) =
     (case split_lines cs of (ls, t) \<Rightarrow>
        if c = newline then ([] # ls, t)
        else case ls of [] \<Rightarrow> ([], c # t) | l # ls' \<Rightarrow> ((c # l) # ls', t))"

lemma split_lines_plain [simp]: "newline \<notin> set t \<Longrightarrow> split_lines t = ([], t)"
  by (induction t) auto

lemma split_lines_line:
  assumes "newline \<notin> set l"
  shows "split_lines (l @ newline # r) = (case split_lines r of (ls, t) \<Rightarrow> (l # ls, t))"
  using assms by (induction l) (auto split: prod.splits list.splits)

text \<open>Text is the lines it splits into, and more text only changes the line that is not complete.\<close>

lemma split_lines_flat: "split_lines x = (ls, t) \<Longrightarrow> concat (map (\<lambda>l. l @ [newline]) ls) @ t = x \<and> newline \<notin> set t"
  by (induction x arbitrary: ls t) (auto split: prod.splits list.splits if_splits)

lemma split_lines_append:
  "split_lines (x @ y) = (case split_lines x of (ls, t) \<Rightarrow> case split_lines (t @ y) of (ms, u) \<Rightarrow> (ls @ ms, u))"
proof (induction x)
  case Nil
  show ?case by (simp split: prod.splits)
next
  case (Cons c x)
  obtain ls t where x: "split_lines x = (ls, t)" by (cases "split_lines x")
  obtain ms u where y: "split_lines (t @ y) = (ms, u)" by (cases "split_lines (t @ y)")
  from Cons x y show ?case by (auto split: list.splits)
qed

lemma split_lines_find:
  assumes "str_find newline x = Some i"
  shows "split_lines x = (case split_lines (drop (Suc i) x) of (ls, t) \<Rightarrow> (take i x # ls, t))"
proof -
  from assms have i: "i < length x" "x ! i = newline" "newline \<notin> set (take i x)" by (simp_all add: str_find_Some)
  then have "x = take i x @ newline # drop (Suc i) x" using id_take_nth_drop [OF i(1)] by simp
  with split_lines_line [OF i(3), of "drop (Suc i) x"] show ?thesis by simp
qed

section \<open>Screening\<close>

text \<open>
  What is known of a miner after a number of lines: the state of its protocol and the run of rejected lines. \<open>None\<close> ends the session:
  a line too long, a first line that is not accepted, or too many rejected lines in a row.
\<close>

type_synonym miner = "protocol_state \<times> nat"

definition screen_line :: "'g glaze \<Rightarrow> config \<Rightarrow> miner \<Rightarrow> string \<Rightarrow> (bool \<times> miner) option" where
  "screen_line glz config m l =
     (case m of (state, errors) \<Rightarrow>
        let validation = validate_request glz l state (cfg_protocol config); errors' = (errors + 1) mod 2 ^ 32
        in if max_line_bytes (cfg_limits config) < length l then None
           else if accepted validation then Some (True, record_request state (vr_method validation), 0)
           else if received_message state \<and> errors' \<le> kMaximumConsecutiveProtocolErrors then Some (False, state, errors')
           else None)"

text \<open>The text forwarded, and the miner after the last line unless the session ended before.\<close>

fun screen :: "'g glaze \<Rightarrow> config \<Rightarrow> miner \<Rightarrow> string list \<Rightarrow> string \<times> miner option" where
  "screen glz config m [] = ([], Some m)"
| "screen glz config m (l # ls) =
     (case screen_line glz config m l of
        None \<Rightarrow> ([], None)
      | Some (forward, m') \<Rightarrow> apfst (\<lambda>f. (if forward then l @ [newline] else []) @ f) (screen glz config m' ls))"

lemma screen_append:
  "screen glz config m (ls @ ms) =
     (case screen glz config m ls of
        (f, None) \<Rightarrow> (f, None)
      | (f, Some m') \<Rightarrow> apfst (\<lambda>g. f @ g) (screen glz config m' ms))"
  by (induction ls arbitrary: m) (auto simp: apfst_def map_prod_def split: prod.splits option.splits)

definition newcomer :: miner where
  "newcomer = (initial_state, 0)"

definition forwarded :: "'g glaze \<Rightarrow> config \<Rightarrow> string \<Rightarrow> string" where
  "forwarded glz config x = fst (screen glz config newcomer (fst (split_lines x)))"

text \<open>A session that has read \<open>x\<close> and goes on: what it forwards, the line that is not complete, and the miner.\<close>

definition screened :: "'g glaze \<Rightarrow> config \<Rightarrow> string \<Rightarrow> string \<Rightarrow> string \<Rightarrow> miner \<Rightarrow> bool" where
  "screened glz config x f t m \<longleftrightarrow> snd (split_lines x) = t \<and> screen glz config newcomer (fst (split_lines x)) = (f, Some m)"

lemma screened_Nil: "screened glz config [] [] [] newcomer"
  by (simp add: screened_def)

lemma screened_forwarded: "screened glz config x f t m \<Longrightarrow> forwarded glz config x = f"
  by (simp add: screened_def forwarded_def)

text \<open>Reading on: only the line that is not complete and the miner are needed.\<close>

lemma screened_append:
  assumes "screened glz config x f t m" and "split_lines (t @ y) = (ls, u)"
  shows "screen glz config m ls = (g, Some m') \<Longrightarrow> screened glz config (x @ y) (f @ g) u m'"
    and "forwarded glz config (x @ y) = f @ fst (screen glz config m ls)"
  using assms
  by (auto simp: screened_def forwarded_def split_lines_append [of x y] screen_append split: prod.splits)

lemma forwarded_mono: "prefix (forwarded glz config x) (forwarded glz config (x @ y))"
  by (auto simp: forwarded_def split_lines_append [of x y] screen_append split: prod.splits option.splits)

text \<open>Whether the first line was accepted, as the protocol state records it.\<close>

lemma received_record [simp]: "received_message (record_request state method)"
  by (simp add: record_request_def Let_def)

lemma screen_silent:
  assumes "screen glz config m ls = (f, Some (state, n))" and "\<not> received_message (fst m)" and "\<not> received_message state"
  shows "f = []"
proof -
  have step: "received_message (fst m')" if "screen_line glz config m l = Some (b, m')" "received_message (fst m) \<or> b" for m m' l b
    using that by (auto simp: screen_line_def Let_def split: prod.splits if_splits)
  have mono: "received_message (fst m) \<Longrightarrow> snd (screen glz config m ls) = Some m' \<Longrightarrow> received_message (fst m')" for m m' ls
  proof (induction ls arbitrary: m)
    case (Cons l ls)
    then show ?case using step by (fastforce split: option.splits prod.splits)
  qed simp
  show ?thesis
  proof (cases ls)
    case Nil
    with assms(1) show ?thesis by simp
  next
    case (Cons l ls')
    with assms(1) obtain b m' where m': "screen_line glz config m l = Some (b, m')"
      by (auto split: option.splits)
    with assms(1) Cons have "snd (screen glz config m' ls') = Some (state, n)" by (metis screen.simps(2) option.simps(5) case_prod_conv snd_apfst snd_conv)
    moreover have b using m' assms(2) by (auto simp: screen_line_def Let_def split: prod.splits if_splits)
    ultimately show ?thesis using step [OF m'] mono assms(3) by fastforce
  qed
qed

end
