(* ===== verification/Relay_Stream.thy ===== *)
theory Relay_Stream
  imports Line_Screen
begin

text \<open>
  The bytes of one session, end to end. Every read and write of the operating system is observed; what a backend gets is
  the PROXY header, if it asked for one, and the lines the reference screen forwards of the miner's text, and what
  the miner gets is what the backend sent, in order, nothing added and nothing missing.
\<close>

section \<open>Actions that lead somewhere\<close>

named_theorems leads_intros \<open>from an invariant to a postcondition\<close>

definition leads :: "('s \<Rightarrow> bool) \<Rightarrow> ('s, 'a) state \<Rightarrow> ('a \<Rightarrow> 's \<Rightarrow> bool) \<Rightarrow> bool" where
  "leads I m Q \<longleftrightarrow> (\<forall>s. I s \<longrightarrow> wp m Q s)"

lemma leadsI: "(\<And>s. I s \<Longrightarrow> wp m Q s) \<Longrightarrow> leads I m Q"
  by (simp add: leads_def)

lemma leadsD: "leads I m Q \<Longrightarrow> I s \<Longrightarrow> wp m Q s"
  by (simp add: leads_def)

lemma leads_mono: "leads I m Q \<Longrightarrow> (\<And>x s. Q x s \<Longrightarrow> R x s) \<Longrightarrow> leads I m R"
  unfolding leads_def by (blast intro: wp_mono)

lemma leads_keeps: "keeps I m \<Longrightarrow> (\<And>x s. I s \<Longrightarrow> Q x s) \<Longrightarrow> leads I m Q"
  unfolding leads_def keeps_def by (blast intro: wp_mono)

lemma leads_bind: "leads I m R \<Longrightarrow> (\<And>x. leads (R x) (f x) Q) \<Longrightarrow> leads I (State_Monad.bind m f) Q"
  unfolding leads_def wp_simps by (blast intro: wp_mono)

lemma leads_bind_keeps: "keeps I m \<Longrightarrow> (\<And>x. leads I (f x) Q) \<Longrightarrow> leads I (State_Monad.bind m f) Q"
  unfolding leads_def keeps_def wp_simps by (blast intro: wp_mono)

lemma leads_return: "(\<And>s. I s \<Longrightarrow> Q x s) \<Longrightarrow> leads I (State_Monad.return x) Q"
  by (simp add: leads_def wp_simps)

lemma leads_if [leads_intros]: "(b \<Longrightarrow> leads I m Q) \<Longrightarrow> (\<not> b \<Longrightarrow> leads I n Q) \<Longrightarrow> leads I (if b then m else n) Q"
  by simp

lemma leads_case_option [leads_intros]:
  "(x = None \<Longrightarrow> leads I m Q) \<Longrightarrow> (\<And>y. x = Some y \<Longrightarrow> leads I (f y) Q) \<Longrightarrow> leads I (case x of None \<Rightarrow> m | Some y \<Rightarrow> f y) Q"
  by (simp split: option.splits)

lemma leads_case_sum [leads_intros]:
  "(\<And>y. x = Inl y \<Longrightarrow> leads I (f y) Q) \<Longrightarrow> (\<And>y. x = Inr y \<Longrightarrow> leads I (g y) Q) \<Longrightarrow> leads I (case x of Inl y \<Rightarrow> f y | Inr y \<Rightarrow> g y) Q"
  by (simp split: sum.splits)

lemma leads_case_prod [leads_intros]: "(\<And>y z. x = (y, z) \<Longrightarrow> leads I (f y z) Q) \<Longrightarrow> leads I (case x of (y, z) \<Rightarrow> f y z) Q"
  by (simp split: prod.splits)

lemma leads_Let [leads_intros]: "leads I (f t) Q \<Longrightarrow> leads I (let x = t in f x) Q"
  by simp

text \<open>Reading the session: the continuation may use what was read.\<close>

lemma leads_se_get: "(\<And>x. leads (\<lambda>w. I w \<and> f (re_session w) = x) (g x) Q) \<Longrightarrow> leads I (State_Monad.bind (se_get f) g) Q"
  by (simp add: leads_def wp_simps)

section \<open>An operating system under observation\<close>

text \<open>A transfer that succeeded, with its bytes. TLS streams are observed where the text is plain.\<close>

datatype observed = Received fd string | Sent fd string | Decrypted nat string | Encrypted nat string

definition noting :: "('a \<Rightarrow> observed list) \<Rightarrow> ('e, 'a) state \<Rightarrow> ('e \<times> observed list, 'a) state" where
  "noting f m = State (\<lambda>(e, t). case run_state m e of (x, e') \<Rightarrow> (x, e', t @ f x))"

definition succeeded :: "('a \<Rightarrow> observed) \<Rightarrow> 'b + 'a \<Rightarrow> observed list" where
  "succeeded f r = (case r of Inl _ \<Rightarrow> [] | Inr x \<Rightarrow> [f x])"

definition observe :: "'e os \<Rightarrow> ('e \<times> observed list) os" where
  "observe os = (beside_os os)
     \<lparr>os_send := (\<lambda>v bytes. noting (succeeded (\<lambda>n. Sent v (take n bytes))) (os_send os v bytes)),
      os_recv := (\<lambda>v n. noting (succeeded (Received v)) (os_recv os v n)),
      os_ssl_read := (\<lambda>x n. noting (succeeded (Decrypted x)) (os_ssl_read os x n)),
      os_ssl_write := (\<lambda>x bytes. noting (succeeded (\<lambda>n. Encrypted x (take n bytes))) (os_ssl_write os x bytes))\<rparr>"

lemma wp_noting: "wp (noting f m) Q w = wp m (\<lambda>x e. Q x (e, snd w @ f x)) (fst w)"
  by (simp add: wp_def noting_def split: prod.splits)

lemma observe_simps [simp]:
  "os_now (observe os) = beside (os_now os)" "os_socket (observe os) f = beside (os_socket os f)"
  "os_setsockopt (observe os) v opt x = beside (os_setsockopt os v opt x)" "os_bind (observe os) v a = beside (os_bind os v a)"
  "os_connect (observe os) v a = beside (os_connect os v a)" "os_socket_error (observe os) v = beside (os_socket_error os v)"
  "os_close (observe os) v = beside (os_close os v)" "os_epoll_add (observe os) v m y = beside (os_epoll_add os v m y)"
  "os_epoll_mod (observe os) v m y = beside (os_epoll_mod os v m y)" "os_epoll_del (observe os) v = beside (os_epoll_del os v)"
  "os_ssl_accept (observe os) n = beside (os_ssl_accept os n)" "os_ssl_pending (observe os) n = beside (os_ssl_pending os n)"
  "os_ssl_free (observe os) n = beside (os_ssl_free os n)"
  "os_send (observe os) v bytes = noting (succeeded (\<lambda>n. Sent v (take n bytes))) (os_send os v bytes)"
  "os_recv (observe os) v k = noting (succeeded (Received v)) (os_recv os v k)"
  "os_ssl_read (observe os) n k = noting (succeeded (Decrypted n)) (os_ssl_read os n k)"
  "os_ssl_write (observe os) n bytes = noting (succeeded (\<lambda>k. Encrypted n (take k bytes))) (os_ssl_write os n bytes)"
  by (simp_all add: observe_def)

text \<open>
  What is relied on for a miner on descriptor \<open>c\<close>: a write reports at most what it was given, and no new socket
  gets a descriptor that is in use.
\<close>

definition client_os :: "'e os \<Rightarrow> fd \<Rightarrow> bool" where
  "client_os os c \<longleftrightarrow> honest_writes os \<and> 0 \<le> c \<and> (\<forall>family e v e'. run_state (os_socket os family) e = (Inr v, e') \<longrightarrow> v \<noteq> c)"

section \<open>The four streams of a session\<close>

definition upstream_output :: "fd \<Rightarrow> observed list \<Rightarrow> string" where
  "upstream_output c t = concat (map (\<lambda>x. case x of Sent v bytes \<Rightarrow> if v \<noteq> c then bytes else [] | _ \<Rightarrow> []) t)"

definition upstream_input :: "fd \<Rightarrow> observed list \<Rightarrow> string" where
  "upstream_input c t = concat (map (\<lambda>x. case x of Received v bytes \<Rightarrow> if v \<noteq> c then bytes else [] | _ \<Rightarrow> []) t)"

definition client_output :: "fd \<Rightarrow> nat option \<Rightarrow> observed list \<Rightarrow> string" where
  "client_output c ssl t =
     concat (map (\<lambda>x. case x of
         Sent v bytes \<Rightarrow> if ssl = None \<and> v = c then bytes else []
       | Encrypted n bytes \<Rightarrow> if ssl = Some n then bytes else []
       | _ \<Rightarrow> []) t)"

definition client_input :: "fd \<Rightarrow> nat option \<Rightarrow> observed list \<Rightarrow> string" where
  "client_input c ssl t =
     concat (map (\<lambda>x. case x of
         Received v bytes \<Rightarrow> if ssl = None \<and> v = c then bytes else []
       | Decrypted n bytes \<Rightarrow> if ssl = Some n then bytes else []
       | _ \<Rightarrow> []) t)"

lemma streams_append [simp]:
  "upstream_output c (t @ u) = upstream_output c t @ upstream_output c u" "upstream_input c (t @ u) = upstream_input c t @ upstream_input c u"
  "client_output c ssl (t @ u) = client_output c ssl t @ client_output c ssl u" "client_input c ssl (t @ u) = client_input c ssl t @ client_input c ssl u"
  by (simp_all add: upstream_output_def upstream_input_def client_output_def client_input_def)

lemma streams_one [simp]:
  "upstream_output c [Sent v bs] = (if v = c then [] else bs)" "upstream_output c [Received v bs] = []"
  "upstream_output c [Encrypted n bs] = []" "upstream_output c [Decrypted n bs] = []"
  "upstream_input c [Received v bs] = (if v = c then [] else bs)" "upstream_input c [Sent v bs] = []"
  "upstream_input c [Encrypted n bs] = []" "upstream_input c [Decrypted n bs] = []"
  "client_output c ssl [Sent v bs] = (if ssl = None \<and> v = c then bs else [])" "client_output c ssl [Received v bs] = []"
  "client_output c ssl [Encrypted n bs] = (if ssl = Some n then bs else [])" "client_output c ssl [Decrypted n bs] = []"
  "client_input c ssl [Received v bs] = (if ssl = None \<and> v = c then bs else [])" "client_input c ssl [Sent v bs] = []"
  "client_input c ssl [Decrypted n bs] = (if ssl = Some n then bs else [])" "client_input c ssl [Encrypted n bs] = []"
  by (simp_all add: upstream_output_def upstream_input_def client_output_def client_input_def)

lemma streams_none [simp]: "upstream_output c [] = []" "upstream_input c [] = []" "client_output c ssl [] = []" "client_input c ssl [] = []"
  by (simp_all add: upstream_output_def upstream_input_def client_output_def client_input_def)

text \<open>What a backend is greeted with once the connection stands.\<close>

definition greeting :: "backend_store \<Rightarrow> session \<Rightarrow> string" where
  "greeting store s =
     (if se_stage s = Relay \<and> be_send_proxy_v2 (store ! the (se_backend s)) then header_text (se_proxy_header s) else [])"

text \<open>
  The queues hold exactly what is between the streams: \<open>I\<close> is the text of the miner so far, \<open>F\<close> what of it
  was queued for the backend, \<open>A\<close> the stages the session may be in. \<open>X\<close> is what was read from the backend and not queued
  because the budget was exhausted, which ends the session.
\<close>

definition flow :: "fd \<Rightarrow> nat option \<Rightarrow> runtime_snapshot \<Rightarrow> string \<Rightarrow> string \<Rightarrow> string \<Rightarrow> session_stage set \<Rightarrow> ('e \<times> observed list) reactor \<Rightarrow> bool" where
  "flow c ssl rt X I F A w \<longleftrightarrow>
     (let s = re_session w; t = snd (re_env w) in
        se_client s = c \<and> se_ssl s = ssl \<and> se_runtime s = rt \<and> se_upstream s \<noteq> c \<and>
        pb_inv (se_to_upstream s) \<and> pb_inv (se_to_client s) \<and> client_input c ssl t = I \<and>
        upstream_output c t @ pb_bytes (se_to_upstream s) = greeting (re_backends w) s @ F \<and>
        (se_stage s \<noteq> Relay \<longrightarrow> upstream_output c t = []) \<and>
        upstream_input c t = client_output c ssl t @ pb_bytes (se_to_client s) @ X \<and> se_stage s \<in> A)"

lemma flow_mono: "flow c ssl rt X I F A w \<Longrightarrow> A \<subseteq> B \<Longrightarrow> flow c ssl rt X I F B w"
  by (auto simp: flow_def Let_def)

subsection \<open>What the streams depend on\<close>

type_synonym 'e watched = "('e \<times> observed list) reactor"

type_synonym lane = "fd \<times> nat option \<times> runtime_snapshot \<times> fd \<times> pending_buffer \<times> pending_buffer \<times>
    session_stage \<times> backend_ref option \<times> proxy_v2_header"

definition lane :: "session \<Rightarrow> lane" where
  "lane s = (se_client s, se_ssl s, se_runtime s, se_upstream s, se_to_upstream s, se_to_client s, se_stage s, se_backend s, se_proxy_header s)"

definition stream_view :: "'e watched \<Rightarrow> lane \<times> (backend_ref \<Rightarrow> bool) \<times> observed list" where
  "stream_view w = (lane (re_session w), \<lambda>ref. be_send_proxy_v2 (re_backends w ! ref), snd (re_env w))"

lemma flow_view: "stream_view w' = stream_view w \<Longrightarrow> flow c ssl rt X I F A w' = flow c ssl rt X I F A w"
proof -
  assume v: "stream_view w' = stream_view w"
  then have "(\<lambda>ref. be_send_proxy_v2 (re_backends w' ! ref)) = (\<lambda>ref. be_send_proxy_v2 (re_backends w ! ref))"
    by (simp add: stream_view_def)
  then have "be_send_proxy_v2 (re_backends w' ! ref) = be_send_proxy_v2 (re_backends w ! ref)" for ref by metis
  with v show ?thesis by (simp add: stream_view_def lane_def flow_def greeting_def Let_def)
qed

text \<open>Actions that leave the streams alone.\<close>

definition streamed :: "lane \<times> (backend_ref \<Rightarrow> bool) \<times> observed list \<Rightarrow> 'e watched \<Rightarrow> bool" where
  "streamed v w \<longleftrightarrow> stream_view w = v"

lemma calm_flow:
  fixes m :: "('a watched, 'b) state"
  assumes m: "\<And>v. keeps (streamed v) m"
  shows "keeps (flow c ssl rt X I F A) m"
proof (rule keepsI)
  fix w :: "'a watched" assume w: "flow c ssl rt X I F A w"
  from keepsD [OF m] have "wp m (\<lambda>_. streamed (stream_view w)) w" by (simp add: streamed_def)
  then show "wp m (\<lambda>_. flow c ssl rt X I F A) w" by (rule wp_mono) (use w flow_view in \<open>unfold streamed_def, blast\<close>)
qed

lemma calm_set: "(\<And>s. lane (f s) = lane s) \<Longrightarrow> keeps (streamed v) (se_set f)"
  by (simp add: keeps_def wp_simps streamed_def stream_view_def)

lemma calm_acts [keeps_intros]:
  "keeps (streamed v) (os_do (beside m))" "keeps (streamed v) (worker_do f)" "keeps (streamed v) (stats_do g)" "keeps (streamed v) fault"
  by (auto simp: keeps_def wp_simps wp_beside streamed_def stream_view_def intro!: wp_any)

lemma calm_backend_do: "(\<And>b. be_send_proxy_v2 (f b) = be_send_proxy_v2 b) \<Longrightarrow> keeps (streamed v) (backend_do ref f)"
proof (rule keepsI)
  fix w :: "'a watched"
  assume f: "\<And>b. be_send_proxy_v2 (f b) = be_send_proxy_v2 b" and w: "streamed v w"
  have "be_send_proxy_v2 ((re_backends w)[ref := f (re_backends w ! ref)] ! r) = be_send_proxy_v2 (re_backends w ! r)" for r
    using f by (cases "ref < length (re_backends w)") (simp_all add: nth_list_update list_update_beyond)
  with w show "wp (backend_do ref f) (\<lambda>_. streamed v) w" by (simp add: wp_simps streamed_def stream_view_def Let_def)
qed

lemma calm_with_backend [keeps_intros]: "(\<And>ref b. keeps (streamed v) (f ref b)) \<Longrightarrow> keeps (streamed v) (with_backend x f)"
  by (auto simp: keeps_def wp_simps streamed_def stream_view_def Let_def split: option.splits)

lemma calm_modify [keeps_intros]:
  "keeps (streamed v) (modify (\<lambda>w. w\<lparr>re_wheel := a w\<rparr>))" "keeps (streamed v) (modify (\<lambda>w. w\<lparr>re_route_sequence := b w\<rparr>))"
  "keeps (streamed v) (modify (\<lambda>w. w\<lparr>re_source_sequence := k w\<rparr>))" "keeps (streamed v) (modify (\<lambda>w. w\<lparr>re_limiter := l w\<rparr>))"
  by (simp_all add: keeps_def wp_simps streamed_def stream_view_def Let_def)

subsection \<open>Handlers that leave the streams alone\<close>

lemma calm_reserve [keeps_intros]: "keeps (streamed v) (reserve_queued_bytes n)"
  unfolding reserve_queued_bytes_def by (intro keeps_intros)

lemma calm_release [keeps_intros]: "keeps (streamed v) (release_bytes n)"
  unfolding release_bytes_def by (intro keeps_intros)

lemma calm_protocol_error [keeps_intros]: "keeps (streamed v) (protocol_error e)"
  unfolding protocol_error_def by (intro keeps_intros)

lemma calm_append_line [keeps_intros]: "keeps (streamed v) (append_line_bytes bytes)"
  unfolding append_line_bytes_def by (intro keeps_intros calm_set) (simp add: lane_def)

lemma calm_schedule [keeps_intros]: "keeps (streamed v) schedule_timeout"
  unfolding schedule_timeout_def by (intro keeps_intros calm_set) (simp add: lane_def)

lemma calm_record_upstream_error [keeps_intros]: "keeps (streamed v) record_upstream_error"
  unfolding record_upstream_error_def by (intro keeps_intros calm_backend_do) simp

lemma calm_now: "d_os d = observe os \<Longrightarrow> keeps (streamed v) (now d)"
  unfolding now_def by (simp, intro keeps_intros)

lemma calm_connect_timeout: "d_os d = observe os \<Longrightarrow> keeps (streamed v) (schedule_connect_attempt_timeout d)"
  unfolding schedule_connect_attempt_timeout_def by (intro keeps_intros calm_set calm_now) (simp_all add: lane_def Let_def)

lemma calm_traffic [keeps_intros]: "keeps (streamed v) (consume_client_traffic d bytes messages t)"
  unfolding consume_client_traffic_def by (intro keeps_intros)

lemma lane_core: "same_core s t \<Longrightarrow> se_client t = se_client s \<Longrightarrow> se_upstream t = se_upstream s \<Longrightarrow> se_proxy_header t = se_proxy_header s \<Longrightarrow> lane t = lane s"
  by (simp add: lane_def same_core_def)

lemma calm_within [keeps_intros]: "keeps (streamed v) (within_traffic_limits d bytes messages so_far t)"
proof (rule keepsI)
  fix w :: "'a watched" assume w: "streamed v w"
  have "lane (snd (consume_session_traffic bytes messages t (re_session w))) = lane (re_session w)"
    by (simp add: consume_session_traffic_def lane_def Let_def)
  with w have "streamed v (w\<lparr>re_session := snd (consume_session_traffic bytes messages t (re_session w))\<rparr>)"
    by (simp add: streamed_def stream_view_def)
  with w show "wp (within_traffic_limits d bytes messages so_far t) (\<lambda>_. streamed v) w"
    by (auto simp: within_traffic_limits_def wp_simps Let_def split: prod.splits intro!: keepsD [OF calm_traffic])
qed

lemma calm_refresh: "d_os d = observe os \<Longrightarrow> keeps (streamed v) (refresh_read_pause d)"
  unfolding refresh_read_pause_def Let_def by (intro keeps_intros calm_set calm_now) (simp_all add: lane_def keeps_intros)

lemma calm_interests: "d_os d = observe os \<Longrightarrow> keeps (streamed v) (update_interests d)"
  unfolding update_interests_def by (intro keeps_intros calm_set calm_refresh) (simp_all add: lane_def keeps_intros)

section \<open>Connecting\<close>

lemma flow_lane: "flow c ssl rt X I F A w \<Longrightarrow> lane t = lane (re_session w) \<Longrightarrow> flow c ssl rt X I F A (w\<lparr>re_session := t\<rparr>)"
  by (simp add: flow_def lane_def greeting_def Let_def)

lemma flow_reset: "d_os d = observe os \<Longrightarrow> u \<noteq> c \<Longrightarrow> keeps (flow c ssl rt X I F A) (reset_upstream d u)"
proof (rule keepsI)
  fix w :: "'a watched" assume d: "d_os d = observe os" and u: "u \<noteq> c" and w: "flow c ssl rt X I F A w"
  have "flow c ssl rt X I F A (w\<lparr>re_env := (e, snd (re_env w)), re_session := (re_session w)\<lparr>se_upstream := u\<rparr>\<rparr>)" for e
    using w u by (simp add: flow_def greeting_def Let_def)
  moreover have "flow c ssl rt X I F A (w\<lparr>re_session := (re_session w)\<lparr>se_upstream := u\<rparr>\<rparr>)"
    using w u by (simp add: flow_def greeting_def Let_def)
  ultimately show "wp (reset_upstream d u) (\<lambda>_. flow c ssl rt X I F A) w"
    by (simp add: reset_upstream_def fd_reset_def d wp_simps wp_beside wp_any)
qed

lemma flow_discard:
  assumes d: "d_os d = observe os" and c: "0 \<le> c"
  shows "keeps (flow c ssl rt X I F A) (discard_upstream d)"
  unfolding discard_upstream_def using d c
  by (intro keeps_intros flow_reset calm_flow calm_set) (simp_all add: lane_def keeps_intros)

lemma view_eqD:
  assumes "stream_view w' = stream_view w"
  shows "lane (re_session w') = lane (re_session w)" "be_send_proxy_v2 (re_backends w' ! ref) = be_send_proxy_v2 (re_backends w ! ref)"
    "snd (re_env w') = snd (re_env w)"
  using assms by (auto simp: stream_view_def dest: fun_cong)

text \<open>The connection stands, and the backend is greeted.\<close>

lemma flow_greet:
  assumes "flow c ssl rt X I F A w" and "Relay \<notin> A" and "se_backend (re_session w) = Some ref"
  shows "be_send_proxy_v2 (re_backends w ! ref) \<Longrightarrow> h = header_text (se_proxy_header (re_session w)) \<Longrightarrow>
      flow c ssl rt X I F {Relay} (w\<lparr>re_session := (se_to_upstream_update (\<lambda>b. pb_prepend b h) (re_session w))\<lparr>se_stage := Relay\<rparr>\<rparr>)"
    and "\<not> be_send_proxy_v2 (re_backends w ! ref) \<Longrightarrow>
      flow c ssl rt X I F {Relay} (w\<lparr>re_session := (re_session w)\<lparr>se_stage := Relay\<rparr>\<rparr>)"
  using assms by (auto simp: flow_def greeting_def Let_def pending.bytes_prepend pending.inv_prepend)

lemma flow_env: "flow c ssl rt X I F A w \<Longrightarrow> snd e = snd (re_env w) \<Longrightarrow> flow c ssl rt X I F A (w\<lparr>re_env := e\<rparr>)"
  by (simp add: flow_def)

lemma flow_view_imp: "flow c ssl rt X I F A w \<Longrightarrow> stream_view w' = stream_view w \<Longrightarrow> flow c ssl rt X I F A w'"
  using flow_view by blast

lemma greet_wp:
  fixes w :: "'a watched"
  assumes w: "flow c ssl rt X I F A w" and A: "Relay \<notin> A" and ref: "se_backend (re_session w) = Some ref"
  shows "wp (if be_send_proxy_v2 (re_backends w ! ref) then prepend_queued se_to_upstream_update (header_text (se_proxy_header (re_session w)))
      else State_Monad.return True)
    (\<lambda>b w'. if b then flow c ssl rt X I F {Relay} (w'\<lparr>re_session := (re_session w')\<lparr>se_stage := Relay\<rparr>\<rparr>) else flow c ssl rt X I F A w') w"
proof (cases "be_send_proxy_v2 (re_backends w ! ref)")
  case True
  have reserve: "wp (reserve_queued_bytes n) (\<lambda>_. streamed (stream_view w)) w" for n by (rule keepsD [OF calm_reserve]) (simp add: streamed_def)
  have "flow c ssl rt X I F {Relay} (w'\<lparr>re_session := (se_to_upstream_update (\<lambda>b. pb_prepend b
      (header_text (se_proxy_header (re_session w)))) (re_session w'))\<lparr>se_stage := Relay\<rparr>\<rparr>)" "flow c ssl rt X I F A w'"
    if "streamed (stream_view w) w'" for w' :: "'a watched"
  proof -
    have v: "stream_view w' = stream_view w" using that by (simp add: streamed_def)
    with w show f: "flow c ssl rt X I F A w'" by (rule flow_view_imp)
    have b: "se_backend (re_session w') = Some ref" "se_proxy_header (re_session w') = se_proxy_header (re_session w)"
      using view_eqD(1) [OF v] ref by (simp_all add: lane_def)
    show "flow c ssl rt X I F {Relay} (w'\<lparr>re_session := (se_to_upstream_update (\<lambda>b. pb_prepend b
      (header_text (se_proxy_header (re_session w)))) (re_session w'))\<lparr>se_stage := Relay\<rparr>\<rparr>)"
      by (rule flow_greet(1) [OF f A b(1)]) (use True view_eqD(2) [OF v, of ref] b(2) in simp_all)
  qed
  then show ?thesis
    using True by (simp add: prepend_queued_def wp_simps, intro wp_mono [OF reserve]) simp
next
  case False
  with flow_greet(2) [OF assms] show ?thesis by (simp add: wp_simps)
qed

lemma flow_finish:
  assumes d: "d_os d = observe os" and w: "flow c ssl rt X I F A w" and A: "Relay \<notin> A"
  shows "wp (finish_upstream_connect d) (\<lambda>r. flow c ssl rt X I F (if r then {Relay} else A)) w"
  unfolding finish_upstream_connect_def wp_bind wp_se_get wp_os_do d observe_simps wp_beside
proof (rule wp_any, goal_cases)
  case (1 result e)
  let ?w = "w\<lparr>re_env := (e, snd (re_env w))\<rparr>"
  have f: "flow c ssl rt X I F A ?w" using w by (rule flow_env) simp
  show ?case
  proof (cases "\<exists>ref. result = Inr 0 \<and> se_backend (re_session w) = Some ref")
    case False
    have "flow c ssl rt X I F A (?w\<lparr>re_fault := True\<rparr>)" using f by (simp add: flow_def)
    with f False show ?thesis by (auto simp: wp_simps split: sum.splits option.splits)
  next
    case True
    then obtain ref where ref: "result = Inr 0" "se_backend (re_session w) = Some ref" by blast
    have tail: "wp schedule_timeout (\<lambda>_ w. flow c ssl rt X I F {Relay} (w\<lparr>re_backends := (re_backends w)[ref := (re_backends w ! ref)\<lparr>be_active_connections :=
        fetch_add (be_active_connections (re_backends w ! ref)) 1\<rparr>], re_session := (re_session w)\<lparr>se_backend_counted := True\<rparr>\<rparr>)) w'"
      if "flow c ssl rt X I F {Relay} w'" for w' :: "'a watched"
    proof (rule wp_keeps [OF calm_flow [OF calm_schedule] that])
      fix w2 :: "'a watched" assume "flow c ssl rt X I F {Relay} w2"
      from keepsD [OF calm_flow [OF calm_backend_do] this, of "\<lambda>b. b\<lparr>be_active_connections := fetch_add (be_active_connections b) 1\<rparr>" ref]
      show "flow c ssl rt X I F {Relay} (w2\<lparr>re_backends := (re_backends w2)[ref := (re_backends w2 ! ref)\<lparr>be_active_connections :=
        fetch_add (be_active_connections (re_backends w2 ! ref)) 1\<rparr>], re_session := (re_session w2)\<lparr>se_backend_counted := True\<rparr>\<rparr>)"
        by (simp add: wp_simps flow_def greeting_def Let_def)
    qed
    have b: "se_backend (re_session ?w) = Some ref" using ref by simp
    show ?thesis
      unfolding ref(1) sum.case
      by (simp only: simp_thms if_False wp_bind wp_with_backend b option.case wp_se_get, rule wp_mono [OF greet_wp [OF f A b]])
        (auto simp: wp_simps lane_def intro: flow_lane tail [unfolded One_nat_def])
  qed
qed

text \<open>A connection that was started is on a descriptor of its own.\<close>

lemma start_connect_apart:
  assumes "client_os os c"
  shows "wp (start_connect (observe os) address source) (\<lambda>r w'. snd w' = snd w \<and> cs_socket r \<noteq> c) w"
proof -
  have c: "0 \<le> c" "v \<noteq> c" if "run_state (os_socket os family) e = (Inr v, e')" for v family e e'
    using assms that by (auto simp: client_os_def)
  have quit: "wp (abandon_connect (observe os) v) (\<lambda>r w'. snd w' = snd w \<and> cs_socket r \<noteq> c) (e, snd w)" for v e
    using assms by (auto simp: abandon_connect_def fd_destroy_def fd_reset_def no_connect_def wp_simps wp_beside client_os_def intro!: wp_any)
  have fin: "wp (finish_start (observe os) address v) (\<lambda>r w'. snd w' = snd w \<and> cs_socket r \<noteq> c) (e, snd w)" if "v \<noteq> c" for v e
    unfolding finish_start_def wp_simps observe_simps wp_beside
    by (rule wp_any) (use that quit in \<open>auto simp: wp_simps split: sum.splits\<close>)
  show ?thesis
    unfolding start_connect_def wp_bind observe_simps wp_beside
  proof (rule wpI, goal_cases)
    case (1 created e)
    show ?case
    proof (cases created)
      case (Inl error)
      then show ?thesis using assms by (simp add: wp_simps no_connect_def client_os_def)
    next
      case (Inr v)
      with 1 c(2) have "v \<noteq> c" by blast
      with Inr show ?thesis
        unfolding Inr sum.case wp_simps configure_stream_socket_def observe_simps wp_beside
        by (intro wp_any) (auto simp: wp_simps wp_beside quit fin intro!: wp_any split: option.splits sum.splits)
    qed
  qed
qed

lemma flow_attempt:
  assumes d: "d_os d = observe os" and os: "client_os os c" and w: "flow c ssl rt X I F {UpstreamConnect} w"
  shows "wp (connect_attempt d address source)
    (\<lambda>r. flow c ssl rt X I F (if r = None then {UpstreamConnect} else {UpstreamConnect, Relay})) w"
proof -
  let ?U = "flow c ssl rt X I F {UpstreamConnect}"
  have c: "- 1 \<noteq> c" "0 \<le> c" using os by (auto simp: client_os_def)
  note calm = calm_flow [OF calm_record_upstream_error] calm_flow [OF calm_connect_timeout [OF d]] flow_reset [OF d c(1)] flow_discard [OF d c(2)]
  have more: "flow c ssl rt X I F {UpstreamConnect, Relay} w'" if "?U w' \<or> flow c ssl rt X I F {Relay} w'" for w' :: "'a watched"
    using that by (auto elim: flow_mono)
  have finished: "wp (finish_upstream_connect d) (\<lambda>r w. if r then flow c ssl rt X I F {UpstreamConnect, Relay} w
      else if se_queue_limit_exceeded (re_session w) then flow c ssl rt X I F {UpstreamConnect, Relay} w
      else wp record_upstream_error (\<lambda>_. wp (discard_upstream d) (\<lambda>_. ?U)) w) w'" if "?U w'" for w' :: "'a watched"
    by (rule wp_mono [OF flow_finish [OF d that]]) (auto intro!: more wp_keeps [OF calm(1)] keepsD [OF calm(4)] split: if_splits)
  have added: "wp (schedule_connect_attempt_timeout d) (\<lambda>_ w. if \<not> connected then flow c ssl rt X I F {UpstreamConnect, Relay} w
      else wp (finish_upstream_connect d) (\<lambda>r w. if r then flow c ssl rt X I F {UpstreamConnect, Relay} w
      else if se_queue_limit_exceeded (re_session w) then flow c ssl rt X I F {UpstreamConnect, Relay} w
      else wp record_upstream_error (\<lambda>_. wp (discard_upstream d) (\<lambda>_. ?U)) w) w) w'" if "?U w'" for w' :: "'a watched" and connected
    by (rule wp_keeps [OF calm(2) that], rule ifI, erule more [OF disjI1], rule finished)
  have start: "wp (os_do (start_connect (d_os d) address source)) (\<lambda>r w'. ?U w' \<and> cs_socket r \<noteq> c) w'" if "?U w'" for w' :: "'a watched"
    unfolding wp_os_do d by (rule wp_mono [OF start_connect_apart [OF os]]) (use that in \<open>auto intro: flow_env\<close>)
  have attempts: "keeps ?U (with_backend () (\<lambda>ref _. backend_do ref (\<lambda>b. b\<lparr>be_connection_attempts := fetch_add (be_connection_attempts b) 1\<rparr>)))"
    by (intro calm_flow keeps_intros calm_backend_do) simp
  show ?thesis
    unfolding connect_attempt_def wp_bind
  proof (rule wp_keeps [OF attempts w], rule wp_mono [OF start], assumption, elim conjE, goal_cases)
    case (1 _ _ r w1)
    show ?case
    proof (cases "fd_valid (cs_socket r)")
      case False
      with 1 show ?thesis by (simp add: wp_simps keepsD [OF calm(1)])
    next
      case True
      have lane: "?U (w'\<lparr>re_env := (e, snd (re_env w')), re_session := (re_session w')\<lparr>se_upstream_events := x\<rparr>\<rparr>)" if "?U w'" for w' :: "'a watched" and e x
        using flow_lane [OF flow_env [OF that, of "(e, snd (re_env w'))"], of "(re_session w')\<lparr>se_upstream_events := x\<rparr>"] by (simp add: lane_def)
      have env: "?U (w'\<lparr>re_env := (e, snd (re_env w'))\<rparr>)" if "?U w'" for w' :: "'a watched" and e using that by (rule flow_env) simp
      show ?thesis
        unfolding if_not_P [of "\<not> fd_valid (cs_socket r)", unfolded not_not, OF True] wp_bind wp_se_get wp_os_do unfolding d observe_simps wp_beside
      proof (rule wp_keeps [OF flow_reset [OF d 1(3)] 1(2)], rule wp_any, goal_cases)
        case (1 _ w2 x e)
        from 1 show ?case
        proof (cases x)
          case (Inl error)
          then show ?thesis unfolding Inl sum.case wp_simps by (intro wp_keeps [OF calm(1) env [OF 1]]) (simp add: keepsD [OF calm(3)])
        next
          case (Inr y)
          then show ?thesis unfolding Inr sum.case wp_simps using added [OF lane [OF 1], of "cs_connected r"] by simp
        qed
      qed
    qed
  qed
qed

lemma lane_advance: "lane (advance_address addresses sources s) = lane s"
proof (induction addresses sources s rule: advance_address.induct)
  case (1 addresses sources s)
  then show ?case by (subst advance_address.simps) (simp add: lane_def Let_def)
qed

lemma flow_connect_loop:
  assumes d: "d_os d = observe os" and os: "client_os os c"
  shows "leads (flow c ssl rt X I F {UpstreamConnect}) (connect_loop d n addresses sources) (\<lambda>_. flow c ssl rt X I F {UpstreamConnect, Relay})"
proof (induction n)
  case 0
  show ?case unfolding connect_loop.simps
    by (intro leads_bind_keeps leads_return calm_flow keeps_intros) (auto elim: flow_mono)
next
  case (Suc n)
  have more: "flow c ssl rt X I F {UpstreamConnect} w \<Longrightarrow> flow c ssl rt X I F {UpstreamConnect, Relay} w" for w :: "'a watched"
    by (erule flow_mono) simp
  have attempt: "leads (flow c ssl rt X I F {UpstreamConnect}) (State_Monad.bind (connect_attempt d address source)
      (\<lambda>r. case r of None \<Rightarrow> connect_loop d n addresses sources | Some kept \<Rightarrow> State_Monad.return kept)) (\<lambda>_. flow c ssl rt X I F {UpstreamConnect, Relay})"
    for address source
    by (rule leads_bind, rule leadsI, erule flow_attempt [OF d os], intro leads_intros) (auto intro: Suc.IH leads_return)
  show ?case
    unfolding connect_loop.simps
    by (intro leads_intros leads_bind_keeps attempt calm_flow keeps_intros calm_set [OF lane_advance] calm_set calm_now [OF d])
      (auto intro!: leads_return more simp: lane_def)
qed

lemma flow_start_next:
  assumes d: "d_os d = observe os" and os: "client_os os c"
  shows "leads (flow c ssl rt X I F {UpstreamConnect}) (start_next_upstream_connect d) (\<lambda>_. flow c ssl rt X I F {UpstreamConnect, Relay})"
proof (rule leadsI)
  fix w :: "'a watched" assume w: "flow c ssl rt X I F {UpstreamConnect} w"
  then have V: "flow c ssl rt X I F {UpstreamConnect, Relay} w" by (rule flow_mono) simp
  then have "flow c ssl rt X I F {UpstreamConnect, Relay} (w\<lparr>re_fault := True\<rparr>)" by (simp add: flow_def)
  with V leadsD [OF flow_connect_loop [OF d os] w] show "wp (start_next_upstream_connect d) (\<lambda>_. flow c ssl rt X I F {UpstreamConnect, Relay}) w"
    by (simp add: start_next_upstream_connect_def wp_simps split: option.splits)
qed

lemma flow_begin:
  assumes d: "d_os d = observe os" and os: "client_os os c"
  shows "leads (flow c ssl rt X I F (- {Relay})) (begin_upstream_connect d) (\<lambda>r. flow c ssl rt X I F (if r then {UpstreamConnect, Relay} else UNIV))"
proof -
  have chosen: "keeps (flow c ssl rt X I F (- {Relay})) (se_set (se_backend_update (\<lambda>_. x)))" for x
    by (rule keepsI) (auto simp: wp_simps flow_def greeting_def Let_def)
  have stage: "leads (flow c ssl rt X I F (- {Relay})) (se_set (se_stage_update (\<lambda>_. UpstreamConnect))) (\<lambda>_. flow c ssl rt X I F {UpstreamConnect})"
    by (rule leadsI) (auto simp: wp_simps flow_def greeting_def Let_def)
  have any: "flow c ssl rt X I F A w \<Longrightarrow> flow c ssl rt X I F UNIV w" for A and w :: "'a watched" by (erule flow_mono) simp
  have reject: "leads (flow c ssl rt X I F A :: 'a watched \<Rightarrow> bool) reject_no_backend (\<lambda>r. flow c ssl rt X I F (if r then {UpstreamConnect, Relay} else UNIV))" for A
    unfolding reject_no_backend_def by (intro leads_bind_keeps calm_flow keeps_intros leads_return) (auto intro: any)
  have start: "leads (flow c ssl rt X I F {UpstreamConnect}) (start_next_upstream_connect d) (\<lambda>r. flow c ssl rt X I F (if r then {UpstreamConnect, Relay} else UNIV))"
    by (rule leads_mono [OF flow_start_next [OF d os]]) (auto intro: any)
  show ?thesis
    unfolding begin_upstream_connect_def Let_def
    by (intro leads_bind_keeps [OF chosen] leads_bind [OF stage] leads_intros reject start leads_bind_keeps calm_flow keeps_intros calm_set calm_now [OF d])
      (simp_all add: lane_def)
qed

section \<open>Reading and writing\<close>

lemma honest_take:
  assumes "honest_writes os" and "\<And>error e'. Q (Inl error) (e', snd w)" and "\<And>n e'. n \<le> length bytes \<Longrightarrow> Q (Inr n) (e', snd w @ [Sent v (take n bytes)])"
  shows "wp (os_send (observe os) v bytes) Q w"
  unfolding observe_simps wp_noting by (rule send_wp [OF assms(1)]) (simp_all add: succeeded_def assms(2,3))

lemma honest_ssl_take:
  assumes "honest_writes os" and "\<And>error e'. Q (Inl error) (e', snd w)" and "\<And>n e'. n \<le> length bytes \<Longrightarrow> Q (Inr n) (e', snd w @ [Encrypted v (take n bytes)])"
  shows "wp (os_ssl_write (observe os) v bytes) Q w"
  unfolding observe_simps wp_noting by (rule ssl_write_wp [OF assms(1)]) (simp_all add: succeeded_def assms(2,3))

lemma client_osD: "client_os os c \<Longrightarrow> honest_writes os" "client_os os c \<Longrightarrow> 0 \<le> c"
  by (simp_all add: client_os_def)

text \<open>Bytes that leave a queue are the bytes the write reports, from its front.\<close>

lemma flow_sent_upstream:
  assumes "flow c ssl rt X I F A w" and "n \<le> length bs" and "prefix bs (pb_bytes (se_to_upstream (re_session w)))" and "A \<subseteq> {Relay} \<or> bs = []"
  shows "flow c ssl rt X I F A (w\<lparr>re_env := (e, snd (re_env w) @ [Sent (se_upstream (re_session w)) (take n bs)]),
    re_session := (re_session w)\<lparr>se_to_upstream := pb_consume (se_to_upstream (re_session w)) n\<rparr>\<rparr>)"
proof -
  from assms(2,3) have "take n bs @ drop n (pb_bytes (se_to_upstream (re_session w))) = pb_bytes (se_to_upstream (re_session w))"
    by (auto simp: prefix_def)
  with assms(1,2,4) show ?thesis
    by (auto simp: flow_def greeting_def Let_def pending.bytes_consume pending.inv_consume)
qed

lemma flow_push:
  assumes d: "d_os d = observe os" and os: "client_os os c" and w: "flow c ssl rt X I F A w"
    and A: "A \<subseteq> {Relay} \<or> pb_bytes (se_to_upstream (re_session w)) = []"
  shows "wp (write_upstream d) (\<lambda>_. flow c ssl rt X I F A) w"
proof (cases "pb_empty (se_to_upstream (re_session w))")
  case True
  then show ?thesis using w by (simp add: write_upstream_def wp_simps)
next
  case False
  have inv: "pb_inv (se_to_upstream (re_session w))" using w by (simp add: flow_def Let_def)
  have A: "A \<subseteq> {Relay}" using A False pending.empty_bytes [OF inv] by simp
  have none: "flow c ssl rt X I F A (w\<lparr>re_env := (e, snd (re_env w))\<rparr>)" for e using w by (rule flow_env) simp
  have zero: "flow c ssl rt X I F A (w\<lparr>re_env := (e, snd (re_env w) @ [Sent v []])\<rparr>)" for e v
    using w by (simp add: flow_def Let_def)
  show ?thesis
    using False none zero A
    by (simp add: write_upstream_def wp_simps d del: observe_simps, intro honest_take [OF client_osD(1) [OF os]])
      (auto simp: wp_simps intro!: flow_sent_upstream w take_is_prefix)
qed

lemma flow_sent_client:
  assumes "flow c ssl rt X I F A w" and "n \<le> length bs" and "prefix bs (pb_bytes (se_to_client (re_session w)))"
    and "x = (case ssl of None \<Rightarrow> Sent c (take n bs) | Some k \<Rightarrow> Encrypted k (take n bs))"
    and "lane t = lane ((re_session w)\<lparr>se_to_client := pb_consume (se_to_client (re_session w)) n\<rparr>)"
  shows "flow c ssl rt X I F A (w\<lparr>re_env := (e, snd (re_env w) @ [x]), re_session := t\<rparr>)"
proof -
  from assms(2,3) have "take n bs @ drop n (pb_bytes (se_to_client (re_session w))) = pb_bytes (se_to_client (re_session w))"
    by (auto simp: prefix_def)
  with assms(1,4,5) show ?thesis
    by (auto simp: flow_def lane_def greeting_def Let_def pending.bytes_consume pending.inv_consume split: option.splits)
qed

lemma flow_write_client:
  assumes d: "d_os d = observe os" and os: "client_os os c"
  shows "keeps (flow c ssl rt X I F A) (write_client d)"
proof (rule keepsI)
  fix w :: "'a watched" assume w: "flow c ssl rt X I F A w"
  let ?s = "re_session w"
  have ids: "se_client ?s = c" "se_ssl ?s = ssl" using w by (simp_all add: flow_def Let_def)
  have none: "flow c ssl rt X I F A (w'\<lparr>re_env := (e, snd (re_env w'))\<rparr>)" if "flow c ssl rt X I F A w'" for e and w' :: "'a watched"
    using that by (rule flow_env) simp
  have retry: "flow c ssl rt X I F A (w'\<lparr>re_env := (e, snd (re_env w')), re_session := t\<rparr>)"
    if "flow c ssl rt X I F A w'" "lane t = lane (re_session w')" for e t and w' :: "'a watched"
    using flow_lane [OF none [OF that(1)], of t e] that by simp
  have zero: "flow c ssl rt X I F A (w'\<lparr>re_env := (e, snd (re_env w') @ [Sent c []])\<rparr>)"
    "flow c ssl rt X I F A (w'\<lparr>re_env := (e, snd (re_env w') @ [Encrypted k []])\<rparr>)" if "flow c ssl rt X I F A w'" for e k and w' :: "'a watched"
    using that by (simp_all add: flow_def Let_def)
  have took: "flow c ssl rt X I F A (w'\<lparr>re_env := (e, snd (re_env w') @ [x n]), re_session := t (pb_consume (se_to_client (re_session w')) n)\<rparr>)"
    if "flow c ssl rt X I F A w'" "n \<le> length (pb_bytes (se_to_client (re_session w')))"
      "\<And>n. x n = (case ssl of None \<Rightarrow> Sent c (take n (pb_bytes (se_to_client (re_session w')))) | Some k \<Rightarrow> Encrypted k (take n (pb_bytes (se_to_client (re_session w')))))"
      "\<And>b. lane (t b) = lane ((re_session w')\<lparr>se_to_client := b\<rparr>)" for n x e t and w' :: "'a watched"
    by (rule flow_sent_client [OF that(1,2) _ that(3,4)]) simp
  show "wp (write_client d) (\<lambda>_. flow c ssl rt X I F A) w"
  proof (cases "pb_empty (se_to_client ?s)")
    case True
    then show ?thesis using w by (simp add: write_client_def wp_simps)
  next
    case False
    show ?thesis
    proof (cases ssl)
      case None
      note took = took [OF w, of _ "\<lambda>n. Sent c (take n (pb_bytes (se_to_client ?s)))" "\<lambda>b. ?s\<lparr>se_to_client := b\<rparr>", unfolded None]
      show ?thesis
        using False none [OF w] zero [OF w]
        by (simp add: write_client_def wp_simps d ids(1) ids(2) [unfolded None] del: observe_simps, intro honest_take [OF client_osD(1) [OF os]])
          (auto simp: wp_simps lane_def None intro!: took)
    next
      case (Some k)
      let ?t = "\<lambda>b. ?s\<lparr>se_to_client := b, se_tls_operation := NoTlsOperation, se_client_write_retry_bytes := 0\<rparr>"
      have f: "flow c ssl rt X I F A (w\<lparr>re_fault := True\<rparr>)" using w by (simp add: flow_def)
      note took = took [OF w, of _ "\<lambda>n. Encrypted k (take n (pb_bytes (se_to_client ?s)))" ?t, unfolded Some]
        took [OF f, of _ "\<lambda>n. Encrypted k (take n (pb_bytes (se_to_client ?s)))" ?t, unfolded Some, simplified]
      show ?thesis
        using False none [OF w] none [OF f] zero [OF w] zero [OF f] retry [OF w] retry [OF f]
        by (simp add: write_client_def wp_simps d Let_def ids(2) [unfolded Some] del: observe_simps,
            intro conjI impI honest_ssl_take [OF client_osD(1) [OF os]])
          (auto simp: wp_simps lane_def Some intro!: took)
    qed
  qed
qed

lemma flow_read_client:
  assumes d: "d_os d = observe os"
  shows "leads (flow c ssl rt X I F A) (read_client d n) (\<lambda>(status, bytes). flow c ssl rt X (I @ bytes) F A)"
proof (rule leadsI)
  fix w :: "'a watched" assume w: "flow c ssl rt X I F A w"
  have ids: "se_client (re_session w) = c" "se_ssl (re_session w) = ssl" using w by (simp_all add: flow_def Let_def)
  have none: "flow c ssl rt X I F A (w\<lparr>re_env := (e, snd (re_env w))\<rparr>)" for e using w by (rule flow_env) simp
  have got: "flow c ssl rt X (I @ bs) F A (w\<lparr>re_env := (e, snd (re_env w) @ [x])\<rparr>)"
    if "x = (case ssl of None \<Rightarrow> Received c bs | Some k \<Rightarrow> Decrypted k bs)" for e x bs
    using w that by (auto simp: flow_def Let_def split: option.splits)
  have got_lane: "flow c ssl rt X (I @ bs) F A (w\<lparr>re_env := (e, snd (re_env w) @ [x]), re_session := t\<rparr>)"
    if "x = (case ssl of None \<Rightarrow> Received c bs | Some k \<Rightarrow> Decrypted k bs)" "lane t = lane (re_session w)" for e x bs t
    using flow_lane [OF got [OF that(1)], of t e] that(2) by simp
  have lane: "flow c ssl rt X I F A (w\<lparr>re_env := (e, snd (re_env w)), re_session := t\<rparr>)" if "lane t = lane (re_session w)" for e t
    using flow_lane [OF none, of t e] that by simp
  show "wp (read_client d n) (\<lambda>(status, bytes). flow c ssl rt X (I @ bytes) F A) w"
  proof (cases ssl)
    case None
    with ids none got [of _ "[]"] got show ?thesis
      by (simp add: read_client_def wp_simps d wp_noting, intro wp_any) (auto simp: wp_simps succeeded_def split: sum.splits)
  next
    case (Some k)
    with ids none got [of _ "[]"] got_lane lane show ?thesis
      by (simp add: read_client_def wp_simps d wp_noting, intro wp_any) (auto simp: wp_simps succeeded_def lane_def split: sum.splits)
  qed
qed

text \<open>Writing to the backend: the connection stands, or nothing is queued.\<close>

definition may_push :: "string \<Rightarrow> session_stage set \<Rightarrow> bool" where
  "may_push F A \<longleftrightarrow> A \<subseteq> {Relay} \<or> Relay \<notin> A \<and> F = []"

lemma flow_write_upstream:
  assumes d: "d_os d = observe os" and os: "client_os os c" and A: "may_push F A"
  shows "keeps (flow c ssl rt X I F A) (write_upstream d)"
proof (rule keepsI)
  fix w :: "'a watched" assume w: "flow c ssl rt X I F A w"
  with A have "A \<subseteq> {Relay} \<or> pb_bytes (se_to_upstream (re_session w)) = []"
    by (auto simp: may_push_def flow_def greeting_def Let_def split: if_splits)
  then show "wp (write_upstream d) (\<lambda>_. flow c ssl rt X I F A) w" by (rule flow_push [OF d os w])
qed

lemma calm_activity: "keeps (streamed v) (se_set (se_last_activity_update f))"
  by (rule calm_set) (simp add: lane_def)

lemma flow_after_write:
  assumes d: "d_os d = observe os"
  shows "keeps (flow c ssl rt X I F A) (after_write d r)"
  unfolding after_write_def by (intro calm_flow keeps_intros calm_now [OF d] calm_activity)

lemma flow_flush_client: "d_os d = observe os \<Longrightarrow> client_os os c \<Longrightarrow> keeps (flow c ssl rt X I F A) (flush_client d)"
  unfolding flush_client_def by (intro keeps_intros flow_write_client flow_after_write)

lemma flow_push_upstream: "d_os d = observe os \<Longrightarrow> client_os os c \<Longrightarrow> may_push F A \<Longrightarrow> keeps (flow c ssl rt X I F A) (push_upstream d)"
  unfolding push_upstream_def by (intro keeps_intros flow_write_upstream flow_after_write)

lemma flow_flush_loop:
  assumes d: "d_os d = observe os" and os: "client_os os c" and A: "may_push F A"
  shows "keeps (flow c ssl rt X I F A) (flush_loop d n)"
proof (induction n)
  case 0
  show ?case unfolding flush_loop.simps by (intro calm_flow keeps_intros)
next
  case (Suc n)
  then show ?case
    unfolding flush_loop.simps by (intro keeps_intros flow_write_upstream [OF d os A] calm_flow [OF calm_release])
qed

lemma flow_flush_queue: "d_os d = observe os \<Longrightarrow> client_os os c \<Longrightarrow> may_push F A \<Longrightarrow> keeps (flow c ssl rt X I F A) (flush_upstream_queue d)"
  unfolding flush_upstream_queue_def by (intro keeps_intros flow_flush_loop)

section \<open>The miner's lines\<close>

text \<open>A session that goes on: everything the miner sent has been screened.\<close>

abbreviation miner_of :: "session \<Rightarrow> miner" where
  "miner_of s \<equiv> (se_protocol_state s, se_consecutive_protocol_errors s)"

text \<open>The first accepted line starts the connection.\<close>

definition in_step :: "session \<Rightarrow> bool" where
  "in_step s \<longleftrightarrow> (se_stage s \<in> {TlsHandshake, FirstMessage} \<longleftrightarrow> \<not> received_message (se_protocol_state s))"

definition relaying :: "'g glaze \<Rightarrow> fd \<Rightarrow> nat option \<Rightarrow> runtime_snapshot \<Rightarrow> 'e watched \<Rightarrow> bool" where
  "relaying glz c ssl rt w \<longleftrightarrow>
     (\<exists>I F. flow c ssl rt [] I F UNIV w \<and>
        screened glz (rs_config rt) I F (line_of (re_session w)) (miner_of (re_session w)) \<and> in_step (re_session w))"

text \<open>A session that may have to be closed: what was queued is still only what the screen forwards.\<close>

definition bounded :: "'g glaze \<Rightarrow> fd \<Rightarrow> nat option \<Rightarrow> runtime_snapshot \<Rightarrow> 'e watched \<Rightarrow> bool" where
  "bounded glz c ssl rt w \<longleftrightarrow> (\<exists>X I F. flow c ssl rt X I F UNIV w \<and> prefix F (forwarded glz (rs_config rt) I))"

lemma relaying_bounded: "relaying glz c ssl rt w \<Longrightarrow> bounded glz c ssl rt w"
  by (auto simp: relaying_def bounded_def dest: screened_forwarded)

text \<open>
  Inside the loop over the lines: \<open>consumed\<close> bytes at the front of the buffer are accepted and not yet queued.
\<close>

lemma flow_commit:
  assumes w: "flow c ssl rt X I F A w" and n: "n \<le> length (line_of (re_session w))"
  shows "wp (commit_consumed n) (\<lambda>committed w'.
    if committed then flow c ssl rt X I (F @ take n (line_of (re_session w))) A w' \<and>
      line_of (re_session w') = drop n (line_of (re_session w)) \<and> miner_of (re_session w') = miner_of (re_session w) \<and>
      se_stage (re_session w') = se_stage (re_session w)
    else flow c ssl rt X I F A w') w"
proof -
  let ?s = "re_session w"
  let ?t = "?s\<lparr>se_to_upstream := pb_append (se_to_upstream ?s) (take n (line_of ?s)),
    se_line_buffer := release_oversized_string (str_erase_front (se_line_buffer ?s) n)\<rparr>"
  have "flow c ssl rt X I (F @ take n (line_of ?s)) A (w\<lparr>re_session := ?t\<rparr>)"
    using w by (auto simp: flow_def greeting_def Let_def pending.bytes_append pending.inv_append)
  with w show ?thesis
    by (auto simp: commit_consumed_def wp_simps Let_def intro!: keepsD [OF calm_flow [OF calm_protocol_error]])
qed

lemma flow_discard_line:
  assumes w: "flow c ssl rt X I F A w"
  shows "wp (discard_line_bytes n) (\<lambda>_ w'. flow c ssl rt X I F A w' \<and> line_of (re_session w') = drop n (line_of (re_session w)) \<and>
    miner_of (re_session w') = miner_of (re_session w) \<and> se_stage (re_session w') = se_stage (re_session w)) w"
  unfolding discard_line_bytes_def release_bytes_def wp_simps
  by (intro conjI flow_view_imp [OF w]) (simp_all add: stream_view_def lane_def)

definition line_result :: "'g glaze \<Rightarrow> fd \<Rightarrow> nat option \<Rightarrow> runtime_snapshot \<Rightarrow> string \<Rightarrow> string \<Rightarrow> string \<Rightarrow> miner \<Rightarrow> string \<Rightarrow>
    nat option \<Rightarrow> 'e watched \<Rightarrow> bool" where
  "line_result glz c ssl rt X I G m rest r w \<longleftrightarrow>
     (case r of
        None \<Rightarrow> \<exists>F. flow c ssl rt X I F UNIV w \<and> prefix F (G @ fst (screen glz (rs_config rt) m (fst (split_lines rest))))
      | Some k \<Rightarrow> \<exists>F g. flow c ssl rt X I F UNIV w \<and> k \<le> length (line_of (re_session w)) \<and>
          screen glz (rs_config rt) m (fst (split_lines rest)) = (g, Some (miner_of (re_session w))) \<and>
          F @ take k (line_of (re_session w)) = G @ g \<and> drop k (line_of (re_session w)) = snd (split_lines rest) \<and> in_step (re_session w))"

text \<open>One line further.\<close>

lemma line_result_step:
  assumes "str_find newline rest = Some i" and "screen_line glz (rs_config rt) m (take i rest) = Some (b, m')"
    and "line_result glz c ssl rt X I (G @ (if b then take (Suc i) rest else [])) m' (drop (Suc i) rest) r w"
  shows "line_result glz c ssl rt X I G m rest r w"
proof -
  have "take (Suc i) rest = take i rest @ [newline]"
    using assms(1) by (auto simp: str_find_Some take_Suc_conv_app_nth)
  then show ?thesis
    using assms(2,3) split_lines_find [OF assms(1)]
    by (auto simp: line_result_def split: option.splits prod.splits)
qed

lemma line_result_stop:
  assumes "flow c ssl rt X I F UNIV w" and "prefix F G"
  shows "line_result glz c ssl rt X I G m rest None w"
  using assms by (auto simp: line_result_def intro: prefix_order.trans)

lemma flow_runtime: "flow c ssl rt X I F A w \<Longrightarrow> se_runtime (re_session w) = rt"
  by (simp add: flow_def Let_def)

lemma flow_any: "flow c ssl rt X I F A w \<Longrightarrow> flow c ssl rt X I F UNIV w"
  by (erule flow_mono) simp

text \<open>Ending the session commits the accepted lines, if they fit.\<close>

lemma commit_and_stop:
  assumes "flow c ssl rt X I F UNIV w" and "n \<le> length (line_of (re_session w))" and "prefix (F @ take n (line_of (re_session w))) G"
  shows "wp (commit_consumed n) (\<lambda>_. line_result glz c ssl rt X I G m rest None) w"
proof (rule wp_mono [OF flow_commit [OF assms(1,2)]])
  fix committed w' assume "if committed then flow c ssl rt X I (F @ take n (line_of (re_session w))) UNIV w' \<and>
      line_of (re_session w') = drop n (line_of (re_session w)) \<and> miner_of (re_session w') = miner_of (re_session w) \<and>
      se_stage (re_session w') = se_stage (re_session w) else flow c ssl rt X I F UNIV w'"
  then show "line_result glz c ssl rt X I G m rest None w'"
    using assms(3) by (cases committed) (auto intro!: line_result_stop dest: append_prefixD)
qed

text \<open>A line that is dropped, or the end of the session.\<close>

lemma skip_line:
  assumes w: "flow c ssl rt X I F UNIV w" "consumed \<le> length (line_of (re_session w))"
    and i: "str_find newline (drop consumed (line_of (re_session w))) = Some i" and step: "in_step (re_session w)"
    and m: "tolerated \<Longrightarrow> screen_line glz (rs_config rt) m (take i (drop consumed (line_of (re_session w)))) = Some (False, miner_of (re_session w))"
    and IH: "\<And>w'. tolerated \<Longrightarrow> flow c ssl rt X I (F @ take consumed (line_of (re_session w))) UNIV w' \<Longrightarrow>
      line_of (re_session w') = drop (Suc i) (drop consumed (line_of (re_session w))) \<Longrightarrow> miner_of (re_session w') = miner_of (re_session w) \<Longrightarrow>
      in_step (re_session w') \<Longrightarrow> wp loop (line_result glz c ssl rt X I (F @ take consumed (line_of (re_session w))) (miner_of (re_session w))
        (drop (Suc i) (drop consumed (line_of (re_session w))))) w'"
  shows "wp (commit_consumed consumed) (\<lambda>committed w'. if \<not> tolerated \<or> \<not> committed
      then line_result glz c ssl rt X I (F @ take consumed (line_of (re_session w))) m (drop consumed (line_of (re_session w))) None w'
      else wp (discard_line_bytes (i + 1)) (\<lambda>_. wp loop (line_result glz c ssl rt X I (F @ take consumed (line_of (re_session w))) m
        (drop consumed (line_of (re_session w))))) w') w"
proof (rule wp_mono [OF flow_commit [OF w]], goal_cases)
  case (1 committed w')
  show ?case
  proof (cases "tolerated \<and> committed")
    case True
    with 1 have f: "flow c ssl rt X I (F @ take consumed (line_of (re_session w))) UNIV w'"
      and eq: "line_of (re_session w') = drop consumed (line_of (re_session w))" "miner_of (re_session w') = miner_of (re_session w)"
        "se_stage (re_session w') = se_stage (re_session w)" by auto
    have loop: "wp loop (line_result glz c ssl rt X I (F @ take consumed (line_of (re_session w))) m (drop consumed (line_of (re_session w)))) w2"
      if "flow c ssl rt X I (F @ take consumed (line_of (re_session w))) UNIV w2"
        "line_of (re_session w2) = drop (i + 1) (line_of (re_session w'))" "miner_of (re_session w2) = miner_of (re_session w')"
        "se_stage (re_session w2) = se_stage (re_session w')" for w2
    proof (rule wp_mono [OF IH line_result_step [OF i m]])
      show "in_step (re_session w2)" using step that(3,4) eq(2,3) by (simp add: in_step_def)
    qed (use that eq True in auto)
    show ?thesis using True by (auto intro!: wp_mono [OF flow_discard_line [OF f]] loop)
  next
    case False
    with 1 show ?thesis by (auto intro!: line_result_stop split: if_splits)
  qed
qed

lemma screen_line_session:
  assumes "se_runtime s = rt" and "\<not> max_line_bytes (se_limits s) < length l"
    and v: "v = validate_request glz l (se_protocol_state s) (cfg_protocol (rs_config (se_runtime s)))"
  shows "accepted v \<Longrightarrow> screen_line glz (rs_config rt) (miner_of s) l = Some (True, record_request (se_protocol_state s) (vr_method v), 0)"
    and "\<not> accepted v \<Longrightarrow> received_message (se_protocol_state s) \<Longrightarrow>
      (se_consecutive_protocol_errors s + 1) mod 2 ^ 32 \<le> kMaximumConsecutiveProtocolErrors \<Longrightarrow>
      screen_line glz (rs_config rt) (miner_of s) l = Some (False, se_protocol_state s, (se_consecutive_protocol_errors s + 1) mod 2 ^ 32)"
  using assms(1,2) unfolding v by (auto simp: screen_line_def Let_def)

lemma flow_protocol_error:
  assumes "flow c ssl rt X I F A w"
  shows "wp (protocol_error e) (\<lambda>_ w'. flow c ssl rt X I F A w' \<and> re_session w' = re_session w) w"
  by (rule wp_conj, rule keepsD [OF calm_flow [OF calm_protocol_error] assms]) (simp add: protocol_error_def wp_simps)

text \<open>The first message, once accepted, starts the connection and leaves the lines alone.\<close>

lemma first_line:
  assumes d: "d_os d = observe os" and os: "client_os os c" and w: "flow c ssl rt X I F UNIV w" and step: "in_step (re_session w)"
    and first: "\<not> received_message (se_protocol_state (re_session w))"
  shows "wp (begin_upstream_connect d) (\<lambda>connected w'. flow c ssl rt X I F UNIV w' \<and> line_of (re_session w') = line_of (re_session w) \<and>
      miner_of (re_session w') = (record_request (se_protocol_state (re_session w)) v, 0) \<and> (connected \<longrightarrow> in_step (re_session w')))
    (w\<lparr>re_session := (re_session w)\<lparr>se_consecutive_protocol_errors := 0, se_protocol_state := record_request (se_protocol_state (re_session w)) v\<rparr>\<rparr>)"
    (is "wp _ _ ?w")
proof -
  have "se_stage (re_session w) \<noteq> Relay" using step first by (auto simp: in_step_def)
  then have "flow c ssl rt X I F (- {Relay}) ?w" using w by (auto simp: flow_def greeting_def Let_def)
  from leadsD [OF flow_begin [OF d os] this]
  have "wp (begin_upstream_connect d) (\<lambda>r. flow c ssl rt X I F (if r then {UpstreamConnect, Relay} else UNIV)) ?w" .
  moreover have "wp (begin_upstream_connect d) (\<lambda>_. viewed (client_view (re_session ?w))) ?w"
    by (rule keepsD [OF viewed_begin]) (simp add: viewed_def)
  ultimately show ?thesis
  proof (rule wp_mono [OF wp_conj], elim conjE, goal_cases)
    case (1 r w')
    then have "r \<Longrightarrow> se_stage (re_session w') \<in> {UpstreamConnect, Relay}" by (simp add: flow_def Let_def)
    with 1 show ?case by (auto simp: viewed_def client_view_def in_step_def intro: flow_any)
  qed
qed

lemma line_loop_screens:
  assumes d: "d_os d = observe os" and os: "client_os os c"
    and "flow c ssl rt X I F UNIV w" and "consumed \<le> length (line_of (re_session w))"
    and "newlines (drop consumed (line_of (re_session w))) \<le> n" and "in_step (re_session w)"
  shows "wp (line_loop d n consumed) (line_result (d_glaze d) c ssl rt X I (F @ take consumed (line_of (re_session w)))
    (miner_of (re_session w)) (drop consumed (line_of (re_session w)))) w"
  using assms(3-)
proof (induction n arbitrary: w consumed F)
  case 0
  then have n: "newline \<notin> set (drop consumed (line_of (re_session w)))" by (auto simp: filter_empty_conv)
  with 0 show ?case by (auto simp: wp_simps line_result_def)
next
  case (Suc n)
  let ?s = "re_session w"
  let ?rest = "drop consumed (line_of ?s)" and ?G = "F @ take consumed (line_of ?s)"
  let ?Q = "line_result (d_glaze d) c ssl rt X I ?G (miner_of ?s) ?rest"
  note rt = flow_runtime [OF Suc.prems(1)]
  show ?case
  proof (cases "str_find newline ?rest")
    case None
    then have "newline \<notin> set ?rest" by simp
    with None Suc.prems show ?thesis by (auto simp: wp_simps line_result_def simp del: str_find_None)
  next
    case (Some i)
    note i = newlines_after [OF Some]
    have size: "consumed + i + 1 \<le> length (line_of ?s)" using i(1) Suc.prems(2) by simp
    have more: "F @ take (consumed + i + 1) (line_of ?s) = ?G @ take (Suc i) ?rest"
      by (simp add: take_add [symmetric] add.assoc)
    let ?v = "validate_request (d_glaze d) (take i ?rest) (se_protocol_state ?s) (cfg_protocol (rs_config (se_runtime ?s)))"
    have len: "length (take i ?rest) = i" using i(1) by simp
    have accepted: "in_step (re_session w') \<Longrightarrow> wp (line_loop d n (consumed + i + 1)) ?Q w'" "wp (commit_consumed (consumed + i + 1)) (\<lambda>_. ?Q None) w'"
      if "\<not> max_line_bytes (se_limits ?s) < i" "\<not> \<not> accepted ?v" "flow c ssl rt X I F UNIV w'" "line_of (re_session w') = line_of ?s"
        "miner_of (re_session w') = (record_request (se_protocol_state ?s) (vr_method ?v), 0)" for w' :: "'a watched"
    proof -
      have m: "screen_line (d_glaze d) (rs_config rt) (miner_of ?s) (take i ?rest) = Some (True, record_request (se_protocol_state ?s) (vr_method ?v), 0)"
        using screen_line_session(1) [OF rt _ refl, of "take i ?rest" "d_glaze d"] that(1,2) len by simp
      have next_line: "?Q r w2" if "line_result (d_glaze d) c ssl rt X I (F @ take (consumed + i + 1) (line_of ?s))
        (record_request (se_protocol_state ?s) (vr_method ?v), 0) (drop (Suc i) ?rest) r w2" for r and w2 :: "'a watched"
        using that unfolding more by (intro line_result_step [OF Some m]) (simp only: if_True)
      have rest: "drop (consumed + i + 1) (line_of ?s) = drop (Suc i) ?rest" by (simp add: add.commute)
      note that' = that
      show "wp (line_loop d n (consumed + i + 1)) ?Q w'" if step: "in_step (re_session w')"
        by (rule wp_mono [OF Suc.IH [OF that'(3) _ _ step, of "consumed + i + 1", unfolded that'(4,5) rest] next_line])
          (use size i(2) Suc.prems(3) in simp_all)
      show "wp (commit_consumed (consumed + i + 1)) (\<lambda>_. ?Q None) w'"
        using that(4) size by (intro wp_mono [OF commit_and_stop [OF that(3)] next_line]) simp_all
    qed
    show ?thesis
      unfolding line_loop.simps wp_simps
      unfolding id_apply Some option.case Let_def
    proof ((intro ifI wp_mono [OF flow_protocol_error [OF Suc.prems(1)]]; (elim conjE)?), goal_cases)
      case 1
      then show ?case using Suc.prems(2) by (intro commit_and_stop) auto
    next
      case (2 _ w')
      have "wp (commit_consumed consumed) (\<lambda>committed w'. if \<not> False \<or> \<not> committed then ?Q None w'
          else wp (discard_line_bytes (i + 1)) (\<lambda>_. wp (line_loop d n 0) ?Q) w') w'"
        using skip_line [of c ssl rt X I F w' consumed i False "d_glaze d" "miner_of ?s" "line_loop d n 0"] 2 Suc.prems Some by simp
      then show ?case by simp
    next
      case (3 _ w')
      let ?e = "(se_consecutive_protocol_errors (re_session w') + 1) mod 2 ^ 32"
      let ?w = "w'\<lparr>re_session := (re_session w')\<lparr>se_consecutive_protocol_errors := ?e\<rparr>\<rparr>"
      have f: "flow c ssl rt X I F UNIV ?w" using 3(4) by (rule flow_lane) (simp add: lane_def)
      have m: "screen_line (d_glaze d) (rs_config rt) (miner_of ?s) (take i ?rest) = Some (False, se_protocol_state ?s, ?e)"
        if "?e \<le> kMaximumConsecutiveProtocolErrors"
        using screen_line_session(2) [OF rt _ refl, of "take i ?rest" "d_glaze d"] 3 that len by simp
      have lines: "line_of (re_session ?w) = line_of ?s" "miner_of (re_session ?w) = (se_protocol_state ?s, ?e)" using 3(5) by simp_all
      have skip: "wp (commit_consumed consumed) (\<lambda>committed w'. if \<not> (?e \<le> kMaximumConsecutiveProtocolErrors) \<or> \<not> committed then ?Q None w'
          else wp (discard_line_bytes (i + 1)) (\<lambda>_. wp (line_loop d n 0) ?Q) w') ?w"
      proof (rule skip_line [OF f, of consumed i "?e \<le> kMaximumConsecutiveProtocolErrors" "d_glaze d" "miner_of ?s" "line_loop d n 0", unfolded lines])
        show "in_step (re_session ?w)" using Suc.prems(4) 3(5) by (simp add: in_step_def)
        fix w2 :: "'a watched"
        assume "flow c ssl rt X I ?G UNIV w2" "line_of (re_session w2) = drop (Suc i) ?rest" "miner_of (re_session w2) = (se_protocol_state ?s, ?e)"
          "in_step (re_session w2)"
        with Suc.IH [of ?G w2 0] i(2) Suc.prems(3)
        show "wp (line_loop d n 0) (line_result (d_glaze d) c ssl rt X I ?G (se_protocol_state ?s, ?e) (drop (Suc i) ?rest)) w2" by simp
      qed (use Suc.prems(2) Some m in simp_all)
      show ?case using skip by simp
    next
      case 4
      note further = accepted [OF 4(1,2)]
      show ?case
        by (rule wp_mono [OF first_line [OF d os Suc.prems(1,4) 4(3), of "vr_method ?v"]], elim conjE, intro ifI; (rule further(2) | rule further(1)); simp)
    next
      case 6
      then show ?case
        by (intro accepted(1)) (use Suc.prems in \<open>auto simp: in_step_def lane_def intro: flow_lane\<close>)
    qed (simp_all)
  qed
qed

text \<open>The outcome of a handler: the session goes on, or it is to be closed.\<close>

definition outcome :: "'g glaze \<Rightarrow> fd \<Rightarrow> nat option \<Rightarrow> runtime_snapshot \<Rightarrow> bool \<Rightarrow> 'e watched \<Rightarrow> bool" where
  "outcome glz c ssl rt kept w \<longleftrightarrow> (if kept then relaying glz c ssl rt w else bounded glz c ssl rt w)"

lemma outcome_simps [simp]: "outcome glz c ssl rt True = relaying glz c ssl rt" "outcome glz c ssl rt False = bounded glz c ssl rt"
  by (simp_all add: outcome_def fun_eq_iff)

lemma relaying_outcome: "relaying glz c ssl rt w \<Longrightarrow> outcome glz c ssl rt kept w"
  by (simp add: outcome_def relaying_bounded)

lemma bounded_flow: "flow c ssl rt X I F A w \<Longrightarrow> prefix F (forwarded glz (rs_config rt) I) \<Longrightarrow> bounded glz c ssl rt w"
  unfolding bounded_def using flow_any by blast

lemma append_line_screens:
  assumes "flow c ssl rt X I F A w"
  shows "wp (append_line_bytes bytes) (\<lambda>appended w'. flow c ssl rt X I F A w' \<and> miner_of (re_session w') = miner_of (re_session w) \<and>
    se_stage (re_session w') = se_stage (re_session w) \<and> (appended \<longrightarrow> line_of (re_session w') = line_of (re_session w) @ bytes)) w"
proof (rule wp_conj [OF keepsD [OF calm_flow [OF calm_append_line] assms]])
  show "wp (append_line_bytes bytes) (\<lambda>appended w'. miner_of (re_session w') = miner_of (re_session w) \<and>
    se_stage (re_session w') = se_stage (re_session w) \<and> (appended \<longrightarrow> line_of (re_session w') = line_of (re_session w) @ bytes)) w"
    by (auto simp: append_line_bytes_def reserve_queued_bytes_def wp_simps str_append_def split: prod.splits)
qed

lemma process_screens:
  assumes d: "d_os d = observe os" and os: "client_os os c" and w: "flow c ssl rt [] (I @ bytes) F UNIV w"
    and sc: "screened (d_glaze d) (rs_config rt) I F (line_of (re_session w)) (miner_of (re_session w))" and step: "in_step (re_session w)"
  shows "wp (process_client_bytes d bytes) (outcome (d_glaze d) c ssl rt) w"
proof -
  let ?glz = "d_glaze d"
  obtain ls u where split: "split_lines (line_of (re_session w) @ bytes) = (ls, u)" by (cases "split_lines (line_of (re_session w) @ bytes)")
  note all = screened_append [OF sc split]
  have fwd: "prefix F (forwarded ?glz (rs_config rt) (I @ bytes))" using all(2) by simp
  have stop: "bounded ?glz c ssl rt w'" if "flow c ssl rt [] (I @ bytes) F' A w'" "prefix F' (F @ fst (screen ?glz (rs_config rt) (miner_of (re_session w)) ls))"
    for F' A and w' :: "'a watched"
    using that(1) by (rule bounded_flow) (use that(2) all(2) in simp)
  have fin: "wp (commit_consumed k) (\<lambda>committed w.
      if \<not> committed then outcome ?glz c ssl rt False w
      else if max_line_bytes (se_limits (re_session w)) < length (line_of (re_session w)) \<or>
        max_buffer_bytes (se_limits (re_session w)) < pb_size (se_to_upstream (re_session w))
      then wp (protocol_error InvalidShape) (\<lambda>_. outcome ?glz c ssl rt False) w else outcome ?glz c ssl rt True w) w'"
    if r: "line_result ?glz c ssl rt [] (I @ bytes) F (miner_of (re_session w)) (line_of (re_session w) @ bytes) (Some k) w'" for k and w' :: "'a watched"
  proof -
    from r split obtain F' g where f: "flow c ssl rt [] (I @ bytes) F' UNIV w'" and k: "k \<le> length (line_of (re_session w'))"
      and g: "screen ?glz (rs_config rt) (miner_of (re_session w)) ls = (g, Some (miner_of (re_session w')))"
      and eq: "F' @ take k (line_of (re_session w')) = F @ g" "drop k (line_of (re_session w')) = u" and st: "in_step (re_session w')"
      by (auto simp: line_result_def)
    have "prefix F' (F @ g)" using eq(1) by (metis prefixI)
    then have no: "bounded ?glz c ssl rt w2" if "flow c ssl rt [] (I @ bytes) F' UNIV w2" for w2 :: "'a watched" using stop [OF that] g by simp
    have yes: "relaying ?glz c ssl rt w2" if "flow c ssl rt [] (I @ bytes) (F' @ take k (line_of (re_session w'))) UNIV w2"
      "line_of (re_session w2) = u" "miner_of (re_session w2) = miner_of (re_session w')" "se_stage (re_session w2) = se_stage (re_session w')" for w2 :: "'a watched"
      using that all(1) [OF g] st eq(1) by (auto simp: relaying_def in_step_def)
    have late: "wp (protocol_error InvalidShape) (\<lambda>_. bounded ?glz c ssl rt) w2" if "relaying ?glz c ssl rt w2" for w2 :: "'a watched"
    proof -
      from relaying_bounded [OF that] obtain X J G where fl: "flow c ssl rt X J G UNIV w2" "prefix G (forwarded ?glz (rs_config rt) J)" by (auto simp: bounded_def)
      show ?thesis by (rule wp_mono [OF flow_protocol_error [OF fl(1)]]) (use fl(2) in \<open>auto simp: outcome_def intro: bounded_flow\<close>)
    qed
    show ?thesis
      by (rule wp_mono [OF flow_commit [OF f k]]) (auto simp: outcome_def eq(2) intro!: no yes late split: if_splits)
  qed
  have loop: "wp (line_loop d (length (line_of (re_session w'))) 0) (line_result ?glz c ssl rt [] (I @ bytes) F (miner_of (re_session w)) (line_of (re_session w) @ bytes)) w'"
    if "flow c ssl rt [] (I @ bytes) F UNIV w'" "miner_of (re_session w') = miner_of (re_session w)" "se_stage (re_session w') = se_stage (re_session w)"
      "line_of (re_session w') = line_of (re_session w) @ bytes" for w' :: "'a watched"
    using line_loop_screens [OF d os that(1), of 0 "length (line_of (re_session w'))"] that step by (simp add: in_step_def add_mono)
  show ?thesis
    unfolding process_client_bytes_def wp_simps id_apply
  proof (rule wp_mono [OF append_line_screens [OF w]], elim conjE, intro ifI, goal_cases)
    case (1 appended w')
    from stop [OF 1(1)] show ?case by (simp add: outcome_def)
  next
    case (2 appended w')
    show ?case
    proof (rule wp_mono [OF loop], goal_cases)
      case (5 r w2)
      show ?case
      proof (cases r)
        case None
        with 5 split obtain F' where "flow c ssl rt [] (I @ bytes) F' UNIV w2" "prefix F' (F @ fst (screen ?glz (rs_config rt) (miner_of (re_session w)) ls))"
          by (auto simp: line_result_def)
        from stop [OF this] None show ?thesis by (simp add: outcome_def)
      next
        case (Some k)
        with 5 fin [of k w2] show ?thesis by (simp only: option.case)
      qed
    qed (use 2 in simp_all)
  qed
qed

end
