(* ===== verification/Session_Stream.thy ===== *)
theory Session_Stream
  imports Relay_Stream Reactor_Run
begin

text \<open>
  The events of one session, in any order: every handler takes a session whose streams are exact to one whose streams are exact, or to
  one that is closed and whose backend got nothing but forwarded lines.
\<close>

section \<open>Sessions that have just read\<close>

text \<open>\<open>bytes\<close> were read from the miner and have not been screened, \<open>X\<close> from the backend and have not been queued.\<close>

definition reading :: "'g glaze \<Rightarrow> fd \<Rightarrow> nat option \<Rightarrow> runtime_snapshot \<Rightarrow> string \<Rightarrow> string \<Rightarrow> 'e watched \<Rightarrow> bool" where
  "reading glz c ssl rt X bytes w \<longleftrightarrow>
     (\<exists>I F. flow c ssl rt X (I @ bytes) F UNIV w \<and>
        screened glz (rs_config rt) I F (line_of (re_session w)) (miner_of (re_session w)) \<and> in_step (re_session w))"

lemma reading_Nil: "reading glz c ssl rt [] [] = relaying glz c ssl rt"
  by (simp add: reading_def relaying_def fun_eq_iff)

lemma reading_bounded: "reading glz c ssl rt X bytes w \<Longrightarrow> bounded glz c ssl rt w"
proof -
  assume "reading glz c ssl rt X bytes w"
  then obtain I F where f: "flow c ssl rt X (I @ bytes) F UNIV w" and "forwarded glz (rs_config rt) I = F"
    by (auto simp: reading_def dest: screened_forwarded)
  then have "prefix F (forwarded glz (rs_config rt) (I @ bytes))" using forwarded_mono by metis
  with f show ?thesis by (rule bounded_flow)
qed

text \<open>Actions that concern neither the streams nor the lines.\<close>

lemma quiet_reading:
  fixes m :: "('a watched, 'b) state"
  assumes "\<And>v. keeps (streamed v) m" and "\<And>v. keeps (viewed v) m"
  shows "keeps (reading glz c ssl rt X bytes) m"
proof (rule keepsI)
  fix w :: "'a watched" assume w: "reading glz c ssl rt X bytes w"
  have "wp m (\<lambda>_. streamed (stream_view w)) w" "wp m (\<lambda>_. viewed (client_view (re_session w))) w"
    by (rule keepsD [OF assms(1)], simp add: streamed_def, rule keepsD [OF assms(2)], simp add: viewed_def)
  then show "wp m (\<lambda>_. reading glz c ssl rt X bytes) w"
  proof (rule wp_mono [OF wp_conj], elim conjE, goal_cases)
    case (1 x w')
    then have v: "stream_view w' = stream_view w" and lines: "client_view (re_session w') = client_view (re_session w)"
      by (simp_all add: streamed_def viewed_def)
    have "se_stage (re_session w') = se_stage (re_session w)" using view_eqD(1) [OF v] by (simp add: lane_def)
    with w lines show ?case unfolding reading_def using flow_view [OF v] by (auto simp: client_view_def in_step_def)
  qed
qed

lemma quiet_relaying:
  fixes m :: "('a watched, 'b) state"
  assumes "\<And>v. keeps (streamed v) m" and "\<And>v. keeps (viewed v) m"
  shows "keeps (relaying glz c ssl rt) m"
  using quiet_reading [OF assms, of glz c ssl rt "[]" "[]"] by (simp add: reading_Nil)

lemma quiet_set: "(\<And>s. lane (f s) = lane s) \<Longrightarrow> (\<And>s. client_view (f s) = client_view s) \<Longrightarrow> keeps (reading glz c ssl rt X bytes) (se_set f)"
  by (intro quiet_reading calm_set viewed_set)

section \<open>Reading\<close>

lemma viewed_release [keeps_intros]: "keeps (viewed v) (release_bytes n)"
  unfolding release_bytes_def by (intro keeps_intros)

lemma viewed_protocol_error [keeps_intros]: "keeps (viewed v) (protocol_error e)"
  unfolding protocol_error_def by (intro keeps_intros)

lemma viewed_limiter [keeps_intros]: "keeps (viewed v) (modify (\<lambda>w. w\<lparr>re_limiter := l w\<rparr>))"
  by (simp add: keeps_def wp_simps viewed_def)

lemma viewed_traffic [keeps_intros]: "keeps (viewed v) (consume_client_traffic d bytes messages t)"
  unfolding consume_client_traffic_def by (intro keeps_intros)

lemma viewed_within [keeps_intros]: "keeps (viewed v) (within_traffic_limits d bytes messages so_far t)"
proof (rule keepsI)
  fix w :: "'a reactor" assume w: "viewed v w"
  have "client_view (snd (consume_session_traffic bytes messages t (re_session w))) = client_view (re_session w)"
    by (simp add: consume_session_traffic_def client_view_def Let_def)
  with w have "viewed v (w\<lparr>re_session := snd (consume_session_traffic bytes messages t (re_session w))\<rparr>)" by (simp add: viewed_def)
  with w show "wp (within_traffic_limits d bytes messages so_far t) (\<lambda>_. viewed v) w"
    by (auto simp: within_traffic_limits_def wp_simps Let_def split: prod.splits intro!: keepsD [OF viewed_traffic])
qed

lemma viewed_read_client [keeps_intros]: "keeps (viewed v) (read_client d n)"
  unfolding read_client_def by (intro keeps_intros viewed_set) (auto simp: client_view_def)

lemma read_client_no_data: "(status, bytes) \<in> set_state (read_client d n) \<Longrightarrow> status \<noteq> Data \<Longrightarrow> bytes = []"
proof -
  have p: "wp (read_client d n) (\<lambda>r _. fst r \<noteq> Data \<longrightarrow> snd r = []) w" for w :: "'a reactor"
    by (auto simp: read_client_def wp_simps intro!: wp_any split: option.splits sum.splits)
  show "(status, bytes) \<in> set_state (read_client d n) \<Longrightarrow> status \<noteq> Data \<Longrightarrow> bytes = []"
    unfolding set_state_iff using wp_run [OF p] by fastforce
qed

lemma read_client_reads:
  assumes d: "d_os d = observe os"
  shows "leads (relaying glz c ssl rt) (read_client d n) (\<lambda>(status, bytes). reading glz c ssl rt [] bytes)"
proof (rule leadsI)
  fix w :: "'a watched" assume "relaying glz c ssl rt w"
  then obtain I F where w: "flow c ssl rt [] I F {se_stage (re_session w)} w"
    and sc: "screened glz (rs_config rt) I F (line_of (re_session w)) (miner_of (re_session w))" and st: "in_step (re_session w)"
    by (auto simp: relaying_def flow_def Let_def)
  have "wp (read_client d n) (\<lambda>_. viewed (client_view (re_session w))) w" by (rule keepsD [OF viewed_read_client]) (simp add: viewed_def)
  from leadsD [OF flow_read_client [OF d, of c ssl rt "[]" I F _ n] w] this
  show "wp (read_client d n) (\<lambda>(status, bytes). reading glz c ssl rt [] bytes) w"
  proof (rule wp_mono [OF wp_conj], elim conjE, goal_cases)
    case (1 x w')
    obtain status bytes where x: "x = (status, bytes)" by (cases x)
    with 1 have f: "flow c ssl rt [] (I @ bytes) F {se_stage (re_session w)} w'" by simp
    then have "se_stage (re_session w') = se_stage (re_session w)" by (simp add: flow_def Let_def)
    with 1(4) sc st have "screened glz (rs_config rt) I F (line_of (re_session w')) (miner_of (re_session w'))" "in_step (re_session w')"
      by (simp_all add: viewed_def client_view_def in_step_def)
    with flow_any [OF f] show ?case unfolding x case_prod_conv reading_def by blast
  qed
qed

lemma leads_bind_set:
  assumes "leads I m R" and "\<And>x. x \<in> set_state m \<Longrightarrow> leads (R x) (f x) Q"
  shows "leads I (State_Monad.bind m f) Q"
proof (rule leadsI)
  fix w assume w: "I w"
  obtain x w' where r: "run_state m w = (x, w')" by (metis surj_pair)
  then have "x \<in> set_state m" by (auto simp: set_state_iff)
  then have "wp (f x) Q w'" by (rule leadsD [OF assms(2)]) (use wp_run [OF leadsD [OF assms(1) w] r] in simp)
  with r show "wp (State_Monad.bind m f) Q w" by (simp add: wp_def)
qed

lemma process_reads:
  assumes "d_os d = observe os" and "client_os os c"
  shows "leads (reading (d_glaze d) c ssl rt [] bytes) (process_client_bytes d bytes) (outcome (d_glaze d) c ssl rt)"
  by (rule leadsI) (auto simp: reading_def intro: process_screens [OF assms])

lemma read_loop_streams:
  assumes d: "d_os d = observe os" and os: "client_os os c"
  shows "leads (relaying (d_glaze d) c ssl rt) (read_loop d so_far messages) (\<lambda>(kept, _). outcome (d_glaze d) c ssl rt kept)"
proof (induction "kMaximumBytesPerReadyEvent - so_far" arbitrary: so_far messages rule: less_induct)
  case less
  let ?R = "reading (d_glaze d) c ssl rt []" and ?Q = "\<lambda>(kept, _). outcome (d_glaze d) c ssl rt kept"
  have again: "leads (relaying (d_glaze d) c ssl rt) (read_loop d (so_far + length more) m) ?Q"
    if "more \<noteq> []" "\<not> kMaximumBytesPerReadyEvent \<le> so_far + length more" for more m
    using that by (intro less) (auto intro!: diff_less_mono2)
  have on: "leads (?R bytes) (State_Monad.return (True, b)) ?Q" if "bytes = []" for bytes b
    by (rule leads_return) (simp add: that reading_Nil relaying_outcome)
  have off: "leads (?R bytes) (State_Monad.return (False, b)) ?Q" for bytes b
    by (rule leads_return) (simp add: outcome_def reading_bounded)
  have processed: "leads (?R bytes) (State_Monad.bind (process_client_bytes d bytes) (\<lambda>processed.
      if \<not> processed then State_Monad.return (False, False)
      else State_Monad.bind (se_get (\<lambda>s. queue_pause_bytes (se_limits s) < pb_size (se_to_upstream s))) (\<lambda>high.
        if high then State_Monad.return (True, False)
        else if kMaximumBytesPerReadyEvent \<le> so_far + length bytes then State_Monad.return (True, True)
        else read_loop d (so_far + length bytes) (messages + length (filter (\<lambda>c. c = newline) bytes))))) ?Q" if "bytes \<noteq> []" for bytes
    by (rule leads_bind [OF process_reads [OF d os]])
      (auto intro!: leads_intros leads_bind_keeps leads_return again [OF that] keeps_intros)
  show ?case
    by (subst read_loop.simps, rule leads_bind_set [OF read_client_reads [OF d]], clarsimp split del: if_split)
      (intro leads_intros on off processed leads_bind_keeps quiet_reading keeps_intros calm_set viewed_set calm_now [OF d];
       auto simp: lane_def client_view_def dest: read_client_nonempty read_client_no_data)
qed

section \<open>Writing\<close>

lemma viewed_write_client [keeps_intros]: "keeps (viewed v) (write_client d)"
  unfolding write_client_def Let_def by (intro keeps_intros viewed_set) (auto simp: client_view_def)

lemma viewed_write_upstream [keeps_intros]: "keeps (viewed v) (write_upstream d)"
  unfolding write_upstream_def by (intro keeps_intros viewed_set) (simp add: client_view_def)

lemma viewed_after_write [keeps_intros]: "keeps (viewed v) (after_write d r)"
  unfolding after_write_def by (intro keeps_intros viewed_set) (simp add: client_view_def)

lemma viewed_flush_client [keeps_intros]: "keeps (viewed v) (flush_client d)"
  unfolding flush_client_def by (intro keeps_intros)

lemma viewed_push_upstream [keeps_intros]: "keeps (viewed v) (push_upstream d)"
  unfolding push_upstream_def by (intro keeps_intros)

lemma viewed_flush_loop [keeps_intros]: "keeps (viewed v) (flush_loop d n)"
  by (induction n) (simp_all, (intro keeps_intros | assumption)+)

lemma viewed_flush_queue [keeps_intros]: "keeps (viewed v) (flush_upstream_queue d)"
  unfolding flush_upstream_queue_def by (intro keeps_intros)

lemma viewed_refresh [keeps_intros]: "keeps (viewed v) (refresh_read_pause d)"
  unfolding refresh_read_pause_def Let_def by (intro keeps_intros viewed_set) (simp_all add: client_view_def)

lemma viewed_interests [keeps_intros]: "keeps (viewed v) (update_interests d)"
  unfolding update_interests_def by (intro keeps_intros viewed_set) (simp_all add: client_view_def)

text \<open>A session that is not connecting: the connection stands, or nothing was forwarded yet.\<close>

definition settled :: "'g glaze \<Rightarrow> fd \<Rightarrow> nat option \<Rightarrow> runtime_snapshot \<Rightarrow> 'e watched \<Rightarrow> bool" where
  "settled glz c ssl rt w \<longleftrightarrow> relaying glz c ssl rt w \<and> se_stage (re_session w) \<noteq> UpstreamConnect"

lemma settled_relaying: "settled glz c ssl rt w \<Longrightarrow> relaying glz c ssl rt w"
  by (simp add: settled_def)

lemma relayingE:
  assumes "relaying glz c ssl rt w"
  obtains I F where "flow c ssl rt [] I F {se_stage (re_session w)} w"
    "screened glz (rs_config rt) I F (line_of (re_session w)) (miner_of (re_session w))" "in_step (re_session w)"
    "se_stage (re_session w) \<noteq> UpstreamConnect \<Longrightarrow> may_push F {se_stage (re_session w)}"
proof -
  from assms obtain I F where f: "flow c ssl rt [] I F {se_stage (re_session w)} w"
    and sc: "screened glz (rs_config rt) I F (line_of (re_session w)) (miner_of (re_session w))" and st: "in_step (re_session w)"
    by (auto simp: relaying_def flow_def Let_def)
  have "F = []" if "\<not> received_message (se_protocol_state (re_session w))"
    using sc that by (auto simp: screened_def newcomer_def initial_state_def dest!: screen_silent)
  with st have "may_push F {se_stage (re_session w)}" if "se_stage (re_session w) \<noteq> UpstreamConnect"
    using that by (cases "se_stage (re_session w)") (auto simp: may_push_def in_step_def)
  with f sc st that show ?thesis by blast
qed

text \<open>A new state in which the lines are the same and the streams are still exact.\<close>

lemma relaying_again:
  assumes "flow c ssl rt [] I F A w'" and "screened glz (rs_config rt) I F (line_of (re_session w)) (miner_of (re_session w))"
    and "viewed (client_view (re_session w)) w'" and "in_step (re_session w)" and "se_stage (re_session w') = se_stage (re_session w) \<or>
      se_stage (re_session w') \<in> {UpstreamConnect, Relay} \<and> se_stage (re_session w) \<in> {UpstreamConnect, Relay}"
  shows "relaying glz c ssl rt w'"
  using assms(2-) flow_any [OF assms(1)] unfolding relaying_def
  by (intro exI [of _ I] exI [of _ F]) (auto simp: viewed_def client_view_def in_step_def)

lemma keeps_settled:
  fixes m :: "('a watched, 'b) state"
  assumes "\<And>I F A. may_push F A \<Longrightarrow> keeps (flow c ssl rt [] I F A) m" and "\<And>v. keeps (viewed v) m"
  shows "keeps (settled glz c ssl rt) m"
proof (rule keepsI)
  fix w :: "'a watched" assume w: "settled glz c ssl rt w"
  then obtain I F where f: "flow c ssl rt [] I F {se_stage (re_session w)} w"
    and sc: "screened glz (rs_config rt) I F (line_of (re_session w)) (miner_of (re_session w))" and st: "in_step (re_session w)"
    and p: "may_push F {se_stage (re_session w)}" by (auto simp: settled_def elim: relayingE)
  have "wp m (\<lambda>_. viewed (client_view (re_session w))) w" by (rule keepsD [OF assms(2)]) (simp add: viewed_def)
  from keepsD [OF assms(1) [OF p] f] this show "wp m (\<lambda>_. settled glz c ssl rt) w"
  proof (rule wp_mono [OF wp_conj], elim conjE, goal_cases)
    case (1 x w')
    then have "se_stage (re_session w') = se_stage (re_session w)" by (simp add: flow_def Let_def)
    with relaying_again [OF 1(3) sc 1(4) st] w show ?case by (simp add: settled_def)
  qed
qed

lemma settled_writes:
  assumes d: "d_os d = observe os" and os: "client_os os c"
  shows "keeps (settled glz c ssl rt) (flush_client d)" "keeps (settled glz c ssl rt) (push_upstream d)"
    "keeps (settled glz c ssl rt) (flush_upstream_queue d)" "keeps (settled glz c ssl rt) (discard_upstream d)"
  by (rule keeps_settled, rule flow_flush_client [OF d os], rule viewed_flush_client)
    (rule keeps_settled, erule flow_push_upstream [OF d os], rule viewed_push_upstream,
     rule keeps_settled, erule flow_flush_queue [OF d os], rule viewed_flush_queue,
     rule keeps_settled, rule flow_discard [OF d client_osD(2) [OF os]], rule viewed_discard_upstream)

lemma keeps_relaying_at:
  fixes m :: "('a watched, 'b) state"
  assumes "\<And>I F A. keeps (flow c ssl rt [] I F A) m" and "\<And>v. keeps (viewed v) m"
  shows "keeps (\<lambda>w. relaying glz c ssl rt w \<and> se_stage (re_session w) = x) m"
proof (rule keepsI)
  fix w :: "'a watched" assume w: "relaying glz c ssl rt w \<and> se_stage (re_session w) = x"
  then obtain I F where f: "flow c ssl rt [] I F {x} w"
    and sc: "screened glz (rs_config rt) I F (line_of (re_session w)) (miner_of (re_session w))" and st: "in_step (re_session w)"
    by (auto elim!: relayingE)
  have "wp m (\<lambda>_. viewed (client_view (re_session w))) w" by (rule keepsD [OF assms(2)]) (simp add: viewed_def)
  from keepsD [OF assms(1) f] this show "wp m (\<lambda>_ w. relaying glz c ssl rt w \<and> se_stage (re_session w) = x) w"
  proof (rule wp_mono [OF wp_conj], elim conjE, goal_cases)
    case (1 y w')
    then have "se_stage (re_session w') = x" by (simp add: flow_def Let_def)
    with relaying_again [OF 1(3) sc 1(4) st] w show ?case by simp
  qed
qed

lemma keeps_relaying:
  fixes m :: "('a watched, 'b) state"
  assumes "\<And>I F A. keeps (flow c ssl rt [] I F A) m" and "\<And>v. keeps (viewed v) m"
  shows "keeps (relaying glz c ssl rt) m"
  by (rule keepsI, rule wp_mono [OF keepsD [OF keeps_relaying_at [OF assms]]]) auto

section \<open>Events of the miner\<close>

lemma leads_outcome: "leads (relaying glz c ssl rt) (State_Monad.return kept) (outcome glz c ssl rt)"
  by (rule leads_return) (rule relaying_outcome)

lemma leads_outcome_get: "leads (relaying glz c ssl rt) (se_get f) (outcome glz c ssl rt)"
  by (rule leadsI) (simp add: wp_simps relaying_outcome)

lemma client_relay_streams:
  assumes d: "d_os d = observe os" and os: "client_os os c"
  shows "leads (relaying glz c ssl rt) (client_relay d events budget) (outcome glz c ssl rt)"
proof -
  have flush: "keeps (relaying glz c ssl rt) (flush_client d)" by (rule keeps_relaying [OF flow_flush_client [OF d os] viewed_flush_client])
  have pushed: "leads (\<lambda>w. relaying glz c ssl rt w \<and> (se_stage (re_session w) = Relay \<and> \<not> pb_empty (se_to_upstream (re_session w))) = b)
      (if b then push_upstream d else State_Monad.return True) (\<lambda>_. relaying glz c ssl rt)" for b
  proof (rule leads_if)
    assume b
    show "leads (\<lambda>w. relaying glz c ssl rt w \<and> (se_stage (re_session w) = Relay \<and> \<not> pb_empty (se_to_upstream (re_session w))) = b)
      (push_upstream d) (\<lambda>_. relaying glz c ssl rt)"
    proof (rule leadsI)
      fix w :: "'a watched"
      assume "relaying glz c ssl rt w \<and> (se_stage (re_session w) = Relay \<and> \<not> pb_empty (se_to_upstream (re_session w))) = b"
      with \<open>b\<close> have "settled glz c ssl rt w" by (simp add: settled_def)
      from keepsD [OF settled_writes(2) [OF d os] this] show "wp (push_upstream d) (\<lambda>_. relaying glz c ssl rt) w"
        by (rule wp_mono) (rule settled_relaying)
    qed
  qed (rule leads_return, simp)
  show ?thesis
    unfolding client_relay_def
    by (rule leads_se_get, rule leads_bind [OF pushed])
      (intro leads_intros leads_outcome leads_outcome_get leads_bind_keeps keeps_intros flush)
qed

text \<open>The handshake only opens the way for the first message.\<close>

lemma handshake_streams:
  assumes d: "d_os d = observe os"
  shows "leads (\<lambda>w. relaying glz c ssl rt w \<and> se_stage (re_session w) = TlsHandshake) (drive_tls_handshake d) (outcome glz c ssl rt)"
proof -
  let ?R = "\<lambda>w. relaying glz c ssl rt w \<and> se_stage (re_session w) = TlsHandshake"
  have stage: "leads (?R :: 'a watched \<Rightarrow> bool) (se_set (\<lambda>s. s\<lparr>se_stage := FirstMessage, se_tls_operation := NoTlsOperation, se_deadline := f s\<rparr>))
      (\<lambda>_. relaying glz c ssl rt)" for f
  proof (rule leadsI)
    fix w :: "'a watched" assume w: "?R w"
    then obtain I F where "flow c ssl rt [] I F {TlsHandshake} w"
      and sc: "screened glz (rs_config rt) I F (line_of (re_session w)) (miner_of (re_session w))" "in_step (re_session w)" by (auto elim!: relayingE)
    then have "flow c ssl rt [] I F UNIV (w\<lparr>re_session := (re_session w)\<lparr>se_stage := FirstMessage, se_tls_operation := NoTlsOperation, se_deadline := t\<rparr>\<rparr>)" for t
      by (auto simp: flow_def greeting_def Let_def)
    with w sc show "wp (se_set (\<lambda>s. s\<lparr>se_stage := FirstMessage, se_tls_operation := NoTlsOperation, se_deadline := f s\<rparr>)) (\<lambda>_. relaying glz c ssl rt) w"
      unfolding wp_simps relaying_def by (intro exI [of _ I] exI [of _ F]) (auto simp: in_step_def)
  qed
  have keep: "keeps (?R :: 'a watched \<Rightarrow> bool) m" if "\<And>v. keeps (streamed v) m" "\<And>v. keeps (viewed v) m" for m :: "('a watched, 'x) state"
  proof (rule keepsI)
    fix w :: "'a watched" assume w: "?R w"
    have "wp m (\<lambda>_. streamed (stream_view w)) w" by (rule keepsD [OF that(1)]) (simp add: streamed_def)
    moreover have "wp m (\<lambda>_. relaying glz c ssl rt) w" using w by (intro keepsD [OF quiet_relaying [OF that]]) simp
    ultimately show "wp m (\<lambda>_. ?R) w"
    proof (rule wp_mono [OF wp_conj], elim conjE, goal_cases)
      case (1 x w')
      then have "lane (re_session w') = lane (re_session w)" by (intro view_eqD(1)) (simp add: streamed_def)
      with 1 w show ?case by (simp add: lane_def)
    qed
  qed
  have over: "leads ?R (State_Monad.return b) (outcome glz c ssl rt)" for b by (rule leads_return) (simp add: relaying_outcome)
  show ?thesis
    unfolding drive_tls_handshake_def d
    by (intro leads_bind [OF stage] leads_intros over leads_outcome leads_bind_keeps keep quiet_relaying keeps_intros calm_set viewed_set calm_now [OF d])
      (simp_all add: lane_def client_view_def keeps_intros)
qed

lemma client_ready_streams:
  assumes d: "d_os d = observe os" and os: "client_os os c"
  shows "leads (relaying (d_glaze d) c ssl rt) (client_ready d events) (outcome (d_glaze d) c ssl rt)"
proof -
  let ?R = "relaying (d_glaze d) c ssl rt"
  have flush: "keeps ?R (flush_client d)" by (rule keeps_relaying [OF flow_flush_client [OF d os] viewed_flush_client])
  have read: "leads ?R (if b then read_from_client d else State_Monad.return (True, False)) (\<lambda>(kept, _). outcome (d_glaze d) c ssl rt kept)" for b
    unfolding read_from_client_def by (intro leads_intros read_loop_streams [OF d os] leads_return) (simp add: relaying_outcome)
  have rest: "leads ?R (if se_tls_operation s = TlsOpWrite
      then if \<not> io_direction_ready (se_tls_direction s) events then State_Monad.return b
           else State_Monad.bind (flush_client d) (\<lambda>flushed. if \<not> flushed then State_Monad.return False
             else se_get (\<lambda>s. \<not> (se_upstream_read_closed s \<and> pb_empty (se_to_client s)) \<and> b))
      else if se_tls_operation s = TlsOpRead \<and> \<not> io_direction_ready (se_tls_direction s) events then State_Monad.return b
      else State_Monad.bind (if r then read_from_client d else State_Monad.return (True, False)) (\<lambda>(kept, budget).
        if \<not> kept then State_Monad.return False else client_relay d events budget)) (outcome (d_glaze d) c ssl rt)" for s b r
    by (intro leads_intros leads_outcome leads_outcome_get leads_bind_keeps [OF flush] leads_bind [OF read])
      (auto intro!: leads_return client_relay_streams [OF d os])
  show ?thesis
  proof (rule leadsI)
    fix w :: "'a watched" assume w: "?R w"
    show "wp (client_ready d events) (outcome (d_glaze d) c ssl rt) w"
    proof (cases "se_stage (re_session w) = TlsHandshake")
      case True
      with w leadsD [OF handshake_streams [OF d], of "d_glaze d" c ssl rt] show ?thesis by (simp add: client_ready_def wp_simps)
    next
      case False
      show ?thesis
        unfolding client_ready_def wp_bind wp_se_get id_apply Let_def if_not_P [OF False] by (rule leadsD [OF rest w])
    qed
  qed
qed

section \<open>Events of the backend\<close>

lemma received_streams:
  assumes d: "d_os d = observe os"
  shows "leads (\<lambda>w. relaying glz c ssl rt w \<and> se_upstream (re_session w) = u) (os_do (os_recv (d_os d) u n))
    (\<lambda>r. reading glz c ssl rt (case r of Inl _ \<Rightarrow> [] | Inr bytes \<Rightarrow> bytes) [])"
proof (rule leadsI)
  fix w :: "'a watched" assume w: "relaying glz c ssl rt w \<and> se_upstream (re_session w) = u"
  then obtain I F where f: "flow c ssl rt [] I F UNIV w"
    and sc: "screened glz (rs_config rt) I F (line_of (re_session w)) (miner_of (re_session w))" "in_step (re_session w)" by (auto simp: relaying_def)
  have u: "u \<noteq> c" using w f by (auto simp: flow_def Let_def)
  have got: "flow c ssl rt (case r of Inl _ \<Rightarrow> [] | Inr bytes \<Rightarrow> bytes) I F UNIV (w\<lparr>re_env := (e, snd (re_env w) @ succeeded (Received u) r)\<rparr>)" for r e
    using f u by (auto simp: flow_def greeting_def Let_def succeeded_def split: sum.splits)
  show "wp (os_do (os_recv (d_os d) u n)) (\<lambda>r. reading glz c ssl rt (case r of Inl _ \<Rightarrow> [] | Inr bytes \<Rightarrow> bytes) []) w"
    unfolding d wp_simps observe_simps wp_noting reading_def 
    by (rule wp_any, rule exI [of _ I], rule exI [of _ F]) (use sc got in simp)
qed

lemma queued_streams:
  "leads (reading glz c ssl rt X []) (append_queued se_to_client_update X) (outcome glz c ssl rt)"
proof -
  have queue: "leads (reading glz c ssl rt X [] :: 'a watched \<Rightarrow> bool) (se_set (se_to_client_update (\<lambda>b. pb_append b X))) (\<lambda>_. relaying glz c ssl rt)"
  proof (rule leadsI)
    fix w :: "'a watched" assume "reading glz c ssl rt X [] w"
    then obtain I F where f: "flow c ssl rt X I F UNIV w"
      and sc: "screened glz (rs_config rt) I F (line_of (re_session w)) (miner_of (re_session w))" "in_step (re_session w)" by (auto simp: reading_def)
    have "flow c ssl rt [] I F UNIV (w\<lparr>re_session := se_to_client_update (\<lambda>b. pb_append b X) (re_session w)\<rparr>)"
      using f by (auto simp: flow_def greeting_def Let_def pending.bytes_append pending.inv_append)
    with sc show "wp (se_set (se_to_client_update (\<lambda>b. pb_append b X))) (\<lambda>_. relaying glz c ssl rt) w"
      unfolding wp_simps relaying_def by (intro exI [of _ I] exI [of _ F]) (simp add: in_step_def)
  qed
  show ?thesis
    unfolding append_queued_def
    by (intro leads_bind_keeps quiet_reading keeps_intros leads_intros leads_bind [OF queue] leads_outcome leads_return) (simp add: reading_bounded)
qed

lemma upstream_loop_streams:
  assumes d: "d_os d = observe os"
  shows "leads (relaying glz c ssl rt) (upstream_loop d so_far) (\<lambda>r. outcome glz c ssl rt (r \<noteq> None))"
proof (induction "kMaximumBytesPerReadyEvent - so_far" arbitrary: so_far rule: less_induct)
  case less
  let ?Q = "\<lambda>r. outcome glz c ssl rt (r \<noteq> None) :: 'a watched \<Rightarrow> bool"
  have again: "leads (relaying glz c ssl rt) (upstream_loop d (so_far + length more)) ?Q"
    if "more \<noteq> []" "\<not> (queue \<or> kMaximumBytesPerReadyEvent \<le> so_far + length more)" for more queue
    using that by (intro less) (auto intro!: diff_less_mono2)
  have stop: "leads (relaying glz c ssl rt) (State_Monad.return r) ?Q" for r :: "nat option" by (rule leads_return) (rule relaying_outcome)
  have closed: "keeps (relaying glz c ssl rt) (se_set (se_upstream_read_closed_update (\<lambda>_. True)))"
    by (intro quiet_relaying calm_set viewed_set) (simp_all add: lane_def client_view_def)
  have more: "leads (reading glz c ssl rt bytes []) (State_Monad.bind (worker_do f) (\<lambda>_. State_Monad.bind (append_queued se_to_client_update bytes) (\<lambda>queued.
      if \<not> queued then State_Monad.return None
      else State_Monad.bind (se_get id) (\<lambda>s. if max_buffer_bytes (se_limits s) < pb_size (se_to_client s) then State_Monad.return None
        else if queue_pause_bytes (se_limits s) < pb_size (se_to_client s) \<or> kMaximumBytesPerReadyEvent \<le> so_far + length bytes
        then State_Monad.return (Some (so_far + length bytes)) else upstream_loop d (so_far + length bytes))))) ?Q"
    if "bytes \<noteq> []" for bytes f
    by (rule leads_bind_keeps [OF quiet_reading], intro keeps_intros, intro keeps_intros, rule leads_bind [OF queued_streams],
        intro leads_intros leads_bind_keeps keeps_intros)
      (auto intro!: leads_return again [OF that, of False] relaying_bounded simp del: not_None_eq)
  show ?case
  proof (subst upstream_loop.simps, rule leads_se_get, rule leads_bind [OF received_streams [OF d]], intro leads_intros, goal_cases)
    case (1 u r error)
    then show ?case using stop by (simp add: reading_Nil)
  next
    case (2 u r bytes)
    then show ?case by (simp add: reading_Nil del: not_None_eq) (rule leads_bind_keeps [OF closed stop])
  next
    case (3 u r bytes)
    then show ?case using more by (simp del: not_None_eq)
  qed
qed

text \<open>The handler of a backend whose connection stands, or of a session that has none.\<close>

lemma settled_quiet:
  fixes m :: "('a watched, 'b) state"
  assumes "\<And>v. keeps (streamed v) m" and "\<And>v. keeps (viewed v) m"
  shows "keeps (settled glz c ssl rt) m"
  by (rule keeps_settled [OF calm_flow [OF assms(1)] assms(2)])

lemma upstream_relay_streams:
  assumes d: "d_os d = observe os" and os: "client_os os c"
  shows "leads (settled glz c ssl rt) (upstream_relay d events n) (outcome glz c ssl rt)"
proof -
  have stop: "leads (settled glz c ssl rt) (State_Monad.return kept) (outcome glz c ssl rt)" for kept
    by (rule leads_return) (simp add: settled_def relaying_outcome)
  have get: "leads (settled glz c ssl rt) (se_get f) (outcome glz c ssl rt)" for f
    by (rule leadsI) (simp add: wp_simps settled_def relaying_outcome)
  show ?thesis
    unfolding upstream_relay_def
    by (intro leads_bind_keeps leads_intros stop get keeps_intros settled_writes [OF d os] settled_quiet calm_set viewed_set)
      (simp_all add: lane_def client_view_def)
qed

text \<open>Reading from the backend does not change the stage.\<close>

definition staged :: "session_stage \<Rightarrow> 'e reactor \<Rightarrow> bool" where
  "staged x w \<longleftrightarrow> se_stage (re_session w) = x"

lemma staged_acts [keeps_intros]:
  "keeps (staged x) (os_do m)" "keeps (staged x) (worker_do f)" "keeps (staged x) (stats_do g)"
  by (auto simp: keeps_def wp_simps staged_def intro: wp_any)

lemma staged_set: "(\<And>s. se_stage (f s) = se_stage s) \<Longrightarrow> keeps (staged x) (se_set f)"
  by (simp add: keeps_def wp_simps staged_def)

lemma staged_upstream_loop: "keeps (staged x) (upstream_loop d n)"
proof (induction "kMaximumBytesPerReadyEvent - n" arbitrary: n rule: less_induct)
  case less
  have again: "keeps (staged x) (upstream_loop d (n + length more))"
    if "more \<noteq> []" "\<not> (queue \<or> kMaximumBytesPerReadyEvent \<le> n + length more)" for more queue
    using that by (intro less) (auto intro!: diff_less_mono2)
  show ?case
    by (subst upstream_loop.simps, unfold append_queued_def reserve_queued_bytes_def)
      (intro keeps_intros staged_set again; simp)
qed

lemma upstream_traffic_streams:
  assumes d: "d_os d = observe os" and os: "client_os os c"
  shows "leads (settled glz c ssl rt) (upstream_traffic d events) (outcome glz c ssl rt)"
proof -
  let ?P = "\<lambda>r. if r = None then bounded glz c ssl rt else settled glz c ssl rt :: 'a watched \<Rightarrow> bool"
  have loop: "leads (settled glz c ssl rt) (upstream_loop d 0) ?P"
  proof (rule leadsI)
    fix w :: "'a watched" assume w: "settled glz c ssl rt w"
    have "wp (upstream_loop d 0) (\<lambda>_. staged (se_stage (re_session w))) w" by (rule keepsD [OF staged_upstream_loop]) (simp add: staged_def)
    from leadsD [OF upstream_loop_streams [OF d] settled_relaying [OF w]] this show "wp (upstream_loop d 0) ?P w"
      by (rule wp_mono [OF wp_conj]) (use w in \<open>auto simp: settled_def staged_def\<close>)
  qed
  have noted: "leads (?P r) (State_Monad.bind (do_if b (State_Monad.bind (now d) (\<lambda>t. se_set (se_last_activity_update (\<lambda>_. t))))) (\<lambda>_. State_Monad.return r)) ?P"
    if "r = None \<Longrightarrow> \<not> b" for r b
  proof (cases "r = None")
    case True
    with that show ?thesis by (auto simp: leads_def wp_simps)
  next
    case False
    show ?thesis unfolding if_not_P [OF False]
      by (intro leads_bind_keeps settled_quiet keeps_intros calm_now [OF d] calm_activity viewed_set leads_return; simp add: client_view_def False)
  qed
  have relay: "leads (?P r) (case r of None \<Rightarrow> State_Monad.return False | Some n \<Rightarrow> upstream_relay d events n) (outcome glz c ssl rt)" for r
    using upstream_relay_streams [OF d os, of glz ssl rt events] by (cases r) (auto intro: leads_return)
  show ?thesis
    unfolding upstream_traffic_def
    by (rule leads_bind_keeps, intro keeps_intros, rule leads_bind [OF _ relay], intro leads_intros leads_bind [OF loop] noted leads_return) auto
qed

lemma next_candidate_streams:
  assumes d: "d_os d = observe os" and os: "client_os os c" and w: "relaying glz c ssl rt w" and stage: "se_stage (re_session w) = UpstreamConnect"
  shows "wp (start_next_upstream_connect d) (outcome glz c ssl rt) w"
proof -
  from w stage obtain I F where f: "flow c ssl rt [] I F {UpstreamConnect} w"
    and sc: "screened glz (rs_config rt) I F (line_of (re_session w)) (miner_of (re_session w))" and st: "in_step (re_session w)"
    by (auto elim!: relayingE)
  have "wp (start_next_upstream_connect d) (\<lambda>_. viewed (client_view (re_session w))) w" by (rule keepsD [OF viewed_start_next]) (simp add: viewed_def)
  from leadsD [OF flow_start_next [OF d os] f] this show ?thesis
  proof (rule wp_mono [OF wp_conj], elim conjE, goal_cases)
    case (1 kept w')
    then have "se_stage (re_session w') \<in> {UpstreamConnect, Relay}" by (simp add: flow_def Let_def)
    with relaying_again [OF 1(3) sc 1(4) st] stage show ?case by (intro relaying_outcome) simp
  qed
qed

lemma finish_streams:
  assumes d: "d_os d = observe os" and w: "relaying glz c ssl rt w" and stage: "se_stage (re_session w) = UpstreamConnect"
  shows "wp (finish_upstream_connect d) (\<lambda>r w'. relaying glz c ssl rt w' \<and> se_stage (re_session w') = (if r then Relay else UpstreamConnect)) w"
proof -
  from w stage obtain I F where f: "flow c ssl rt [] I F {UpstreamConnect} w"
    and sc: "screened glz (rs_config rt) I F (line_of (re_session w)) (miner_of (re_session w))" and st: "in_step (re_session w)"
    by (auto elim!: relayingE)
  have "wp (finish_upstream_connect d) (\<lambda>_. viewed (client_view (re_session w))) w" by (rule keepsD [OF viewed_finish]) (simp add: viewed_def)
  moreover have "wp (finish_upstream_connect d) (\<lambda>r. flow c ssl rt [] I F (if r then {Relay} else {UpstreamConnect})) w"
    by (rule flow_finish [OF d f]) simp
  ultimately show ?thesis
  proof (rule wp_mono [OF wp_conj], elim conjE, goal_cases)
    case (1 kept w')
    then have "se_stage (re_session w') = (if kept then Relay else UpstreamConnect)" by (simp add: flow_def Let_def split: if_splits)
    with relaying_again [OF 1(4) sc 1(3) st] stage show ?case by simp
  qed
qed

lemma upstream_ready_streams:
  assumes d: "d_os d = observe os" and os: "client_os os c"
  shows "leads (relaying glz c ssl rt) (upstream_ready d events) (outcome glz c ssl rt)"
proof (rule leadsI)
  fix w :: "'a watched" assume w: "relaying glz c ssl rt w"
  note traffic = leadsD [OF upstream_traffic_streams [OF d os], of glz ssl rt _ events]
  let ?U = "\<lambda>w. relaying glz c ssl rt w \<and> se_stage (re_session w) = UpstreamConnect"
  have keep: "keeps ?U m" if "\<And>v. keeps (streamed v) m" "\<And>v. keeps (viewed v) m" for m :: "('a watched, 'y) state"
    by (rule keeps_relaying_at [OF calm_flow [OF that(1)] that(2)])
  have discard: "keeps ?U (discard_upstream d)" by (rule keeps_relaying_at [OF flow_discard [OF d client_osD(2) [OF os]] viewed_discard_upstream])
  have again: "wp record_upstream_error (\<lambda>_. wp (discard_upstream d) (\<lambda>_. wp (now d) (\<lambda>t w.
      if t < se_upstream_overall_deadline (re_session w) then wp (start_next_upstream_connect d) (outcome glz c ssl rt) w else outcome glz c ssl rt False w))) w'"
    if "?U w'" for w' :: "'a watched"
    by (rule wp_keeps [OF keep [OF calm_record_upstream_error viewed_record_upstream_error] that], rule wp_keeps [OF discard], assumption,
        rule wp_keeps [OF keep [OF calm_now [OF d] viewed_acts(6)]], assumption, intro ifI next_candidate_streams [OF d os])
      (auto intro: relaying_bounded)
  show "wp (upstream_ready d events) (outcome glz c ssl rt) w"
  proof (cases "se_stage (re_session w) = UpstreamConnect")
    case True
    show ?thesis
      unfolding upstream_ready_def wp_simps if_P [OF True]
      by (rule wp_mono [OF finish_streams [OF d w True]], intro ifI traffic again) (auto simp: settled_def intro: relaying_bounded)
  next
    case False
    with w traffic [of w] show ?thesis by (simp add: upstream_ready_def wp_simps settled_def)
  qed
qed

section \<open>A session from its first event on\<close>

text \<open>The events of a session: its sockets are ready, or its deadline passed.\<close>

datatype session_input = ClientReady "32 word" | UpstreamReady "32 word" | TimedOut time_point

definition session_step :: "('e, 'g) deps \<Rightarrow> session_input \<Rightarrow> ('e, bool) handler" where
  "session_step d x =
     (case x of
        ClientReady events \<Rightarrow> do { kept \<leftarrow> client_ready d events; if kept then update_interests d else State_Monad.return False }
      | UpstreamReady events \<Rightarrow> do { kept \<leftarrow> upstream_ready d events; if kept then update_interests d else State_Monad.return False }
      | TimedOut t \<Rightarrow>
          do {
            stage \<leftarrow> se_get se_stage;
            if stage \<noteq> UpstreamConnect then State_Monad.return False
            else do {
              record_upstream_error;
              discard_upstream d;
              overall \<leftarrow> se_get se_upstream_overall_deadline;
              if overall \<le> t then State_Monad.return False else start_next_upstream_connect d
            }
          })"

text \<open>Events until the session is to be closed; closing sends what is still queued for a backend.\<close>

fun session_run :: "('e, 'g) deps \<Rightarrow> session_input list \<Rightarrow> ('e, bool) handler" where
  "session_run d [] = State_Monad.return True"
| "session_run d (x # xs) =
     do {
       kept \<leftarrow> session_step d x;
       if kept then session_run d xs
       else do {
         stage \<leftarrow> se_get se_stage;
         do_if (stage = Relay) (flush_upstream_queue d);
         State_Monad.return False
       }
     }"

text \<open>The event loop takes these steps.\<close>

lemma dispatch_event_steps:
  assumes "event_kind_of token \<noteq> ListenerEvent"
  shows "dispatch_event d token events =
    do {
      found \<leftarrow> find_session (unat (event_id token));
      case found of
        None \<Rightarrow> State_Monad.return (Inr ())
      | Some s \<Rightarrow>
          do {
            kept \<leftarrow> on_session (unat (event_id token)) s
              (session_step d (if event_kind_of token = ClientEvent then ClientReady events else UpstreamReady events));
            do_if (\<not> kept) (close_session d (unat (event_id token)));
            State_Monad.return (Inr ())
          }
    }"
  using assms by (simp add: dispatch_event_def session_step_def Let_def cong: option.case_cong)

lemma expire_session_steps:
  assumes "se_stage s = UpstreamConnect"
  shows "on_session ident s (session_step d (TimedOut t)) =
    on_session ident s
      (do {
         record_upstream_error;
         discard_upstream d;
         overall \<leftarrow> se_get se_upstream_overall_deadline;
         if overall \<le> t then State_Monad.return False else start_next_upstream_connect d
       })"
  using assms by (simp add: on_session_def session_step_def se_get_def se_set_def gets_def modify_def State_Monad.bind_def State_Monad.return_def fun_eq_iff)

lemma session_step_streams:
  assumes d: "d_os d = observe os" and os: "client_os os c"
  shows "leads (relaying (d_glaze d) c ssl rt) (session_step d x) (outcome (d_glaze d) c ssl rt)"
proof -
  let ?R = "relaying (d_glaze d) c ssl rt"
  have closed: "leads (bounded (d_glaze d) c ssl rt) (State_Monad.return False) (outcome (d_glaze d) c ssl rt)" by (rule leads_return) simp
  have interests: "leads (outcome (d_glaze d) c ssl rt kept) (if kept then update_interests d else State_Monad.return False) (outcome (d_glaze d) c ssl rt)" for kept
    using leads_keeps [OF quiet_relaying [OF calm_interests [OF d] viewed_interests], of "d_glaze d" c ssl rt "outcome (d_glaze d) c ssl rt"] closed
    by (cases kept) (auto simp: relaying_outcome)
  have timeout: "leads ?R (session_step d (TimedOut t)) (outcome (d_glaze d) c ssl rt)" for t
  proof (rule leadsI)
    fix w :: "'a watched" assume w: "?R w"
    let ?U = "\<lambda>w. ?R w \<and> se_stage (re_session w) = UpstreamConnect"
    have discard: "keeps ?U (discard_upstream d)" by (rule keeps_relaying_at [OF flow_discard [OF d client_osD(2) [OF os]] viewed_discard_upstream])
    have noted: "keeps ?U record_upstream_error" by (rule keeps_relaying_at [OF calm_flow [OF calm_record_upstream_error] viewed_record_upstream_error])
    have again: "wp record_upstream_error (\<lambda>_. wp (discard_upstream d) (\<lambda>_ w. if se_upstream_overall_deadline (re_session w) \<le> t
        then outcome (d_glaze d) c ssl rt False w else wp (start_next_upstream_connect d) (outcome (d_glaze d) c ssl rt) w)) w" if "?U w"
      by (rule wp_keeps [OF noted that], rule wp_keeps [OF discard], assumption, intro ifI next_candidate_streams [OF d os]) (auto intro: relaying_bounded)
    show "wp (session_step d (TimedOut t)) (outcome (d_glaze d) c ssl rt) w"
      using w again by (cases "se_stage (re_session w) = UpstreamConnect") (simp_all add: session_step_def wp_simps relaying_bounded cong: if_cong split del: if_split)
  qed
  show ?thesis
  proof (cases x)
    case (ClientReady events)
    then show ?thesis unfolding session_step_def by simp (rule leads_bind [OF client_ready_streams [OF d os] interests])
  next
    case (UpstreamReady events)
    then show ?thesis unfolding session_step_def by simp (rule leads_bind [OF upstream_ready_streams [OF d os] interests])
  next
    case (TimedOut t)
    then show ?thesis by (simp only: timeout)
  qed
qed

lemma closing_streams:
  assumes d: "d_os d = observe os" and os: "client_os os c" and w: "bounded glz c ssl rt w" and stage: "se_stage (re_session w) = Relay"
  shows "wp (flush_upstream_queue d) (\<lambda>_. bounded glz c ssl rt) w"
proof -
  from w stage obtain X I F where f: "flow c ssl rt X I F {Relay} w" "prefix F (forwarded glz (rs_config rt) I)"
    by (auto simp: bounded_def flow_def Let_def)
  have "may_push F {Relay}" by (simp add: may_push_def)
  from keepsD [OF flow_flush_queue [OF d os this] f(1)] show ?thesis by (rule wp_mono) (erule bounded_flow [OF _ f(2)])
qed

lemma session_run_streams:
  assumes d: "d_os d = observe os" and os: "client_os os c"
  shows "leads (relaying (d_glaze d) c ssl rt) (session_run d steps) (outcome (d_glaze d) c ssl rt)"
proof (induction steps)
  case Nil
  show ?case by (simp add: leads_outcome)
next
  case (Cons x xs)
  have close: "leads (bounded (d_glaze d) c ssl rt) (State_Monad.bind (se_get se_stage) (\<lambda>stage.
      State_Monad.bind (do_if (stage = Relay) (flush_upstream_queue d)) (\<lambda>_. State_Monad.return False))) (outcome (d_glaze d) c ssl rt)"
    by (rule leadsI) (auto simp: wp_simps intro: closing_streams [OF d os])
  show ?case
    unfolding session_run.simps
    by (rule leads_bind [OF session_step_streams [OF d os]]) (use Cons close in \<open>auto intro: leads_if\<close>)
qed

text \<open>A session that was just admitted.\<close>

definition untouched :: "session \<Rightarrow> bool" where
  "untouched s \<longleftrightarrow> se_upstream s = -1 \<and> se_to_upstream s = pb_new \<and> se_to_client s = pb_new \<and> line_of s = [] \<and> miner_of s = newcomer \<and>
     se_stage s \<in> {TlsHandshake, FirstMessage}"

lemma untouched_relaying:
  assumes "untouched (re_session w)" and "client_os os (se_client (re_session w))" and "snd (re_env w) = []"
  shows "relaying glz (se_client (re_session w)) (se_ssl (re_session w)) (se_runtime (re_session w)) w"
  using assms screened_Nil [of glz "rs_config (se_runtime (re_session w))"] unfolding relaying_def
  by (intro exI [of _ "[]"]) (auto simp: untouched_def flow_def greeting_def Let_def in_step_def client_os_def newcomer_def initial_state_def
      pending.bytes_new pending.inv_new)

lemma bounded_streams:
  assumes "bounded glz c ssl rt w"
  defines "t \<equiv> snd (re_env w)"
  shows "prefix (upstream_output c t) (greeting (re_backends w) (re_session w) @ forwarded glz (rs_config rt) (client_input c ssl t))"
    and "prefix (client_output c ssl t) (upstream_input c t)"
proof -
  from assms(1) obtain X F where queued: "upstream_output c t @ pb_bytes (se_to_upstream (re_session w)) = greeting (re_backends w) (re_session w) @ F"
    and passed: "prefix F (forwarded glz (rs_config rt) (client_input c ssl t))"
    and replies: "upstream_input c t = client_output c ssl t @ pb_bytes (se_to_client (re_session w)) @ X"
    by (auto simp: bounded_def flow_def Let_def t_def)
  from queued have "prefix (upstream_output c t) (greeting (re_backends w) (re_session w) @ F)" by (metis prefixI)
  with passed show "prefix (upstream_output c t) (greeting (re_backends w) (re_session w) @ forwarded glz (rs_config rt) (client_input c ssl t))"
    by (meson prefix_order.trans same_prefix_prefix)
  from replies show "prefix (client_output c ssl t) (upstream_input c t)" by simp
qed

lemma relaying_streams:
  assumes "relaying glz c ssl rt w"
  defines "t \<equiv> snd (re_env w)"
  shows "upstream_output c t @ pb_bytes (se_to_upstream (re_session w)) =
      greeting (re_backends w) (re_session w) @ forwarded glz (rs_config rt) (client_input c ssl t)"
    and "client_output c ssl t @ pb_bytes (se_to_client (re_session w)) = upstream_input c t"
  using assms by (auto simp: relaying_def flow_def Let_def dest: screened_forwarded)

text \<open>
  Property C2. What a session carries, whatever the operating system answers and however the bytes are cut into reads:
  after any sequence of events, what reached the backend is a prefix of the PROXY header (when the backend
  wants one) followed by the text that the screen of the lines lets pass of what the miner sent, and what reached the
  miner is a prefix of what the backend sent. While the session is kept, nothing is lost, duplicated or reordered:
  the bytes that are missing are exactly the ones in the session's two queues.
\<close>

theorem relay_exact:
  assumes "d_os d = observe os" and "client_os os (se_client (re_session w))"
    and "untouched (re_session w)" and "snd (re_env w) = []"
    and "run_state (session_run d steps) w = (kept, w')"
  shows "let c = se_client (re_session w); ssl = se_ssl (re_session w); s = re_session w'; t = snd (re_env w');
             sent = greeting (re_backends w') s @ forwarded (d_glaze d) (rs_config (se_runtime (re_session w))) (client_input c ssl t) in
         prefix (upstream_output c t) sent \<and> prefix (client_output c ssl t) (upstream_input c t) \<and>
         (kept \<longrightarrow> upstream_output c t @ pb_bytes (se_to_upstream s) = sent \<and>
                  client_output c ssl t @ pb_bytes (se_to_client s) = upstream_input c t)"
proof -
  let ?o = "outcome (d_glaze d) (se_client (re_session w)) (se_ssl (re_session w)) (se_runtime (re_session w))"
  have "wp (session_run d steps) ?o w"
    using assms by (intro leadsD [OF session_run_streams] untouched_relaying)
  then have after: "?o kept w'" using assms(5) by (rule wp_run)
  then have "bounded (d_glaze d) (se_client (re_session w)) (se_ssl (re_session w)) (se_runtime (re_session w)) w'"
    by (cases kept) (simp_all add: relaying_bounded)
  note limits = bounded_streams [OF this]
  show ?thesis
    using limits after by (cases kept) (simp_all add: Let_def relaying_streams)
qed

text \<open>A miner that subscribes, and a backend that takes a connection at once and twenty bytes at a time.\<close>

definition talking_os :: "idle_state os" where
  "talking_os = idle_os\<lparr>os_socket := (\<lambda>_. idle_call (Inr 7)), os_connect := (\<lambda>_ _. idle_call (Inr ())),
     os_recv := (\<lambda>v _. tick (\<lambda>e. if v = 5 \<and> 5 \<in> set (idle_open e) then Inr (''{s}'' @ [newline]) else Inl EAGAIN) (idle_open_update (filter (\<lambda>x. x \<noteq> v)))),
     os_send := (\<lambda>_ bytes. idle_call (Inr (min 20 (length bytes))))\<rparr>"

definition talking_deps :: "(idle_state \<times> observed list, unit) deps" where
  "talking_deps = \<lparr>d_os = observe talking_os, d_glaze = sample_glaze, d_order = id\<rparr>"

definition talking_reactor :: "(idle_state \<times> observed list) reactor" where
  "talking_reactor =
     \<lparr>re_env = (\<lparr>idle_clock = 0, idle_open = [5]\<rparr>, []), re_epoll = 3, re_state = quiet_state, re_tls = [],
      re_limiter = new_rate_limiter, re_worker = new_worker_stats,
      re_backends = [(sample_backend 0)\<lparr>be_socket_addresses := [\<lparr>sa_value = [], sa_length = 0, sa_family = AF_INET\<rparr>]\<rparr>, sample_backend 1],
      re_listeners = [], re_sessions = [], re_wheel = wheel_new 0, re_next_session_id = 1, re_route_sequence = 0, re_source_sequence = 0,
      re_session = (new_session (ss_runtime quiet_state))\<lparr>se_client := 5, se_message_tokens := Fin 10, se_byte_tokens := Fin 1000\<rparr>,
      re_fault = False\<rparr>"

lemma talking_os_contract: "client_os talking_os 5"
  by (auto simp: client_os_def honest_writes_def talking_os_def idle_os_def)

theorem relay_exact_witness:
  "\<exists>kept w'. run_state (session_run talking_deps [ClientReady EPOLLIN, UpstreamReady EPOLLOUT]) talking_reactor = (kept, w') \<and>
     prefix (upstream_output 5 (snd (re_env w')))
       (greeting (re_backends w') (re_session w') @ forwarded sample_glaze default_config (client_input 5 None (snd (re_env w')))) \<and>
     prefix (client_output 5 None (snd (re_env w'))) (upstream_input 5 (snd (re_env w')))"
proof -
  obtain kept w' where run: "run_state (session_run talking_deps [ClientReady EPOLLIN, UpstreamReady EPOLLOUT]) talking_reactor = (kept, w')"
    by (cases "run_state (session_run talking_deps [ClientReady EPOLLIN, UpstreamReady EPOLLOUT]) talking_reactor")
  have "untouched (re_session talking_reactor)"
    by (simp add: talking_reactor_def untouched_def new_session_def newcomer_def empty_string_def)
  with run show ?thesis
    using relay_exact [of talking_deps talking_os talking_reactor, OF _ _ _ _ run] talking_os_contract
    by (simp add: talking_deps_def talking_reactor_def new_session_def quiet_state_def Let_def)
qed

section \<open>The replies of a backend that closed\<close>

text \<open>
  A session whose backend closed is kept until the miner has the replies that are still queued for it. It does not get
  them when bytes for the backend are queued as well: the miner's socket becoming writable makes the session send
  those bytes on the descriptor it has already closed, and the error ends the session before any reply is written.
\<close>

definition closed_descriptor_refused :: "'e os \<Rightarrow> bool" where
  "closed_descriptor_refused os \<longleftrightarrow> (\<forall>bytes e. \<exists>error e'. run_state (os_send os (-1) bytes) e = (Inl error, e') \<and> error \<notin> {EAGAIN, EINTR})"

lemma replies_of_closed_backend_lost:
  assumes "closed_descriptor_refused (d_os d)" and "run_state (client_ready d EPOLLOUT) w = (kept, w')"
    and "se_stage (re_session w) = Relay" and "se_upstream (re_session w) = -1" and "se_tls_operation (re_session w) = NoTlsOperation"
    and "\<not> pb_empty (se_to_upstream (re_session w))"
  shows "\<not> kept \<and> se_to_client (re_session w') = se_to_client (re_session w)"
proof -
  let ?s = "re_session w"
  obtain error e' where send: "run_state (os_send (d_os d) (-1)
      (take (min (pb_size (se_to_upstream ?s)) kMaximumBytesPerReadyEvent) (pb_bytes (se_to_upstream ?s)))) (re_env w) = (Inl error, e')"
    and error: "error \<notin> {EAGAIN, EINTR}"
    using assms(1) unfolding closed_descriptor_refused_def by blast
  have "run_state (client_ready d EPOLLOUT) w = (False, w\<lparr>re_env := e'\<rparr>)"
    using assms(3-6) send error
    by (simp add: client_ready_def client_relay_def push_upstream_def after_write_def write_upstream_def se_get_def gets_def os_do_def
        epoll_masks Let_def)
  with assms(2) show ?thesis by auto
qed

end
