(* ===== verification/Spec2Isabelle.thy ===== *)
theory Spec2Isabelle
  imports Process_Exit Http_Exposition Session_Stream
begin

text \<open>
  Verification of \<^verbatim>\<open>erikslund-pool-lb\<close>, a load balancer for Stratum mining connections written in C++
  (\<^verbatim>\<open>src/src\<close>). Miners connect to a listener, optionally over TLS; each connection is rate limited, its JSON
  lines are checked against the Stratum protocol, and the accepted lines are relayed to a backend chosen
  by load and health. A worker thread runs one reactor (\<^verbatim>\<open>net/reactor.cpp\<close>) over \<^verbatim>\<open>epoll\<close>; workers share
  a byte budget, a rate limiter, the backends' states and the published configuration.

  \<^bold>\<open>Theories and the code they model.\<close>
  \<^item> \<open>Pool_Prelude\<close>: errors as a sum type (\<^verbatim>\<open>core/errors.hpp\<close>), 64-bit wrap-around, C++ strings with their capacity,
    substring search; the lemmas the components share.
  \<^item> \<open>Pending_Buffer\<close>: the relay queue of \<^verbatim>\<open>net/pending_buffer.hpp\<close>. The locale \<open>byte_queue\<close> is its contract, interpreted on it.
  \<^item> \<open>Timer_Wheel\<close>: \<^verbatim>\<open>net/timer_wheel.cpp\<close>. The locale \<open>timer_service\<close> is the contract the reactor relies on.
  \<^item> \<open>Binary64\<close>: IEEE doubles as the limiter uses them. \<open>Endpoint\<close>: \<^verbatim>\<open>net/endpoint.cpp\<close>. \<open>Proxy_Protocol\<close>: \<^verbatim>\<open>net/proxy_protocol.cpp\<close>.
    \<open>Config_Model\<close>: \<^verbatim>\<open>core/config.cpp\<close>. \<open>Validator\<close>: \<^verbatim>\<open>stratum/validator.cpp\<close>.
  \<^item> \<open>Stats\<close>: \<^verbatim>\<open>core/stats.cpp\<close>, with the byte budget also as interleaved atomic steps of several threads.
  \<^item> \<open>Rate_Limiter\<close>: \<^verbatim>\<open>net/rate_limiter.cpp\<close>; a lease is a pointer to an entry, and an access through a dangling one is \<open>None\<close>.
  \<^item> \<open>Router\<close>: \<^verbatim>\<open>routing/router.cpp\<close>. \<open>Service_State\<close>: \<^verbatim>\<open>core/service_state.hpp\<close> and the context slots of \<^verbatim>\<open>net/tls.cpp\<close>.
  \<^item> \<open>Os_Interface\<close>: the system calls as a record of actions of the state monad, and weakest preconditions for such actions.
    \<open>Socket_Ops\<close>: \<^verbatim>\<open>net/socket.cpp\<close>. \<open>Health_Monitor\<close>: \<^verbatim>\<open>routing/health_monitor.cpp\<close>.
  \<^item> \<open>Reactor_State\<close>, \<open>Reactor_Session\<close>, \<open>Reactor_Relay\<close>, \<open>Reactor_Loop\<close>: \<^verbatim>\<open>net/reactor.cpp\<close> in the order of the
    file. The state of a worker is the record \<open>reactor\<close>; the session a handler works on is its field \<open>re_session\<close>, taken
    out of the table on entry and written back on return. The field \<open>re_fault\<close> is raised where C++
    would be undefined (a missing backend, a dangling lease, a missing TLS stream, an oversized retry of a TLS
    write) and where a loop bound of the model would be exhausted.
  \<^item> \<open>Session_Invariant\<close>, \<open>Relay_Invariant\<close>: every handler keeps the invariant \<open>focus\<close> of its session and of what it shares.
    \<open>Reactor_Invariant\<close>, \<open>Reactor_Steps\<close>, \<open>Reactor_Accept\<close>, \<open>Reactor_Run\<close>: the invariant \<open>reactor_ok\<close> of a worker, kept by
    events, expiries, accepts and rounds, up to the shutdown that gives everything back.
  \<^item> \<open>Line_Screen\<close>: a reference for the miner's side, lines of the whole text forwarded or dropped. \<open>Relay_Stream\<close>,
    \<open>Session_Stream\<close>: the operating system instrumented by \<open>observe\<close> to record what each session sends and receives, and the
    streams of a session from its first event on, compared with that reference; and a case in which replies of a backend that closed are lost.
  \<^item> \<open>Calendar\<close>: the civil calendar of \<^verbatim>\<open>std::chrono\<close>. \<open>Tls_Context\<close>: \<^verbatim>\<open>net/tls.cpp\<close>, building a server context and reading the date its
    certificate expires; OpenSSL is the record \<open>openssl\<close>. \<open>Edge_Server\<close>: \<^verbatim>\<open>net/server.cpp\<close>, the number of workers, construction, and the
    reload of TLS material.
  \<^item> \<open>Logging\<close>: \<^verbatim>\<open>core/logging.cpp\<close>. \<open>Http_Api\<close>: \<^verbatim>\<open>api/http_server.cpp\<close>, the pages and routes handed to the HTTP library.
    \<open>Http_Exposition\<close>: a reference reader of the Prometheus text format and what it gets from the metrics page.
  \<^item> \<open>Main_Loop\<close>: \<^verbatim>\<open>main.cpp\<close>, the start-up, the loop with reload, address refresh and TLS polling, signals and the health check, over
    the record \<open>host\<close>. \<open>Main_Invariant\<close>: the relation \<open>running\<close> of a process with its signals and its workers, and what holds in
    every state of it. \<open>Process_Exit\<close>: the health check returns, and what an exit status means.

  \<^bold>\<open>What the lemmas show.\<close> Each component has an invariant that its operations keep, its functional behaviour against a
    reference definition (deadlines of a table for the wheel, a list of bytes for the queue, a grammar for
    endpoints, a decoder for PROXY headers, nesting depth for the JSON scan), and bounds on its counters. The reactor
    theories compose them: the bytes, slots, backend loads, leases and timers held by the sessions of a worker and by
    the rest of the process always add up to the shared counters; and a session carries exactly the
    screened text of its miner, behind the PROXY header, and the backend's text back, with what is missing held in its queues. Above them, construction and TLS reload take effect
    as a whole or leave nothing behind, and the settings a running process has published are always validated and consistent.

  \<^bold>\<open>Loops and bounds.\<close> Loops are structural where the code iterates over data. Otherwise: \<open>line_loop\<close> is
    bounded by the line ends in the buffer, \<open>flush_loop\<close> by the bytes queued, \<open>connect_loop\<close> by the candidates left,
    \<open>close_sessions\<close> by the number of sessions; running out raises \<open>re_fault\<close>, which is proved not to happen.
    The read loops terminate by the per-event byte budget. Loops that wait on the outside (\<open>wait_fd\<close>, \<open>dispatch_events\<close>,
    the monitor loop) are partial functions into \<open>option\<close>.

  \<^bold>\<open>Parameters.\<close> The operating system and TLS streams (record \<open>os\<close>), TLS contexts (record \<open>openssl\<close>), the JSON library
    (record \<open>glaze\<close>), files, environment, YAML reader and HTTP library (record \<open>host\<close>), the processors (record \<open>machine\<close>), the resolver and
    the iteration order of hash tables are arguments. What is assumed of them is stated where it is used, in
    \<open>honest_writes\<close>, \<open>deps_contract\<close>, \<open>keeps_time\<close>, \<open>tracks_descriptors\<close>, \<open>tracks_epoll\<close>, \<open>tracks_contexts\<close>, \<open>tracks_process\<close>, \<open>probe_time\<close>, \<open>bounded_recv\<close>, \<open>sends_progress\<close> and \<open>client_os\<close>, each with a
    concrete instance.

  \<^bold>\<open>Not modelled.\<close> Failing memory allocation outside the limiter; which lines the components log; the HTTP library, which
    parses requests and picks the route; the concurrency of workers beyond the byte budget: a
    worker is verified step by step against what the others hold, which is a parameter of the invariant, and the main loop against
    steps of the workers that keep the published settings. A reload, an address refresh and a TLS poll are one step each: signals and workers act
    between them, and the states inside a publication are not represented. An operation of the rate limiter is one step.
\<close>

end
